(* ===== verification/Sapphire_Prelude.thy ===== *)
theory Sapphire_Prelude
  imports Main "HOL-Library.Word" "HOL-Library.List_Lexorder" "HOL-Library.Product_Lexorder"
begin

text \<open>
  Shared vocabulary of the development: machine integers and byte arrays of the Rust sources,
  the result type of fallible Rust code, and the generic lemmas and fact collections that the
  component theories use.

  \<^item> A Rust \<open>Result<T, E>\<close> whose computation may also panic is \<open>('a, 'e) result\<close>; the
    \<open>?\<close> operator is \<open>result_bind\<close>. Arithmetic follows the build profile with overflow
    checks (the one \<open>cargo build\<close> and \<open>cargo test\<close> use): an overflow is \<open>Panic\<close>.
  \<^item> A Rust array \<open>[u8; N]\<close> is \<open>N bytes\<close>, byte lists of length \<open>N\<close> under the derived
    (lexicographic) order.
\<close>

section \<open>Fact collections\<close>

named_theorems result_simps \<open>how the result type's operations compute\<close>
named_theorems inv_defs \<open>the unfolding of the components' invariants\<close>

section \<open>Machine integers\<close>

type_synonym u8 = "8 word"
type_synonym u16 = "16 word"
type_synonym u32 = "32 word"
type_synonym u64 = "64 word"

section \<open>Results\<close>

datatype ('a, 'e) result = Ok 'a | Err 'e | Panic

definition result_bind :: "('a, 'e) result \<Rightarrow> ('a \<Rightarrow> ('b, 'e) result) \<Rightarrow> ('b, 'e) result" where
  "result_bind r f = (case r of Ok x \<Rightarrow> f x | Err e \<Rightarrow> Err e | Panic \<Rightarrow> Panic)"

definition map_err :: "('e \<Rightarrow> 'f) \<Rightarrow> ('a, 'e) result \<Rightarrow> ('a, 'f) result" where
  "map_err f r = (case r of Ok x \<Rightarrow> Ok x | Err e \<Rightarrow> Err (f e) | Panic \<Rightarrow> Panic)"

definition ok_or :: "'e \<Rightarrow> 'a option \<Rightarrow> ('a, 'e) result" where
  "ok_or e x = (case x of None \<Rightarrow> Err e | Some y \<Rightarrow> Ok y)"

text \<open>\<open>Option::expect\<close>: the value, or a panic.\<close>

definition expect :: "'a option \<Rightarrow> ('a, 'e) result" where
  "expect x = (case x of None \<Rightarrow> Panic | Some y \<Rightarrow> Ok y)"

definition is_ok :: "('a, 'e) result \<Rightarrow> bool" where
  "is_ok r = (case r of Ok _ \<Rightarrow> True | Err _ \<Rightarrow> False | Panic \<Rightarrow> False)"

text \<open>A third-party call returns Rust's plain \<open>Result\<close>, the sum \<open>'e + 'a\<close>.\<close>

definition of_sum :: "'e + 'a \<Rightarrow> ('a, 'e) result" where
  "of_sum x = (case x of Inl e \<Rightarrow> Err e | Inr y \<Rightarrow> Ok y)"

lemma result_bind_simps [simp, result_simps]:
  "result_bind (Ok x) f = f x"
  "result_bind (Err e) f = Err e"
  "result_bind Panic f = Panic"
  by (simp_all add: result_bind_def)

lemma result_bind_eq_Ok [simp]:
  "result_bind r f = Ok y \<longleftrightarrow> (\<exists>x. r = Ok x \<and> f x = Ok y)"
  by (cases r) auto

lemma result_bind_eq_Panic [simp]:
  "result_bind r f = Panic \<longleftrightarrow> r = Panic \<or> (\<exists>x. r = Ok x \<and> f x = Panic)"
  by (cases r) auto

lemma result_bind_eq_Err [simp]:
  "result_bind r f = Err e \<longleftrightarrow> r = Err e \<or> (\<exists>x. r = Ok x \<and> f x = Err e)"
  by (cases r) auto

lemma result_bind_assoc: "result_bind (result_bind r f) g = result_bind r (\<lambda>x. result_bind (f x) g)"
  by (cases r) auto

lemma result_bind_if: "result_bind (if b then x else y) f = (if b then result_bind x f else result_bind y f)"
  by simp

lemma map_err_simps [simp, result_simps]:
  "map_err f (Ok x) = Ok x"
  "map_err f (Err e) = Err (f e)"
  "map_err f Panic = Panic"
  by (simp_all add: map_err_def)

lemma map_err_eq_Ok [simp]: "map_err f r = Ok x \<longleftrightarrow> r = Ok x"
  by (cases r) auto

lemma map_err_eq_Panic [simp]: "map_err f r = Panic \<longleftrightarrow> r = Panic"
  by (cases r) auto

lemma ok_or_simps [simp, result_simps]: "ok_or e None = Err e" "ok_or e (Some x) = Ok x"
  by (simp_all add: ok_or_def)

lemma ok_or_eq_Ok [simp]: "ok_or e x = Ok y \<longleftrightarrow> x = Some y"
  by (cases x) auto

lemma ok_or_not_Panic [simp]: "ok_or e x \<noteq> Panic"
  by (cases x) auto

lemma expect_simps [simp, result_simps]: "expect None = Panic" "expect (Some x) = Ok x"
  by (simp_all add: expect_def)

lemma expect_eq_Ok [simp]: "expect x = Ok y \<longleftrightarrow> x = Some y"
  by (cases x) auto

lemma is_ok_simps [simp, result_simps]: "is_ok (Ok x)" "\<not> is_ok (Err e)" "\<not> is_ok Panic"
  by (simp_all add: is_ok_def)

lemma is_ok_iff: "is_ok r \<longleftrightarrow> (\<exists>x. r = Ok x)"
  by (cases r) auto

lemma of_sum_simps [simp, result_simps]: "of_sum (Inl e) = Err e" "of_sum (Inr x) = Ok x"
  by (simp_all add: of_sum_def)

lemma of_sum_eq_Ok [simp]: "of_sum x = Ok y \<longleftrightarrow> x = Inr y"
  by (cases x) auto

lemma of_sum_eq_Err [simp]: "of_sum x = Err e \<longleftrightarrow> x = Inl e"
  by (cases x) auto

lemma of_sum_not_Panic [simp]: "of_sum x \<noteq> Panic"
  by (cases x) auto

section \<open>Checked machine arithmetic\<close>

text \<open>\<open>usize\<close> has 64 bits; sizes are natural numbers and the checks are written out.\<close>

definition usize_sub :: "nat \<Rightarrow> nat \<Rightarrow> (nat, 'e) result" where
  "usize_sub a b = (if a < b then Panic else Ok (a - b))"

definition usize_mul :: "nat \<Rightarrow> nat \<Rightarrow> (nat, 'e) result" where
  "usize_mul a b = (if a * b < 2 ^ 64 then Ok (a * b) else Panic)"

definition u64_inc :: "u64 \<Rightarrow> (u64, 'e) result" where
  "u64_inc x = (if x = - 1 then Panic else Ok (x + 1))"

lemma u64_inc_Ok: "u64_inc x = Ok y \<Longrightarrow> unat y = unat x + 1"
  by (auto simp: u64_inc_def split: if_splits) (metis add.commute unatSuc add_eq_0_iff)

lemma u64_inc_total [simp]:
  "u64_inc x \<noteq> Err e" "u64_inc x = Panic \<longleftrightarrow> x = - 1"
  by (auto simp: u64_inc_def)

section \<open>Fixed-size byte arrays\<close>

typedef (overloaded) ('n::len) bytes = "{xs :: u8 list. length xs = LENGTH('n)}"
  morphisms to_list Bytes
  by (rule exI [of _ "replicate LENGTH('n) 0"]) simp

lemma length_to_list [simp]: "length (to_list (b :: 'n::len bytes)) = LENGTH('n)"
  using to_list by auto

lemma bytes_eqI: "to_list a = to_list b \<Longrightarrow> a = b"
  by (simp add: to_list_inject)

instantiation bytes :: (len) linorder
begin

definition less_eq_bytes :: "'a bytes \<Rightarrow> 'a bytes \<Rightarrow> bool" where
  "less_eq_bytes a b \<longleftrightarrow> to_list a \<le> to_list b"

definition less_bytes :: "'a bytes \<Rightarrow> 'a bytes \<Rightarrow> bool" where
  "less_bytes a b \<longleftrightarrow> to_list a < to_list b"

instance
  by standard (auto simp: less_eq_bytes_def less_bytes_def intro: bytes_eqI)

end

text \<open>\<open>[b; N]\<close>, the array filled with one byte.\<close>

definition bytes_fill :: "u8 \<Rightarrow> 'n::len bytes" where
  "bytes_fill b = Bytes (replicate LENGTH('n) b)"

text \<open>\<open>slice.try_into::<[u8; N]>()\<close>: fails unless the length is exactly \<open>N\<close>.\<close>

definition try_into_bytes :: "u8 list \<Rightarrow> 'n::len bytes option" where
  "try_into_bytes xs = (if length xs = LENGTH('n) then Some (Bytes xs) else None)"

lemma to_list_Bytes [simp]: "length xs = LENGTH('n) \<Longrightarrow> to_list (Bytes xs :: 'n::len bytes) = xs"
  by (simp add: Bytes_inverse)

lemma to_list_fill [simp]: "to_list (bytes_fill b :: 'n::len bytes) = replicate LENGTH('n) b"
  by (simp add: bytes_fill_def)

lemma bytes_fill_inject [simp]: "(bytes_fill a :: 'n::len bytes) = bytes_fill b \<longleftrightarrow> a = b"
proof
  assume "(bytes_fill a :: 'n bytes) = bytes_fill b"
  then have "replicate LENGTH('n) a = replicate LENGTH('n) b"
    by (metis to_list_fill)
  then show "a = b" by (metis len_gt_0 nth_replicate)
qed simp

lemma try_into_to_list [simp]: "try_into_bytes (to_list b) = Some b"
  by (simp add: try_into_bytes_def to_list_inverse)

lemma try_into_Some: "try_into_bytes xs = Some b \<longleftrightarrow> xs = to_list b"
proof
  assume "try_into_bytes xs = Some b"
  then show "xs = to_list b"
    by (auto simp: try_into_bytes_def split: if_splits)
qed simp

end
