(* ===== verification/BTree.thy ===== *)
theory BTree
  imports Sapphire_Prelude "HOL-Library.Finite_Map"
begin

text \<open>
  The ordered maps of the Rust standard library, as the sources use them. A
  \<open>BTreeMap<K, V>\<close> is a finite map; what its iterators yield is the list of its entries with
  strictly increasing keys. A \<open>BTreeSet<K>\<close> is a map to the unit type, as in the standard
  library.
  The interface the components rely on is the locale \<open>keyed_store\<close>; its interpretation
  \<open>bt\<close> discharges the laws for the map type, and \<open>hm\<close> for the \<open>HashMap\<close>s of the
  sources, which are never iterated over and therefore are partial functions.
\<close>

section \<open>Entry lists\<close>

fun entries_insert :: "'k::linorder \<Rightarrow> 'v \<Rightarrow> ('k \<times> 'v) list \<Rightarrow> ('k \<times> 'v) list" where
  "entries_insert k v [] = [(k, v)]"
| "entries_insert k v ((k', v') # xs) =
     (if k < k' then (k, v) # (k', v') # xs
      else if k = k' then (k, v) # xs
      else (k', v') # entries_insert k v xs)"

abbreviation ordered_entries :: "('k::linorder \<times> 'v) list \<Rightarrow> bool" where
  "ordered_entries xs \<equiv> sorted_wrt (<) (map fst xs)"

lemma set_entries_insert:
  "fst ` set (entries_insert k v xs) = insert k (fst ` set xs)"
  by (induction k v xs rule: entries_insert.induct) auto

lemma ordered_entries_insert: "ordered_entries xs \<Longrightarrow> ordered_entries (entries_insert k v xs)"
proof (induction k v xs rule: entries_insert.induct)
  case (2 k v k' v' xs)
  then have "\<forall>x \<in> fst ` set (entries_insert k v xs). k' < x" if "k' < k"
    using that by (simp only: set_entries_insert) auto
  with 2 show ?case by (auto intro: less_trans)
qed simp

lemma ordered_entries_distinct: "ordered_entries xs \<Longrightarrow> distinct (map fst xs)"
  by (simp add: strict_sorted_iff)

lemma map_of_entries_insert:
  "ordered_entries xs \<Longrightarrow> map_of (entries_insert k v xs) = (map_of xs)(k \<mapsto> v)"
  by (induction k v xs rule: entries_insert.induct) auto

lemma ordered_entries_eqI:
  assumes "ordered_entries xs" "ordered_entries ys" "map_of xs = map_of ys"
  shows "xs = ys"
proof (rule map_sorted_distinct_set_unique [of fst])
  have *: "set xs = set ys"
    using assms by (simp add: map_of_inject_set ordered_entries_distinct)
  with assms(2) show "inj_on fst (set xs \<union> set ys)"
    by (simp add: distinct_map ordered_entries_distinct [unfolded distinct_map])
  from * show "set xs = set ys" .
qed (use assms in \<open>simp_all add: strict_sorted_iff\<close>)

section \<open>The map type and its operations\<close>

type_synonym ('k, 'v) btree_map = "('k, 'v) fmap"

type_synonym 'k btree_set = "('k, unit) btree_map"

definition bt_new :: "('k, 'v) btree_map" where
  "bt_new = fmempty"

definition bt_insert :: "'k \<Rightarrow> 'v \<Rightarrow> ('k, 'v) btree_map \<Rightarrow> ('k, 'v) btree_map" where
  "bt_insert k v m = fmupd k v m"

definition bt_remove :: "'k \<Rightarrow> ('k, 'v) btree_map \<Rightarrow> ('k, 'v) btree_map" where
  "bt_remove k m = fmdrop k m"

definition bt_get :: "('k, 'v) btree_map \<Rightarrow> 'k \<Rightarrow> 'v option" where
  "bt_get m = fmlookup m"

definition bt_iter :: "('k::linorder, 'v) btree_map \<Rightarrow> ('k \<times> 'v) list" where
  "bt_iter m = map (\<lambda>k. (k, the (fmlookup m k))) (sorted_list_of_fset (fmdom m))"

definition bt_contains_key :: "('k, 'v) btree_map \<Rightarrow> 'k \<Rightarrow> bool" where
  "bt_contains_key m k \<longleftrightarrow> bt_get m k \<noteq> None"

definition bt_len :: "('k::linorder, 'v) btree_map \<Rightarrow> nat" where
  "bt_len m = length (bt_iter m)"

definition bt_keys :: "('k::linorder, 'v) btree_map \<Rightarrow> 'k list" where
  "bt_keys m = map fst (bt_iter m)"

text \<open>\<open>iter().collect::<BTreeMap<_, _>>()\<close> and, for sets, \<open>iter().collect::<BTreeSet<_>>()\<close>.\<close>

definition bt_collect :: "('k \<times> 'v) list \<Rightarrow> ('k, 'v) btree_map" where
  "bt_collect xs = fold (\<lambda>(k, v). bt_insert k v) xs bt_new"

definition bs_collect :: "'k list \<Rightarrow> 'k btree_set" where
  "bs_collect ks = bt_collect (map (\<lambda>k. (k, ())) ks)"

text \<open>\<open>iter().next()\<close>: the entry with the least key.\<close>

definition bt_first :: "('k::linorder, 'v) btree_map \<Rightarrow> ('k \<times> 'v) option" where
  "bt_first m = (case bt_iter m of [] \<Rightarrow> None | e # _ \<Rightarrow> Some e)"

lemma bt_get_new [simp]: "bt_get bt_new = Map.empty"
  by (simp add: bt_get_def bt_new_def fun_eq_iff)

lemma bt_get_insert [simp]: "bt_get (bt_insert k v m) = (bt_get m)(k \<mapsto> v)"
  by (simp add: bt_get_def bt_insert_def fun_eq_iff)

lemma bt_get_remove [simp]: "bt_get (bt_remove k m) = (bt_get m)(k := None)"
  by (simp add: bt_get_def bt_remove_def fun_eq_iff)

lemma bt_map_eqI: "(\<And>k. bt_get m k = bt_get m' k) \<Longrightarrow> m = m'"
  by (simp add: bt_get_def fmap_ext)

lemma finite_dom_bt_get [simp]: "finite (dom (bt_get m))"
  by (simp add: bt_get_def)

lemma keys_bt_iter: "map fst (bt_iter m) = sorted_list_of_set (dom (bt_get m))"
  by (simp add: bt_iter_def bt_get_def comp_def sorted_list_of_fset.rep_eq fmdom.rep_eq)

lemma ordered_bt_iter [simp]: "ordered_entries (bt_iter m)"
  by (simp add: keys_bt_iter)

lemma distinct_bt_iter [simp]: "distinct (map fst (bt_iter m))"
  by (simp add: keys_bt_iter)

lemma map_of_bt_iter [simp]: "map_of (bt_iter m) = bt_get m"
proof
  fix k
  have "map_of (map (\<lambda>k. (k, the (fmlookup m k))) ks) k =
      (if k \<in> set ks then Some (the (fmlookup m k)) else None)" for ks
    by (induction ks) auto
  then show "map_of (bt_iter m) k = bt_get m k"
    by (auto simp: bt_iter_def bt_get_def sorted_list_of_fset.rep_eq fmdom.rep_eq fmlookup_dom'_iff)
qed

lemma bt_iter_eqI: "ordered_entries xs \<Longrightarrow> map_of xs = bt_get m \<Longrightarrow> bt_iter m = xs"
  by (rule ordered_entries_eqI) simp_all

lemma bt_iter_new [simp]: "bt_iter bt_new = []"
  by (rule bt_iter_eqI) (simp_all add: fun_eq_iff)

lemma bt_iter_insert [simp]: "bt_iter (bt_insert k v m) = entries_insert k v (bt_iter m)"
  by (rule bt_iter_eqI) (simp_all add: ordered_entries_insert map_of_entries_insert)

section \<open>The interface: keyed stores\<close>

locale keyed_store =
  fixes emp :: "'m"
    and get :: "'m \<Rightarrow> 'k \<Rightarrow> 'v option"
    and ins :: "'k \<Rightarrow> 'v \<Rightarrow> 'm \<Rightarrow> 'm"
    and del :: "'k \<Rightarrow> 'm \<Rightarrow> 'm"
  assumes get_emp: "get emp k = None"
    and get_ins: "get (ins k v m) = (get m)(k \<mapsto> v)"
    and get_del: "get (del k m) = (get m)(k := None)"
    and store_eqI: "(\<And>k. get m k = get m' k) \<Longrightarrow> m = m'"
begin

lemma ins_commute: "k \<noteq> k' \<Longrightarrow> ins k v (ins k' v' m) = ins k' v' (ins k v m)"
  by (rule store_eqI) (auto simp: get_ins)

lemma ins_overwrite: "ins k v (ins k v' m) = ins k v m"
  by (rule store_eqI) (auto simp: get_ins)

lemma ins_same: "get m k = Some v \<Longrightarrow> ins k v m = m"
  by (rule store_eqI) (auto simp: get_ins)

lemma del_ins: "get m k = None \<Longrightarrow> del k (ins k v m) = m"
  by (rule store_eqI) (auto simp: get_ins get_del)

lemma get_fold_ins:
  "get (fold (\<lambda>(k, v). ins k v) xs m) = get m ++ map_of (rev xs)"
proof (induction xs arbitrary: m)
  case (Cons e xs)
  obtain k v where "e = (k, v)" by (cases e)
  with Cons show ?case by (simp add: get_ins map_add_def fun_eq_iff split: option.splits)
qed simp

end

interpretation bt: keyed_store bt_new bt_get bt_insert bt_remove
  by unfold_locales (auto intro: bt_map_eqI)

interpretation hm: keyed_store Map.empty "\<lambda>m. m" "\<lambda>k v m. m(k \<mapsto> v)" "\<lambda>k m. m(k := None)"
  by unfold_locales auto

section \<open>Derived facts about the ordered maps\<close>

lemma bt_contains_key_iff [simp]: "bt_contains_key m k \<longleftrightarrow> bt_get m k \<noteq> None"
  by (simp add: bt_contains_key_def)

lemma set_bt_keys [simp]: "set (bt_keys m) = dom (bt_get m)"
  by (simp add: bt_keys_def keys_bt_iter del: set_map)

lemma bt_len_card: "bt_len m = card (dom (bt_get m))"
proof -
  have "bt_len m = length (map fst (bt_iter m))" by (simp add: bt_len_def)
  then show ?thesis by (simp only: keys_bt_iter length_sorted_list_of_set)
qed

lemma bt_len_new [simp]: "bt_len bt_new = 0"
  by (simp add: bt_len_def)

lemma bt_len_insert:
  "bt_len (bt_insert k v m) = (if bt_get m k = None then Suc (bt_len m) else bt_len m)"
  by (auto simp: bt_len_card domIff insert_absorb)

lemma bt_len_insert_new [simp]: "bt_get m k = None \<Longrightarrow> bt_len (bt_insert k v m) = Suc (bt_len m)"
  by (simp add: bt_len_insert)

lemma bt_new_iff: "m = bt_new \<longleftrightarrow> dom (bt_get m) = {}"
  by (auto simp: dom_def intro: bt_map_eqI)

lemma bt_len_eq_0 [simp]: "bt_len m = 0 \<longleftrightarrow> m = bt_new"
  by (simp add: bt_len_card bt_new_iff)

lemma bt_get_collect: "bt_get (bt_collect xs) = map_of (rev xs)"
  by (simp add: bt_collect_def bt.get_fold_ins fun_eq_iff map_add_def split: option.splits)

lemma bt_get_collect_distinct:
  assumes "distinct (map fst xs)"
  shows "bt_get (bt_collect xs) = map_of xs"
proof -
  have "distinct (map fst (rev xs))" using assms by (simp add: rev_map [symmetric])
  then have "map_of (rev xs) = map_of xs" using assms by (simp add: map_of_inject_set)
  then show ?thesis by (simp add: bt_get_collect)
qed

lemma bt_collect_iter [simp]: "bt_collect (bt_iter m) = m"
  by (rule bt_map_eqI) (simp add: bt_get_collect_distinct)

lemma bt_iter_collect: "ordered_entries xs \<Longrightarrow> bt_iter (bt_collect xs) = xs"
  by (rule bt_iter_eqI) (simp_all add: bt_get_collect_distinct ordered_entries_distinct)

lemma dom_bs_collect [simp]: "dom (bt_get (bs_collect ks)) = set ks"
  by (simp add: bs_collect_def bt_get_collect dom_map_of_conv_image_fst image_image)

lemma bt_get_bs_collect [simp]: "bt_get (bs_collect ks) k = (if k \<in> set ks then Some () else None)"
proof -
  have "bt_get (bs_collect ks) k = None \<longleftrightarrow> k \<notin> set ks"
    by (simp only: dom_bs_collect [symmetric] domIff not_not)
  then show ?thesis by (cases "bt_get (bs_collect ks) k") auto
qed

lemma bs_eqI:
  assumes "dom (bt_get s) = dom (bt_get t)"
  shows "(s :: 'k btree_set) = t"
proof (rule bt_map_eqI)
  fix k
  have "bt_get s k = None \<longleftrightarrow> bt_get t k = None"
    using assms by (metis domIff)
  then show "bt_get s k = bt_get t k"
    by (cases "bt_get s k"; cases "bt_get t k") simp_all
qed

lemma bs_eq_iff: "(s :: 'k btree_set) = t \<longleftrightarrow> dom (bt_get s) = dom (bt_get t)"
  by (auto intro: bs_eqI)

lemma bs_collect_eq [simp]: "bs_collect xs = bs_collect ys \<longleftrightarrow> set xs = set ys"
  by (simp add: bs_eq_iff)

lemma bt_len_bs_collect [simp]: "bt_len (bs_collect ks) = card (set ks)"
  by (simp add: bt_len_card)

lemma bt_first_insert [simp]:
  "bt_first (bt_insert k v m) = Some (hd (entries_insert k v (bt_iter m)))"
proof (cases "entries_insert k v (bt_iter m)")
  case Nil
  then show ?thesis using set_entries_insert [of k v "bt_iter m"] by simp
qed (simp add: bt_first_def)

lemma bt_first_new [simp]: "bt_first bt_new = None"
  by (simp add: bt_first_def)

lemma bt_first_get: "bt_first m = Some (k, v) \<Longrightarrow> bt_get m k = Some v"
  by (auto simp: bt_first_def map_of_bt_iter [symmetric] simp del: map_of_bt_iter
      split: list.splits)

lemma bt_first_None [simp]: "bt_first m = None \<longleftrightarrow> m = bt_new"
proof
  assume "bt_first m = None"
  then have "bt_iter m = []" by (simp add: bt_first_def split: list.splits)
  then show "m = bt_new" by (simp add: bt_len_def flip: bt_len_eq_0)
qed simp

lemma bt_first_least:
  assumes "bt_first m = Some (k, v)" "bt_get m k' \<noteq> None"
  shows "k \<le> k'"
proof -
  from assms(1) obtain xs where xs: "bt_iter m = (k, v) # xs"
    by (auto simp: bt_first_def split: list.splits)
  then have "\<forall>e \<in> set xs. k < fst e"
    using ordered_bt_iter [of m] by simp
  moreover have "k' \<in> fst ` set (bt_iter m)"
    using assms(2) map_of_eq_None_iff [of "bt_iter m" k'] by auto
  ultimately show ?thesis using xs by (auto intro: less_imp_le)
qed

lemma in_set_bt_iter: "(k, v) \<in> set (bt_iter m) \<longleftrightarrow> bt_get m k = Some v"
  by (simp flip: map_of_eq_Some_iff [OF distinct_bt_iter])

end
