(* ===== verification/Core.thy ===== *)
theory Core
  imports BTree
begin

text \<open>
  The crate \<open>sapphire-core\<close>: the threshold parameters (\<open>params.rs\<close>), the error type
  (\<open>error.rs\<close>), the request identifiers and the key-share bundle (\<open>protocol.rs\<close>). The
  \<open>hex\<close> crate and the random generators are parameters: a record \<open>hex_crate\<close> and functions on
  a generator state.
\<close>

section \<open>Errors\<close>

datatype error =
    InvalidParams u16 u16
  | NotEnoughSigners u16 u16
  | UnknownParticipant
  | DuplicateParticipant
  | SessionInUse
  | SessionNotFound
  | InvalidCommitment
  | InvalidSignatureShare
  | Frost string
  | Serde string
  | Transport string

section \<open>Threshold parameters\<close>

record mpc_params =
  threshold :: u16
  total :: u16

definition mpc_params_new :: "u16 \<Rightarrow> u16 \<Rightarrow> (mpc_params, error) result" where
  "mpc_params_new t n =
     (if t = 0 \<or> n = 0 \<or> n < t then Err (InvalidParams t n)
      else Ok \<lparr>threshold = t, total = n\<rparr>)"

text \<open>What \<open>MpcParams::new\<close> promises of the parameters it lets through.\<close>

definition params_ok :: "mpc_params \<Rightarrow> bool" where
  "params_ok p \<longleftrightarrow> 0 < threshold p \<and> threshold p \<le> total p"

text \<open>
  The constructor accepts exactly the parameter pairs with a non-zero threshold that does not
  exceed the total, keeps both numbers, reports the rejected pair, and never panics.
\<close>

lemma mpc_params_new_spec:
  "mpc_params_new t n =
     (if 0 < unat t \<and> unat t \<le> unat n then Ok \<lparr>threshold = t, total = n\<rparr>
      else Err (InvalidParams t n)) \<and>
   (\<forall>p. mpc_params_new t n = Ok p \<longleftrightarrow> params_ok p \<and> threshold p = t \<and> total p = n)"
proof -
  have "t = 0 \<or> n = 0 \<or> n < t \<longleftrightarrow> \<not> (0 < unat t \<and> unat t \<le> unat n)"
    by (auto simp: word_less_nat_alt unat_eq_0)
  then show ?thesis
    by (auto simp: mpc_params_new_def params_ok_def word_le_nat_alt word_less_nat_alt)
qed

section \<open>Request identifiers\<close>

datatype uuid = Uuid (uuid_bytes: "16 bytes")

instantiation uuid :: linorder
begin

definition less_eq_uuid :: "uuid \<Rightarrow> uuid \<Rightarrow> bool" where
  "less_eq_uuid a b \<longleftrightarrow> uuid_bytes a \<le> uuid_bytes b"

definition less_uuid :: "uuid \<Rightarrow> uuid \<Rightarrow> bool" where
  "less_uuid a b \<longleftrightarrow> uuid_bytes a < uuid_bytes b"

instance
  by standard (auto simp: less_eq_uuid_def less_uuid_def intro: uuid.expand)

end

record hex_crate =
  hex_encode :: "u8 list \<Rightarrow> string"
  hex_decode :: "string \<Rightarrow> string + u8 list"

text \<open>\<open>Uuid::new\<close>: the generator fills the sixteen bytes.\<close>

definition uuid_new :: "('g \<Rightarrow> 16 bytes \<times> 'g) \<Rightarrow> 'g \<Rightarrow> uuid \<times> 'g" where
  "uuid_new fill_bytes rng = (let (b, rng') = fill_bytes rng in (Uuid b, rng'))"

definition to_hex :: "hex_crate \<Rightarrow> uuid \<Rightarrow> string" where
  "to_hex hx u = hex_encode hx (to_list (uuid_bytes u))"

definition uuid_display :: "hex_crate \<Rightarrow> uuid \<Rightarrow> string" where
  "uuid_display hx u = to_hex hx u"

definition uuid_serialize :: "hex_crate \<Rightarrow> uuid \<Rightarrow> string" where
  "uuid_serialize hx u = to_hex hx u"

text \<open>
  \<open>Uuid::deserialize\<close> over the outcome of \<open>String::deserialize\<close>. The last check cannot fail
  after the length test, where the source copies the slice into the array.
\<close>

definition uuid_deserialize :: "hex_crate \<Rightarrow> string + string \<Rightarrow> (uuid, string) result" where
  "uuid_deserialize hx de =
     result_bind (of_sum de) (\<lambda>s.
     result_bind (of_sum (hex_decode hx s)) (\<lambda>bs.
       if length bs \<noteq> 16 then Err ''Uuid must be 16 bytes''
       else result_bind (expect (try_into_bytes bs)) (\<lambda>arr. Ok (Uuid arr))))"

lemma uuid_deserialize_no_panic: "uuid_deserialize hx de \<noteq> Panic"
  by (auto simp: uuid_deserialize_def try_into_bytes_def)

text \<open>
  A request identifier survives its own serialisation: what \<open>serialize\<close> writes,
  \<open>deserialize\<close> reads back as the same identifier, given that the \<open>hex\<close> crate decodes what it
  encodes.
\<close>

lemma uuid_round_trip:
  assumes hex: "\<And>bs. hex_decode hx (hex_encode hx bs) = Inr bs"
  shows "uuid_deserialize hx (Inr (uuid_serialize hx u)) = Ok u"
  by (simp add: uuid_deserialize_def uuid_serialize_def to_hex_def hex)

definition plain_hex :: hex_crate where
  "plain_hex = \<lparr>hex_encode = map (\<lambda>b. char_of (unat b)),
     hex_decode = (\<lambda>s. Inr (map (\<lambda>c. of_nat (of_char c)) s))\<rparr>"

lemma plain_hex_round_trip: "hex_decode plain_hex (hex_encode plain_hex bs) = Inr bs"
proof -
  have "(of_nat (of_char (char_of (unat b) :: char)) :: u8) = b" for b :: u8
    using unsigned_less [of b, where ?'a = nat] by (simp add: of_char_of)
  then show ?thesis by (simp add: plain_hex_def comp_def map_idI)
qed

section \<open>Key-share bundles\<close>

record ('kp, 'pkp) key_share_bundle =
  bundle_key_package :: 'kp
  bundle_public_key_package :: 'pkp

end
