(* ===== verification/Envelope.thy ===== *)
theory Envelope
  imports Core
begin

text \<open>
  The sealed envelopes of \<open>sapphire-chain/src/dkg_envelope.rs\<close>. The crate \<open>crypto_box\<close> (key
  generation, the key agreement and the authenticated cipher) is the parameter record
  \<open>cbox_crate\<close>. The caller's generator has state \<open>'g\<close>; the nonce is drawn from the operating
  system's generator, whose state is \<open>'o\<close>.
\<close>

datatype enc_public_key = EncPublicKey (enc_bytes: "32 bytes")

datatype sealed = Sealed (sealed_bytes: "u8 list")

datatype envelope_error = TooShort | Decrypt

record ('sk, 'pk, 'box, 'g, 'o) cbox_crate =
  sk_generate :: "'g \<Rightarrow> 'sk \<times> 'g"
  sk_public :: "'sk \<Rightarrow> 'pk"
  pk_to_bytes :: "'pk \<Rightarrow> 32 bytes"
  pk_from_bytes :: "32 bytes \<Rightarrow> 'pk"
  cbox_new :: "'pk \<Rightarrow> 'sk \<Rightarrow> 'box"
  generate_nonce :: "'o \<Rightarrow> 24 bytes \<times> 'o"
  cbox_encrypt :: "'box \<Rightarrow> 24 bytes \<Rightarrow> u8 list \<Rightarrow> unit + u8 list"
  cbox_decrypt :: "'box \<Rightarrow> 24 bytes \<Rightarrow> u8 list \<Rightarrow> unit + u8 list"

definition enc_from_public :: "('sk, 'pk, 'box, 'g, 'o) cbox_crate \<Rightarrow> 'pk \<Rightarrow> enc_public_key" where
  "enc_from_public cb pk = EncPublicKey (pk_to_bytes cb pk)"

definition public_from_enc :: "('sk, 'pk, 'box, 'g, 'o) cbox_crate \<Rightarrow> enc_public_key \<Rightarrow> 'pk" where
  "public_from_enc cb k = pk_from_bytes cb (enc_bytes k)"

definition seal ::
  "('sk, 'pk, 'box, 'g, 'o) cbox_crate \<Rightarrow> 'g \<Rightarrow> 'o \<Rightarrow> enc_public_key \<Rightarrow> u8 list \<Rightarrow>
   (sealed \<times> 'g \<times> 'o, 'e) result" where
  "seal cb rng os recipient plaintext =
     (let (ephemeral_secret, rng') = sk_generate cb rng;
          ephemeral_public = sk_public cb ephemeral_secret;
          recipient_pk = public_from_enc cb recipient;
          cbox = cbox_new cb recipient_pk ephemeral_secret;
          (nonce, os') = generate_nonce cb os
      in case cbox_encrypt cb cbox nonce plaintext of
           Inl _ \<Rightarrow> Panic
         | Inr ct \<Rightarrow>
             Ok (Sealed (to_list (pk_to_bytes cb ephemeral_public) @ to_list nonce @ ct),
                 rng', os'))"

definition nonce_from_slice :: "u8 list \<Rightarrow> (24 bytes, 'e) result" where
  "nonce_from_slice bs = expect (try_into_bytes bs)"

definition open_envelope ::
  "('sk, 'pk, 'box, 'g, 'o) cbox_crate \<Rightarrow> 'sk \<Rightarrow> sealed \<Rightarrow> (u8 list, envelope_error) result" where
  "open_envelope cb secret s =
     (let bs = sealed_bytes s in
      if length bs < 32 + 24 then Err TooShort
      else
        let eph_pub_bytes = take 32 bs; rest = drop 32 bs;
            nonce_bytes = take 24 rest; ct = drop 24 rest
        in result_bind (expect (try_into_bytes eph_pub_bytes)) (\<lambda>eph_pub_arr.
           let cbox = cbox_new cb (pk_from_bytes cb eph_pub_arr) secret in
           result_bind (nonce_from_slice nonce_bytes) (\<lambda>nonce.
             case cbox_decrypt cb cbox nonce ct of Inl _ \<Rightarrow> Err Decrypt | Inr pt \<Rightarrow> Ok pt)))"

section \<open>What the cipher crate documents\<close>

text \<open>
  Encryption succeeds, decryption under the same box and nonce inverts it, both parties of the
  key agreement obtain the same box, and the byte form of a public key determines it.
\<close>

definition cbox_laws :: "('sk, 'pk, 'box, 'g, 'o) cbox_crate \<Rightarrow> bool" where
  "cbox_laws cb \<longleftrightarrow>
     (\<forall>b n p. \<exists>c. cbox_encrypt cb b n p = Inr c) \<and>
     (\<forall>b n p c. cbox_encrypt cb b n p = Inr c \<longrightarrow> cbox_decrypt cb b n c = Inr p) \<and>
     (\<forall>s t. cbox_new cb (sk_public cb s) t = cbox_new cb (sk_public cb t) s) \<and>
     (\<forall>pk. pk_from_bytes cb (pk_to_bytes cb pk) = pk)"

section \<open>Properties\<close>

text \<open>How an envelope whose parts are known is opened: the layout is read back exactly.\<close>

lemma open_layout:
  "open_envelope cb sk (Sealed (to_list (e :: 32 bytes) @ to_list (n :: 24 bytes) @ ct)) =
     (case cbox_decrypt cb (cbox_new cb (pk_from_bytes cb e) sk) n ct of
        Inl _ \<Rightarrow> Err Decrypt | Inr pt \<Rightarrow> Ok pt)"
  by (simp add: open_envelope_def nonce_from_slice_def)

lemma seal_opens:
  assumes laws: "cbox_laws cb"
  shows "\<exists>s rng' os'.
     seal cb rng os (enc_from_public cb (sk_public cb sk)) pt = Ok (s, rng', os') \<and>
     open_envelope cb sk s = Ok pt"
proof -
  obtain e rng' where e: "sk_generate cb rng = (e, rng')" by (cases "sk_generate cb rng")
  obtain n os' where n: "generate_nonce cb os = (n, os')" by (cases "generate_nonce cb os")
  let ?box = "cbox_new cb (sk_public cb sk) e"
  from laws obtain ct where ct: "cbox_encrypt cb ?box n pt = Inr ct"
    unfolding cbox_laws_def by blast
  from laws have "cbox_new cb (pk_from_bytes cb (pk_to_bytes cb (sk_public cb e))) sk = ?box"
    and "cbox_decrypt cb ?box n ct = Inr pt"
    using ct unfolding cbox_laws_def by auto
  moreover have "public_from_enc cb (enc_from_public cb (sk_public cb sk)) = sk_public cb sk"
    using laws by (simp add: cbox_laws_def public_from_enc_def enc_from_public_def)
  ultimately show ?thesis
    using e n ct by (simp add: seal_def open_layout)
qed

text \<open>
  C36. An envelope sealed to a recipient's public key is opened by that recipient's secret key and
  gives back the plaintext, whatever the state of the two random generators; sealing does not
  panic.
\<close>

theorem seal_open_round_trip:
  assumes laws: "cbox_laws cb"
  shows "\<exists>s rng' os'.
     seal cb rng os (enc_from_public cb (sk_public cb sk)) pt = Ok (s, rng', os') \<and>
     open_envelope cb sk s = Ok pt"
  by (rule seal_opens [OF laws])

text \<open>
  Opening never panics: the two slice conversions that the source marks with \<open>expect\<close> always
  have the right length, an envelope is rejected as too short exactly when it has fewer than 56
  bytes, and otherwise the outcome is the plaintext or a decryption error.
\<close>

lemma open_envelope_total:
  "open_envelope cb sk s \<noteq> Panic \<and>
   (open_envelope cb sk s = Err TooShort \<longleftrightarrow> length (sealed_bytes s) < 56) \<and>
   (\<not> length (sealed_bytes s) < 56 \<longrightarrow>
      open_envelope cb sk s = Err Decrypt \<or> (\<exists>pt. open_envelope cb sk s = Ok pt))"
  by (auto simp: open_envelope_def nonce_from_slice_def try_into_bytes_def Let_def
      split: sum.splits)

text \<open>Every envelope that \<open>seal\<close> produces is long enough to be opened.\<close>

lemma seal_length:
  "seal cb rng os recipient pt = Ok (s, rng', os') \<Longrightarrow> 56 \<le> length (sealed_bytes s)"
  by (auto simp: seal_def Let_def split: prod.splits sum.splits)

section \<open>A concrete cipher for the witnesses\<close>

text \<open>
  The keys are byte arrays, the box is the unordered pair of the two keys, and the ciphertext
  carries the plaintext behind a tag byte: enough to satisfy the laws above.
\<close>

definition toy_cbox :: "(32 bytes, 32 bytes, 32 bytes set, nat, nat) cbox_crate" where
  "toy_cbox = \<lparr>
     sk_generate = (\<lambda>g. (bytes_fill (of_nat g), Suc g)),
     sk_public = (\<lambda>s. s), pk_to_bytes = (\<lambda>p. p), pk_from_bytes = (\<lambda>b. b),
     cbox_new = (\<lambda>p s. {p, s}),
     generate_nonce = (\<lambda>os. (bytes_fill (of_nat os), Suc os)),
     cbox_encrypt = (\<lambda>b n p. Inr (1 # p)),
     cbox_decrypt = (\<lambda>b n c. case c of t # p \<Rightarrow> if t = 1 then Inr p else Inl () | [] \<Rightarrow> Inl ())\<rparr>"

lemma toy_cbox_laws: "cbox_laws toy_cbox"
  by (auto simp: cbox_laws_def toy_cbox_def)

theorem seal_open_round_trip_witness:
  "\<exists>s rng' os'. seal toy_cbox 3 5 (enc_from_public toy_cbox (sk_public toy_cbox (bytes_fill 9)))
       [1, 2, 3] = Ok (s, rng', os') \<and>
     open_envelope toy_cbox (bytes_fill 9) s = Ok [1, 2, 3]"
  by (rule seal_open_round_trip [OF toy_cbox_laws])

end
