(* ===== verification/Transition.thy ===== *)
theory Transition
  imports Sapphire_Prelude
begin

text \<open>
  Deterministic transition functions that may reject an input, as \<open>apply_tx\<close> is: runs over a
  list of inputs, reachable states, and three contracts as locales. \<open>invariant_system\<close> lifts an
  invariant of single steps to runs and reachable states; \<open>monotone_system\<close> lifts a relation
  between the states before and after a step; \<open>simulation\<close> says that every accepted step is a step of
  an abstract labelled transition relation, and lifts that to runs.
\<close>

section \<open>Runs and reachable states\<close>

text \<open>A run in which every input is accepted; it stops at the first rejection.\<close>

fun run_all :: "('s \<Rightarrow> 't \<Rightarrow> ('s, 'e) result) \<Rightarrow> 's \<Rightarrow> 't list \<Rightarrow> ('s, 'e) result" where
  "run_all step s [] = Ok s"
| "run_all step s (t # ts) = result_bind (step s t) (\<lambda>s'. run_all step s' ts)"

text \<open>A run that skips the inputs that are rejected.\<close>

fun run_skip :: "('s \<Rightarrow> 't \<Rightarrow> ('s, 'e) result) \<Rightarrow> 's \<Rightarrow> 't list \<Rightarrow> ('s, 'e) result" where
  "run_skip step s [] = Ok s"
| "run_skip step s (t # ts) =
     (case step s t of Ok s' \<Rightarrow> run_skip step s' ts | Err _ \<Rightarrow> run_skip step s ts | Panic \<Rightarrow> Panic)"

inductive reach :: "('s \<Rightarrow> 't \<Rightarrow> ('s, 'e) result) \<Rightarrow> 's \<Rightarrow> 's \<Rightarrow> bool"
  for step s0 where
  reach_init: "reach step s0 s0"
| reach_step: "reach step s0 s \<Longrightarrow> step s t = Ok s' \<Longrightarrow> reach step s0 s'"

inductive_cases reach_last: "reach step s0 s"

lemma run_all_append:
  "run_all step s (ts @ us) = result_bind (run_all step s ts) (\<lambda>s'. run_all step s' us)"
  by (induction ts arbitrary: s) (auto simp: result_bind_def split: result.splits)

lemma run_all_snoc:
  "run_all step s (ts @ [t]) = result_bind (run_all step s ts) (\<lambda>s'. step s' t)"
  by (auto simp: run_all_append result_bind_def split: result.splits)

lemma run_all_reach: "run_all step s ts = Ok s' \<Longrightarrow> reach step s s'"
proof (induction ts arbitrary: s' rule: rev_induct)
  case (snoc t ts)
  then obtain s1 where "run_all step s ts = Ok s1" "step s1 t = Ok s'"
    by (auto simp: run_all_snoc)
  then show ?case using snoc.IH reach_step by metis
qed (simp add: reach_init)

lemma reach_iff_run: "reach step s s' \<longleftrightarrow> (\<exists>ts. run_all step s ts = Ok s')"
proof
  assume "reach step s s'"
  then show "\<exists>ts. run_all step s ts = Ok s'"
  proof induction
    case reach_init
    have "run_all step s [] = Ok s" by simp
    then show ?case by blast
  next
    case (reach_step s1 t s2)
    then obtain ts where "run_all step s ts = Ok s1" by blast
    with reach_step have "run_all step s (ts @ [t]) = Ok s2" by (auto simp: run_all_snoc)
    then show ?case by blast
  qed
qed (auto intro: run_all_reach)

lemma reach_trans: "reach step a b \<Longrightarrow> reach step b c \<Longrightarrow> reach step a c"
  by (auto simp: reach_iff_run) (metis result_bind_simps(1) run_all_append)

lemma run_skip_reach: "run_skip step s ts = Ok s' \<Longrightarrow> reach step s s'"
proof (induction ts arbitrary: s)
  case (Cons t ts)
  show ?case
  proof (cases "step s t")
    case (Ok s1)
    then have "reach step s s1" by (meson reach_init reach_step)
    with Ok Cons show ?thesis by (auto intro: reach_trans)
  qed (use Cons in auto)
qed (simp add: reach_init)

section \<open>The contracts\<close>

locale invariant_system =
  fixes step :: "'s \<Rightarrow> 't \<Rightarrow> ('s, 'e) result"
    and inv :: "'s \<Rightarrow> bool"
  assumes inv_step: "inv s \<Longrightarrow> step s t = Ok s' \<Longrightarrow> inv s'"
begin

lemma reach_inv: "reach step s0 s \<Longrightarrow> inv s0 \<Longrightarrow> inv s"
  by (induction rule: reach.induct) (auto intro: inv_step)

lemma run_all_inv: "inv s \<Longrightarrow> run_all step s ts = Ok s' \<Longrightarrow> inv s'"
  using run_all_reach reach_inv by metis

lemma run_skip_inv: "inv s \<Longrightarrow> run_skip step s ts = Ok s' \<Longrightarrow> inv s'"
  using run_skip_reach reach_inv by metis

end

locale monotone_system = invariant_system step inv
  for step :: "'s \<Rightarrow> 't \<Rightarrow> ('s, 'e) result" and inv :: "'s \<Rightarrow> bool" +
  fixes rel :: "'s \<Rightarrow> 's \<Rightarrow> bool"
  assumes rel_refl: "rel s s"
    and rel_trans: "rel a b \<Longrightarrow> rel b c \<Longrightarrow> rel a c"
    and rel_step: "inv s \<Longrightarrow> step s t = Ok s' \<Longrightarrow> rel s s'"
begin

lemma reach_rel: "reach step s0 s \<Longrightarrow> inv s0 \<Longrightarrow> rel s0 s"
  by (induction rule: reach.induct) (auto intro: rel_refl rel_trans rel_step reach_inv)

lemma run_all_rel: "inv s \<Longrightarrow> run_all step s ts = Ok s' \<Longrightarrow> rel s s'"
  using run_all_reach reach_rel by metis

lemma run_skip_rel: "inv s \<Longrightarrow> run_skip step s ts = Ok s' \<Longrightarrow> rel s s'"
  using run_skip_reach reach_rel by metis

end

text \<open>Runs of a labelled transition relation.\<close>

fun traces :: "('a \<Rightarrow> 'l \<Rightarrow> 'a \<Rightarrow> bool) \<Rightarrow> 'a \<Rightarrow> 'l list \<Rightarrow> 'a \<Rightarrow> bool" where
  "traces astep a [] b \<longleftrightarrow> b = a"
| "traces astep a (l # ls) b \<longleftrightarrow> (\<exists>c. astep a l c \<and> traces astep c ls b)"

lemma traces_invariant:
  assumes "\<And>a l b. I a \<Longrightarrow> astep a l b \<Longrightarrow> I b"
  shows "traces astep a ls b \<Longrightarrow> I a \<Longrightarrow> I b"
  by (induction ls arbitrary: a) (auto intro: assms)

locale simulation = invariant_system step inv
  for step :: "'s \<Rightarrow> 't \<Rightarrow> ('s, 'e) result" and inv :: "'s \<Rightarrow> bool" +
  fixes astep :: "'a \<Rightarrow> 'l \<Rightarrow> 'a \<Rightarrow> bool"
    and abs :: "'s \<Rightarrow> 'a"
    and label :: "'t \<Rightarrow> 'l"
  assumes sim: "inv s \<Longrightarrow> step s t = Ok s' \<Longrightarrow> astep (abs s) (label t) (abs s')"
begin

lemma run_traces: "inv s \<Longrightarrow> run_all step s ts = Ok s' \<Longrightarrow> traces astep (abs s) (map label ts) (abs s')"
proof (induction ts arbitrary: s)
  case (Cons t ts)
  then obtain s1 where s1: "step s t = Ok s1" "run_all step s1 ts = Ok s'" by auto
  have "astep (abs s) (label t) (abs s1)" using Cons.prems(1) s1(1) by (rule sim)
  moreover have "traces astep (abs s1) (map label ts) (abs s')"
    using inv_step [OF Cons.prems(1) s1(1)] s1(2) by (rule Cons.IH)
  ultimately show ?case by auto
qed simp

text \<open>What the abstract relation keeps holds of every reachable state's abstraction.\<close>

lemma reach_abstract:
  assumes "reach step s0 s" "inv s0" "I (abs s0)" and "\<And>a l b. I a \<Longrightarrow> astep a l b \<Longrightarrow> I b"
  shows "I (abs s)"
  using assms(1)
proof induction
  case (reach_step s1 t s2)
  have "inv s1" using reach_step.hyps(1) assms(2) by (rule reach_inv)
  then have "astep (abs s1) (label t) (abs s2)" using reach_step.hyps(2) by (rule sim)
  with reach_step.IH show ?case by (rule assms(4))
qed (rule assms(3))

end

end
