(* ===== verification/Chain.thy ===== *)
theory Chain
  imports Envelope Transition
begin

text \<open>
  The coordination chain: the transactions of \<open>sapphire-chain/src/tx.rs\<close> and the state machine of
  \<open>sapphire-chain/src/state.rs\<close>. One definition per arm of \<open>apply_tx\<close>, in the order of the
  source. The types of the FROST crates are type variables: \<open>'i\<close> identifiers, \<open>'pkp\<close> public key
  packages, \<open>'p1\<close> round-1 DKG packages, \<open>'cm\<close> signing commitments, \<open>'rz\<close> randomizers,
  \<open>'sp\<close> signing packages, \<open>'sh\<close> signature shares, \<open>'sg\<close> signatures, \<open>'vk\<close> verifying
  keys, \<open>'vs\<close> verifying shares and \<open>'rp\<close> randomized parameters. Their functions are the
  fields of the parameter record \<open>frost\<close>.
\<close>

section \<open>The FROST crates, as the chain uses them\<close>

record ('i, 'pkp, 'vk, 'vs, 'cm, 'rz, 'rp, 'sp, 'sh, 'sg) frost =
  id_debug :: "'i \<Rightarrow> string"
  verifying_key :: "'pkp \<Rightarrow> 'vk"
  verifying_shares :: "'pkp \<Rightarrow> ('i, 'vs) btree_map"
  signing_package_new :: "('i, 'cm) btree_map \<Rightarrow> u8 list \<Rightarrow> 'sp"
  from_randomizer :: "'vk \<Rightarrow> 'rz \<Rightarrow> 'rp"
  aggregate :: "'sp \<Rightarrow> ('i, 'sh) btree_map \<Rightarrow> 'pkp \<Rightarrow> 'rp \<Rightarrow> string + 'sg"

section \<open>Transactions\<close>

datatype ('i, 'pkp, 'p1, 'cm, 'rz, 'sh) tx =
    InitGroup mpc_params 'pkp "'i list"
  | DkgBegin mpc_params "('i, enc_public_key) btree_map"
  | DkgRound1 'i 'p1
  | DkgRound2 'i 'i sealed
  | DkgFinalize 'i 'pkp
  | SubmitRequest uuid "u8 list" 'rz
  | SubmitCommitment uuid 'i 'cm
  | SubmitShare uuid 'i 'sh

section \<open>The state\<close>

datatype ('i, 'cm, 'sp, 'sh, 'sg) request_status =
    AwaitingCommitments "('i, 'cm) btree_map"
  | Signing 'sp "'i btree_set" "('i, 'sh) btree_map"
  | Completed "'i btree_set" 'sg
  | Failed string

record ('i, 'cm, 'rz, 'sp, 'sh, 'sg) request_entry =
  request_id :: uuid
  message :: "u8 list"
  randomizer :: 'rz
  status :: "('i, 'cm, 'sp, 'sh, 'sg) request_status"

record ('i, 'pkp, 'p1) dkg_ceremony =
  c_params :: mpc_params
  c_validators :: "('i, enc_public_key) btree_map"
  round1 :: "('i, 'p1) btree_map"
  round2 :: "('i \<times> 'i, sealed) btree_map"
  finalize :: "('i, 'pkp) btree_map"

record ('i, 'pkp) group_config =
  g_params :: mpc_params
  g_pkp :: 'pkp
  g_validators :: "'i btree_set"

record ('i, 'pkp, 'p1, 'cm, 'rz, 'sp, 'sh, 'sg) state =
  ceremony :: "('i, 'pkp, 'p1) dkg_ceremony option"
  group :: "('i, 'pkp) group_config option"
  requests :: "(uuid, ('i, 'cm, 'rz, 'sp, 'sh, 'sg) request_entry) btree_map"

definition default_state :: "('i::linorder, 'pkp, 'p1, 'cm, 'rz, 'sp, 'sh, 'sg) state" where
  "default_state = \<lparr>ceremony = None, group = None, requests = bt_new\<rparr>"

datatype apply_error =
    AlreadyInitialized
  | NotInitialized
  | ValidatorSetMismatch
  | CeremonyAlreadyInProgress
  | NoCeremony
  | BadDkgValidatorCount
  | Round1NotComplete
  | Round2NotComplete
  | DuplicateRound1 string
  | DuplicateRound2 string string
  | DuplicateFinalize string
  | SelfAddressedRound2 string
  | UnknownDkgValidator string
  | PkpMismatch string
  | DuplicateRequest uuid
  | UnknownRequest uuid
  | UnknownValidator string
  | DuplicateCommitment
  | DuplicateShare
  | NotAwaitingCommitments
  | NotSigning
  | NotSelectedParticipant
  | AggregationFailed string

section \<open>The ceremony's completion tests\<close>

definition ceremony_total :: "('i::linorder, 'pkp, 'p1) dkg_ceremony \<Rightarrow> nat" where
  "ceremony_total c = unat (total (c_params c))"

definition r1_complete :: "('i::linorder, 'pkp, 'p1) dkg_ceremony \<Rightarrow> bool" where
  "r1_complete c \<longleftrightarrow> bt_len (round1 c) = ceremony_total c"

text \<open>\<open>total * (total - 1)\<close> on \<open>usize\<close>: the subtraction overflows when \<open>total\<close> is zero.\<close>

definition r2_complete :: "('i::linorder, 'pkp, 'p1) dkg_ceremony \<Rightarrow> (bool, 'e) result" where
  "r2_complete c =
     (let t = ceremony_total c in
      result_bind (usize_sub t 1) (\<lambda>t1.
      result_bind (usize_mul t t1) (\<lambda>n. Ok (bt_len (round2 c) = n))))"

definition finalize_complete :: "('i::linorder, 'pkp, 'p1) dkg_ceremony \<Rightarrow> bool" where
  "finalize_complete c \<longleftrightarrow> bt_len (finalize c) = ceremony_total c"

section \<open>The arms of \<open>apply_tx\<close>\<close>

definition require_group ::
  "('i::linorder, 'pkp, 'p1, 'cm, 'rz, 'sp, 'sh, 'sg) state \<Rightarrow>
   (('i, 'pkp) group_config, apply_error) result" where
  "require_group s = ok_or NotInitialized (group s)"

definition apply_init_group ::
  "('i::linorder, 'pkp, 'vk, 'vs, 'cm, 'rz, 'rp, 'sp, 'sh, 'sg) frost \<Rightarrow>
   ('i, 'pkp, 'p1, 'cm, 'rz, 'sp, 'sh, 'sg) state \<Rightarrow> mpc_params \<Rightarrow> 'pkp \<Rightarrow> 'i list \<Rightarrow>
   (('i, 'pkp, 'p1, 'cm, 'rz, 'sp, 'sh, 'sg) state, apply_error) result" where
  "apply_init_group F s params pkp validators =
     (if group s \<noteq> None then Err AlreadyInitialized
      else if ceremony s \<noteq> None then Err CeremonyAlreadyInProgress
      else
        let pkp_ids = bs_collect (bt_keys (verifying_shares F pkp));
            vs = bs_collect validators
        in if pkp_ids \<noteq> vs then Err ValidatorSetMismatch
           else Ok (s\<lparr>group := Some \<lparr>g_params = params, g_pkp = pkp, g_validators = vs\<rparr>\<rparr>))"

definition apply_dkg_begin ::
  "('i::linorder, 'pkp, 'p1, 'cm, 'rz, 'sp, 'sh, 'sg) state \<Rightarrow> mpc_params \<Rightarrow>
   ('i, enc_public_key) btree_map \<Rightarrow>
   (('i, 'pkp, 'p1, 'cm, 'rz, 'sp, 'sh, 'sg) state, apply_error) result" where
  "apply_dkg_begin s params validators =
     (if group s \<noteq> None then Err AlreadyInitialized
      else if ceremony s \<noteq> None then Err CeremonyAlreadyInProgress
      else if bt_len validators \<noteq> unat (total params) then Err BadDkgValidatorCount
      else Ok (s\<lparr>ceremony := Some \<lparr>c_params = params, c_validators = validators,
             round1 = bt_new, round2 = bt_new, finalize = bt_new\<rparr>\<rparr>))"

definition apply_dkg_round1 ::
  "('i::linorder, 'pkp, 'vk, 'vs, 'cm, 'rz, 'rp, 'sp, 'sh, 'sg) frost \<Rightarrow>
   ('i, 'pkp, 'p1, 'cm, 'rz, 'sp, 'sh, 'sg) state \<Rightarrow> 'i \<Rightarrow> 'p1 \<Rightarrow>
   (('i, 'pkp, 'p1, 'cm, 'rz, 'sp, 'sh, 'sg) state, apply_error) result" where
  "apply_dkg_round1 F s from package =
     result_bind (ok_or NoCeremony (ceremony s)) (\<lambda>c.
       if \<not> bt_contains_key (c_validators c) from then Err (UnknownDkgValidator (id_debug F from))
       else if bt_contains_key (round1 c) from then Err (DuplicateRound1 (id_debug F from))
       else Ok (s\<lparr>ceremony := Some (c\<lparr>round1 := bt_insert from package (round1 c)\<rparr>)\<rparr>))"

definition apply_dkg_round2 ::
  "('i::linorder, 'pkp, 'vk, 'vs, 'cm, 'rz, 'rp, 'sp, 'sh, 'sg) frost \<Rightarrow>
   ('i, 'pkp, 'p1, 'cm, 'rz, 'sp, 'sh, 'sg) state \<Rightarrow> 'i \<Rightarrow> 'i \<Rightarrow> sealed \<Rightarrow>
   (('i, 'pkp, 'p1, 'cm, 'rz, 'sp, 'sh, 'sg) state, apply_error) result" where
  "apply_dkg_round2 F s from to env =
     result_bind (ok_or NoCeremony (ceremony s)) (\<lambda>c.
       if \<not> r1_complete c then Err Round1NotComplete
       else if from = to then Err (SelfAddressedRound2 (id_debug F from))
       else if \<not> bt_contains_key (c_validators c) from then
         Err (UnknownDkgValidator (id_debug F from))
       else if \<not> bt_contains_key (c_validators c) to then
         Err (UnknownDkgValidator (id_debug F to))
       else if bt_contains_key (round2 c) (from, to) then
         Err (DuplicateRound2 (id_debug F from) (id_debug F to))
       else Ok (s\<lparr>ceremony := Some (c\<lparr>round2 := bt_insert (from, to) env (round2 c)\<rparr>)\<rparr>))"

text \<open>The promotion at the end of \<open>DkgFinalize\<close>, for a ceremony whose finalize map is complete.\<close>

definition promote ::
  "('i::linorder, 'pkp, 'p1, 'cm, 'rz, 'sp, 'sh, 'sg) state \<Rightarrow> ('i, 'pkp, 'p1) dkg_ceremony \<Rightarrow>
   (('i, 'pkp, 'p1, 'cm, 'rz, 'sp, 'sh, 'sg) state, apply_error) result" where
  "promote s c =
     result_bind (expect (map_option snd (bt_first (finalize c)))) (\<lambda>agreed_pkp.
       Ok (s\<lparr>ceremony := None,
             group := Some \<lparr>g_params = c_params c, g_pkp = agreed_pkp,
                            g_validators = bs_collect (bt_keys (c_validators c))\<rparr>\<rparr>))"

definition pkp_agree ::
  "('i::linorder, 'pkp, 'vk, 'vs, 'cm, 'rz, 'rp, 'sp, 'sh, 'sg) frost \<Rightarrow> 'pkp \<Rightarrow> 'pkp \<Rightarrow> bool" where
  "pkp_agree F p q \<longleftrightarrow>
     verifying_key F p = verifying_key F q \<and> verifying_shares F p = verifying_shares F q"

definition apply_dkg_finalize ::
  "('i::linorder, 'pkp, 'vk, 'vs, 'cm, 'rz, 'rp, 'sp, 'sh, 'sg) frost \<Rightarrow>
   ('i, 'pkp, 'p1, 'cm, 'rz, 'sp, 'sh, 'sg) state \<Rightarrow> 'i \<Rightarrow> 'pkp \<Rightarrow>
   (('i, 'pkp, 'p1, 'cm, 'rz, 'sp, 'sh, 'sg) state, apply_error) result" where
  "apply_dkg_finalize F s from pkp =
     result_bind (ok_or NoCeremony (ceremony s)) (\<lambda>c.
     result_bind (r2_complete c) (\<lambda>r2.
       if \<not> r2 then Err Round2NotComplete
       else if \<not> bt_contains_key (c_validators c) from then
         Err (UnknownDkgValidator (id_debug F from))
       else if bt_contains_key (finalize c) from then Err (DuplicateFinalize (id_debug F from))
       else if (case bt_first (finalize c) of
                  None \<Rightarrow> False | Some (_, first) \<Rightarrow> \<not> pkp_agree F first pkp) then
         Err (PkpMismatch (id_debug F from))
       else
         let c' = c\<lparr>finalize := bt_insert from pkp (finalize c)\<rparr> in
         if finalize_complete c' then promote s c' else Ok (s\<lparr>ceremony := Some c'\<rparr>)))"

definition apply_submit_request ::
  "('i::linorder, 'pkp, 'p1, 'cm, 'rz, 'sp, 'sh, 'sg) state \<Rightarrow> uuid \<Rightarrow> u8 list \<Rightarrow> 'rz \<Rightarrow>
   (('i, 'pkp, 'p1, 'cm, 'rz, 'sp, 'sh, 'sg) state, apply_error) result" where
  "apply_submit_request s rid msg rz =
     result_bind (require_group s) (\<lambda>_.
       if bt_contains_key (requests s) rid then Err (DuplicateRequest rid)
       else Ok (s\<lparr>requests := bt_insert rid
              \<lparr>request_id = rid, message = msg, randomizer = rz,
               status = AwaitingCommitments bt_new\<rparr> (requests s)\<rparr>))"

text \<open>
  The status after a commitment: \<open>(map.len() as u16) >= threshold\<close> compares the length truncated
  to 16 bits.
\<close>

definition after_commitment ::
  "('i::linorder, 'pkp, 'vk, 'vs, 'cm, 'rz, 'rp, 'sp, 'sh, 'sg) frost \<Rightarrow> mpc_params \<Rightarrow> u8 list \<Rightarrow>
   ('i, 'cm) btree_map \<Rightarrow> ('i, 'cm, 'sp, 'sh, 'sg) request_status" where
  "after_commitment F params msg cms =
     (if threshold params \<le> (of_nat (bt_len cms) :: u16) then
        let chosen = bt_collect (take (unat (threshold params)) (bt_iter cms));
            participants = bs_collect (bt_keys chosen)
        in Signing (signing_package_new F chosen msg) participants bt_new
      else AwaitingCommitments cms)"

definition apply_submit_commitment ::
  "('i::linorder, 'pkp, 'vk, 'vs, 'cm, 'rz, 'rp, 'sp, 'sh, 'sg) frost \<Rightarrow>
   ('i, 'pkp, 'p1, 'cm, 'rz, 'sp, 'sh, 'sg) state \<Rightarrow> uuid \<Rightarrow> 'i \<Rightarrow> 'cm \<Rightarrow>
   (('i, 'pkp, 'p1, 'cm, 'rz, 'sp, 'sh, 'sg) state, apply_error) result" where
  "apply_submit_commitment F s rid validator cm =
     result_bind (require_group s) (\<lambda>g.
       if \<not> bt_contains_key (g_validators g) validator then
         Err (UnknownValidator (id_debug F validator))
       else
         result_bind (ok_or (UnknownRequest rid) (bt_get (requests s) rid)) (\<lambda>entry.
         case status entry of
           AwaitingCommitments cms \<Rightarrow>
             if bt_contains_key cms validator then Err DuplicateCommitment
             else
               let st = after_commitment F (g_params g) (message entry)
                          (bt_insert validator cm cms)
               in Ok (s\<lparr>requests := bt_insert rid (entry\<lparr>status := st\<rparr>) (requests s)\<rparr>)
         | _ \<Rightarrow> Err NotAwaitingCommitments))"

definition after_share ::
  "('i::linorder, 'pkp, 'vk, 'vs, 'cm, 'rz, 'rp, 'sp, 'sh, 'sg) frost \<Rightarrow> 'pkp \<Rightarrow> 'rz \<Rightarrow> 'sp \<Rightarrow>
   'i btree_set \<Rightarrow> ('i, 'sh) btree_map \<Rightarrow> ('i, 'cm, 'sp, 'sh, 'sg) request_status" where
  "after_share F pkp rz sp participants shares =
     (if bt_len shares = bt_len participants then
        case aggregate F sp shares pkp (from_randomizer F (verifying_key F pkp) rz) of
          Inr signature \<Rightarrow> Completed participants signature
        | Inl reason \<Rightarrow> Failed reason
      else Signing sp participants shares)"

definition apply_submit_share ::
  "('i::linorder, 'pkp, 'vk, 'vs, 'cm, 'rz, 'rp, 'sp, 'sh, 'sg) frost \<Rightarrow>
   ('i, 'pkp, 'p1, 'cm, 'rz, 'sp, 'sh, 'sg) state \<Rightarrow> uuid \<Rightarrow> 'i \<Rightarrow> 'sh \<Rightarrow>
   (('i, 'pkp, 'p1, 'cm, 'rz, 'sp, 'sh, 'sg) state, apply_error) result" where
  "apply_submit_share F s rid validator share =
     result_bind (require_group s) (\<lambda>g.
       if \<not> bt_contains_key (g_validators g) validator then
         Err (UnknownValidator (id_debug F validator))
       else
         result_bind (ok_or (UnknownRequest rid) (bt_get (requests s) rid)) (\<lambda>entry.
         case status entry of
           Signing sp participants shares \<Rightarrow>
             if \<not> bt_contains_key participants validator then Err NotSelectedParticipant
             else if bt_contains_key shares validator then Err DuplicateShare
             else
               let st = after_share F (g_pkp g) (randomizer entry) sp participants
                          (bt_insert validator share shares)
               in Ok (s\<lparr>requests := bt_insert rid (entry\<lparr>status := st\<rparr>) (requests s)\<rparr>)
         | _ \<Rightarrow> Err NotSigning))"

fun apply_tx ::
  "('i::linorder, 'pkp, 'vk, 'vs, 'cm, 'rz, 'rp, 'sp, 'sh, 'sg) frost \<Rightarrow>
   ('i, 'pkp, 'p1, 'cm, 'rz, 'sp, 'sh, 'sg) state \<Rightarrow> ('i, 'pkp, 'p1, 'cm, 'rz, 'sh) tx \<Rightarrow>
   (('i, 'pkp, 'p1, 'cm, 'rz, 'sp, 'sh, 'sg) state, apply_error) result" where
  "apply_tx F s (InitGroup params pkp validators) = apply_init_group F s params pkp validators"
| "apply_tx F s (DkgBegin params validators) = apply_dkg_begin s params validators"
| "apply_tx F s (DkgRound1 from package) = apply_dkg_round1 F s from package"
| "apply_tx F s (DkgRound2 from to env) = apply_dkg_round2 F s from to env"
| "apply_tx F s (DkgFinalize from pkp) = apply_dkg_finalize F s from pkp"
| "apply_tx F s (SubmitRequest rid msg rz) = apply_submit_request s rid msg rz"
| "apply_tx F s (SubmitCommitment rid validator cm) = apply_submit_commitment F s rid validator cm"
| "apply_tx F s (SubmitShare rid validator share) = apply_submit_share F s rid validator share"

lemmas apply_defs =
  apply_init_group_def apply_dkg_begin_def apply_dkg_round1_def apply_dkg_round2_def
  apply_dkg_finalize_def apply_submit_request_def apply_submit_commitment_def
  apply_submit_share_def require_group_def promote_def

end
