(* ===== verification/Chain_Inv.thy ===== *)
theory Chain_Inv
  imports Chain
begin

text \<open>
  The invariant of the coordination chain and its consequences. \<open>ceremony_inv\<close> says what a running
  key-generation ceremony has collected, \<open>request_inv\<close> what each signing request records in each
  phase of its life, \<open>chain_inv\<close> combines them. The interpretation \<open>chain\<close> of
  \<open>invariant_system\<close> shows that every arm of \<open>apply_tx\<close> keeps it.
\<close>

section \<open>How the guards compute\<close>

lemma unat_u16_le [simp]: "unat (x :: u16) \<le> 65535"
  using unsigned_less [of x, where ?'a = nat] by simp

lemma u16_le_of_nat: "n \<le> 65535 \<Longrightarrow> t \<le> (of_nat n :: u16) \<longleftrightarrow> unat t \<le> n"
  by (simp add: word_le_nat_alt unsigned_of_nat take_bit_nat_eq_self)

lemma r2_complete_eq:
  "r2_complete c =
     (if ceremony_total c = 0 then Panic
      else Ok (bt_len (round2 c) = ceremony_total c * (ceremony_total c - 1)))"
proof -
  let ?t = "ceremony_total c"
  have "?t \<le> 65535" by (simp add: ceremony_total_def)
  then have "?t * (?t - 1) \<le> 65535 * 65535" by (intro mult_le_mono) auto
  then have "?t * (?t - 1) < 2 ^ 64" by (rule le_less_trans) simp
  then show ?thesis
    by (auto simp: r2_complete_def usize_sub_def usize_mul_def Let_def)
qed

text \<open>
  The commitment count never exceeds the larger of one and the threshold, so the truncation to
  sixteen bits is harmless, and the selection of the first \<open>threshold\<close> entries takes them all.
\<close>

lemma after_commitment_cases:
  assumes "bt_len cms \<le> max 1 (unat (threshold p))"
  shows "after_commitment F p msg cms =
     (if bt_len cms < unat (threshold p) then AwaitingCommitments cms
      else if threshold p = 0 then Signing (signing_package_new F bt_new msg) (bs_collect []) bt_new
      else Signing (signing_package_new F cms msg) (bs_collect (bt_keys cms)) bt_new)"
proof -
  have le: "bt_len cms \<le> 65535"
    by (rule le_trans [OF assms]) simp
  have guard: "threshold p \<le> (of_nat (bt_len cms) :: u16) \<longleftrightarrow> \<not> bt_len cms < unat (threshold p)"
    using u16_le_of_nat [OF le, of "threshold p"] by (simp add: not_less)
  show ?thesis
  proof (cases "threshold p = 0")
    case True
    then show ?thesis
      by (simp add: after_commitment_def bt_collect_def bt_keys_def)
  next
    case False
    then have "bt_len cms \<le> unat (threshold p)"
      using assms by (simp add: unat_eq_0 [symmetric] max_def split: if_splits)
    then have "take (unat (threshold p)) (bt_iter cms) = bt_iter cms"
      by (simp add: bt_len_def)
    with False guard show ?thesis by (simp add: after_commitment_def)
  qed
qed

section \<open>When the arms accept\<close>

lemma init_group_Ok:
  "apply_init_group F s p pkp vs = Ok s' \<longleftrightarrow>
     group s = None \<and> ceremony s = None \<and> dom (bt_get (verifying_shares F pkp)) = set vs \<and>
     s' = s\<lparr>group := Some \<lparr>g_params = p, g_pkp = pkp, g_validators = bs_collect vs\<rparr>\<rparr>"
  by (auto simp: apply_init_group_def Let_def bs_eq_iff split: if_splits)

lemma dkg_begin_Ok:
  "apply_dkg_begin s p vs = Ok s' \<longleftrightarrow>
     group s = None \<and> ceremony s = None \<and> bt_len vs = unat (total p) \<and>
     s' = s\<lparr>ceremony := Some \<lparr>c_params = p, c_validators = vs,
            round1 = bt_new, round2 = bt_new, finalize = bt_new\<rparr>\<rparr>"
  by (auto simp: apply_dkg_begin_def)

lemma dkg_round1_Ok:
  "apply_dkg_round1 F s i p = Ok s' \<longleftrightarrow>
     (\<exists>c. ceremony s = Some c \<and> i \<in> dom (bt_get (c_validators c)) \<and> bt_get (round1 c) i = None \<and>
        s' = s\<lparr>ceremony := Some (c\<lparr>round1 := bt_insert i p (round1 c)\<rparr>)\<rparr>)"
  by (cases "ceremony s") (auto simp: apply_dkg_round1_def split: if_splits)

lemma dkg_round2_Ok:
  "apply_dkg_round2 F s i j env = Ok s' \<longleftrightarrow>
     (\<exists>c. ceremony s = Some c \<and> r1_complete c \<and> i \<noteq> j \<and> i \<in> dom (bt_get (c_validators c)) \<and>
        j \<in> dom (bt_get (c_validators c)) \<and> bt_get (round2 c) (i, j) = None \<and>
        s' = s\<lparr>ceremony := Some (c\<lparr>round2 := bt_insert (i, j) env (round2 c)\<rparr>)\<rparr>)"
  by (cases "ceremony s") (auto simp: apply_dkg_round2_def split: if_splits)

definition finalize_next ::
  "('i::linorder, 'pkp, 'p1, 'cm, 'rz, 'sp, 'sh, 'sg) state \<Rightarrow> ('i, 'pkp, 'p1) dkg_ceremony \<Rightarrow>
   ('i, 'pkp, 'p1, 'cm, 'rz, 'sp, 'sh, 'sg) state" where
  "finalize_next s c =
     (if finalize_complete c then
        s\<lparr>ceremony := None,
          group := Some \<lparr>g_params = c_params c, g_pkp = snd (the (bt_first (finalize c))),
            g_validators = bs_collect (bt_keys (c_validators c))\<rparr>\<rparr>
      else s\<lparr>ceremony := Some c\<rparr>)"

lemma promote_insert [simp]:
  "finalize c = bt_insert i pkp m \<Longrightarrow> finalize_complete c \<Longrightarrow> promote s c = Ok (finalize_next s c)"
  by (cases "bt_first (finalize c)")
    (auto simp: promote_def finalize_next_def dest: arg_cong [of _ _ bt_len] simp: bt_len_insert
      split: if_splits)

lemma dkg_finalize_Ok:
  "apply_dkg_finalize F s i pkp = Ok s' \<longleftrightarrow>
     (\<exists>c. ceremony s = Some c \<and> 0 < ceremony_total c \<and>
        bt_len (round2 c) = ceremony_total c * (ceremony_total c - 1) \<and>
        i \<in> dom (bt_get (c_validators c)) \<and> bt_get (finalize c) i = None \<and>
        (\<forall>k p. bt_first (finalize c) = Some (k, p) \<longrightarrow> pkp_agree F p pkp) \<and>
        s' = finalize_next s (c\<lparr>finalize := bt_insert i pkp (finalize c)\<rparr>))"
proof (cases "ceremony s")
  case (Some c)
  have first: "(case bt_first (finalize c) of
      None \<Rightarrow> False | Some (_, first) \<Rightarrow> \<not> pkp_agree F first pkp) \<longleftrightarrow>
    \<not> (\<forall>k p. bt_first (finalize c) = Some (k, p) \<longrightarrow> pkp_agree F p pkp)"
    by (auto split: option.splits)
  show ?thesis
    by (auto simp: apply_dkg_finalize_def Some r2_complete_eq first Let_def finalize_next_def
        split: if_splits)
qed (simp add: apply_dkg_finalize_def)

lemma submit_request_Ok:
  "apply_submit_request s rid msg rz = Ok s' \<longleftrightarrow>
     group s \<noteq> None \<and> bt_get (requests s) rid = None \<and>
     s' = s\<lparr>requests := bt_insert rid \<lparr>request_id = rid, message = msg, randomizer = rz,
              status = AwaitingCommitments bt_new\<rparr> (requests s)\<rparr>"
  by (cases "group s") (auto simp: apply_submit_request_def require_group_def)

lemma submit_commitment_Ok:
  "apply_submit_commitment F s rid v cm = Ok s' \<longleftrightarrow>
     (\<exists>g e cms. group s = Some g \<and> v \<in> dom (bt_get (g_validators g)) \<and>
        bt_get (requests s) rid = Some e \<and> status e = AwaitingCommitments cms \<and>
        bt_get cms v = None \<and>
        s' = s\<lparr>requests := bt_insert rid (e\<lparr>status := after_commitment F (g_params g) (message e)
               (bt_insert v cm cms)\<rparr>) (requests s)\<rparr>)"
proof (cases "group s"; cases "bt_get (requests s) rid")
  fix g e
  assume *: "group s = Some g" "bt_get (requests s) rid = Some e"
  show ?thesis
    by (cases "status e")
      (auto simp: * apply_submit_commitment_def require_group_def Let_def split: if_splits)
qed (auto simp: apply_submit_commitment_def require_group_def split: if_splits)

lemma submit_share_Ok:
  "apply_submit_share F s rid v sh = Ok s' \<longleftrightarrow>
     (\<exists>g e sp P shs. group s = Some g \<and> v \<in> dom (bt_get (g_validators g)) \<and>
        bt_get (requests s) rid = Some e \<and> status e = Signing sp P shs \<and>
        v \<in> dom (bt_get P) \<and> bt_get shs v = None \<and>
        s' = s\<lparr>requests := bt_insert rid (e\<lparr>status := after_share F (g_pkp g) (randomizer e) sp P
               (bt_insert v sh shs)\<rparr>) (requests s)\<rparr>)"
proof (cases "group s"; cases "bt_get (requests s) rid")
  fix g e
  assume *: "group s = Some g" "bt_get (requests s) rid = Some e"
  show ?thesis
    by (cases "status e")
      (auto simp: * apply_submit_share_def require_group_def Let_def split: if_splits)
qed (auto simp: apply_submit_share_def require_group_def split: if_splits)

lemmas arm_Ok =
  init_group_Ok dkg_begin_Ok dkg_round1_Ok dkg_round2_Ok dkg_finalize_Ok
  submit_request_Ok submit_commitment_Ok submit_share_Ok

section \<open>The invariant\<close>

definition ceremony_inv ::
  "('i::linorder, 'pkp, 'vk, 'vs, 'cm, 'rz, 'rp, 'sp, 'sh, 'sg) frost \<Rightarrow>
   ('i, 'pkp, 'p1) dkg_ceremony \<Rightarrow> bool" where
  "ceremony_inv F c \<longleftrightarrow>
     (let V = dom (bt_get (c_validators c)); t = ceremony_total c in
      bt_len (c_validators c) = t \<and>
      dom (bt_get (round1 c)) \<subseteq> V \<and>
      dom (bt_get (round2 c)) \<subseteq> {(i, j). i \<in> V \<and> j \<in> V \<and> i \<noteq> j} \<and>
      (round2 c \<noteq> bt_new \<longrightarrow> r1_complete c) \<and>
      dom (bt_get (finalize c)) \<subseteq> V \<and>
      (finalize c \<noteq> bt_new \<longrightarrow> bt_len (round2 c) = t * (t - 1) \<and> bt_len (finalize c) < t) \<and>
      (\<forall>i j p q. bt_get (finalize c) i = Some p \<longrightarrow> bt_get (finalize c) j = Some q \<longrightarrow>
         pkp_agree F p q))"

text \<open>
  What the chain has aggregated for a request that reached its end: commitments and shares of
  exactly the participants, and the outcome of the aggregation over them.
\<close>

definition aggregated ::
  "('i::linorder, 'pkp, 'vk, 'vs, 'cm, 'rz, 'rp, 'sp, 'sh, 'sg) frost \<Rightarrow> 'pkp \<Rightarrow> 'rz \<Rightarrow> u8 list \<Rightarrow>
   'i set \<Rightarrow> string + 'sg \<Rightarrow> bool" where
  "aggregated F pkp rz msg P r \<longleftrightarrow>
     (\<exists>cms shs. dom (bt_get cms) = P \<and> dom (bt_get shs) = P \<and>
        aggregate F (signing_package_new F cms msg) shs pkp
          (from_randomizer F (verifying_key F pkp) rz) = r)"

definition status_inv ::
  "('i::linorder, 'pkp, 'vk, 'vs, 'cm, 'rz, 'rp, 'sp, 'sh, 'sg) frost \<Rightarrow>
   ('i, 'pkp) group_config \<Rightarrow> u8 list \<Rightarrow> 'rz \<Rightarrow> ('i, 'cm, 'sp, 'sh, 'sg) request_status \<Rightarrow> bool" where
  "status_inv F g msg rz st \<longleftrightarrow>
     (let V = dom (bt_get (g_validators g)); t = unat (threshold (g_params g)) in
      case st of
        AwaitingCommitments cms \<Rightarrow> dom (bt_get cms) \<subseteq> V \<and> bt_len cms < max 1 t
      | Signing sp P shs \<Rightarrow>
          dom (bt_get P) \<subseteq> V \<and> bt_len P = t \<and> dom (bt_get shs) \<subseteq> dom (bt_get P) \<and>
          (bt_len shs < t \<or> t = 0) \<and>
          (\<exists>cms. dom (bt_get cms) = dom (bt_get P) \<and> sp = signing_package_new F cms msg)
      | Completed P sg \<Rightarrow>
          dom (bt_get P) \<subseteq> V \<and> bt_len P = t \<and> 0 < t \<and>
          aggregated F (g_pkp g) rz msg (dom (bt_get P)) (Inr sg)
      | Failed reason \<Rightarrow>
          \<exists>P. P \<subseteq> V \<and> card P = t \<and> 0 < t \<and> aggregated F (g_pkp g) rz msg P (Inl reason))"

definition request_inv ::
  "('i::linorder, 'pkp, 'vk, 'vs, 'cm, 'rz, 'rp, 'sp, 'sh, 'sg) frost \<Rightarrow>
   ('i, 'pkp) group_config \<Rightarrow> uuid \<Rightarrow> ('i, 'cm, 'rz, 'sp, 'sh, 'sg) request_entry \<Rightarrow> bool" where
  "request_inv F g rid e \<longleftrightarrow>
     request_id e = rid \<and> status_inv F g (message e) (randomizer e) (status e)"

definition chain_inv ::
  "('i::linorder, 'pkp, 'vk, 'vs, 'cm, 'rz, 'rp, 'sp, 'sh, 'sg) frost \<Rightarrow>
   ('i, 'pkp, 'p1, 'cm, 'rz, 'sp, 'sh, 'sg) state \<Rightarrow> bool" where
  "chain_inv F s \<longleftrightarrow>
     (\<forall>c. ceremony s = Some c \<longrightarrow> group s = None \<and> ceremony_inv F c) \<and>
     (\<forall>rid e. bt_get (requests s) rid = Some e \<longrightarrow>
        (\<exists>g. group s = Some g \<and> request_inv F g rid e))"

lemma chain_inv_default [simp]: "chain_inv F default_state"
  by (simp add: chain_inv_def default_state_def)

section \<open>The arms keep the invariant\<close>

lemma no_request_without_group: "chain_inv F s \<Longrightarrow> group s = None \<Longrightarrow> requests s = bt_new"
  by (rule bt_map_eqI) (fastforce simp: chain_inv_def)

lemma init_group_inv:
  "chain_inv F s \<Longrightarrow> apply_init_group F s p pkp vs = Ok s' \<Longrightarrow> chain_inv F s'"
  using no_request_without_group [of F s]
  by (auto simp: apply_defs chain_inv_def Let_def split: if_splits)

lemma dkg_begin_inv: "chain_inv F s \<Longrightarrow> apply_dkg_begin s p vs = Ok s' \<Longrightarrow> chain_inv F s'"
  by (auto simp: apply_defs chain_inv_def ceremony_inv_def ceremony_total_def Let_def
      split: if_splits)

text \<open>A map over the validators is full exactly when its size is theirs.\<close>

lemma full_iff:
  assumes "dom (bt_get a) \<subseteq> dom (bt_get b)"
  shows "bt_len a = bt_len b \<longleftrightarrow> dom (bt_get a) = dom (bt_get b)"
  using card_subset_eq [OF _ assms] by (auto simp: bt_len_card)

lemma size_le: "dom (bt_get a) \<subseteq> dom (bt_get b) \<Longrightarrow> bt_len a \<le> bt_len b"
  by (simp add: bt_len_card card_mono)

lemma card_off_diagonal:
  assumes "finite V"
  shows "card {(i, j). i \<in> V \<and> j \<in> V \<and> i \<noteq> j} = card V * (card V - 1)"
proof -
  have eq: "{(i, j). i \<in> V \<and> j \<in> V \<and> i \<noteq> j} = V \<times> V - (\<lambda>i. (i, i)) ` V" by auto
  have "card ((\<lambda>i. (i, i)) ` V) = card V" by (rule card_image) (simp add: inj_on_def)
  then have "card (V \<times> V - (\<lambda>i. (i, i)) ` V) = card V * card V - card V"
    using assms by (subst card_Diff_subset) (auto simp: card_cartesian_product)
  then show ?thesis by (simp add: eq diff_mult_distrib2)
qed

lemma pkp_agree_equiv:
  "pkp_agree F p p" "pkp_agree F p q \<Longrightarrow> pkp_agree F q p"
  "pkp_agree F p q \<Longrightarrow> pkp_agree F q r \<Longrightarrow> pkp_agree F p r"
  by (simp_all add: pkp_agree_def)

lemma round1_insert_inv:
  assumes c: "ceremony_inv F c" and i: "bt_get (c_validators c) i \<noteq> None"
    and new: "bt_get (round1 c) i = None"
  shows "ceremony_inv F (c\<lparr>round1 := bt_insert i p (round1 c)\<rparr>)"
proof -
  have "\<not> r1_complete c"
  proof
    assume "r1_complete c"
    then have "dom (bt_get (round1 c)) = dom (bt_get (c_validators c))"
      using c full_iff [of "round1 c" "c_validators c"]
      by (simp add: ceremony_inv_def r1_complete_def Let_def)
    with i new show False by (metis domIff)
  qed
  with c i show ?thesis
    by (auto simp: ceremony_inv_def ceremony_total_def Let_def)
qed

lemma dkg_round1_inv: "chain_inv F s \<Longrightarrow> apply_dkg_round1 F s i p = Ok s' \<Longrightarrow> chain_inv F s'"
  using round1_insert_inv [of F "the (ceremony s)" i p]
  by (auto simp: apply_defs chain_inv_def split: if_splits)

definition ordered_pairs :: "('i, 'v) btree_map \<Rightarrow> ('i \<times> 'i) set" where
  "ordered_pairs m = {(i, j). i \<in> dom (bt_get m) \<and> j \<in> dom (bt_get m) \<and> i \<noteq> j}"

lemma finite_ordered_pairs [simp]: "finite (ordered_pairs m)"
  by (rule finite_subset [of _ "dom (bt_get m) \<times> dom (bt_get m)"]) (auto simp: ordered_pairs_def)

lemma round2_full_iff:
  assumes "ceremony_inv F c"
  shows "bt_len (round2 c) = ceremony_total c * (ceremony_total c - 1) \<longleftrightarrow>
    dom (bt_get (round2 c)) = ordered_pairs (c_validators c)"
proof -
  have sub: "dom (bt_get (round2 c)) \<subseteq> ordered_pairs (c_validators c)"
    and card: "card (ordered_pairs (c_validators c)) = ceremony_total c * (ceremony_total c - 1)"
    using assms
    by (simp_all add: ceremony_inv_def ordered_pairs_def Let_def bt_len_card
        card_off_diagonal [OF finite_dom_bt_get])
  show ?thesis
    using card_subset_eq [OF finite_ordered_pairs sub]
    by (simp only: bt_len_card card [symmetric]) metis
qed

lemma round2_insert_inv:
  assumes c: "ceremony_inv F c" and "r1_complete c" "i \<noteq> j"
    and "bt_get (c_validators c) i \<noteq> None" "bt_get (c_validators c) j \<noteq> None"
    and new: "bt_get (round2 c) (i, j) = None"
  shows "ceremony_inv F (c\<lparr>round2 := bt_insert (i, j) env (round2 c)\<rparr>)"
proof -
  have "(i, j) \<in> ordered_pairs (c_validators c)"
    using assms by (simp add: ordered_pairs_def domIff)
  then have "dom (bt_get (round2 c)) \<noteq> ordered_pairs (c_validators c)"
    using new by (metis domIff)
  then have "finalize c = bt_new"
    using round2_full_iff [OF c] c by (auto simp: ceremony_inv_def Let_def)
  with assms show ?thesis
    by (auto simp: ceremony_inv_def ceremony_total_def r1_complete_def Let_def)
qed

lemma dkg_round2_inv: "chain_inv F s \<Longrightarrow> apply_dkg_round2 F s i j env = Ok s' \<Longrightarrow> chain_inv F s'"
  using round2_insert_inv [of F "the (ceremony s)" i j env]
  by (auto simp: apply_defs chain_inv_def split: if_splits)

lemma finalize_insert_agree:
  assumes c: "ceremony_inv F c"
    and first: "\<And>k first. bt_first (finalize c) = Some (k, first) \<Longrightarrow> pkp_agree F first pkp"
    and "bt_get (finalize c) j = Some q"
  shows "pkp_agree F q pkp"
proof (cases "bt_first (finalize c)")
  case None
  with assms(3) show ?thesis by simp
next
  case (Some kf)
  then obtain k f where kf: "bt_first (finalize c) = Some (k, f)" by (cases kf) auto
  then have "pkp_agree F q f"
    using c assms(3) bt_first_get unfolding ceremony_inv_def Let_def by metis
  from this first [OF kf] show ?thesis by (rule pkp_agree_equiv)
qed

lemma finalize_insert_inv:
  assumes c: "ceremony_inv F c" and r2: "bt_len (round2 c) = ceremony_total c * (ceremony_total c - 1)"
    and V: "bt_get (c_validators c) i \<noteq> None"
    and first: "\<And>k first. bt_first (finalize c) = Some (k, first) \<Longrightarrow> pkp_agree F first pkp"
    and part: "bt_len (bt_insert i pkp (finalize c)) \<noteq> ceremony_total c"
  shows "ceremony_inv F (c\<lparr>finalize := bt_insert i pkp (finalize c)\<rparr>)"
proof -
  let ?f = "bt_insert i pkp (finalize c)"
  have sub: "dom (bt_get ?f) \<subseteq> dom (bt_get (c_validators c))"
    using c V by (auto simp: ceremony_inv_def Let_def)
  then have "bt_len ?f < ceremony_total c"
    using c part size_le [OF sub] by (simp add: ceremony_inv_def Let_def)
  moreover have "pkp_agree F p q" if "bt_get ?f j = Some p" "bt_get ?f k = Some q" for j k p q
    using that finalize_insert_agree [OF c first] c
    unfolding ceremony_inv_def Let_def
    by (auto split: if_splits intro: pkp_agree_equiv)
  ultimately show ?thesis
    using c sub r2 by (auto simp: ceremony_inv_def ceremony_total_def r1_complete_def Let_def)
qed

lemma dkg_finalize_inv: "chain_inv F s \<Longrightarrow> apply_dkg_finalize F s i pkp = Ok s' \<Longrightarrow> chain_inv F s'"
  using finalize_insert_inv [of F "the (ceremony s)" i pkp] no_request_without_group [of F s]
  by (auto simp: apply_dkg_finalize_def promote_def r2_complete_eq chain_inv_def Let_def
      finalize_complete_def ceremony_total_def split: if_splits option.splits)

lemma status_inv_new [simp]: "status_inv F g msg rz (AwaitingCommitments bt_new)"
  by (simp add: status_inv_def Let_def less_max_iff_disj)

lemma submit_request_inv: "chain_inv F s \<Longrightarrow> apply_submit_request s rid msg rz = Ok s' \<Longrightarrow> chain_inv F s'"
  by (auto simp: apply_defs chain_inv_def request_inv_def split: if_splits)

text \<open>Replacing the status of one entry keeps the invariant when the new status satisfies its own.\<close>

lemma set_status_inv:
  assumes "chain_inv F s" "group s = Some g" "bt_get (requests s) rid = Some e"
    and "status_inv F g (message e) (randomizer e) st"
  shows "chain_inv F (s\<lparr>requests := bt_insert rid (e\<lparr>status := st\<rparr>) (requests s)\<rparr>)"
  using assms by (auto simp: chain_inv_def request_inv_def)

lemma request_invD:
  "chain_inv F s \<Longrightarrow> group s = Some g \<Longrightarrow> bt_get (requests s) rid = Some e \<Longrightarrow> request_inv F g rid e"
  by (auto simp: chain_inv_def)

lemma status_inv_signing:
  assumes "dom (bt_get cms) \<subseteq> dom (bt_get (g_validators g))"
    and "bt_len cms = unat (threshold (g_params g))"
  shows "status_inv F g msg rz (Signing (signing_package_new F cms msg) (bs_collect (bt_keys cms)) bt_new)"
  using assms by (auto simp: status_inv_def Let_def bt_len_card)

lemma after_commitment_inv:
  assumes "status_inv F g msg rz (AwaitingCommitments cms)"
    and "v \<in> dom (bt_get (g_validators g))" "bt_get cms v = None"
  shows "status_inv F g msg rz (after_commitment F (g_params g) msg (bt_insert v cm cms))"
proof -
  let ?m = "bt_insert v cm cms" and ?t = "unat (threshold (g_params g))"
  have len: "bt_len ?m \<le> max 1 ?t" and sub: "dom (bt_get ?m) \<subseteq> dom (bt_get (g_validators g))"
    using assms by (auto simp: status_inv_def Let_def)
  show ?thesis
  proof (cases "bt_len ?m < ?t")
    case True
    with sub show ?thesis
      by (simp add: after_commitment_cases [OF len] less_max_iff_disj status_inv_def Let_def)
  next
    case False
    show ?thesis
    proof (cases "threshold (g_params g) = 0")
      case True
      with status_inv_signing [of bt_new g] show ?thesis
        by (simp add: after_commitment_cases [OF len] bt_keys_def)
    next
      case nz: False
      then have "bt_len ?m = ?t"
        using False len by (simp add: unat_eq_0 [symmetric] max_def split: if_splits)
      with nz sub status_inv_signing [OF sub] show ?thesis
        by (simp add: after_commitment_cases [OF len])
    qed
  qed
qed

lemma submit_commitment_inv:
  assumes "chain_inv F s" "apply_submit_commitment F s rid v cm = Ok s'"
  shows "chain_inv F s'"
proof -
  from assms(2) obtain g e cms where *: "group s = Some g" "v \<in> dom (bt_get (g_validators g))"
      "bt_get (requests s) rid = Some e" "status e = AwaitingCommitments cms" "bt_get cms v = None"
    and s': "s' = s\<lparr>requests := bt_insert rid (e\<lparr>status := after_commitment F (g_params g) (message e)
               (bt_insert v cm cms)\<rparr>) (requests s)\<rparr>"
    unfolding submit_commitment_Ok by blast
  from request_invD [OF assms(1) *(1,3)] *(4)
  have "status_inv F g (message e) (randomizer e) (AwaitingCommitments cms)"
    by (simp add: request_inv_def)
  from after_commitment_inv [OF this *(2,5)] show ?thesis
    unfolding s' by (rule set_status_inv [OF assms(1) *(1,3)])
qed

lemma after_share_inv:
  assumes st: "status_inv F g msg rz (Signing sp P shs)"
    and v: "v \<in> dom (bt_get P)" "bt_get shs v = None"
  shows "status_inv F g msg rz (after_share F (g_pkp g) rz sp P (bt_insert v sh shs))"
proof -
  let ?m = "bt_insert v sh shs" and ?t = "unat (threshold (g_params g))"
  have sub: "dom (bt_get ?m) \<subseteq> dom (bt_get P)" and P: "dom (bt_get P) \<subseteq> dom (bt_get (g_validators g))"
    and t: "bt_len P = ?t" and t0: "0 < ?t"
    using assms by (auto simp: status_inv_def Let_def bt_len_card card_gt_0_iff)
  from st obtain cms where cms: "dom (bt_get cms) = dom (bt_get P)" "sp = signing_package_new F cms msg"
    by (auto simp: status_inv_def Let_def)
  show ?thesis
  proof (cases "bt_len ?m = bt_len P")
    case True
    then have "dom (bt_get ?m) = dom (bt_get P)" using full_iff [OF sub] by simp
    with cms have "aggregated F (g_pkp g) rz msg (dom (bt_get P))
        (aggregate F sp ?m (g_pkp g) (from_randomizer F (verifying_key F (g_pkp g)) rz))"
      unfolding aggregated_def by blast
    with P t t0 True show ?thesis
      by (auto simp: after_share_def status_inv_def Let_def bt_len_card simp del: bt_get_insert
          split: sum.splits) blast
  next
    case False
    then have "bt_len ?m < ?t" using size_le [OF sub] t by simp
    with False P t sub cms show ?thesis
      by (auto simp: after_share_def status_inv_def Let_def simp del: bt_get_insert)
  qed
qed

lemma submit_share_inv:
  assumes "chain_inv F s" "apply_submit_share F s rid v sh = Ok s'"
  shows "chain_inv F s'"
proof -
  from assms(2) obtain g e sp P shs where *: "group s = Some g"
      "bt_get (requests s) rid = Some e" "status e = Signing sp P shs"
      "v \<in> dom (bt_get P)" "bt_get shs v = None"
    and s': "s' = s\<lparr>requests := bt_insert rid (e\<lparr>status := after_share F (g_pkp g) (randomizer e) sp P
               (bt_insert v sh shs)\<rparr>) (requests s)\<rparr>"
    unfolding submit_share_Ok by blast
  from request_invD [OF assms(1) *(1,2)] *(3)
  have "status_inv F g (message e) (randomizer e) (Signing sp P shs)"
    by (simp add: request_inv_def)
  from after_share_inv [OF this *(4,5)] show ?thesis
    unfolding s' by (rule set_status_inv [OF assms(1) *(1,2)])
qed

lemmas arm_inv =
  init_group_inv dkg_begin_inv dkg_round1_inv dkg_round2_inv dkg_finalize_inv
  submit_request_inv submit_commitment_inv submit_share_inv

lemma apply_tx_inv: "chain_inv F s \<Longrightarrow> apply_tx F s t = Ok s' \<Longrightarrow> chain_inv F s'"
  by (cases t) (auto dest: arm_inv)

interpretation chain: invariant_system "apply_tx F" "chain_inv F" for F
  by unfold_locales (rule apply_tx_inv)

lemma reachable_inv: "reach (apply_tx F) default_state s \<Longrightarrow> chain_inv F s"
  by (rule chain.reach_inv [OF _ chain_inv_default])

end
