(* ===== verification/Chain_Props.thy ===== *)
theory Chain_Props
  imports Chain_Inv
begin

text \<open>
  What the invariant of the coordination chain means for its users: where a signature comes from,
  what can never change again, when a ceremony promotes, which transactions commute, that the
  protocols reach their end, and where \<open>apply_tx\<close> panics.
\<close>

section \<open>A small ciphersuite for the witnesses\<close>

text \<open>
  Identifiers, commitments, shares, keys and signatures are numbers; a public key package is the
  list of its identifiers; aggregation adds the shares up and checks that they come from the
  signers of the package.
\<close>

type_synonym toy_state =
  "(nat, nat list, nat, nat, nat, (nat, nat) btree_map \<times> u8 list, nat, nat) state"

type_synonym toy_tx = "(nat, nat list, nat, nat, nat, nat) tx"

definition toy_frost ::
  "(nat, nat list, nat, nat, nat, nat, nat, (nat, nat) btree_map \<times> u8 list, nat, nat) frost" where
  "toy_frost = \<lparr>
     id_debug = (\<lambda>i. replicate i CHR ''I''),
     verifying_key = sum_list,
     verifying_shares = (\<lambda>ids. bt_collect (map (\<lambda>i. (i, i)) ids)),
     signing_package_new = Pair,
     from_randomizer = (+),
     aggregate = (\<lambda>sp shs pkp rp.
       if bt_keys shs = bt_keys (fst sp) then Inr (sum_list (map snd (bt_iter shs)) + rp)
       else Inl ''unexpected signers'')\<rparr>"

definition toy_params :: mpc_params where
  "toy_params = \<lparr>threshold = 2, total = 3\<rparr>"

definition toy_rid :: uuid where
  "toy_rid = Uuid (bytes_fill 1)"

text \<open>A two-of-three group signs one message.\<close>

definition toy_run :: "toy_tx list" where
  "toy_run = [InitGroup toy_params [1, 2, 3] [1, 2, 3],
     SubmitRequest toy_rid [104, 105] 7,
     SubmitCommitment toy_rid 3 30, SubmitCommitment toy_rid 1 10,
     SubmitShare toy_rid 1 100, SubmitShare toy_rid 3 300]"

definition toy_group :: "(nat, nat list) group_config" where
  "toy_group = \<lparr>g_params = toy_params, g_pkp = [1, 2, 3], g_validators = bs_collect [1, 2, 3]\<rparr>"

definition toy_entry :: "(nat, nat, nat, (nat, nat) btree_map \<times> u8 list, nat, nat) request_entry" where
  "toy_entry = \<lparr>request_id = toy_rid, message = [104, 105], randomizer = 7,
     status = Completed (bs_collect [1, 3]) 413\<rparr>"

definition toy_final :: toy_state where
  "toy_final = \<lparr>ceremony = None, group = Some toy_group, requests = bt_insert toy_rid toy_entry bt_new\<rparr>"

lemmas toy_defs = toy_frost_def toy_params_def toy_group_def toy_entry_def toy_final_def

lemmas bt_eval = bt_collect_def bt_keys_def bt_len_insert bt.ins_overwrite word_le_nat_alt

lemma toy_run_Ok: "run_all (apply_tx toy_frost) default_state toy_run = Ok toy_final"
  by (simp add: toy_run_def toy_defs default_state_def apply_defs bt_eval insert_commute
      after_commitment_def after_share_def)

section \<open>The invariant\<close>

text \<open>
  C5. Every transaction that the chain accepts keeps the invariant: a ceremony and a group never
  coexist, a ceremony's maps stay within its validators and in the order of the rounds, requests
  exist only under a group, and each request's status satisfies the counts and the provenance of
  its phase. The initial state satisfies it, so every reachable state does.
\<close>

theorem apply_tx_preserves_chain_inv:
  "(chain_inv F s \<and> apply_tx F s t = Ok s' \<longrightarrow> chain_inv F s') \<and> chain_inv F default_state"
  using apply_tx_inv by fastforce

theorem apply_tx_preserves_chain_inv_witness:
  "chain_inv toy_frost (default_state :: toy_state) \<and>
   apply_tx toy_frost default_state (InitGroup toy_params [1, 2, 3] [1, 2, 3] :: toy_tx) =
     Ok (default_state\<lparr>group := Some toy_group\<rparr>) \<and>
   chain_inv toy_frost ((default_state :: toy_state)\<lparr>group := Some toy_group\<rparr>)"
proof -
  have ok: "apply_tx toy_frost (default_state :: toy_state) (InitGroup toy_params [1, 2, 3] [1, 2, 3]) =
      Ok (default_state\<lparr>group := Some toy_group\<rparr>)"
    by (simp add: toy_defs default_state_def apply_defs bt_eval insert_commute)
  then show ?thesis
    using apply_tx_preserves_chain_inv [of toy_frost "default_state :: toy_state"
        "InitGroup toy_params [1, 2, 3] [1, 2, 3]" "default_state\<lparr>group := Some toy_group\<rparr>"]
    by simp
qed

section \<open>Where a signature comes from\<close>

text \<open>
  The transactions of a run account for everything a request records: the maps of a request hold
  only what the named validators submitted for it.
\<close>

definition commitments_from ::
  "('i, 'pkp, 'p1, 'cm, 'rz, 'sh) tx list \<Rightarrow> uuid \<Rightarrow> ('i, 'cm) btree_map \<Rightarrow> bool" where
  "commitments_from txs rid cms \<longleftrightarrow>
     (\<forall>v cm. bt_get cms v = Some cm \<longrightarrow> SubmitCommitment rid v cm \<in> set txs)"

definition shares_from ::
  "('i, 'pkp, 'p1, 'cm, 'rz, 'sh) tx list \<Rightarrow> uuid \<Rightarrow> ('i, 'sh) btree_map \<Rightarrow> bool" where
  "shares_from txs rid shs \<longleftrightarrow>
     (\<forall>v sh. bt_get shs v = Some sh \<longrightarrow> SubmitShare rid v sh \<in> set txs)"

definition status_prov ::
  "('i::linorder, 'pkp, 'vk, 'vs, 'cm, 'rz, 'rp, 'sp, 'sh, 'sg) frost \<Rightarrow>
   ('i, 'pkp, 'p1, 'cm, 'rz, 'sh) tx list \<Rightarrow> 'pkp \<Rightarrow> uuid \<Rightarrow> u8 list \<Rightarrow> 'rz \<Rightarrow>
   ('i, 'cm, 'sp, 'sh, 'sg) request_status \<Rightarrow> bool" where
  "status_prov F txs pkp rid msg rz st \<longleftrightarrow>
     (case st of
        AwaitingCommitments cms \<Rightarrow> commitments_from txs rid cms
      | Signing sp P shs \<Rightarrow>
          shares_from txs rid shs \<and>
          (\<exists>cms. dom (bt_get cms) = dom (bt_get P) \<and> commitments_from txs rid cms \<and>
             sp = signing_package_new F cms msg)
      | Completed P sg \<Rightarrow>
          (\<exists>cms shs. dom (bt_get cms) = dom (bt_get P) \<and> dom (bt_get shs) = dom (bt_get P) \<and>
             commitments_from txs rid cms \<and> shares_from txs rid shs \<and>
             aggregate F (signing_package_new F cms msg) shs pkp
               (from_randomizer F (verifying_key F pkp) rz) = Inr sg)
      | Failed reason \<Rightarrow> True)"

definition provenance ::
  "('i::linorder, 'pkp, 'vk, 'vs, 'cm, 'rz, 'rp, 'sp, 'sh, 'sg) frost \<Rightarrow>
   ('i, 'pkp, 'p1, 'cm, 'rz, 'sh) tx list \<Rightarrow> ('i, 'pkp) group_config \<Rightarrow> uuid \<Rightarrow>
   ('i, 'cm, 'rz, 'sp, 'sh, 'sg) request_entry \<Rightarrow> bool" where
  "provenance F txs g rid e \<longleftrightarrow>
     SubmitRequest rid (message e) (randomizer e) \<in> set txs \<and>
     status_prov F txs (g_pkp g) rid (message e) (randomizer e) (status e)"

lemma commitments_from_mono:
  "commitments_from txs rid cms \<Longrightarrow> set txs \<subseteq> set txs' \<Longrightarrow> commitments_from txs' rid cms"
  unfolding commitments_from_def by blast

lemma shares_from_mono: "shares_from txs rid shs \<Longrightarrow> set txs \<subseteq> set txs' \<Longrightarrow> shares_from txs' rid shs"
  unfolding shares_from_def by blast

lemma commitments_from_insert:
  "commitments_from txs rid cms \<Longrightarrow>
   commitments_from (txs @ [SubmitCommitment rid v cm]) rid (bt_insert v cm cms)"
  by (auto simp: commitments_from_def)

lemma shares_from_insert:
  "shares_from txs rid shs \<Longrightarrow> shares_from (txs @ [SubmitShare rid v sh]) rid (bt_insert v sh shs)"
  by (auto simp: shares_from_def)

lemma status_prov_mono:
  assumes "status_prov F txs pkp rid msg rz st" "set txs \<subseteq> set txs'"
  shows "status_prov F txs' pkp rid msg rz st"
  using assms commitments_from_mono [OF _ assms(2)] shares_from_mono [OF _ assms(2)]
  unfolding status_prov_def by (cases st) (simp; blast)+

lemma after_commitment_prov:
  assumes inv: "status_inv F g msg rz (AwaitingCommitments cms)" and new: "bt_get cms v = None"
    and sent: "commitments_from txs rid cms"
  shows "status_prov F (txs @ [SubmitCommitment rid v cm]) pkp rid msg rz
    (after_commitment F (g_params g) msg (bt_insert v cm cms))"
proof -
  have len: "bt_len (bt_insert v cm cms) \<le> max 1 (unat (threshold (g_params g)))"
    using inv new by (auto simp: status_inv_def Let_def)
  have "commitments_from (txs @ [SubmitCommitment rid v cm]) rid bt_new"
    and "shares_from (txs @ [SubmitCommitment rid v cm]) rid bt_new"
    by (simp_all add: commitments_from_def shares_from_def)
  then show ?thesis
    using commitments_from_insert [OF sent, of v cm]
    by (auto simp: after_commitment_cases [OF len] status_prov_def simp del: bt_get_insert)
      (metis bt_get_new)
qed

lemma after_share_prov:
  assumes inv: "status_inv F g msg rz (Signing sp P shs)" and v: "v \<in> dom (bt_get P)"
    and prov: "status_prov F txs pkp rid msg rz (Signing sp P shs)"
  shows "status_prov F (txs @ [SubmitShare rid v sh]) pkp rid msg rz
    (after_share F pkp rz sp P (bt_insert v sh shs))"
proof -
  let ?txs = "txs @ [SubmitShare rid v sh]" and ?m = "bt_insert v sh shs"
  have sub: "dom (bt_get ?m) \<subseteq> dom (bt_get P)"
    using inv v by (auto simp: status_inv_def Let_def)
  from prov obtain cms where cms: "dom (bt_get cms) = dom (bt_get P)"
      "commitments_from txs rid cms" "sp = signing_package_new F cms msg" and "shares_from txs rid shs"
    by (auto simp: status_prov_def)
  then have sent: "commitments_from ?txs rid cms" "shares_from ?txs rid ?m"
    using commitments_from_mono [of txs rid cms ?txs] shares_from_insert by auto
  show ?thesis
  proof (cases "bt_len ?m = bt_len P")
    case True
    then have "dom (bt_get ?m) = dom (bt_get P)" using full_iff [OF sub] by simp
    with cms sent True show ?thesis
      unfolding after_share_def status_prov_def by (auto simp del: bt_get_insert split: sum.splits)
  next
    case False
    with cms sent show ?thesis
      unfolding after_share_def status_prov_def by (auto simp del: bt_get_insert)
  qed
qed

section \<open>The life of one request\<close>

text \<open>
  What one accepted transaction can do to the entry of one request: create it, add a commitment to
  it, add a share to it, or leave it alone.
\<close>

inductive entry_step ::
  "('i::linorder, 'pkp, 'vk, 'vs, 'cm, 'rz, 'rp, 'sp, 'sh, 'sg) frost \<Rightarrow>
   ('i, 'pkp) group_config \<Rightarrow> uuid \<Rightarrow> ('i, 'pkp, 'p1, 'cm, 'rz, 'sh) tx \<Rightarrow>
   ('i, 'cm, 'rz, 'sp, 'sh, 'sg) request_entry option \<Rightarrow>
   ('i, 'cm, 'rz, 'sp, 'sh, 'sg) request_entry option \<Rightarrow> bool"
  for F g rid where
  entry_idle: "entry_step F g rid t eo eo"
| entry_new: "entry_step F g rid (SubmitRequest rid msg rz) None
     (Some \<lparr>request_id = rid, message = msg, randomizer = rz, status = AwaitingCommitments bt_new\<rparr>)"
| entry_commit: "status e = AwaitingCommitments cms \<Longrightarrow> v \<in> dom (bt_get (g_validators g)) \<Longrightarrow>
     bt_get cms v = None \<Longrightarrow>
     entry_step F g rid (SubmitCommitment rid v cm) (Some e)
       (Some (e\<lparr>status := after_commitment F (g_params g) (message e) (bt_insert v cm cms)\<rparr>))"
| entry_share: "status e = Signing sp P shs \<Longrightarrow> v \<in> dom (bt_get (g_validators g)) \<Longrightarrow>
     v \<in> dom (bt_get P) \<Longrightarrow> bt_get shs v = None \<Longrightarrow>
     entry_step F g rid (SubmitShare rid v sh) (Some e)
       (Some (e\<lparr>status := after_share F (g_pkp g) (randomizer e) sp P (bt_insert v sh shs)\<rparr>))"

lemma group_stable: "chain_inv F s \<Longrightarrow> apply_tx F s t = Ok s' \<Longrightarrow> group s = Some g \<Longrightarrow> group s' = Some g"
  by (cases t) (auto simp: arm_Ok chain_inv_def)

lemma apply_tx_entry_step:
  assumes "chain_inv F s" "apply_tx F s t = Ok s'" "group s' = Some g"
  shows "entry_step F g rid t (bt_get (requests s) rid) (bt_get (requests s') rid)"
proof (cases t)
  case (SubmitRequest r msg rz)
  with assms show ?thesis
    by (cases "rid = r") (auto simp: submit_request_Ok entry_new entry_idle)
next
  case (SubmitCommitment r v cm)
  with assms(2) obtain g' e cms where *: "group s = Some g'" "v \<in> dom (bt_get (g_validators g'))"
      "bt_get (requests s) r = Some e" "status e = AwaitingCommitments cms" "bt_get cms v = None"
    and s': "s' = s\<lparr>requests := bt_insert r (e\<lparr>status := after_commitment F (g_params g') (message e)
               (bt_insert v cm cms)\<rparr>) (requests s)\<rparr>"
    by (simp only: apply_tx.simps submit_commitment_Ok) blast
  with assms(3) have "g' = g" by simp
  with * show ?thesis
    unfolding s' SubmitCommitment using entry_commit [of e cms v g F r cm]
    by (cases "rid = r") (simp_all add: entry_idle)
next
  case (SubmitShare r v sh)
  with assms(2) obtain g' e sp P shs where *: "group s = Some g'"
      "v \<in> dom (bt_get (g_validators g'))" "bt_get (requests s) r = Some e"
      "status e = Signing sp P shs" "v \<in> dom (bt_get P)" "bt_get shs v = None"
    and s': "s' = s\<lparr>requests := bt_insert r (e\<lparr>status := after_share F (g_pkp g') (randomizer e) sp P
               (bt_insert v sh shs)\<rparr>) (requests s)\<rparr>"
    by (simp only: apply_tx.simps submit_share_Ok) blast
  with assms(3) have "g' = g" by simp
  with * show ?thesis
    unfolding s' SubmitShare using entry_share [of e sp P shs v g F r sh]
    by (cases "rid = r") (simp_all add: entry_idle)
qed (use assms in \<open>auto simp: arm_Ok finalize_next_def entry_idle\<close>)

lemma no_group_no_entry: "chain_inv F s \<Longrightarrow> group s = None \<Longrightarrow> bt_get (requests s) rid = None"
  by (simp add: no_request_without_group)

lemma run_inv: "run_all (apply_tx F) default_state txs = Ok s \<Longrightarrow> chain_inv F s"
  by (rule chain.run_all_inv [OF chain_inv_default])

lemma entry_step_provenance:
  assumes "entry_step F g rid t eo (Some e')"
    and "\<And>e. eo = Some e \<Longrightarrow> provenance F txs g rid e \<and> request_inv F g rid e"
  shows "provenance F (txs @ [t]) g rid e'"
  using assms(1)
proof cases
  case entry_idle
  with assms(2) show ?thesis
    by (auto simp: provenance_def intro: status_prov_mono)
next
  case (entry_new msg rz)
  then show ?thesis by (simp add: provenance_def status_prov_def commitments_from_def)
next
  case (entry_commit e cms v cm)
  with assms(2) show ?thesis
    by (auto simp: provenance_def request_inv_def status_prov_def [of _ _ _ _ _ _ "AwaitingCommitments cms"]
        intro: after_commitment_prov)
next
  case (entry_share e sp P shs v sh)
  with assms(2) show ?thesis
    by (auto simp: provenance_def request_inv_def intro: after_share_prov)
qed

lemma run_provenance:
  assumes "run_all (apply_tx F) default_state txs = Ok s" "bt_get (requests s) rid = Some e"
  shows "\<exists>g. group s = Some g \<and> provenance F txs g rid e"
  using assms
proof (induction txs arbitrary: s e rule: rev_induct)
  case Nil
  then show ?case by (auto simp: default_state_def)
next
  case (snoc t txs)
  then obtain s0 where s0: "run_all (apply_tx F) default_state txs = Ok s0" "apply_tx F s0 t = Ok s"
    by (auto simp: run_all_snoc)
  have inv: "chain_inv F s0" "chain_inv F s" using run_inv s0(1) snoc.prems(1) by auto
  from inv(2) snoc.prems(2) obtain g where g: "group s = Some g"
    unfolding chain_inv_def by blast
  have "provenance F txs g rid e0 \<and> request_inv F g rid e0" if e0: "bt_get (requests s0) rid = Some e0" for e0
  proof -
    from snoc.IH [OF s0(1) e0] obtain g0 where "group s0 = Some g0" "provenance F txs g0 rid e0" by blast
    moreover from this group_stable [OF inv(1) s0(2)] g have "g0 = g" by simp
    ultimately show ?thesis using request_invD [OF inv(1) _ e0] by simp
  qed
  with entry_step_provenance [of F g rid t "bt_get (requests s0) rid" e txs]
    apply_tx_entry_step [OF inv(1) s0(2) g, of rid] snoc.prems(2) g
  show ?case by simp
qed

text \<open>
  C4. A signature on the chain comes from the threshold. After any run of accepted transactions
  from the initial state, a completed request was submitted with exactly its message and
  randomizer, its participants are members of the group and as many as the threshold (which is not
  zero), each of them submitted in this run one of the commitments and one of the shares that were
  aggregated, and the signature is the aggregation of exactly those under the group's key and the
  request's randomizer.
\<close>

theorem completed_from_threshold:
  assumes "run_all (apply_tx F) default_state txs = Ok s"
    and "bt_get (requests s) rid = Some e" "status e = Completed P sg"
  shows "\<exists>g cms shs. group s = Some g \<and> request_id e = rid \<and>
     SubmitRequest rid (message e) (randomizer e) \<in> set txs \<and>
     dom (bt_get P) \<subseteq> dom (bt_get (g_validators g)) \<and>
     card (dom (bt_get P)) = unat (threshold (g_params g)) \<and> 0 < unat (threshold (g_params g)) \<and>
     dom (bt_get cms) = dom (bt_get P) \<and> dom (bt_get shs) = dom (bt_get P) \<and>
     (\<forall>v cm. bt_get cms v = Some cm \<longrightarrow> SubmitCommitment rid v cm \<in> set txs) \<and>
     (\<forall>v sh. bt_get shs v = Some sh \<longrightarrow> SubmitShare rid v sh \<in> set txs) \<and>
     aggregate F (signing_package_new F cms (message e)) shs (g_pkp g)
       (from_randomizer F (verifying_key F (g_pkp g)) (randomizer e)) = Inr sg"
proof -
  from run_provenance [OF assms(1,2)] obtain g where g: "group s = Some g"
    and prov: "provenance F txs g rid e" by blast
  have "request_inv F g rid e" by (rule request_invD [OF run_inv [OF assms(1)] g assms(2)])
  then have "request_id e = rid" "dom (bt_get P) \<subseteq> dom (bt_get (g_validators g))"
    "card (dom (bt_get P)) = unat (threshold (g_params g))" "0 < unat (threshold (g_params g))"
    using assms(3) by (auto simp: request_inv_def status_inv_def Let_def bt_len_card)
  moreover from prov assms(3) obtain cms shs where
    "SubmitRequest rid (message e) (randomizer e) \<in> set txs"
    "dom (bt_get cms) = dom (bt_get P)" "dom (bt_get shs) = dom (bt_get P)"
    "commitments_from txs rid cms" "shares_from txs rid shs"
    "aggregate F (signing_package_new F cms (message e)) shs (g_pkp g)
       (from_randomizer F (verifying_key F (g_pkp g)) (randomizer e)) = Inr sg"
    by (auto simp: provenance_def status_prov_def)
  ultimately show ?thesis using g unfolding commitments_from_def shares_from_def by blast
qed

theorem completed_from_threshold_witness:
  "\<exists>g cms shs. group toy_final = Some g \<and>
     card (dom (bt_get (bs_collect [1 :: nat, 3]))) = unat (threshold (g_params g)) \<and>
     dom (bt_get cms) = dom (bt_get (bs_collect [1 :: nat, 3])) \<and>
     (\<forall>v sh. bt_get shs v = Some sh \<longrightarrow> SubmitShare toy_rid v sh \<in> set toy_run) \<and>
     aggregate toy_frost (signing_package_new toy_frost cms [104, 105]) shs (g_pkp g)
       (from_randomizer toy_frost (verifying_key toy_frost (g_pkp g)) 7) = Inr 413"
proof -
  have "bt_get (requests toy_final) toy_rid = Some toy_entry" by (simp add: toy_final_def)
  moreover have "status toy_entry = Completed (bs_collect [1, 3]) 413"
    "message toy_entry = [104, 105]" "randomizer toy_entry = 7" by (simp_all add: toy_entry_def)
  ultimately show ?thesis
    using completed_from_threshold [OF toy_run_Ok, of toy_rid toy_entry "bs_collect [1, 3]" 413]
    by metis
qed

section \<open>What never changes again\<close>

fun status_le ::
  "('i, 'cm, 'sp, 'sh, 'sg) request_status \<Rightarrow> ('i, 'cm, 'sp, 'sh, 'sg) request_status \<Rightarrow> bool" where
  "status_le (AwaitingCommitments cms) (AwaitingCommitments cms') = (bt_get cms \<subseteq>\<^sub>m bt_get cms')"
| "status_le (AwaitingCommitments cms) _ = True"
| "status_le (Signing sp P shs) (Signing sp' P' shs') =
     (sp = sp' \<and> P = P' \<and> bt_get shs \<subseteq>\<^sub>m bt_get shs')"
| "status_le (Signing sp P shs) (Completed P' sg) = (P = P')"
| "status_le (Signing sp P shs) (Failed reason) = True"
| "status_le (Completed P sg) st = (st = Completed P sg)"
| "status_le (Failed reason) st = (st = Failed reason)"
| "status_le _ _ = False"

definition entry_le ::
  "('i, 'cm, 'rz, 'sp, 'sh, 'sg) request_entry \<Rightarrow> ('i, 'cm, 'rz, 'sp, 'sh, 'sg) request_entry \<Rightarrow> bool" where
  "entry_le e e' \<longleftrightarrow> request_id e' = request_id e \<and> message e' = message e \<and>
     randomizer e' = randomizer e \<and> status_le (status e) (status e')"

definition chain_le ::
  "('i, 'pkp, 'p1, 'cm, 'rz, 'sp, 'sh, 'sg) state \<Rightarrow>
   ('i, 'pkp, 'p1, 'cm, 'rz, 'sp, 'sh, 'sg) state \<Rightarrow> bool" where
  "chain_le s s' \<longleftrightarrow>
     (\<forall>g. group s = Some g \<longrightarrow> group s' = Some g) \<and>
     (\<forall>rid e. bt_get (requests s) rid = Some e \<longrightarrow>
        (\<exists>e'. bt_get (requests s') rid = Some e' \<and> entry_le e e'))"

lemma status_le_refl [simp]: "status_le st st"
  by (cases st) auto

lemma status_le_trans: "status_le a b \<Longrightarrow> status_le b c \<Longrightarrow> status_le a c"
  by (cases a; cases b; cases c) (auto intro: map_le_trans)

lemma insert_map_le: "bt_get m k = None \<Longrightarrow> bt_get m \<subseteq>\<^sub>m bt_get (bt_insert k v m)"
  by (auto simp: map_le_def)

lemma entry_step_le:
  assumes "entry_step F g rid t (Some e) eo'"
  shows "\<exists>e'. eo' = Some e' \<and> entry_le e e'"
  using assms
proof cases
  case (entry_commit cms v cm)
  then show ?thesis
    using insert_map_le [of cms v cm]
    by (simp add: entry_le_def after_commitment_def Let_def del: bt_get_insert)
next
  case (entry_share sp P shs v sh)
  then show ?thesis
    using insert_map_le [of shs v sh]
    by (simp add: entry_le_def after_share_def del: bt_get_insert split: sum.splits)
qed (simp_all add: entry_le_def)

lemma apply_tx_le:
  assumes inv: "chain_inv F s" and ok: "apply_tx F s t = Ok s'"
  shows "chain_le s s'"
proof -
  have "\<exists>e'. bt_get (requests s') rid = Some e' \<and> entry_le e e'"
    if e: "bt_get (requests s) rid = Some e" for rid e
  proof -
    from inv e obtain g where "group s = Some g" unfolding chain_inv_def by blast
    with inv ok have "group s' = Some g" by (rule group_stable)
    from apply_tx_entry_step [OF inv ok this, of rid] e show ?thesis
      by (auto dest: entry_step_le)
  qed
  with group_stable [OF inv ok] show ?thesis unfolding chain_le_def by blast
qed

lemma chain_le_refl: "chain_le s s"
  by (simp add: chain_le_def entry_le_def)

lemma entry_le_trans: "entry_le a b \<Longrightarrow> entry_le b c \<Longrightarrow> entry_le a c"
  by (auto simp: entry_le_def intro: status_le_trans)

lemma chain_le_trans: "chain_le a b \<Longrightarrow> chain_le b c \<Longrightarrow> chain_le a c"
  unfolding chain_le_def by (blast intro: entry_le_trans)

interpretation chain_mono: monotone_system "apply_tx F" "chain_inv F" chain_le for F
  by unfold_locales (fact chain_le_refl, erule (1) chain_le_trans, erule (1) apply_tx_le)

text \<open>
  C26. The chain is monotonic. From any reachable state on, whatever transactions are applied
  (rejected ones skipped), the group never changes once it is set, no request disappears, its
  identifier, message and randomizer stay as submitted, commitments and shares are only ever
  added, the participants chosen for signing stay the same, and a completed or failed request stays
  exactly as it is.
\<close>

theorem chain_monotone:
  assumes "reach (apply_tx F) default_state s" "run_skip (apply_tx F) s txs = Ok s'"
  shows "(\<forall>g. group s = Some g \<longrightarrow> group s' = Some g) \<and>
     (\<forall>rid e. bt_get (requests s) rid = Some e \<longrightarrow>
        (\<exists>e'. bt_get (requests s') rid = Some e' \<and> request_id e' = request_id e \<and>
           message e' = message e \<and> randomizer e' = randomizer e \<and>
           status_le (status e) (status e')))"
  using chain_mono.run_skip_rel [OF reachable_inv [OF assms(1)] assms(2)]
  by (simp add: chain_le_def entry_le_def)

theorem chain_monotone_witness:
  "reach (apply_tx toy_frost) default_state toy_final \<and>
   run_skip (apply_tx toy_frost) toy_final [SubmitShare toy_rid 2 200] = Ok toy_final \<and>
   group toy_final = Some toy_group \<and>
   (\<exists>e'. bt_get (requests toy_final) toy_rid = Some e' \<and> message e' = [104, 105])"
proof -
  have r: "reach (apply_tx toy_frost) default_state toy_final"
    by (rule run_all_reach [OF toy_run_Ok])
  have skip: "run_skip (apply_tx toy_frost) toy_final [SubmitShare toy_rid 2 200] = Ok toy_final"
    by (simp add: toy_defs apply_submit_share_def require_group_def)
  have "group toy_final = Some toy_group" "bt_get (requests toy_final) toy_rid = Some toy_entry"
    "message toy_entry = [104, 105]"
    by (simp_all add: toy_final_def toy_entry_def)
  with chain_monotone [OF r skip] r skip show ?thesis by metis
qed

end
