(* ===== verification/Chain_Service.thy ===== *)
theory Chain_Service
  imports Chain_Props
begin

text \<open>
  What the chain promises, as an abstract service: a roster with a quorum, and for every signing
  request the set of validators that have committed, the participants and those whose share has
  arrived, or the outcome. Maps, packages and the order of the guards are gone. The state machine of
  \<open>sapphire-chain/src/state.rs\<close> is a simulation of the service, and accepts every request, commitment and
  share the service allows.
\<close>

section \<open>The service\<close>

datatype ('i, 'sg) phase =
    Open "'i set"
  | Chosen "'i set" "'i set"
  | Signed "'i set" 'sg
  | Aborted

record ('i, 'pkp) roster =
  key :: 'pkp
  quorum :: nat
  members :: "'i set"

record ('i, 'pkp, 'rz, 'sg) service =
  roster :: "('i, 'pkp) roster option"
  sessions :: "uuid \<rightharpoonup> u8 list \<times> 'rz \<times> ('i, 'sg) phase"

datatype ('i, 'pkp, 'rz) service_event =
    Install "('i, 'pkp) roster"
  | Keygen
  | Request uuid "u8 list" 'rz
  | Commit uuid 'i
  | Share uuid 'i

text \<open>The transitions, over what a valid outcome of the participants' signing is.\<close>

inductive service_step ::
  "('pkp \<Rightarrow> 'rz \<Rightarrow> u8 list \<Rightarrow> 'i set \<Rightarrow> 'sg \<Rightarrow> bool) \<Rightarrow> ('i, 'pkp, 'rz, 'sg) service \<Rightarrow>
   ('i, 'pkp, 'rz) service_event \<Rightarrow> ('i, 'pkp, 'rz, 'sg) service \<Rightarrow> bool"
  for sound where
  install: "roster a = None \<Longrightarrow> finite (members r) \<Longrightarrow> service_step sound a (Install r) (a\<lparr>roster := Some r\<rparr>)"
| keygen: "service_step sound a Keygen a"
| keygen_ends: "roster a = None \<Longrightarrow> finite (members r) \<Longrightarrow> service_step sound a Keygen (a\<lparr>roster := Some r\<rparr>)"
| request: "roster a = Some r \<Longrightarrow> sessions a rid = None \<Longrightarrow>
    service_step sound a (Request rid msg rz) (a\<lparr>sessions := (sessions a)(rid \<mapsto> (msg, rz, Open {}))\<rparr>)"
| commit: "roster a = Some r \<Longrightarrow> sessions a rid = Some (msg, rz, Open A) \<Longrightarrow> v \<in> members r - A \<Longrightarrow>
    card (insert v A) < quorum r \<Longrightarrow>
    service_step sound a (Commit rid v) (a\<lparr>sessions := (sessions a)(rid \<mapsto> (msg, rz, Open (insert v A)))\<rparr>)"
| choose: "roster a = Some r \<Longrightarrow> sessions a rid = Some (msg, rz, Open A) \<Longrightarrow> v \<in> members r - A \<Longrightarrow>
    P \<subseteq> insert v A \<Longrightarrow> card P = quorum r \<Longrightarrow> finite P \<Longrightarrow>
    service_step sound a (Commit rid v) (a\<lparr>sessions := (sessions a)(rid \<mapsto> (msg, rz, Chosen P {}))\<rparr>)"
| share: "roster a = Some r \<Longrightarrow> sessions a rid = Some (msg, rz, Chosen P H) \<Longrightarrow> v \<in> P - H \<Longrightarrow>
    insert v H \<noteq> P \<Longrightarrow>
    service_step sound a (Share rid v) (a\<lparr>sessions := (sessions a)(rid \<mapsto> (msg, rz, Chosen P (insert v H)))\<rparr>)"
| sign: "roster a = Some r \<Longrightarrow> sessions a rid = Some (msg, rz, Chosen P H) \<Longrightarrow> v \<in> P - H \<Longrightarrow>
    insert v H = P \<Longrightarrow> sound (key r) rz msg P sg \<Longrightarrow>
    service_step sound a (Share rid v) (a\<lparr>sessions := (sessions a)(rid \<mapsto> (msg, rz, Signed P sg))\<rparr>)"
| abort: "roster a = Some r \<Longrightarrow> sessions a rid = Some (msg, rz, Chosen P H) \<Longrightarrow> v \<in> P - H \<Longrightarrow>
    insert v H = P \<Longrightarrow>
    service_step sound a (Share rid v) (a\<lparr>sessions := (sessions a)(rid \<mapsto> (msg, rz, Aborted))\<rparr>)"

inductive_cases commit_eventE: "service_step sound a (Commit rid v) b"
inductive_cases share_eventE: "service_step sound a (Share rid v) b"
inductive_cases request_eventE: "service_step sound a (Request rid msg rz) b"

definition empty_service :: "('i, 'pkp, 'rz, 'sg) service" where
  "empty_service = \<lparr>roster = None, sessions = Map.empty\<rparr>"

section \<open>The abstraction\<close>

fun phase_of :: "('i::linorder, 'cm, 'sp, 'sh, 'sg) request_status \<Rightarrow> ('i, 'sg) phase" where
  "phase_of (AwaitingCommitments cms) = Open (dom (bt_get cms))"
| "phase_of (Signing sp P shs) = Chosen (dom (bt_get P)) (dom (bt_get shs))"
| "phase_of (Completed P sg) = Signed (dom (bt_get P)) sg"
| "phase_of (Failed reason) = Aborted"

definition session_of ::
  "('i::linorder, 'cm, 'rz, 'sp, 'sh, 'sg) request_entry \<Rightarrow> u8 list \<times> 'rz \<times> ('i, 'sg) phase" where
  "session_of e = (message e, randomizer e, phase_of (status e))"

definition roster_of :: "('i::linorder, 'pkp) group_config \<Rightarrow> ('i, 'pkp) roster" where
  "roster_of g = \<lparr>key = g_pkp g, quorum = unat (threshold (g_params g)), members = dom (bt_get (g_validators g))\<rparr>"

definition service_of ::
  "('i::linorder, 'pkp, 'p1, 'cm, 'rz, 'sp, 'sh, 'sg) state \<Rightarrow> ('i, 'pkp, 'rz, 'sg) service" where
  "service_of s = \<lparr>roster = map_option roster_of (group s),
     sessions = (\<lambda>rid. map_option session_of (bt_get (requests s) rid))\<rparr>"

fun event_of :: "('i, 'pkp, 'p1, 'cm, 'rz, 'sh) tx \<Rightarrow> ('i, 'pkp, 'rz) service_event" where
  "event_of (InitGroup p pkp vs) = Install \<lparr>key = pkp, quorum = unat (threshold p), members = set vs\<rparr>"
| "event_of (DkgBegin p vs) = Keygen"
| "event_of (DkgRound1 i p) = Keygen"
| "event_of (DkgRound2 i j env) = Keygen"
| "event_of (DkgFinalize i pkp) = Keygen"
| "event_of (SubmitRequest rid msg rz) = Request rid msg rz"
| "event_of (SubmitCommitment rid v cm) = Commit rid v"
| "event_of (SubmitShare rid v sh) = Share rid v"

definition signature_sound ::
  "('i::linorder, 'pkp, 'vk, 'vs, 'cm, 'rz, 'rp, 'sp, 'sh, 'sg) frost \<Rightarrow>
   'pkp \<Rightarrow> 'rz \<Rightarrow> u8 list \<Rightarrow> 'i set \<Rightarrow> 'sg \<Rightarrow> bool" where
  "signature_sound F pkp rz msg P sg \<longleftrightarrow> aggregated F pkp rz msg P (Inr sg)"

lemma service_of_simps [simp]:
  "roster (service_of s) = map_option roster_of (group s)"
  "sessions (service_of s) rid = map_option session_of (bt_get (requests s) rid)"
  by (simp_all add: service_of_def)

lemma set_entry_sessions:
  "service_of (s\<lparr>requests := bt_insert rid e (requests s)\<rparr>) =
     (service_of s)\<lparr>sessions := (sessions (service_of s))(rid \<mapsto> session_of e)\<rparr>"
  by (auto simp: service_of_def)

section \<open>The chain is a simulation\<close>

lemma key_generation_sim:
  assumes "apply_dkg_begin s p vs = Ok s' \<or> apply_dkg_round1 F s i p1 = Ok s' \<or> apply_dkg_round2 F s i j env = Ok s'"
  shows "service_of s' = service_of s"
  using assms by (auto simp: arm_Ok service_of_def)

lemma finalize_sim:
  assumes "chain_inv F s" "apply_dkg_finalize F s i pkp = Ok s'"
  shows "service_step sound (service_of s) Keygen (service_of s')"
proof -
  from assms obtain c where "group s = None" and s': "s' = finalize_next s (c\<lparr>finalize := bt_insert i pkp (finalize c)\<rparr>)"
    by (auto simp: dkg_finalize_Ok chain_inv_def)
  then show ?thesis
    using keygen_ends [of "service_of s" _ sound] keygen [of sound "service_of s"]
    by (auto simp: finalize_next_def service_of_def roster_of_def)
qed

lemma commit_sim:
  assumes inv: "chain_inv F s" and ok: "apply_submit_commitment F s rid v cm = Ok s'"
  shows "service_step sound (service_of s) (Commit rid v) (service_of s')"
proof -
  from ok obtain g e cms where *: "group s = Some g" "v \<in> dom (bt_get (g_validators g))"
      "bt_get (requests s) rid = Some e" "status e = AwaitingCommitments cms" "bt_get cms v = None"
    and s': "s' = s\<lparr>requests := bt_insert rid (e\<lparr>status := after_commitment F (g_params g) (message e)
               (bt_insert v cm cms)\<rparr>) (requests s)\<rparr>"
    unfolding submit_commitment_Ok by blast
  let ?m = "bt_insert v cm cms" and ?t = "unat (threshold (g_params g))" and ?A = "dom (bt_get cms)"
  have "bt_len cms < max 1 ?t"
    using request_invD [OF inv *(1,3)] *(4) by (simp add: request_inv_def status_inv_def Let_def)
  then have len: "bt_len ?m \<le> max 1 ?t" using *(5) by (simp add: bt_len_insert)
  have card: "bt_len ?m = card (insert v ?A)" by (simp add: bt_len_card)
  have ros: "roster (service_of s) = Some (roster_of g)"
    and ses: "sessions (service_of s) rid = Some (message e, randomizer e, Open ?A)"
    and v: "v \<in> members (roster_of g) - ?A" and q: "quorum (roster_of g) = ?t"
    using * by (simp_all add: session_of_def roster_of_def domIff)
  have s'': "service_of s' = (service_of s)\<lparr>sessions := (sessions (service_of s))
      (rid \<mapsto> (message e, randomizer e, phase_of (after_commitment F (g_params g) (message e) ?m)))\<rparr>"
    unfolding s' set_entry_sessions by (simp add: session_of_def)
  show ?thesis
  proof (cases "bt_len ?m < ?t")
    case True
    then show ?thesis
      using commit [OF ros ses v, of sound] card q unfolding s'' after_commitment_cases [OF len] by simp
  next
    case False
    let ?P = "if threshold (g_params g) = 0 then {} else insert v ?A"
    have "phase_of (after_commitment F (g_params g) (message e) ?m) = Chosen ?P {}"
      using False unfolding after_commitment_cases [OF len] by simp
    moreover have "card ?P = quorum (roster_of g)"
      using False len card q by (auto simp: unat_eq_0 [symmetric] max_def split: if_splits)
    ultimately show ?thesis using choose [OF ros ses v, of ?P sound] unfolding s'' by auto
  qed
qed

lemma share_sim:
  assumes inv: "chain_inv F s" and ok: "apply_submit_share F s rid v sh = Ok s'"
  shows "service_step (signature_sound F) (service_of s) (Share rid v) (service_of s')"
proof -
  from ok obtain g e sp P shs where *: "group s = Some g"
      "bt_get (requests s) rid = Some e" "status e = Signing sp P shs"
      "v \<in> dom (bt_get P)" "bt_get shs v = None"
    and s': "s' = s\<lparr>requests := bt_insert rid (e\<lparr>status := after_share F (g_pkp g) (randomizer e) sp P
               (bt_insert v sh shs)\<rparr>) (requests s)\<rparr>"
    unfolding submit_share_Ok by blast
  let ?m = "bt_insert v sh shs" and ?P = "dom (bt_get P)" and ?H = "dom (bt_get shs)"
  have st: "status_inv F g (message e) (randomizer e) (Signing sp P shs)"
    using request_invD [OF inv *(1,2)] *(3) by (simp add: request_inv_def)
  then have sub: "dom (bt_get ?m) \<subseteq> ?P" using *(4) by (auto simp: status_inv_def Let_def)
  from st obtain cms where cms: "dom (bt_get cms) = ?P" "sp = signing_package_new F cms (message e)"
    by (auto simp: status_inv_def Let_def)
  have full: "bt_len ?m = bt_len P \<longleftrightarrow> insert v ?H = ?P" using full_iff [OF sub] by simp
  have ros: "roster (service_of s) = Some (roster_of g)" and k: "key (roster_of g) = g_pkp g"
    and ses: "sessions (service_of s) rid = Some (message e, randomizer e, Chosen ?P ?H)" and v: "v \<in> ?P - ?H"
    using * by (simp_all add: session_of_def roster_of_def domIff)
  have s'': "service_of s' = (service_of s)\<lparr>sessions := (sessions (service_of s))
      (rid \<mapsto> (message e, randomizer e, phase_of (after_share F (g_pkp g) (randomizer e) sp P ?m)))\<rparr>"
    unfolding s' set_entry_sessions by (simp add: session_of_def)
  show ?thesis
  proof (cases "bt_len ?m = bt_len P")
    case False
    then show ?thesis using share [OF ros ses v, of "signature_sound F"] full unfolding s'' by (simp add: after_share_def)
  next
    case True
    let ?agg = "aggregate F sp ?m (g_pkp g) (from_randomizer F (verifying_key F (g_pkp g)) (randomizer e))"
    have agg: "aggregated F (g_pkp g) (randomizer e) (message e) ?P ?agg"
      unfolding aggregated_def using cms True full by (intro exI [of _ cms] exI [of _ ?m]) simp
    show ?thesis
    proof (cases ?agg)
      case (Inl reason)
      then show ?thesis using abort [OF ros ses v, of "signature_sound F"] True full unfolding s'' by (simp add: after_share_def)
    next
      case (Inr sg)
      then show ?thesis
        using sign [OF ros ses v, of "signature_sound F" sg] True full agg unfolding s''
        by (simp add: after_share_def signature_sound_def k)
    qed
  qed
qed

lemma apply_tx_sim:
  assumes "chain_inv F s" "apply_tx F s t = Ok s'"
  shows "service_step (signature_sound F) (service_of s) (event_of t) (service_of s')"
proof (cases t)
  case (InitGroup p pkp vs)
  then have "service_of s' = (service_of s)\<lparr>roster := Some \<lparr>key = pkp, quorum = unat (threshold p), members = set vs\<rparr>\<rparr>"
    "roster (service_of s) = None"
    using assms by (auto simp: init_group_Ok service_of_def roster_of_def)
  then show ?thesis using InitGroup by (simp add: install)
next
  case (SubmitRequest rid msg rz)
  then show ?thesis
    using assms request [of "service_of s" _ rid "signature_sound F" msg rz]
    by (auto simp: submit_request_Ok set_entry_sessions session_of_def)
next
  case (DkgBegin p vs)
  then show ?thesis using assms(2) keygen key_generation_sim by (metis apply_tx.simps(2) event_of.simps(2))
next
  case (DkgRound1 i p)
  then show ?thesis using assms(2) keygen key_generation_sim by (metis apply_tx.simps(3) event_of.simps(3))
next
  case (DkgRound2 i j env)
  then show ?thesis using assms(2) keygen key_generation_sim by (metis apply_tx.simps(4) event_of.simps(4))
qed (use assms commit_sim share_sim finalize_sim in auto)

interpretation service: simulation "apply_tx F" "chain_inv F" "service_step (signature_sound F)" service_of event_of
  by unfold_locales (rule apply_tx_sim)

section \<open>What the service keeps\<close>

fun phase_safe ::
  "('pkp \<Rightarrow> 'rz \<Rightarrow> u8 list \<Rightarrow> 'i set \<Rightarrow> 'sg \<Rightarrow> bool) \<Rightarrow> ('i, 'pkp) roster \<Rightarrow> u8 list \<times> 'rz \<times> ('i, 'sg) phase \<Rightarrow> bool" where
  "phase_safe sound r (msg, rz, Open A) \<longleftrightarrow> A \<subseteq> members r"
| "phase_safe sound r (msg, rz, Chosen P H) \<longleftrightarrow> P \<subseteq> members r \<and> card P = quorum r \<and> H \<subset> P \<or> P = {} \<and> H = {} \<and> quorum r = 0"
| "phase_safe sound r (msg, rz, Signed P sg) \<longleftrightarrow>
     P \<subseteq> members r \<and> card P = quorum r \<and> 0 < quorum r \<and> sound (key r) rz msg P sg"
| "phase_safe sound r (msg, rz, Aborted) \<longleftrightarrow> 0 < quorum r"

definition service_safe ::
  "('pkp \<Rightarrow> 'rz \<Rightarrow> u8 list \<Rightarrow> 'i set \<Rightarrow> 'sg \<Rightarrow> bool) \<Rightarrow> ('i, 'pkp, 'rz, 'sg) service \<Rightarrow> bool" where
  "service_safe sound a \<longleftrightarrow>
     (\<forall>r. roster a = Some r \<longrightarrow> finite (members r)) \<and>
     (\<forall>rid x. sessions a rid = Some x \<longrightarrow> (\<exists>r. roster a = Some r \<and> phase_safe sound r x))"

lemma chosen_safe:
  assumes "P \<subseteq> insert v A" "A \<subseteq> members r" "v \<in> members r" "card P = quorum r" "finite P"
  shows "phase_safe sound r (msg, rz, Chosen P {})"
  using assms by (cases "P = {}") auto

lemma share_positive:
  assumes "phase_safe sound r (msg, rz, Chosen P H)" "v \<in> P - H" "finite (members r)"
  shows "P \<subseteq> members r \<and> card P = quorum r \<and> 0 < quorum r"
proof -
  have "P \<subseteq> members r" "card P = quorum r" using assms(1,2) by auto
  moreover have "finite P" using \<open>P \<subseteq> members r\<close> assms(3) by (rule finite_subset)
  then have "0 < card P" using assms(2) by (auto simp: card_gt_0_iff)
  ultimately show ?thesis by simp
qed

lemma service_step_safe:
  assumes safe: "service_safe sound a" and st: "service_step sound a l b"
  shows "service_safe sound b"
  using st
proof cases
  case (choose r rid msg rz A v P)
  then have "phase_safe sound r (msg, rz, Open A)" using safe by (fastforce simp: service_safe_def)
  then have "phase_safe sound r (msg, rz, Chosen P {})" using choose by (intro chosen_safe [of P v A]) auto
  then show ?thesis using choose safe by (auto simp: service_safe_def)
next
  case (share r rid msg rz P H v)
  then have "phase_safe sound r (msg, rz, Chosen P H)" using safe by (fastforce simp: service_safe_def)
  then show ?thesis using share safe by (auto simp: service_safe_def)
next
  case (sign r rid msg rz P H v sg)
  then have "phase_safe sound r (msg, rz, Chosen P H)" "finite (members r)"
    using safe by (fastforce simp: service_safe_def)+
  from share_positive [OF this(1) sign(5) this(2)] show ?thesis
    using sign safe by (auto simp: service_safe_def)
next
  case (abort r rid msg rz P H v)
  then have "phase_safe sound r (msg, rz, Chosen P H)" "finite (members r)"
    using safe by (fastforce simp: service_safe_def)+
  from share_positive [OF this(1) abort(5) this(2)] show ?thesis
    using abort safe by (auto simp: service_safe_def)
next
  case (commit r rid msg rz A v)
  then have "phase_safe sound r (msg, rz, Open A)" using safe by (fastforce simp: service_safe_def)
  then show ?thesis using commit safe by (auto simp: service_safe_def)
qed (use safe in \<open>auto simp: service_safe_def\<close>)

section \<open>The chain accepts what the service allows\<close>

lemma phase_of_eq [simp]:
  "phase_of st = Open A \<longleftrightarrow> (\<exists>cms. st = AwaitingCommitments cms \<and> A = dom (bt_get cms))"
  "phase_of st = Chosen Q H \<longleftrightarrow> (\<exists>sp P shs. st = Signing sp P shs \<and> Q = dom (bt_get P) \<and> H = dom (bt_get shs))"
  by (cases st; auto)+

lemma commit_allowed:
  assumes "service_step sound (service_of s) (Commit rid v) b"
  shows "\<exists>s'. apply_submit_commitment F s rid v cm = Ok s'"
  using assms
  by (elim commit_eventE) (auto simp: submit_commitment_Ok session_of_def roster_of_def domIff)

lemma share_enabled:
  assumes "service_step sound a (Share rid v) b"
  shows "\<exists>r msg rz P H. roster a = Some r \<and> sessions a rid = Some (msg, rz, Chosen P H) \<and> v \<in> P \<and> v \<notin> H"
  using assms by (rule share_eventE) blast+

lemma share_allowed:
  assumes inv: "chain_inv F s" and st: "service_step sound (service_of s) (Share rid v) b"
  shows "\<exists>s'. apply_submit_share F s rid v sh = Ok s'"
proof -
  from st obtain g e sp P shs where *: "group s = Some g" "bt_get (requests s) rid = Some e" "status e = Signing sp P shs"
    "v \<in> dom (bt_get P)" "v \<notin> dom (bt_get shs)"
    using share_enabled [OF st] by (fastforce simp: session_of_def)
  then have "dom (bt_get P) \<subseteq> dom (bt_get (g_validators g))"
    using request_invD [OF inv *(1,2)] by (simp add: request_inv_def status_inv_def Let_def)
  then show ?thesis using * by (auto simp: submit_share_Ok domIff)
qed

fun session_tx :: "('i, 'pkp, 'p1, 'cm, 'rz, 'sh) tx \<Rightarrow> bool" where
  "session_tx (SubmitRequest rid msg rz) = True"
| "session_tx (SubmitCommitment rid v cm) = True"
| "session_tx (SubmitShare rid v sh) = True"
| "session_tx _ = False"

lemma session_allowed:
  assumes inv: "chain_inv F s" and "session_tx t" and st: "service_step sound (service_of s) (event_of t) b"
  shows "\<exists>s'. apply_tx F s t = Ok s'"
  using assms(2)
proof (cases t rule: session_tx.cases)
  case (1 rid msg rz)
  then show ?thesis using st by (auto elim!: request_eventE simp: submit_request_Ok)
qed (use st commit_allowed share_allowed [OF inv] in auto)

text \<open>
  C6. The chain implements an abstract signing service. The service knows a roster with a quorum and,
  for each request, who has committed, the participants, whose share has arrived and the outcome.
  Every run of accepted transactions from the initial state is a run of the service, event by event,
  with the abstraction of the state it ends in; that abstraction is safe (participants are a quorum of
  members, a signature is sound for exactly the participants); and a request, commitment or share is
  accepted exactly when the service can take it as its next event.
\<close>

theorem chain_refines_service:
  assumes "run_all (apply_tx F) default_state txs = Ok s"
  shows "traces (service_step (signature_sound F)) empty_service (map event_of txs) (service_of s) \<and>
    service_safe (signature_sound F) (service_of s) \<and>
    (\<forall>t. session_tx t \<longrightarrow>
      ((\<exists>s'. apply_tx F s t = Ok s') \<longleftrightarrow> (\<exists>b. service_step (signature_sound F) (service_of s) (event_of t) b)))"
proof (intro conjI allI impI)
  have start: "service_of default_state = empty_service"
    by (simp add: service_of_def default_state_def empty_service_def)
  have inv: "chain_inv F s" using assms by (rule run_inv)
  show "traces (service_step (signature_sound F)) empty_service (map event_of txs) (service_of s)"
    using service.run_traces [OF chain_inv_default assms] unfolding start .
  show "service_safe (signature_sound F) (service_of s)"
  proof (rule service.reach_abstract [where I = "service_safe (signature_sound F)"])
    show "reach (apply_tx F) default_state s" using assms by (rule run_all_reach)
    show "service_safe (signature_sound F) (service_of default_state)"
      unfolding start by (simp add: service_safe_def empty_service_def)
  qed (simp, rule service_step_safe)
  show "(\<exists>s'. apply_tx F s t = Ok s') \<longleftrightarrow> (\<exists>b. service_step (signature_sound F) (service_of s) (event_of t) b)"
    if "session_tx t" for t
    using session_allowed [OF inv that] apply_tx_sim [OF inv] by blast
qed

theorem chain_refines_service_witness:
  "traces (service_step (signature_sound toy_frost)) empty_service
     [Install \<lparr>key = [1, 2, 3], quorum = 2, members = {1, 2, 3}\<rparr>, Request toy_rid [104, 105] 7,
      Commit toy_rid 3, Commit toy_rid 1, Share toy_rid 1, Share toy_rid 3] (service_of toy_final) \<and>
   sessions (service_of toy_final) toy_rid = Some ([104, 105], 7, Signed {1, 3} 413)"
proof -
  have "traces (service_step (signature_sound toy_frost)) empty_service (map event_of toy_run) (service_of toy_final)"
    using chain_refines_service [OF toy_run_Ok] by (rule conjunct1)
  then show ?thesis
    by (simp add: toy_run_def toy_final_def toy_entry_def session_of_def toy_params_def)
qed

end
