(* ===== verification/Chain_Sim.thy ===== *)
theory Chain_Sim
  imports Chain_Props
begin

text \<open>
  The in-process simulator of \<open>sapphire-chain/src/sim.rs\<close>: a mempool in front of the state
  machine and the commitment of blocks. The blocks that a simulator commits are a log of its state:
  replaying the accepted transactions from the empty chain gives the state again.
\<close>

section \<open>The simulator\<close>

record ('i, 'pkp, 'p1, 'cm, 'rz, 'sp, 'sh, 'sg) chain_sim =
  sim_state :: "('i, 'pkp, 'p1, 'cm, 'rz, 'sp, 'sh, 'sg) state"
  mempool :: "('i, 'pkp, 'p1, 'cm, 'rz, 'sh) tx list"
  block_height :: u64
  last_block :: "('i, 'pkp, 'p1, 'cm, 'rz, 'sh) tx list"

definition sim_default :: "('i::linorder, 'pkp, 'p1, 'cm, 'rz, 'sp, 'sh, 'sg) chain_sim" where
  "sim_default = \<lparr>sim_state = default_state, mempool = [], block_height = 0, last_block = []\<rparr>"

definition sim_new :: "('i::linorder, 'pkp, 'p1, 'cm, 'rz, 'sp, 'sh, 'sg) chain_sim" where
  "sim_new = sim_default"

definition submit ::
  "('i::linorder, 'pkp, 'p1, 'cm, 'rz, 'sp, 'sh, 'sg) chain_sim \<Rightarrow> ('i, 'pkp, 'p1, 'cm, 'rz, 'sh) tx \<Rightarrow>
   ('i, 'pkp, 'p1, 'cm, 'rz, 'sp, 'sh, 'sg) chain_sim" where
  "submit sim t = sim\<lparr>mempool := mempool sim @ [t]\<rparr>"

text \<open>The loop of \<open>commit_block\<close>: the local variables are the state, the accepted transactions and
  the results so far; the list is what is left in the mempool.\<close>

fun commit_loop ::
  "('i::linorder, 'pkp, 'vk, 'vs, 'cm, 'rz, 'rp, 'sp, 'sh, 'sg) frost \<Rightarrow>
   ('i, 'pkp, 'p1, 'cm, 'rz, 'sp, 'sh, 'sg) state \<Rightarrow>
   ('i, 'pkp, 'p1, 'cm, 'rz, 'sh) tx list \<Rightarrow>
   (('i, 'pkp, 'p1, 'cm, 'rz, 'sh) tx \<times> (unit, apply_error) result) list \<Rightarrow>
   ('i, 'pkp, 'p1, 'cm, 'rz, 'sh) tx list \<Rightarrow>
   (('i, 'pkp, 'p1, 'cm, 'rz, 'sp, 'sh, 'sg) state \<times> ('i, 'pkp, 'p1, 'cm, 'rz, 'sh) tx list \<times>
     (('i, 'pkp, 'p1, 'cm, 'rz, 'sh) tx \<times> (unit, apply_error) result) list, unit) result" where
  "commit_loop F s accepted results [] = Ok (s, accepted, results)"
| "commit_loop F s accepted results (t # ts) =
     (case apply_tx F s t of
        Ok s' \<Rightarrow> commit_loop F s' (accepted @ [t]) (results @ [(t, Ok ())]) ts
      | Err e \<Rightarrow> commit_loop F s accepted (results @ [(t, Err e)]) ts
      | Panic \<Rightarrow> Panic)"

definition commit_block ::
  "('i::linorder, 'pkp, 'vk, 'vs, 'cm, 'rz, 'rp, 'sp, 'sh, 'sg) frost \<Rightarrow>
   ('i, 'pkp, 'p1, 'cm, 'rz, 'sp, 'sh, 'sg) chain_sim \<Rightarrow>
   (('i, 'pkp, 'p1, 'cm, 'rz, 'sp, 'sh, 'sg) chain_sim \<times>
     (('i, 'pkp, 'p1, 'cm, 'rz, 'sh) tx \<times> (unit, apply_error) result) list, unit) result" where
  "commit_block F sim =
     result_bind (commit_loop F (sim_state sim) [] [] (mempool sim)) (\<lambda>(s, accepted, results).
     result_bind (u64_inc (block_height sim)) (\<lambda>h.
       Ok (\<lparr>sim_state = s, mempool = [], block_height = h, last_block = accepted\<rparr>, results)))"

section \<open>A block\<close>

definition accepted_of ::
  "(('i, 'pkp, 'p1, 'cm, 'rz, 'sh) tx \<times> (unit, apply_error) result) list \<Rightarrow>
   ('i, 'pkp, 'p1, 'cm, 'rz, 'sh) tx list" where
  "accepted_of results = map fst (filter (\<lambda>(_, r). is_ok r) results)"

lemma accepted_of_simps [simp]:
  "accepted_of [] = []" "accepted_of (xs @ ys) = accepted_of xs @ accepted_of ys"
  "accepted_of ((t, Ok ()) # xs) = t # accepted_of xs" "accepted_of ((t, Err e) # xs) = accepted_of xs"
  by (simp_all add: accepted_of_def)

lemma commit_loop_Ok:
  assumes "commit_loop F s acc res ts = Ok (s', acc', res')"
  shows "\<exists>new. res' = res @ new \<and> map fst new = ts \<and> acc' = acc @ accepted_of new \<and>
    run_all (apply_tx F) s (accepted_of new) = Ok s' \<and> run_skip (apply_tx F) s ts = Ok s'"
  using assms
proof (induction F s acc res ts rule: commit_loop.induct)
  case (2 F s acc res t ts)
  show ?case
  proof (cases "apply_tx F s t")
    case (Ok s1)
    with 2 obtain new where "res' = (res @ [(t, Ok ())]) @ new" "map fst new = ts"
      "acc' = (acc @ [t]) @ accepted_of new" "run_all (apply_tx F) s1 (accepted_of new) = Ok s'"
      "run_skip (apply_tx F) s1 ts = Ok s'"
      by auto
    with Ok show ?thesis by (intro exI [of _ "(t, Ok ()) # new"]) simp
  next
    case (Err e)
    with 2 obtain new where "res' = (res @ [(t, Err e)]) @ new" "map fst new = ts"
      "acc' = acc @ accepted_of new" "run_all (apply_tx F) s (accepted_of new) = Ok s'"
      "run_skip (apply_tx F) s ts = Ok s'"
      by auto
    with Err show ?thesis by (intro exI [of _ "(t, Err e) # new"]) simp
  qed (use 2 in simp)
qed simp

lemma commit_loop_Panic: "commit_loop F s acc res ts = Panic \<longleftrightarrow> run_skip (apply_tx F) s ts = Panic"
  by (induction F s acc res ts rule: commit_loop.induct) (auto split: result.splits)

lemma commit_loop_total: "commit_loop F s acc res ts \<noteq> Err e"
  by (induction F s acc res ts rule: commit_loop.induct) (auto split: result.splits)

lemma commit_block_Ok:
  assumes "commit_block F sim = Ok (sim', results)"
  shows "mempool sim' = [] \<and> unat (block_height sim') = unat (block_height sim) + 1 \<and>
    map fst results = mempool sim \<and> last_block sim' = accepted_of results \<and>
    run_all (apply_tx F) (sim_state sim) (last_block sim') = Ok (sim_state sim') \<and>
    run_skip (apply_tx F) (sim_state sim) (mempool sim) = Ok (sim_state sim')"
proof -
  from assms obtain s acc h where
    loop: "commit_loop F (sim_state sim) [] [] (mempool sim) = Ok (s, acc, results)"
    and h: "u64_inc (block_height sim) = (Ok h :: (u64, unit) result)"
    and sim': "sim' = \<lparr>sim_state = s, mempool = [], block_height = h, last_block = acc\<rparr>"
    by (auto simp: commit_block_def split: prod.splits)
  from commit_loop_Ok [OF loop] u64_inc_Ok [OF h] show ?thesis by (simp add: sim')
qed

lemma commit_loop_all:
  "run_all (apply_tx F) s ts = Ok s' \<Longrightarrow>
   commit_loop F s acc res ts = Ok (s', acc @ ts, res @ map (\<lambda>t. (t, Ok ())) ts)"
  by (induction ts arbitrary: s acc res) auto

lemma commit_block_all:
  "run_all (apply_tx F) (sim_state sim) (mempool sim) = Ok s' \<Longrightarrow> block_height sim \<noteq> - 1 \<Longrightarrow>
   commit_block F sim = Ok (\<lparr>sim_state = s', mempool = [], block_height = block_height sim + 1,
     last_block = mempool sim\<rparr>, map (\<lambda>t. (t, Ok ())) (mempool sim))"
  by (simp add: commit_block_def commit_loop_all u64_inc_def)

text \<open>
  A block is the mempool, applied in order. When \<open>commit_block\<close> returns, it has emptied the
  mempool and raised the height by one without wrapping; it reports one result per pending
  transaction, in the order of submission; the block is the list of the transactions reported as
  accepted; the new state is the old one after the block's transactions, all of them accepted when
  replayed, and equally the old one after the whole mempool with the rejected transactions skipped.
\<close>

lemma commit_block_replay:
  assumes "commit_block F sim = Ok (sim', results)"
  shows "mempool sim' = [] \<and> unat (block_height sim') = unat (block_height sim) + 1 \<and>
    map fst results = mempool sim \<and>
    last_block sim' = map fst (filter (\<lambda>(t, r). is_ok r) results) \<and>
    run_all (apply_tx F) (sim_state sim) (last_block sim') = Ok (sim_state sim') \<and>
    run_skip (apply_tx F) (sim_state sim) (mempool sim) = Ok (sim_state sim')"
  using commit_block_Ok [OF assms] unfolding accepted_of_def by metis

section \<open>The log of blocks\<close>

text \<open>The runs of a simulator, with all the transactions submitted so far and the blocks committed so
  far.\<close>

inductive sim_run ::
  "('i::linorder, 'pkp, 'vk, 'vs, 'cm, 'rz, 'rp, 'sp, 'sh, 'sg) frost \<Rightarrow>
   ('i, 'pkp, 'p1, 'cm, 'rz, 'sh) tx list \<Rightarrow> ('i, 'pkp, 'p1, 'cm, 'rz, 'sh) tx list list \<Rightarrow>
   ('i, 'pkp, 'p1, 'cm, 'rz, 'sp, 'sh, 'sg) chain_sim \<Rightarrow> bool" for F where
  run_new: "sim_run F [] [] sim_new"
| run_submit: "sim_run F ts log sim \<Longrightarrow> sim_run F (ts @ [t]) log (submit sim t)"
| run_commit: "sim_run F ts log sim \<Longrightarrow> commit_block F sim = Ok (sim', results) \<Longrightarrow>
    sim_run F ts (log @ [last_block sim']) sim'"

lemma run_skip_append:
  "run_skip step s (ts @ us) = result_bind (run_skip step s ts) (\<lambda>s'. run_skip step s' us)"
  by (induction ts arbitrary: s) (auto split: result.splits)

lemma sim_run_log:
  assumes "sim_run F ts log sim"
  shows "(\<exists>applied. ts = applied @ mempool sim \<and> run_skip (apply_tx F) default_state applied = Ok (sim_state sim)) \<and>
    run_all (apply_tx F) default_state (concat log) = Ok (sim_state sim) \<and>
    unat (block_height sim) = length log"
  using assms
proof induction
  case (run_commit ts log sim sim' results)
  from commit_block_Ok [OF run_commit(2)] run_commit(3) show ?case
    by (auto simp: run_skip_append run_all_append)
qed (simp_all add: sim_new_def sim_default_def submit_def)

text \<open>
  C17. The blocks are a log of the state. For every run of a simulator, the concatenation of its
  blocks replays without a rejection from the empty chain to the current state; the state is also
  that of applying, with rejections skipped, all the submitted transactions except those still in
  the mempool, so where the blocks were cut makes no difference; the height counts the blocks; and
  the chain invariant holds.
\<close>

theorem simulator_log:
  assumes "sim_run F ts log sim"
  shows "run_all (apply_tx F) default_state (concat log) = Ok (sim_state sim) \<and>
    (\<exists>applied. ts = applied @ mempool sim \<and>
       run_skip (apply_tx F) default_state applied = Ok (sim_state sim)) \<and>
    unat (block_height sim) = length log \<and> chain_inv F (sim_state sim)"
proof -
  note log = sim_run_log [OF assms]
  then have "reach (apply_tx F) default_state (sim_state sim)" by (auto intro: run_all_reach)
  then have "chain_inv F (sim_state sim)" by (rule reachable_inv)
  with log show ?thesis by blast
qed

theorem simulator_log_witness:
  "\<exists>sim'. sim_run toy_frost [InitGroup toy_params [1, 2, 3] [1, 2, 3] :: toy_tx]
       [[InitGroup toy_params [1, 2, 3] [1, 2, 3]]] sim' \<and>
     (sim_state sim' :: toy_state) = default_state\<lparr>group := Some toy_group\<rparr> \<and> unat (block_height sim') = 1"
proof -
  let ?t = "InitGroup toy_params [1, 2, 3] [1, 2, 3] :: toy_tx"
  let ?sim = "submit sim_new ?t :: (nat, nat list, nat, nat, nat, (nat, nat) btree_map \<times> u8 list, nat, nat) chain_sim"
  have run: "sim_run toy_frost ([] @ [?t]) [] ?sim" by (intro run_submit run_new)
  have t: "apply_tx toy_frost default_state ?t = Ok (default_state\<lparr>group := Some toy_group\<rparr> :: toy_state)"
    by (simp add: toy_defs default_state_def apply_defs bt_eval insert_commute)
  obtain sim' res where c: "commit_block toy_frost ?sim = Ok (sim', res)" "last_block sim' = [?t]"
    using t by (simp add: commit_block_def submit_def sim_new_def sim_default_def u64_inc_def)
  have "sim_run toy_frost [?t] [[?t]] sim'" using run_commit [OF run c(1)] c(2) by simp
  with simulator_log [OF this] t show ?thesis by auto
qed

text \<open>
  When \<open>commit_block\<close> panics. It never returns an error of its own, and it panics exactly when
  applying the mempool panics, or when the height is at its maximum.
\<close>

lemma commit_block_panic_iff:
  "commit_block F sim \<noteq> Err e \<and>
   (commit_block F sim = Panic \<longleftrightarrow>
      run_skip (apply_tx F) (sim_state sim) (mempool sim) = Panic \<or> block_height sim = - 1)"
proof (cases "commit_loop F (sim_state sim) [] [] (mempool sim)")
  case (Ok r)
  then have "run_skip (apply_tx F) (sim_state sim) (mempool sim) \<noteq> Panic"
    by (metis commit_loop_Panic result.distinct(3))
  with Ok show ?thesis by (cases r) (auto simp: commit_block_def)
qed (auto simp: commit_block_def commit_loop_total commit_loop_Panic)

end
