(* ===== verification/Chain_Dkg.thy ===== *)
theory Chain_Dkg
  imports Chain_Props
begin

text \<open>
  Key generation on the chain: what the completion counts mean, what a promotion guarantees, that a
  ceremony all of whose participants take part reaches a group in whatever order their messages
  arrive, and the two degenerate ceremonies that \<open>DkgBegin\<close> lets through.
\<close>

section \<open>What the completion counts mean\<close>

lemma reachable_ceremony_inv:
  "reach (apply_tx F) default_state s \<Longrightarrow> ceremony s = Some c \<Longrightarrow> ceremony_inv F c \<and> group s = None"
  using reachable_inv unfolding chain_inv_def by blast

lemma r1_complete_iff:
  "ceremony_inv F c \<Longrightarrow> r1_complete c \<longleftrightarrow> dom (bt_get (round1 c)) = dom (bt_get (c_validators c))"
  using full_iff [of "round1 c" "c_validators c"]
  by (simp add: ceremony_inv_def r1_complete_def Let_def)

lemma ordered_pairs_eq_iff:
  assumes "ceremony_inv F c"
  shows "dom (bt_get (round2 c)) = ordered_pairs (c_validators c) \<longleftrightarrow>
    (\<forall>i \<in> dom (bt_get (c_validators c)). \<forall>j \<in> dom (bt_get (c_validators c)).
       i \<noteq> j \<longrightarrow> (i, j) \<in> dom (bt_get (round2 c)))" (is "?L = ?R")
proof
  assume ?R
  then have "ordered_pairs (c_validators c) \<subseteq> dom (bt_get (round2 c))"
    unfolding ordered_pairs_def by blast
  moreover have "dom (bt_get (round2 c)) \<subseteq> ordered_pairs (c_validators c)"
    using assms by (simp add: ceremony_inv_def ordered_pairs_def Let_def)
  ultimately show ?L by (rule subset_antisym [rotated])
qed (simp add: ordered_pairs_def)

text \<open>
  The counting tests are the coverage tests they stand for. In every reachable state with a
  ceremony, round one counts as complete exactly when every validator's package is on the chain,
  and (for a ceremony with participants) round two exactly when every ordered pair of distinct
  validators has its envelope.
\<close>

lemma completion_is_coverage:
  assumes "reach (apply_tx F) default_state s" "ceremony s = Some c"
  shows "(r1_complete c \<longleftrightarrow> (\<forall>i \<in> dom (bt_get (c_validators c)). i \<in> dom (bt_get (round1 c)))) \<and>
    (0 < ceremony_total c \<longrightarrow>
       r2_complete c = (Ok (\<forall>i \<in> dom (bt_get (c_validators c)). \<forall>j \<in> dom (bt_get (c_validators c)).
         i \<noteq> j \<longrightarrow> (i, j) \<in> dom (bt_get (round2 c))) :: (bool, apply_error) result))"
proof -
  from assms have inv: "ceremony_inv F c" using reachable_ceremony_inv by blast
  then have "dom (bt_get (round1 c)) \<subseteq> dom (bt_get (c_validators c))"
    by (simp add: ceremony_inv_def Let_def)
  with r1_complete_iff [OF inv]
  have "r1_complete c \<longleftrightarrow> (\<forall>i \<in> dom (bt_get (c_validators c)). i \<in> dom (bt_get (round1 c)))"
    by blast
  then show ?thesis
    using round2_full_iff [OF inv] ordered_pairs_eq_iff [OF inv] by (simp add: r2_complete_eq)
qed

section \<open>What a promotion guarantees\<close>

lemma finalize_full:
  assumes "ceremony_inv F c" "i \<in> dom (bt_get (c_validators c))"
    and "finalize_complete (c\<lparr>finalize := bt_insert i pkp (finalize c)\<rparr>)"
  shows "insert i (dom (bt_get (finalize c))) = dom (bt_get (c_validators c))"
proof -
  let ?f = "bt_insert i pkp (finalize c)"
  have sub: "dom (bt_get ?f) \<subseteq> dom (bt_get (c_validators c))"
    using assms(1,2) by (auto simp: ceremony_inv_def Let_def)
  have "bt_len ?f = bt_len (c_validators c)"
    using assms(1,3) by (simp add: ceremony_inv_def finalize_complete_def ceremony_total_def Let_def)
  with full_iff [OF sub] show ?thesis by simp
qed

lemma first_agrees:
  assumes c: "ceremony_inv F c"
    and first: "\<forall>k p. bt_first (finalize c) = Some (k, p) \<longrightarrow> pkp_agree F p pkp"
    and k: "bt_first (bt_insert i pkp (finalize c)) = Some (k, p)"
  shows "pkp_agree F p pkp"
proof -
  from k have "bt_get (bt_insert i pkp (finalize c)) k = Some p" by (rule bt_first_get)
  then show ?thesis
    using finalize_insert_agree [OF c, of pkp k p] first
    by (auto split: if_splits intro: pkp_agree_equiv)
qed

text \<open>
  C25. A promotion is an agreement of everyone. When a \<open>DkgFinalize\<close> turns a ceremony into a group,
  the ceremony is cleared, the group has the ceremony's parameters and exactly its validators,
  every ordered pair of validators exchanged an envelope, every other validator had finalized
  before, and all the submitted public key packages, the last one included, agree with the group's
  on the verifying key and on every verifying share; with two or more participants, every
  validator's round-one package is on the chain.
\<close>

theorem promotion_agreement:
  assumes reach: "reach (apply_tx F) default_state s"
    and ok: "apply_tx F s (DkgFinalize i pkp) = Ok s'"
    and c: "ceremony s = Some c" and g: "group s' = Some g"
  shows "ceremony s' = None \<and> g_params g = c_params c \<and>
    dom (bt_get (g_validators g)) = dom (bt_get (c_validators c)) \<and>
    dom (bt_get (round2 c)) = ordered_pairs (c_validators c) \<and>
    (1 < ceremony_total c \<longrightarrow> dom (bt_get (round1 c)) = dom (bt_get (c_validators c))) \<and>
    (\<forall>j \<in> dom (bt_get (c_validators c)) - {i}. \<exists>p. bt_get (finalize c) j = Some p \<and>
       pkp_agree F p (g_pkp g)) \<and>
    pkp_agree F pkp (g_pkp g)"
proof -
  from reach c have inv: "ceremony_inv F c" and none: "group s = None"
    using reachable_ceremony_inv by blast+
  let ?c = "c\<lparr>finalize := bt_insert i pkp (finalize c)\<rparr>"
  from ok c have i: "i \<in> dom (bt_get (c_validators c))"
    and r2: "bt_len (round2 c) = ceremony_total c * (ceremony_total c - 1)"
    and first: "\<forall>k p. bt_first (finalize c) = Some (k, p) \<longrightarrow> pkp_agree F p pkp"
    and s': "s' = finalize_next s ?c"
    by (auto simp: dkg_finalize_Ok)
  with g none have full: "finalize_complete ?c"
    by (auto simp: finalize_next_def split: if_splits)
  have dom: "insert i (dom (bt_get (finalize c))) = dom (bt_get (c_validators c))"
    by (rule finalize_full [OF inv i full])
  obtain k p where kp: "bt_first (bt_insert i pkp (finalize c)) = Some (k, p)"
    by (metis bt_first_insert prod.collapse)
  have pp: "pkp_agree F pkp p"
    using first_agrees [OF inv first kp] by (rule pkp_agree_equiv)
  have others: "\<exists>q. bt_get (finalize c) j = Some q \<and> pkp_agree F q p"
    if j: "j \<in> dom (bt_get (c_validators c)) - {i}" for j
  proof -
    from j dom obtain q where q: "bt_get (finalize c) j = Some q" by blast
    with finalize_insert_agree [OF inv] first have "pkp_agree F q pkp" by blast
    from this pp have "pkp_agree F q p" by (rule pkp_agree_equiv)
    with q show ?thesis by blast
  qed
  have "dom (bt_get (round1 c)) = dom (bt_get (c_validators c))" if "1 < ceremony_total c"
  proof -
    from that r2 have "round2 c \<noteq> bt_new" by auto
    with inv have "r1_complete c" by (simp add: ceremony_inv_def Let_def)
    with r1_complete_iff [OF inv] show ?thesis by simp
  qed
  moreover from s' full g kp
  have "g = \<lparr>g_params = c_params c, g_pkp = p, g_validators = bs_collect (bt_keys (c_validators c))\<rparr>"
    and "ceremony s' = None"
    by (auto simp: finalize_next_def simp del: bt_first_insert)
  moreover have "dom (bt_get (round2 c)) = ordered_pairs (c_validators c)"
    using r2 round2_full_iff [OF inv] by simp
  ultimately show ?thesis
    using pp others by (simp only: group_config.simps dom_bs_collect set_bt_keys) simp
qed

section \<open>A concrete ceremony for the witnesses\<close>

definition duo_params :: mpc_params where
  "duo_params = \<lparr>threshold = 2, total = 2\<rparr>"

definition duo_validators :: "(nat, enc_public_key) btree_map" where
  "duo_validators = bt_insert 2 (EncPublicKey (bytes_fill 2)) (bt_insert 1 (EncPublicKey (bytes_fill 1)) bt_new)"

definition duo_run :: "toy_tx list" where
  "duo_run = [DkgBegin duo_params duo_validators, DkgRound1 2 20, DkgRound1 1 10,
     DkgRound2 1 2 (Sealed [12]), DkgRound2 2 1 (Sealed [21]), DkgFinalize 2 [1, 2]]"

definition duo_ceremony :: "(nat, nat list, nat) dkg_ceremony" where
  "duo_ceremony = \<lparr>c_params = duo_params, c_validators = duo_validators,
     round1 = bt_insert 1 10 (bt_insert 2 20 bt_new),
     round2 = bt_insert (2, 1) (Sealed [21]) (bt_insert (1, 2) (Sealed [12]) bt_new),
     finalize = bt_insert 2 [1, 2] bt_new\<rparr>"

definition duo_state :: toy_state where
  "duo_state = \<lparr>ceremony = Some duo_ceremony, group = None, requests = bt_new\<rparr>"

definition duo_final :: toy_state where
  "duo_final = \<lparr>ceremony = None,
     group = Some \<lparr>g_params = duo_params, g_pkp = [1, 2], g_validators = bs_collect [1, 2]\<rparr>,
     requests = bt_new\<rparr>"

lemmas duo_defs = duo_params_def duo_validators_def duo_ceremony_def duo_state_def duo_final_def

lemma duo_run_Ok: "run_all (apply_tx toy_frost) default_state duo_run = Ok duo_state"
  by (simp add: duo_run_def duo_defs default_state_def apply_defs bt_eval r1_complete_def
      r2_complete_eq finalize_complete_def ceremony_total_def)

lemma duo_reach: "reach (apply_tx toy_frost) default_state duo_state"
  by (rule run_all_reach [OF duo_run_Ok])

lemma duo_promotes: "apply_tx toy_frost duo_state (DkgFinalize 1 [1, 2]) = Ok duo_final"
  by (simp add: duo_defs apply_defs bt_eval r2_complete_eq finalize_complete_def ceremony_total_def
      pkp_agree_def)

theorem promotion_agreement_witness:
  "ceremony duo_state = Some duo_ceremony \<and> ceremony duo_final = None \<and>
   dom (bt_get (round2 duo_ceremony)) = ordered_pairs duo_validators"
proof -
  have c: "ceremony duo_state = Some duo_ceremony" by (simp add: duo_state_def)
  have g: "group duo_final =
      Some \<lparr>g_params = duo_params, g_pkp = [1, 2], g_validators = bs_collect [1, 2]\<rparr>"
    by (simp add: duo_final_def)
  have "c_validators duo_ceremony = duo_validators" by (simp add: duo_ceremony_def)
  with promotion_agreement [OF duo_reach duo_promotes c g] c show ?thesis by simp
qed

section \<open>Degenerate ceremonies\<close>

lemma panic_core:
  "apply_tx F s t = Panic \<longleftrightarrow>
     (\<exists>i pkp c. t = DkgFinalize i pkp \<and> ceremony s = Some c \<and> total (c_params c) = 0)"
proof (cases t)
  case (DkgFinalize i pkp)
  show ?thesis
  proof (cases "ceremony s")
    case (Some c)
    have "promote s (c\<lparr>finalize := bt_insert i pkp (finalize c)\<rparr>) \<noteq> Panic"
      by (simp add: promote_def)
    then show ?thesis
      by (auto simp: DkgFinalize Some apply_dkg_finalize_def r2_complete_eq ceremony_total_def unat_eq_0 Let_def)
  qed (simp add: DkgFinalize apply_dkg_finalize_def)
next
  case (SubmitCommitment r v cm)
  then show ?thesis
    by (auto simp: apply_submit_commitment_def require_group_def Let_def split: request_status.splits)
next
  case (SubmitShare r v sh)
  then show ?thesis
    by (auto simp: apply_submit_share_def require_group_def Let_def split: request_status.splits)
qed (auto simp: apply_defs Let_def)

text \<open>
  C34. The only panic of the state machine: applying a transaction panics exactly when it is a
  \<open>DkgFinalize\<close> for a ceremony with a total of zero participants, whose \<open>total - 1\<close> overflows.
  The \<open>expect\<close>s of the promotion never fire.
\<close>

theorem apply_tx_panic_iff:
  "apply_tx F s t = Panic \<longleftrightarrow>
     (\<exists>i pkp c. t = DkgFinalize i pkp \<and> ceremony s = Some c \<and> total (c_params c) = 0)"
  by (rule panic_core)

text \<open>
  C35. A ceremony of zero participants blocks the chain for good. \<open>DkgBegin\<close> accepts parameters
  with a total of zero and an empty validator map, on which \<open>DkgFinalize\<close> panics, and from there no
  transaction of any kind is ever accepted: no ceremony, no group and no request can follow.
\<close>

theorem empty_ceremony_blocks:
  "\<exists>s. apply_tx F default_state (DkgBegin \<lparr>threshold = t, total = 0\<rparr> bt_new) = Ok s \<and>
     (\<forall>i pkp. apply_tx F s (DkgFinalize i pkp) = Panic) \<and>
     (\<forall>tx s'. apply_tx F s tx \<noteq> Ok s')"
proof -
  let ?c = "\<lparr>c_params = \<lparr>threshold = t, total = 0\<rparr>, c_validators = bt_new, round1 = bt_new,
     round2 = bt_new, finalize = bt_new\<rparr>"
  let ?s = "default_state\<lparr>ceremony := Some ?c\<rparr>"
  have "apply_tx F default_state (DkgBegin \<lparr>threshold = t, total = 0\<rparr> bt_new) = Ok ?s"
    by (simp add: apply_dkg_begin_def default_state_def)
  moreover have "apply_tx F ?s (DkgFinalize i pkp) = Panic" for i pkp
    by (simp add: apply_dkg_finalize_def r2_complete_eq ceremony_total_def)
  moreover have "apply_tx F ?s tx \<noteq> Ok s'" for tx s'
    by (cases tx) (auto simp: arm_Ok default_state_def ceremony_total_def)
  ultimately show ?thesis by blast
qed

text \<open>
  A ceremony of one participant needs no round one: right after \<open>DkgBegin\<close> with one validator,
  a single \<open>DkgFinalize\<close> with any public key package is accepted and promotes, with no round-one
  package on the chain, because zero envelopes are all of one times zero.
\<close>

lemma single_ceremony_skips_rounds:
  "\<exists>s. apply_tx F default_state (DkgBegin \<lparr>threshold = t, total = 1\<rparr> (bt_insert i k bt_new)) = Ok s \<and>
     (\<exists>s'. apply_tx F s (DkgFinalize i pkp) = Ok s' \<and>
        group s' = Some \<lparr>g_params = \<lparr>threshold = t, total = 1\<rparr>, g_pkp = pkp,
          g_validators = bs_collect [i]\<rparr>)"
proof -
  let ?c = "\<lparr>c_params = \<lparr>threshold = t, total = 1\<rparr>, c_validators = bt_insert i k bt_new,
     round1 = bt_new, round2 = bt_new, finalize = bt_new\<rparr>"
  let ?s = "default_state\<lparr>ceremony := Some ?c\<rparr>"
  have "apply_tx F default_state (DkgBegin \<lparr>threshold = t, total = 1\<rparr> (bt_insert i k bt_new)) = Ok ?s"
    by (simp add: apply_dkg_begin_def default_state_def)
  moreover have "apply_tx F ?s (DkgFinalize i pkp) =
      Ok (finalize_next ?s (?c\<lparr>finalize := bt_insert i pkp bt_new\<rparr>))"
    by (simp only: apply_tx.simps dkg_finalize_Ok) (simp add: default_state_def ceremony_total_def)
  moreover have "group (finalize_next ?s (?c\<lparr>finalize := bt_insert i pkp bt_new\<rparr>)) =
      Some \<lparr>g_params = \<lparr>threshold = t, total = 1\<rparr>, g_pkp = pkp, g_validators = bs_collect [i]\<rparr>"
    by (simp add: finalize_next_def finalize_complete_def ceremony_total_def bt_keys_def)
  ultimately show ?thesis by blast
qed

end
