(* ===== verification/Chain_Live.thy ===== *)
theory Chain_Live
  imports Chain_Dkg
begin

text \<open>
  The protocols of the chain reach their end: a signing session whose threshold of validators takes
  part ends with the outcome of the aggregation, and a key-generation ceremony all of whose
  participants take part ends with a group, in whatever order the messages of each round arrive.
\<close>

section \<open>Filling a map\<close>

definition insert_all :: "('k \<Rightarrow> 'v) \<Rightarrow> 'k list \<Rightarrow> ('k, 'v) btree_map \<Rightarrow> ('k, 'v) btree_map" where
  "insert_all f ks m = fold (\<lambda>k. bt_insert k (f k)) ks m"

lemma insert_all_simps [simp]:
  "insert_all f [] m = m"
  "insert_all f (k # ks) m = insert_all f ks (bt_insert k (f k) m)"
  by (simp_all add: insert_all_def)

lemma insert_all_snoc: "insert_all f (ks @ [k]) m = bt_insert k (f k) (insert_all f ks m)"
  by (simp add: insert_all_def)

lemma bt_get_insert_all:
  "bt_get (insert_all f ks m) = (\<lambda>k. if k \<in> set ks then Some (f k) else bt_get m k)"
  by (induction ks arbitrary: m) (auto simp: fun_eq_iff)

lemma dom_insert_all [simp]: "dom (bt_get (insert_all f ks m)) = set ks \<union> dom (bt_get m)"
  by (auto simp: bt_get_insert_all dom_def split: if_splits)

lemma bt_len_insert_all:
  "distinct ks \<Longrightarrow> set ks \<inter> dom (bt_get m) = {} \<Longrightarrow> bt_len (insert_all f ks m) = length ks + bt_len m"
  by (simp add: bt_len_card card_Un_disjoint distinct_card)

lemma keys_insert_all [simp]: "bs_collect (bt_keys (insert_all f ks bt_new)) = bs_collect ks"
  by simp

lemma insert_all_perm:
  "set ks = set ks' \<Longrightarrow> insert_all f ks m = insert_all f ks' m"
  by (rule bt_map_eqI) (simp add: bt_get_insert_all)

section \<open>A signing session\<close>

definition with_entry ::
  "('i, 'pkp, 'p1, 'cm, 'rz, 'sp, 'sh, 'sg) state \<Rightarrow> uuid \<Rightarrow>
   ('i, 'cm, 'rz, 'sp, 'sh, 'sg) request_entry \<Rightarrow> ('i, 'pkp, 'p1, 'cm, 'rz, 'sp, 'sh, 'sg) state" where
  "with_entry s rid e = s\<lparr>requests := bt_insert rid e (requests s)\<rparr>"

lemma with_entry_simps [simp]:
  "group (with_entry s rid e) = group s" "ceremony (with_entry s rid e) = ceremony s"
  "bt_get (requests (with_entry s rid e)) = (bt_get (requests s))(rid \<mapsto> e)"
  "with_entry (with_entry s rid e') rid e = with_entry s rid e"
  by (simp_all add: with_entry_def bt.ins_overwrite)

lemma commit_step:
  assumes "group s = Some g" "v \<in> dom (bt_get (g_validators g))"
    and "status e = AwaitingCommitments cms" "bt_get cms v = None"
  shows "apply_tx F (with_entry s rid e) (SubmitCommitment rid v cm) =
    Ok (with_entry s rid (e\<lparr>status := after_commitment F (g_params g) (message e) (bt_insert v cm cms)\<rparr>))"
  using assms by (simp only: apply_tx.simps submit_commitment_Ok) (auto simp: with_entry_def bt.ins_overwrite)

lemma share_step:
  assumes "group s = Some g" "v \<in> dom (bt_get (g_validators g))"
    and "status e = Signing sp P shs" "v \<in> dom (bt_get P)" "bt_get shs v = None"
  shows "apply_tx F (with_entry s rid e) (SubmitShare rid v sh) =
    Ok (with_entry s rid (e\<lparr>status := after_share F (g_pkp g) (randomizer e) sp P (bt_insert v sh shs)\<rparr>))"
  using assms by (simp only: apply_tx.simps submit_share_Ok) (auto simp: with_entry_def bt.ins_overwrite)

lemma commits_run:
  assumes "group s = Some g" "status e = AwaitingCommitments m" "distinct vs"
    and "set vs \<subseteq> dom (bt_get (g_validators g))" "set vs \<inter> dom (bt_get m) = {}"
    and "length vs + bt_len m < unat (threshold (g_params g))"
  shows "run_all (apply_tx F) (with_entry s rid e) (map (\<lambda>v. SubmitCommitment rid v (cm v)) vs) =
    Ok (with_entry s rid (e\<lparr>status := AwaitingCommitments (insert_all cm vs m)\<rparr>))"
  using assms
proof (induction vs arbitrary: e m)
  case Nil
  then show ?case by (cases e) simp
next
  case (Cons v vs)
  have none: "bt_get m v = None" using Cons.prems(5) by auto
  then have len: "bt_len (bt_insert v (cm v) m) < unat (threshold (g_params g))"
    using Cons.prems(6) by simp
  then have "after_commitment F (g_params g) (message e) (bt_insert v (cm v) m) =
      AwaitingCommitments (bt_insert v (cm v) m)"
    by (subst after_commitment_cases) simp_all
  then have "apply_tx F (with_entry s rid e) (SubmitCommitment rid v (cm v)) =
      Ok (with_entry s rid (e\<lparr>status := AwaitingCommitments (bt_insert v (cm v) m)\<rparr>))"
    using commit_step [of s g v e m F rid "cm v"] Cons.prems none by simp
  moreover have "set vs \<inter> dom (bt_get (bt_insert v (cm v) m)) = {}"
    using Cons.prems(3,5) by auto
  ultimately show ?case
    using Cons.IH [of "e\<lparr>status := AwaitingCommitments (bt_insert v (cm v) m)\<rparr>" "bt_insert v (cm v) m"]
      Cons.prems none by (simp del: bt_get_insert)
qed

lemma commits_reach_signing:
  assumes "group s = Some g" "status e = AwaitingCommitments bt_new" "distinct vs"
    and "set vs \<subseteq> dom (bt_get (g_validators g))"
    and len: "length vs = unat (threshold (g_params g))" "vs \<noteq> []"
  shows "run_all (apply_tx F) (with_entry s rid e) (map (\<lambda>v. SubmitCommitment rid v (cm v)) vs) =
    Ok (with_entry s rid (e\<lparr>status := Signing (signing_package_new F (insert_all cm vs bt_new) (message e))
          (bs_collect vs) bt_new\<rparr>))"
proof -
  obtain us v where vs: "vs = us @ [v]" using len(2) by (cases vs rule: rev_cases) auto
  let ?m = "insert_all cm us bt_new"
  let ?e = "e\<lparr>status := AwaitingCommitments ?m\<rparr>"
  have "run_all (apply_tx F) (with_entry s rid e) (map (\<lambda>v. SubmitCommitment rid v (cm v)) us) =
      Ok (with_entry s rid ?e)"
    using assms vs by (intro commits_run) auto
  moreover have "apply_tx F (with_entry s rid ?e) (SubmitCommitment rid v (cm v)) =
      Ok (with_entry s rid (?e\<lparr>status := after_commitment F (g_params g) (message e) (bt_insert v (cm v) ?m)\<rparr>))"
    using commit_step [of s g v ?e ?m F rid "cm v"] assms vs by (simp add: bt_get_insert_all)
  moreover have full: "bt_insert v (cm v) ?m = insert_all cm vs bt_new"
    by (simp add: vs insert_all_snoc)
  moreover have "bt_len (insert_all cm vs bt_new) = unat (threshold (g_params g))"
    using assms(3) len by (simp add: bt_len_insert_all)
  moreover have "threshold (g_params g) \<noteq> 0" using len by auto
  ultimately show ?thesis
    by (simp add: vs run_all_snoc after_commitment_cases)
qed

lemma shares_run:
  assumes "group s = Some g" "status e = Signing sp P m" "distinct vs"
    and "dom (bt_get P) \<subseteq> dom (bt_get (g_validators g))"
    and "set vs \<subseteq> dom (bt_get P)" "set vs \<inter> dom (bt_get m) = {}"
    and "length vs + bt_len m < bt_len P"
  shows "run_all (apply_tx F) (with_entry s rid e) (map (\<lambda>v. SubmitShare rid v (sh v)) vs) =
    Ok (with_entry s rid (e\<lparr>status := Signing sp P (insert_all sh vs m)\<rparr>))"
  using assms
proof (induction vs arbitrary: e m)
  case Nil
  then show ?case by (cases e) simp
next
  case (Cons v vs)
  have none: "bt_get m v = None" using Cons.prems(6) by auto
  have "after_share F (g_pkp g) (randomizer e) sp P (bt_insert v (sh v) m) =
      Signing sp P (bt_insert v (sh v) m)"
    using Cons.prems(7) none by (simp add: after_share_def)
  then have "apply_tx F (with_entry s rid e) (SubmitShare rid v (sh v)) =
      Ok (with_entry s rid (e\<lparr>status := Signing sp P (bt_insert v (sh v) m)\<rparr>))"
    using share_step [of s g v e sp P m F rid "sh v"] Cons.prems none by auto
  moreover have "set vs \<inter> dom (bt_get (bt_insert v (sh v) m)) = {}"
    using Cons.prems(3,6) by auto
  ultimately show ?case
    using Cons.IH [of "e\<lparr>status := Signing sp P (bt_insert v (sh v) m)\<rparr>" "bt_insert v (sh v) m"]
      Cons.prems none by (simp del: bt_get_insert)
qed

lemma shares_reach_end:
  assumes "group s = Some g" "status e = Signing sp P bt_new" "distinct vs"
    and "dom (bt_get P) \<subseteq> dom (bt_get (g_validators g))" "set vs = dom (bt_get P)" "vs \<noteq> []"
  shows "run_all (apply_tx F) (with_entry s rid e) (map (\<lambda>v. SubmitShare rid v (sh v)) vs) =
    Ok (with_entry s rid (e\<lparr>status :=
      (case aggregate F sp (insert_all sh vs bt_new) (g_pkp g)
              (from_randomizer F (verifying_key F (g_pkp g)) (randomizer e)) of
         Inr sg \<Rightarrow> Completed P sg | Inl reason \<Rightarrow> Failed reason)\<rparr>))"
proof -
  obtain us v where vs: "vs = us @ [v]" using assms(6) by (cases vs rule: rev_cases) auto
  let ?m = "insert_all sh us bt_new"
  let ?e = "e\<lparr>status := Signing sp P ?m\<rparr>"
  have v: "v \<in> dom (bt_get P)" "v \<in> dom (bt_get (g_validators g))"
    using assms(4,5) vs by (metis in_set_conv_decomp subsetD)+
  have lenP: "bt_len P = length vs" using assms(3,5) by (metis bt_len_card distinct_card)
  have "run_all (apply_tx F) (with_entry s rid e) (map (\<lambda>v. SubmitShare rid v (sh v)) us) =
      Ok (with_entry s rid ?e)"
    using assms vs lenP by (intro shares_run) auto
  moreover have "apply_tx F (with_entry s rid ?e) (SubmitShare rid v (sh v)) =
      Ok (with_entry s rid (?e\<lparr>status := after_share F (g_pkp g) (randomizer e) sp P (bt_insert v (sh v) ?m)\<rparr>))"
    using share_step [of s g v ?e sp P ?m F rid "sh v"] assms(1,3) vs v
    by (simp add: bt_get_insert_all)
  moreover have "bt_insert v (sh v) ?m = insert_all sh vs bt_new"
    by (simp add: vs insert_all_snoc)
  moreover have "bt_len (insert_all sh vs bt_new) = bt_len P"
    using assms(3) lenP by (simp add: bt_len_insert_all)
  ultimately show ?thesis
    by (simp add: vs run_all_snoc after_share_def)
qed

text \<open>
  C14. A signing session with a threshold of participants ends. Once a group with a non-zero
  threshold is set, a fresh request, followed by commitments of that many distinct validators and
  then, in any order, by one share of each of them, is accepted throughout, and the request then
  carries the outcome of aggregating exactly these shares: completed with the signature and these
  participants, or failed with the aggregator's reason.
\<close>

theorem signing_session_ends:
  assumes g: "group s = Some g" and fresh: "bt_get (requests s) rid = None"
    and vs: "distinct vs" "length vs = unat (threshold (g_params g))" "vs \<noteq> []"
      "set vs \<subseteq> dom (bt_get (g_validators g))"
    and ws: "distinct ws" "set ws = set vs"
  shows "\<exists>s' e. run_all (apply_tx F) s
      (SubmitRequest rid msg rz # map (\<lambda>v. SubmitCommitment rid v (cm v)) vs @
       map (\<lambda>v. SubmitShare rid v (sh v)) ws) = Ok s' \<and>
    group s' = Some g \<and> bt_get (requests s') rid = Some e \<and> message e = msg \<and> randomizer e = rz \<and>
    status e = (case aggregate F (signing_package_new F (insert_all cm vs bt_new) msg)
                       (insert_all sh vs bt_new) (g_pkp g)
                       (from_randomizer F (verifying_key F (g_pkp g)) rz) of
                  Inr sg \<Rightarrow> Completed (bs_collect vs) sg | Inl reason \<Rightarrow> Failed reason)"
proof -
  let ?e = "\<lparr>request_id = rid, message = msg, randomizer = rz, status = AwaitingCommitments bt_new\<rparr>"
  let ?sp = "signing_package_new F (insert_all cm vs bt_new) msg"
  let ?e1 = "?e\<lparr>status := Signing ?sp (bs_collect vs) bt_new\<rparr>"
  have new: "apply_tx F s (SubmitRequest rid msg rz) = Ok (with_entry s rid ?e)"
    using g fresh by (simp only: apply_tx.simps submit_request_Ok) (simp add: with_entry_def)
  have commits: "run_all (apply_tx F) (with_entry s rid ?e)
      (map (\<lambda>v. SubmitCommitment rid v (cm v)) vs) = Ok (with_entry s rid ?e1)"
    using commits_reach_signing [OF g _ vs(1,4,2,3), of ?e F rid cm] by simp
  have "ws \<noteq> []" using ws(2) vs(3) by auto
  then have shares: "run_all (apply_tx F) (with_entry s rid ?e1) (map (\<lambda>v. SubmitShare rid v (sh v)) ws) =
    Ok (with_entry s rid (?e1\<lparr>status :=
      (case aggregate F ?sp (insert_all sh ws bt_new) (g_pkp g)
              (from_randomizer F (verifying_key F (g_pkp g)) rz) of
         Inr sg \<Rightarrow> Completed (bs_collect vs) sg | Inl reason \<Rightarrow> Failed reason)\<rparr>))"
    using shares_reach_end [OF g, of ?e1 ?sp "bs_collect vs" ws F rid sh] ws vs(4) by simp
  have "insert_all sh ws bt_new = insert_all sh vs bt_new" using ws(2) by (rule insert_all_perm)
  with new commits shares g show ?thesis by (simp add: run_all_append)
qed

theorem signing_session_ends_witness:
  "\<exists>s' e. run_all (apply_tx toy_frost) ((default_state :: toy_state)\<lparr>group := Some toy_group\<rparr>)
      (SubmitRequest toy_rid [9] 7 # map (\<lambda>v. SubmitCommitment toy_rid v (10 * v)) [3, 1] @
       map (\<lambda>v. SubmitShare toy_rid v (100 * v)) [1, 3]) = Ok s' \<and>
    group s' = Some toy_group \<and> bt_get (requests s') toy_rid = Some e \<and> message e = [9] \<and>
    randomizer e = 7 \<and> status e = Completed (bs_collect [3, 1]) 413"
proof -
  have "(case aggregate toy_frost (signing_package_new toy_frost (insert_all ((*) 10) [3, 1] bt_new) [9])
            (insert_all ((*) 100) [3, 1] bt_new) (g_pkp toy_group)
            (from_randomizer toy_frost (verifying_key toy_frost (g_pkp toy_group)) 7) of
          Inr sg \<Rightarrow> Completed (bs_collect [3, 1]) sg | Inl reason \<Rightarrow> Failed reason) =
        (Completed (bs_collect [3, 1]) 413 :: (nat, nat, (nat, nat) btree_map \<times> u8 list, nat, nat) request_status)"
    by (simp add: toy_defs bt_keys_def)
  moreover have "set [1, 3 :: nat] = set [3, 1]" by auto
  ultimately show ?thesis
    using signing_session_ends [of "(default_state :: toy_state)\<lparr>group := Some toy_group\<rparr>" toy_group
        toy_rid "[3, 1]" "[1, 3]" toy_frost "[9]" 7 "(*) 10" "(*) 100"]
    by (simp only:) (simp add: default_state_def toy_group_def toy_params_def)
qed

section \<open>A key-generation ceremony\<close>

definition with_ceremony ::
  "('i, 'pkp, 'p1, 'cm, 'rz, 'sp, 'sh, 'sg) state \<Rightarrow> ('i, 'pkp, 'p1) dkg_ceremony \<Rightarrow>
   ('i, 'pkp, 'p1, 'cm, 'rz, 'sp, 'sh, 'sg) state" where
  "with_ceremony s c = s\<lparr>ceremony := Some c\<rparr>"

lemma with_ceremony_simps [simp]:
  "ceremony (with_ceremony s c) = Some c" "group (with_ceremony s c) = group s"
  "(with_ceremony s c)\<lparr>ceremony := Some c'\<rparr> = with_ceremony s c'"
  by (simp_all add: with_ceremony_def)

lemma round1_run:
  assumes "distinct ks" "set ks \<subseteq> dom (bt_get (c_validators c))" "set ks \<inter> dom (bt_get (round1 c)) = {}"
  shows "run_all (apply_tx F) (with_ceremony s c) (map (\<lambda>i. DkgRound1 i (r1 i)) ks) =
    Ok (with_ceremony s (c\<lparr>round1 := insert_all r1 ks (round1 c)\<rparr>))"
  using assms
proof (induction ks arbitrary: c)
  case (Cons i ks)
  let ?c = "c\<lparr>round1 := bt_insert i (r1 i) (round1 c)\<rparr>"
  have "apply_tx F (with_ceremony s c) (DkgRound1 i (r1 i)) = Ok (with_ceremony s ?c)"
    using Cons.prems by (simp only: apply_tx.simps dkg_round1_Ok) (auto simp: domIff)
  moreover have "set ks \<inter> dom (bt_get (round1 ?c)) = {}" using Cons.prems by auto
  ultimately show ?case using Cons.IH [of ?c] Cons.prems by (simp del: bt_get_insert)
qed simp

lemma round2_run:
  assumes "r1_complete c" "distinct ps" "set ps \<subseteq> ordered_pairs (c_validators c)"
    and "set ps \<inter> dom (bt_get (round2 c)) = {}"
  shows "run_all (apply_tx F) (with_ceremony s c) (map (\<lambda>(i, j). DkgRound2 i j (env (i, j))) ps) =
    Ok (with_ceremony s (c\<lparr>round2 := insert_all env ps (round2 c)\<rparr>))"
  using assms
proof (induction ps arbitrary: c)
  case (Cons p ps)
  obtain i j where p: "p = (i, j)" by (cases p)
  let ?c = "c\<lparr>round2 := bt_insert p (env p) (round2 c)\<rparr>"
  have "apply_tx F (with_ceremony s c) (DkgRound2 i j (env p)) = Ok (with_ceremony s ?c)"
    using Cons.prems p
    by (simp only: apply_tx.simps dkg_round2_Ok) (auto simp: ordered_pairs_def domIff)
  moreover have "set ps \<inter> dom (bt_get (round2 ?c)) = {}" "r1_complete ?c"
    using Cons.prems by (auto simp: r1_complete_def ceremony_total_def)
  ultimately show ?case using Cons.IH [of ?c] Cons.prems p by (simp del: bt_get_insert)
qed simp

text \<open>Every package in the finalize map, and every one that is still to come, agrees.\<close>

definition all_agree ::
  "('i::linorder, 'pkp, 'vk, 'vs, 'cm, 'rz, 'rp, 'sp, 'sh, 'sg) frost \<Rightarrow> ('i \<Rightarrow> 'pkp) \<Rightarrow> 'i set \<Rightarrow> bool" where
  "all_agree F pkp V \<longleftrightarrow> (\<forall>i \<in> V. \<forall>j \<in> V. pkp_agree F (pkp i) (pkp j))"

lemma finalize_step:
  assumes "0 < ceremony_total c" "bt_len (round2 c) = ceremony_total c * (ceremony_total c - 1)"
    and "i \<in> dom (bt_get (c_validators c))" "i \<notin> set ks" "set ks \<subseteq> dom (bt_get (c_validators c))"
    and "finalize c = insert_all pkp ks bt_new" "all_agree F pkp (dom (bt_get (c_validators c)))"
  shows "apply_tx F (with_ceremony s c) (DkgFinalize i (pkp i)) =
    Ok (finalize_next (with_ceremony s c) (c\<lparr>finalize := insert_all pkp (ks @ [i]) bt_new\<rparr>))"
proof -
  have "pkp_agree F p (pkp i)" if "bt_first (finalize c) = Some (k, p)" for k p
  proof -
    have "bt_get (insert_all pkp ks bt_new) k = Some p"
      using bt_first_get [OF that] assms(6) by simp
    then have "k \<in> set ks" "p = pkp k" by (auto simp: bt_get_insert_all split: if_splits)
    with assms show ?thesis unfolding all_agree_def by blast
  qed
  with assms show ?thesis
    by (simp only: apply_tx.simps dkg_finalize_Ok) (auto simp: bt_get_insert_all insert_all_snoc domIff)
qed

lemma finalize_run:
  assumes "0 < ceremony_total c" "bt_len (round2 c) = ceremony_total c * (ceremony_total c - 1)"
    and "distinct ks" "set ks \<subseteq> dom (bt_get (c_validators c))" "length ks < ceremony_total c"
    and "finalize c = bt_new" "all_agree F pkp (dom (bt_get (c_validators c)))"
  shows "run_all (apply_tx F) (with_ceremony s c) (map (\<lambda>i. DkgFinalize i (pkp i)) ks) =
    Ok (with_ceremony s (c\<lparr>finalize := insert_all pkp ks bt_new\<rparr>))"
  using assms(3,4,5)
proof (induction ks rule: rev_induct)
  case Nil
  then show ?case using assms(6) by (cases c) simp
next
  case (snoc i ks)
  let ?c = "c\<lparr>finalize := insert_all pkp ks bt_new\<rparr>"
  let ?d = "?c\<lparr>finalize := insert_all pkp (ks @ [i]) bt_new\<rparr>"
  have "bt_len (insert_all pkp (ks @ [i]) bt_new) = Suc (length ks)"
    using snoc.prems(1) by (simp add: bt_len_insert_all del: insert_all_simps)
  then have "\<not> finalize_complete ?d"
    using snoc.prems(3) by (simp add: finalize_complete_def ceremony_total_def)
  then have stay: "finalize_next (with_ceremony s ?c) ?d = with_ceremony s ?d"
    by (simp add: finalize_next_def)
  have "apply_tx F (with_ceremony s ?c) (DkgFinalize i (pkp i)) =
      Ok (finalize_next (with_ceremony s ?c) ?d)"
    by (rule finalize_step) (use assms snoc.prems in \<open>auto simp: ceremony_total_def\<close>)
  with stay snoc show ?case by (simp add: run_all_snoc)
qed

lemma first_insert_all:
  assumes "ks \<noteq> []"
  shows "bt_first (insert_all f ks bt_new) = Some (Min (set ks), f (Min (set ks)))"
proof -
  have "insert_all f ks bt_new \<noteq> bt_new"
    using assms dom_insert_all [of f ks bt_new] by (auto simp: bt_new_iff simp del: dom_insert_all)
  then obtain k v where kv: "bt_first (insert_all f ks bt_new) = Some (k, v)"
    by (metis bt_first_None not_None_eq prod.collapse)
  then have k: "k \<in> set ks" "v = f k"
    using bt_first_get [OF kv] by (auto simp: bt_get_insert_all split: if_splits)
  moreover have "k \<le> j" if "j \<in> set ks" for j
    using bt_first_least [OF kv, of j] that by (simp add: bt_get_insert_all)
  ultimately have "Min (set ks) = k" by (intro Min_eqI) auto
  with kv k show ?thesis by simp
qed

lemma finalize_reach_group:
  assumes "0 < ceremony_total c" "bt_len (round2 c) = ceremony_total c * (ceremony_total c - 1)"
    and "distinct fs" "set fs = dom (bt_get (c_validators c))" "length fs = ceremony_total c"
    and "finalize c = bt_new" "all_agree F pkp (dom (bt_get (c_validators c)))"
  shows "run_all (apply_tx F) (with_ceremony s c) (map (\<lambda>i. DkgFinalize i (pkp i)) fs) =
    Ok (s\<lparr>ceremony := None, group := Some \<lparr>g_params = c_params c, g_pkp = pkp (Min (set fs)),
           g_validators = bs_collect (bt_keys (c_validators c))\<rparr>\<rparr>)"
proof -
  have "fs \<noteq> []" using assms(1,5) by auto
  then obtain ks i where fs: "fs = ks @ [i]" by (cases fs rule: rev_cases) auto
  let ?c = "c\<lparr>finalize := insert_all pkp ks bt_new\<rparr>"
  let ?d = "?c\<lparr>finalize := insert_all pkp fs bt_new\<rparr>"
  have "run_all (apply_tx F) (with_ceremony s c) (map (\<lambda>i. DkgFinalize i (pkp i)) ks) =
      Ok (with_ceremony s ?c)"
    by (rule finalize_run) (use assms fs in auto)
  moreover have "apply_tx F (with_ceremony s ?c) (DkgFinalize i (pkp i)) =
      Ok (finalize_next (with_ceremony s ?c) ?d)"
    unfolding fs by (rule finalize_step) (use assms fs in \<open>auto simp: ceremony_total_def\<close>)
  moreover have "finalize_complete ?d"
    using assms(3,5) bt_len_insert_all [of fs bt_new pkp]
    by (simp add: finalize_complete_def ceremony_total_def)
  ultimately show ?thesis
    using first_insert_all [OF \<open>fs \<noteq> []\<close>, of pkp]
    by (simp add: fs run_all_snoc finalize_next_def with_ceremony_def)
qed

text \<open>
  C15. A ceremony in which everyone takes part ends with a group. From a state without group and
  ceremony, \<open>DkgBegin\<close> with as many validators as the (non-zero) total, then the round-one packages
  of all of them, then the envelopes of all ordered pairs, then everyone's public key package, each
  round in any order and with packages that agree, is accepted throughout and leaves a group with
  these parameters, these validators and the agreed package (that of the least identifier), no
  ceremony, and the requests untouched.
\<close>

theorem dkg_ceremony_ends:
  assumes s: "group s = None" "ceremony s = None"
    and V: "bt_len V = unat (total p)" "0 < unat (total p)"
    and ks: "distinct ks" "set ks = dom (bt_get V)"
    and ps: "distinct ps" "set ps = ordered_pairs V"
    and fs: "distinct fs" "set fs = dom (bt_get V)"
    and agree: "\<And>i j. i \<in> dom (bt_get V) \<Longrightarrow> j \<in> dom (bt_get V) \<Longrightarrow> pkp_agree F (pkp i) (pkp j)"
  shows "run_all (apply_tx F) s
      (DkgBegin p V # map (\<lambda>i. DkgRound1 i (r1 i)) ks @
       map (\<lambda>(i, j). DkgRound2 i j (env (i, j))) ps @ map (\<lambda>i. DkgFinalize i (pkp i)) fs) =
    Ok (s\<lparr>ceremony := None,
          group := Some \<lparr>g_params = p, g_pkp = pkp (Min (dom (bt_get V))),
            g_validators = bs_collect (bt_keys V)\<rparr>\<rparr>)"
proof -
  let ?c0 = "\<lparr>c_params = p, c_validators = V, round1 = bt_new, round2 = bt_new, finalize = bt_new\<rparr>"
  let ?c1 = "?c0\<lparr>round1 := insert_all r1 ks bt_new\<rparr>"
  let ?c2 = "?c1\<lparr>round2 := insert_all env ps bt_new\<rparr>"
  have start: "apply_tx F s (DkgBegin p V) = Ok (with_ceremony s ?c0)"
    using s V by (simp only: apply_tx.simps dkg_begin_Ok) (simp add: with_ceremony_def)
  have len: "length ks = unat (total p)" "length fs = unat (total p)"
    using V(1) ks fs by (metis bt_len_card distinct_card)+
  have "length ps = card (ordered_pairs V)" using ps by (metis distinct_card)
  then have lenp: "length ps = unat (total p) * (unat (total p) - 1)"
    using V(1) card_off_diagonal [of "dom (bt_get V)"] by (simp add: ordered_pairs_def bt_len_card)
  have one: "run_all (apply_tx F) (with_ceremony s ?c0) (map (\<lambda>i. DkgRound1 i (r1 i)) ks) =
      Ok (with_ceremony s ?c1)"
    using round1_run [of ks ?c0 F s r1] ks by simp
  have "r1_complete ?c1"
    using ks len by (simp add: r1_complete_def ceremony_total_def bt_len_insert_all)
  then have two: "run_all (apply_tx F) (with_ceremony s ?c1)
      (map (\<lambda>(i, j). DkgRound2 i j (env (i, j))) ps) = Ok (with_ceremony s ?c2)"
    using round2_run [of ?c1 ps F s env] ps by simp
  have three: "run_all (apply_tx F) (with_ceremony s ?c2) (map (\<lambda>i. DkgFinalize i (pkp i)) fs) =
    Ok (s\<lparr>ceremony := None, group := Some \<lparr>g_params = p, g_pkp = pkp (Min (set fs)),
           g_validators = bs_collect (bt_keys V)\<rparr>\<rparr>)"
    using finalize_reach_group [of ?c2 fs F pkp s] V ps fs len lenp agree
    by (simp add: ceremony_total_def bt_len_insert_all all_agree_def)
  from start one two three fs(2) show ?thesis by (simp add: run_all_append)
qed

theorem dkg_ceremony_ends_witness:
  "run_all (apply_tx toy_frost) (default_state :: toy_state)
      (DkgBegin duo_params duo_validators # map (\<lambda>i. DkgRound1 i (10 * i)) [2, 1] @
       map (\<lambda>(i, j). DkgRound2 i j (Sealed [])) [(1, 2), (2, 1)] @
       map (\<lambda>i. DkgFinalize i [1, 2]) [1, 2]) =
    Ok (default_state\<lparr>ceremony := None,
          group := Some \<lparr>g_params = duo_params, g_pkp = [1, 2],
            g_validators = bs_collect (bt_keys duo_validators)\<rparr>\<rparr>)"
proof -
  have "dom (bt_get duo_validators) = {1, 2}" by (auto simp: duo_validators_def)
  moreover from this have "ordered_pairs duo_validators = {(1, 2), (2, 1)}"
    by (auto simp: ordered_pairs_def)
  moreover have "bt_len duo_validators = unat (total duo_params)" "0 < unat (total duo_params)"
    by (simp_all add: duo_defs bt_len_insert)
  ultimately show ?thesis
    using dkg_ceremony_ends [of "default_state :: toy_state" duo_validators duo_params "[2, 1]"
        "[(1, 2), (2, 1)]" "[1, 2]" toy_frost "\<lambda>_. [1, 2]" "\<lambda>i. 10 * i" "\<lambda>_. Sealed []"]
    by (simp add: default_state_def pkp_agree_equiv insert_commute)
qed

end
