(* ===== verification/Chain_Order.thy ===== *)
theory Chain_Order
  imports Chain_Live
begin

text \<open>
  The order of delivery. Transactions that touch different requests, different participants of a
  key-generation round, or different participants' shares of one request can be exchanged; the
  commitments of one request cannot, once there are more of them than the threshold.
\<close>

section \<open>Transactions that commute\<close>

fun tx_request :: "('i, 'pkp, 'p1, 'cm, 'rz, 'sh) tx \<Rightarrow> uuid option" where
  "tx_request (SubmitRequest rid _ _) = Some rid"
| "tx_request (SubmitCommitment rid _ _) = Some rid"
| "tx_request (SubmitShare rid _ _) = Some rid"
| "tx_request _ = None"

inductive independent :: "('i, 'pkp, 'p1, 'cm, 'rz, 'sh) tx \<Rightarrow> ('i, 'pkp, 'p1, 'cm, 'rz, 'sh) tx \<Rightarrow> bool" where
  other_request: "tx_request t = Some r \<Longrightarrow> tx_request u = Some r' \<Longrightarrow> r \<noteq> r' \<Longrightarrow> independent t u"
| other_share: "v \<noteq> w \<Longrightarrow> independent (SubmitShare r v sh) (SubmitShare r w sh')"
| other_round1: "i \<noteq> j \<Longrightarrow> independent (DkgRound1 i p) (DkgRound1 j q)"
| other_round2: "(i, j) \<noteq> (k, l) \<Longrightarrow> independent (DkgRound2 i j e) (DkgRound2 k l f)"
| other_finalize: "i \<noteq> j \<Longrightarrow> independent (DkgFinalize i p) (DkgFinalize j q)"

text \<open>What a transaction on a request does to that request's entry, when it is accepted.\<close>

definition request_effect ::
  "('i::linorder, 'pkp, 'vk, 'vs, 'cm, 'rz, 'rp, 'sp, 'sh, 'sg) frost \<Rightarrow>
   ('i, 'pkp) group_config \<Rightarrow> ('i, 'pkp, 'p1, 'cm, 'rz, 'sh) tx \<Rightarrow>
   ('i, 'cm, 'rz, 'sp, 'sh, 'sg) request_entry option \<Rightarrow>
   ('i, 'cm, 'rz, 'sp, 'sh, 'sg) request_entry \<Rightarrow> bool" where
  "request_effect F g t eo e' \<longleftrightarrow>
     (\<exists>r msg rz. t = SubmitRequest r msg rz \<and> eo = None \<and>
        e' = \<lparr>request_id = r, message = msg, randomizer = rz, status = AwaitingCommitments bt_new\<rparr>) \<or>
     (\<exists>r v cm e cms. t = SubmitCommitment r v cm \<and> eo = Some e \<and> v \<in> dom (bt_get (g_validators g)) \<and>
        status e = AwaitingCommitments cms \<and> bt_get cms v = None \<and>
        e' = e\<lparr>status := after_commitment F (g_params g) (message e) (bt_insert v cm cms)\<rparr>) \<or>
     (\<exists>r v sh e sp P shs. t = SubmitShare r v sh \<and> eo = Some e \<and> v \<in> dom (bt_get (g_validators g)) \<and>
        status e = Signing sp P shs \<and> v \<in> dom (bt_get P) \<and> bt_get shs v = None \<and>
        e' = e\<lparr>status := after_share F (g_pkp g) (randomizer e) sp P (bt_insert v sh shs)\<rparr>)"

lemma request_tx_Ok:
  assumes "tx_request t = Some r"
  shows "apply_tx F s t = Ok s' \<longleftrightarrow>
    (\<exists>g e'. group s = Some g \<and> request_effect F g t (bt_get (requests s) r) e' \<and>
       s' = s\<lparr>requests := bt_insert r e' (requests s)\<rparr>)"
proof (cases t)
  case (SubmitRequest rid msg rz)
  with assms show ?thesis
    by (simp only: apply_tx.simps submit_request_Ok) (auto simp: request_effect_def)
next
  case (SubmitCommitment rid v cm)
  with assms have "rid = r" by simp
  show ?thesis
    unfolding SubmitCommitment apply_tx.simps submit_commitment_Ok request_effect_def \<open>rid = r\<close>
    by (simp only: tx.distinct tx.inject) metis
next
  case (SubmitShare rid v sh)
  with assms have "rid = r" by simp
  show ?thesis
    unfolding SubmitShare apply_tx.simps submit_share_Ok request_effect_def \<open>rid = r\<close>
    by (simp only: tx.distinct tx.inject) metis
qed (use assms in simp_all)

definition commutes ::
  "('i::linorder, 'pkp, 'vk, 'vs, 'cm, 'rz, 'rp, 'sp, 'sh, 'sg) frost \<Rightarrow>
   ('i, 'pkp, 'p1, 'cm, 'rz, 'sp, 'sh, 'sg) state \<Rightarrow> ('i, 'pkp, 'p1, 'cm, 'rz, 'sh) tx \<Rightarrow>
   ('i, 'pkp, 'p1, 'cm, 'rz, 'sh) tx \<Rightarrow> bool" where
  "commutes F s t u \<longleftrightarrow>
     (\<forall>s'. run_all (apply_tx F) s [t, u] = Ok s' \<longrightarrow> run_all (apply_tx F) s [u, t] = Ok s')"

lemma other_request_commutes:
  assumes t: "tx_request t = Some r" and u: "tx_request u = Some r'" and "r \<noteq> r'"
  shows "commutes F s t u"
  unfolding commutes_def
proof (intro allI impI)
  fix s'
  assume "run_all (apply_tx F) s [t, u] = Ok s'"
  then obtain s1 where s1: "apply_tx F s t = Ok s1" "apply_tx F s1 u = Ok s'"
    by (auto split: result.splits)
  from s1(1) obtain g e where g: "group s = Some g" "request_effect F g t (bt_get (requests s) r) e"
    and s1_eq: "s1 = s\<lparr>requests := bt_insert r e (requests s)\<rparr>"
    unfolding request_tx_Ok [OF t] by blast
  from s1(2) obtain e' where e': "request_effect F g u (bt_get (requests s) r') e'"
    and s'_eq: "s' = s1\<lparr>requests := bt_insert r' e' (requests s1)\<rparr>"
    unfolding request_tx_Ok [OF u] s1_eq using g(1) \<open>r \<noteq> r'\<close> by auto
  let ?s2 = "s\<lparr>requests := bt_insert r' e' (requests s)\<rparr>"
  have "apply_tx F s u = Ok ?s2"
    unfolding request_tx_Ok [OF u] using g(1) e' by blast
  moreover have "apply_tx F ?s2 t = Ok (?s2\<lparr>requests := bt_insert r e (requests ?s2)\<rparr>)"
    unfolding request_tx_Ok [OF t] using g \<open>r \<noteq> r'\<close> by auto
  moreover have "?s2\<lparr>requests := bt_insert r e (requests ?s2)\<rparr> = s'"
    using \<open>r \<noteq> r'\<close> by (simp add: s'_eq s1_eq bt.ins_commute)
  ultimately show "run_all (apply_tx F) s [u, t] = Ok s'" by simp
qed

lemma round1_commutes: "i \<noteq> j \<Longrightarrow> commutes F s (DkgRound1 i p) (DkgRound1 j q)"
  by (auto simp: commutes_def dkg_round1_Ok bt.ins_commute)

lemma round2_commutes: "(i, j) \<noteq> (k, l) \<Longrightarrow> commutes F s (DkgRound2 i j e) (DkgRound2 k l f)"
  by (auto simp: commutes_def dkg_round2_Ok bt.ins_commute r1_complete_def ceremony_total_def)

lemma after_share_Signing:
  "after_share F pkp rz sp P m = Signing sp' P' m' \<longleftrightarrow>
     bt_len m \<noteq> bt_len P \<and> sp' = sp \<and> P' = P \<and> m' = m"
  by (auto simp: after_share_def split: sum.splits)

lemma share_commutes:
  assumes "v \<noteq> w"
  shows "commutes F s (SubmitShare r v a) (SubmitShare r w b)"
  unfolding commutes_def
proof (intro allI impI)
  fix s'
  assume "run_all (apply_tx F) s [SubmitShare r v a, SubmitShare r w b] = Ok s'"
  then obtain s1 where s1: "apply_tx F s (SubmitShare r v a) = Ok s1" "apply_tx F s1 (SubmitShare r w b) = Ok s'"
    by (auto split: result.splits)
  from s1(1) obtain g e sp P shs where t: "group s = Some g" "v \<in> dom (bt_get (g_validators g))"
      "bt_get (requests s) r = Some e" "status e = Signing sp P shs" "v \<in> dom (bt_get P)" "bt_get shs v = None"
    and s1_eq: "s1 = with_entry s r (e\<lparr>status := after_share F (g_pkp g) (randomizer e) sp P (bt_insert v a shs)\<rparr>)"
    unfolding apply_tx.simps submit_share_Ok with_entry_def by blast
  from s1(2) t(1) have u: "w \<in> dom (bt_get (g_validators g))" "w \<in> dom (bt_get P)" "bt_get shs w = None"
      "bt_len (bt_insert v a shs) \<noteq> bt_len P"
    and s'_eq: "s' = with_entry s r (e\<lparr>status := after_share F (g_pkp g) (randomizer e) sp P
       (bt_insert w b (bt_insert v a shs))\<rparr>)"
    using assms
    by (auto simp: submit_share_Ok s1_eq after_share_Signing with_entry_def bt.ins_overwrite)
  let ?e = "e\<lparr>status := Signing sp P (bt_insert w b shs)\<rparr>"
  have s: "s = with_entry s r e" using t(3) by (simp add: with_entry_def bt.ins_same)
  have "after_share F (g_pkp g) (randomizer e) sp P (bt_insert w b shs) = Signing sp P (bt_insert w b shs)"
    using u t(6) by (simp add: after_share_def)
  with share_step [of s g w e sp P shs F r b] t u s
  have "apply_tx F s (SubmitShare r w b) = Ok (with_entry s r ?e)" by simp
  moreover have "apply_tx F (with_entry s r ?e) (SubmitShare r v a) = Ok s'"
    using share_step [of s g v ?e sp P "bt_insert w b shs" F r a] t u assms
    by (simp add: s'_eq bt.ins_commute)
  ultimately show "run_all (apply_tx F) s [SubmitShare r w b, SubmitShare r v a] = Ok s'" by simp
qed

lemma finalize_commutes:
  assumes inv: "chain_inv F s" and "i \<noteq> j"
  shows "commutes F s (DkgFinalize i p) (DkgFinalize j q)"
  unfolding commutes_def
proof (intro allI impI)
  fix s'
  assume "run_all (apply_tx F) s [DkgFinalize i p, DkgFinalize j q] = Ok s'"
  then obtain s1 where s1: "apply_tx F s (DkgFinalize i p) = Ok s1" "apply_tx F s1 (DkgFinalize j q) = Ok s'"
    by (auto split: result.splits)
  from s1(1) obtain c where c: "ceremony s = Some c" "0 < ceremony_total c"
      "bt_len (round2 c) = ceremony_total c * (ceremony_total c - 1)"
      "i \<in> dom (bt_get (c_validators c))" "bt_get (finalize c) i = None"
      "\<forall>k f. bt_first (finalize c) = Some (k, f) \<longrightarrow> pkp_agree F f p"
    and s1_eq: "s1 = finalize_next s (c\<lparr>finalize := bt_insert i p (finalize c)\<rparr>)"
    unfolding apply_tx.simps dkg_finalize_Ok by blast
  let ?c1 = "c\<lparr>finalize := bt_insert i p (finalize c)\<rparr>" and ?c2 = "c\<lparr>finalize := bt_insert j q (finalize c)\<rparr>"
  let ?m = "bt_insert j q (bt_insert i p (finalize c))"
  from s1(2) have part: "\<not> finalize_complete ?c1"
    by (auto simp: dkg_finalize_Ok s1_eq finalize_next_def)
  with s1_eq have s1_eq': "s1 = s\<lparr>ceremony := Some ?c1\<rparr>" by (simp add: finalize_next_def)
  from s1(2) have j: "j \<in> dom (bt_get (c_validators c))" "bt_get (finalize c) j = None"
      "\<forall>k f. bt_first (bt_insert i p (finalize c)) = Some (k, f) \<longrightarrow> pkp_agree F f q"
    and s'_eq: "s' = finalize_next s (c\<lparr>finalize := ?m\<rparr>)"
    unfolding s1_eq' apply_tx.simps dkg_finalize_Ok using \<open>i \<noteq> j\<close>
    by (auto simp: finalize_next_def finalize_complete_def ceremony_total_def simp del: bt_first_insert)
  have cinv: "ceremony_inv F c" using inv c(1) by (simp add: chain_inv_def)
  have pq: "pkp_agree F p q"
  proof -
    obtain k f where kf: "bt_first (bt_insert i p (finalize c)) = Some (k, f)"
      by (metis bt_first_insert prod.collapse)
    have "pkp_agree F p f" using first_agrees [OF cinv c(6) kf] by (rule pkp_agree_equiv)
    moreover have "pkp_agree F f q" using j(3) kf by blast
    ultimately show ?thesis by (rule pkp_agree_equiv)
  qed
  have cq: "\<forall>k f. bt_first (finalize c) = Some (k, f) \<longrightarrow> pkp_agree F f q"
    using c(6) pq by (auto intro: pkp_agree_equiv(3))
  have cp: "\<forall>k f. bt_first (bt_insert j q (finalize c)) = Some (k, f) \<longrightarrow> pkp_agree F f p"
    using first_agrees [OF cinv cq] pkp_agree_equiv(2) [OF pq] by (blast intro: pkp_agree_equiv(3))
  have "apply_tx F s (DkgFinalize j q) = Ok (s\<lparr>ceremony := Some ?c2\<rparr>)"
    unfolding apply_tx.simps dkg_finalize_Ok using c j cq part
    by (auto simp: finalize_next_def finalize_complete_def ceremony_total_def)
  moreover have "apply_tx F (s\<lparr>ceremony := Some ?c2\<rparr>) (DkgFinalize i p) = Ok s'"
    unfolding apply_tx.simps dkg_finalize_Ok using c j \<open>i \<noteq> j\<close> cp
    by (simp add: s'_eq finalize_next_def finalize_complete_def ceremony_total_def bt.ins_commute
        del: bt_first_insert)
  ultimately show "run_all (apply_tx F) s [DkgFinalize j q, DkgFinalize i p] = Ok s'" by simp
qed

text \<open>
  C23. Non-conflicting transactions commute. In every reachable state, if two transactions are
  accepted one after the other and they concern different requests, shares of different validators,
  round-one packages of different participants, envelopes of different pairs, or finalizations by
  different participants, then the opposite order is accepted too and ends in the same state.
\<close>

theorem independent_commute:
  assumes "reach (apply_tx F) default_state s" "independent t u"
    and "run_all (apply_tx F) s [t, u] = Ok s'"
  shows "run_all (apply_tx F) s [u, t] = Ok s'"
proof -
  from assms(1) have "chain_inv F s" by (rule reachable_inv)
  with assms(2) have "commutes F s t u"
    by cases (auto intro: other_request_commutes share_commutes round1_commutes round2_commutes
        finalize_commutes)
  with assms(3) show ?thesis unfolding commutes_def by blast
qed

lemma duo_begin_reach:
  "reach (apply_tx toy_frost) default_state
     (with_ceremony (default_state :: toy_state) \<lparr>c_params = duo_params, c_validators = duo_validators,
        round1 = bt_new, round2 = bt_new, finalize = bt_new\<rparr>)"
proof (rule run_all_reach [of _ _ "[DkgBegin duo_params duo_validators]"])
  show "run_all (apply_tx toy_frost) default_state [DkgBegin duo_params duo_validators] =
     Ok (with_ceremony (default_state :: toy_state) \<lparr>c_params = duo_params, c_validators = duo_validators,
        round1 = bt_new, round2 = bt_new, finalize = bt_new\<rparr>)"
    by (simp add: apply_dkg_begin_def with_ceremony_def default_state_def duo_defs bt_len_insert)
qed

theorem independent_commute_witness:
  "\<exists>s'. run_all (apply_tx toy_frost)
      (with_ceremony (default_state :: toy_state) \<lparr>c_params = duo_params, c_validators = duo_validators,
        round1 = bt_new, round2 = bt_new, finalize = bt_new\<rparr>)
      [DkgRound1 2 20, DkgRound1 1 10] = Ok s' \<and>
    independent (DkgRound1 1 10 :: toy_tx) (DkgRound1 2 20)"
proof -
  let ?c = "\<lparr>c_params = duo_params, c_validators = duo_validators,
        round1 = bt_new, round2 = bt_new, finalize = bt_new\<rparr>"
  have ind: "independent (DkgRound1 1 10 :: toy_tx) (DkgRound1 2 20)"
    by (rule other_round1) simp
  have "\<exists>s'. run_all (apply_tx toy_frost) (with_ceremony (default_state :: toy_state) ?c)
      [DkgRound1 1 10, DkgRound1 2 20] = Ok s'"
    using round1_run [of "[1, 2]" ?c toy_frost "default_state :: toy_state" "(*) 10"]
    by (simp add: duo_validators_def) blast
  then show ?thesis using independent_commute [OF duo_begin_reach ind] ind by blast
qed

section \<open>The commitments of one request do not commute\<close>

lemma run_skip_prefix:
  "run_all step s ts = Ok s' \<Longrightarrow> run_skip step s (ts @ us) = run_skip step s' us"
  by (induction ts arbitrary: s) (auto split: result.splits)

lemma run_skip_rejected:
  "(\<And>u. u \<in> set us \<Longrightarrow> \<exists>e. step s u = Err e) \<Longrightarrow> run_skip step s us = Ok s"
proof (induction us)
  case (Cons u us)
  then obtain e where "step s u = Err e" by (meson list.set_intros(1))
  with Cons show ?case by simp
qed simp

lemma run_commitments:
  fixes s :: "('i::linorder, 'pkp, 'p1, 'cm, 'rz, 'sp, 'sh, 'sg) state"
  assumes g: "group s = Some g" and e: "bt_get (requests s) rid = Some e"
    and st: "status e = AwaitingCommitments bt_new"
    and vs: "distinct vs" "set vs \<subseteq> dom (bt_get (g_validators g))"
    and t: "t = unat (threshold (g_params g))" "0 < t" "t \<le> length vs"
  shows "run_skip (apply_tx F) s (map (\<lambda>v. SubmitCommitment rid v (cm v)) vs) =
    Ok (with_entry s rid (e\<lparr>status :=
      Signing (signing_package_new F (insert_all cm (take t vs) bt_new) (message e))
        (bs_collect (take t vs)) bt_new\<rparr>))"
proof -
  define C :: "'i list \<Rightarrow> ('i, 'pkp, 'p1, 'cm, 'rz, 'sh) tx list"
    where "C = map (\<lambda>v. SubmitCommitment rid v (cm v))"
  let ?e = "e\<lparr>status := Signing (signing_package_new F (insert_all cm (take t vs) bt_new) (message e))
      (bs_collect (take t vs)) bt_new\<rparr>"
  have s: "s = with_entry s rid e" using e by (simp add: with_entry_def bt.ins_same)
  have sub: "set (take t vs) \<subseteq> dom (bt_get (g_validators g))"
    using set_take_subset vs(2) by (rule subset_trans)
  have "run_all (apply_tx F) (with_entry s rid e) (C (take t vs)) = Ok (with_entry s rid ?e)"
    unfolding C_def by (rule commits_reach_signing [OF g st _ sub]) (use vs(1) t in auto)
  then have "run_all (apply_tx F) s (C (take t vs)) = Ok (with_entry s rid ?e)"
    using s by simp
  then have "run_skip (apply_tx F) s (C (take t vs) @ C (drop t vs)) =
      run_skip (apply_tx F) (with_entry s rid ?e) (C (drop t vs))"
    by (rule run_skip_prefix)
  also have "\<dots> = Ok (with_entry s rid ?e)"
  proof (rule run_skip_rejected)
    fix u
    assume "u \<in> set (C (drop t vs))"
    then obtain v where "v \<in> set vs" and u: "u = SubmitCommitment rid v (cm v)"
      unfolding C_def using set_drop_subset by fastforce
    with vs(2) g show "\<exists>err. apply_tx F (with_entry s rid ?e) u = Err err"
      by (auto simp: u apply_submit_commitment_def require_group_def domIff)
  qed
  finally show ?thesis by (simp add: C_def append_take_drop_id flip: map_append)
qed

text \<open>
  Participants are the first arrivals. When at least \<open>threshold\<close> distinct validators submit
  commitments for a fresh request, the participants of the signing session are the validators of
  the first \<open>threshold\<close> commitments in the order in which the chain applied them; the later
  commitments are rejected. (The selection by identifier order inside the transition always takes
  the whole map.)
\<close>

lemma participants_first_arrivals:
  assumes g: "group s = Some g" and e: "bt_get (requests s) rid = Some e"
    and st: "status e = AwaitingCommitments bt_new"
    and vs: "distinct vs" "set vs \<subseteq> dom (bt_get (g_validators g))"
    and t: "t = unat (threshold (g_params g))" "0 < t" "t \<le> length vs"
  shows "\<exists>s' e'. run_skip (apply_tx F) s (map (\<lambda>v. SubmitCommitment rid v (cm v)) vs) = Ok s' \<and>
    bt_get (requests s') rid = Some e' \<and>
    status e' = Signing (signing_package_new F (insert_all cm (take t vs) bt_new) (message e))
      (bs_collect (take t vs)) bt_new"
  using run_commitments [OF assms, of F cm] by simp

definition pending_entry :: "(nat, nat, nat, (nat, nat) btree_map \<times> u8 list, nat, nat) request_entry" where
  "pending_entry = \<lparr>request_id = toy_rid, message = [104, 105], randomizer = 7,
     status = AwaitingCommitments bt_new\<rparr>"

definition pending_state :: toy_state where
  "pending_state = \<lparr>ceremony = None, group = Some toy_group,
     requests = bt_insert toy_rid pending_entry bt_new\<rparr>"

lemma pending_facts:
  "group pending_state = Some toy_group" "bt_get (requests pending_state) toy_rid = Some pending_entry"
  "status pending_entry = AwaitingCommitments bt_new"
  "dom (bt_get (g_validators toy_group)) = {1, 2, 3}"
  "unat (threshold (g_params toy_group)) = 2"
  by (auto simp: pending_state_def pending_entry_def toy_group_def toy_params_def)

lemma pending_run:
  "run_all (apply_tx toy_frost) default_state
      [InitGroup toy_params [1, 2, 3] [1, 2, 3], SubmitRequest toy_rid [104, 105] 7] = Ok pending_state"
  by (simp add: toy_defs pending_state_def pending_entry_def default_state_def apply_defs bt_eval
      insert_commute)

lemma rev_other_prefix:
  assumes "distinct vs" "0 < t" "t < length vs"
  shows "set (take t (rev vs)) \<noteq> set (take t vs)"
proof -
  have "last vs \<in> set (take t (rev vs))" using assms(2,3) by (cases vs rule: rev_cases) (simp_all add: take_Cons')
  moreover have "last vs \<notin> set (take t vs)"
    using assms(1,3) by (cases vs rule: rev_cases) (auto dest: in_set_takeD)
  ultimately show ?thesis by blast
qed

text \<open>
  C28. The order of delivery decides who signs. Let a request of any group have no commitments yet, and
  let more than \<open>threshold\<close> members submit one each: every one of these commitments is valid in that
  state. Two chains that apply them all, in two orders, both open the signing session, each for the
  validators of the first \<open>threshold\<close> commitments of its own order; they end in the same state exactly
  when these are the same validators, and with the reversed order they never are. Delivering the same
  transactions to every validator is not enough for them to agree.
\<close>

theorem delivery_order_diverges:
  fixes F :: "('i::linorder, 'pkp, 'vk, 'vs, 'cm, 'rz, 'rp, 'sp, 'sh, 'sg) frost"
    and s :: "('i, 'pkp, 'p1, 'cm, 'rz, 'sp, 'sh, 'sg) state"
  assumes g: "group s = Some g" and e: "bt_get (requests s) rid = Some e"
    and st: "status e = AwaitingCommitments bt_new"
    and vs: "distinct vs" "set vs \<subseteq> dom (bt_get (g_validators g))" and ws: "distinct ws" "set ws = set vs"
    and t: "t = unat (threshold (g_params g))" "0 < t" "t < length vs"
  shows "(\<forall>v \<in> set vs. is_ok (apply_tx F s (SubmitCommitment rid v (cm v)))) \<and>
    (\<exists>s1 s2 s3 e1 e2 sp1 sp2.
      run_skip (apply_tx F) s (map (\<lambda>v. SubmitCommitment rid v (cm v)) vs) = Ok s1 \<and>
      run_skip (apply_tx F) s (map (\<lambda>v. SubmitCommitment rid v (cm v)) ws) = Ok s2 \<and>
      run_skip (apply_tx F) s (map (\<lambda>v. SubmitCommitment rid v (cm v)) (rev vs)) = Ok s3 \<and>
      bt_get (requests s1) rid = Some e1 \<and> status e1 = Signing sp1 (bs_collect (take t vs)) bt_new \<and>
      bt_get (requests s2) rid = Some e2 \<and> status e2 = Signing sp2 (bs_collect (take t ws)) bt_new \<and>
      (s1 = s2 \<longleftrightarrow> set (take t vs) = set (take t ws)) \<and> s3 \<noteq> s1)"
proof (rule conjI)
  show "\<forall>v \<in> set vs. is_ok (apply_tx F s (SubmitCommitment rid v (cm v)))"
  proof
    fix v
    assume "v \<in> set vs"
    with vs(2) obtain x where "bt_get (g_validators g) v = Some x" by blast
    with g e st show "is_ok (apply_tx F s (SubmitCommitment rid v (cm v)))"
      by (simp add: apply_submit_commitment_def require_group_def bt_contains_key_def)
  qed
next
  let ?e = "\<lambda>us. e\<lparr>status := Signing (signing_package_new F (insert_all cm (take t us) bt_new) (message e))
    (bs_collect (take t us)) bt_new\<rparr>"
  have run: "run_skip (apply_tx F) s (map (\<lambda>v. SubmitCommitment rid v (cm v)) us) = Ok (with_entry s rid (?e us))"
    if "distinct us" "set us = set vs" for us
  proof (rule run_commitments [OF g e st that(1) _ t(1,2)])
    show "set us \<subseteq> dom (bt_get (g_validators g))" using that(2) vs(2) by simp
    show "t \<le> length us" using that vs(1) t(3) by (metis distinct_card less_imp_le)
  qed
  have same: "with_entry s rid (?e us) = with_entry s rid (?e us') \<longleftrightarrow> set (take t us) = set (take t us')" for us us'
  proof
    assume "with_entry s rid (?e us) = with_entry s rid (?e us')"
    then have "bt_get (requests (with_entry s rid (?e us))) rid = bt_get (requests (with_entry s rid (?e us'))) rid" by simp
    then have "status (?e us) = status (?e us')" by simp
    then show "set (take t us) = set (take t us')" by simp
  next
    assume "set (take t us) = set (take t us')"
    then show "with_entry s rid (?e us) = with_entry s rid (?e us')"
      by (simp only: insert_all_perm [of "take t us" "take t us'"] bs_collect_eq
          [of "take t us" "take t us'", THEN iffD2])
  qed
  have ne: "set (take t (rev vs)) \<noteq> set (take t vs)" by (rule rev_other_prefix [OF vs(1) t(2,3)])
  have "distinct (rev vs)" "set (rev vs) = set vs" using vs(1) by simp_all
  note runs = run [OF vs(1) refl] run [OF ws] run [OF this]
  show "\<exists>s1 s2 s3 e1 e2 sp1 sp2.
      run_skip (apply_tx F) s (map (\<lambda>v. SubmitCommitment rid v (cm v)) vs) = Ok s1 \<and>
      run_skip (apply_tx F) s (map (\<lambda>v. SubmitCommitment rid v (cm v)) ws) = Ok s2 \<and>
      run_skip (apply_tx F) s (map (\<lambda>v. SubmitCommitment rid v (cm v)) (rev vs)) = Ok s3 \<and>
      bt_get (requests s1) rid = Some e1 \<and> status e1 = Signing sp1 (bs_collect (take t vs)) bt_new \<and>
      bt_get (requests s2) rid = Some e2 \<and> status e2 = Signing sp2 (bs_collect (take t ws)) bt_new \<and>
      (s1 = s2 \<longleftrightarrow> set (take t vs) = set (take t ws)) \<and> s3 \<noteq> s1"
    by (rule exI [of _ "with_entry s rid (?e vs)"], rule exI [of _ "with_entry s rid (?e ws)"],
        rule exI [of _ "with_entry s rid (?e (rev vs))"]) (simp add: runs same ne)
qed

theorem delivery_order_diverges_witness:
  "\<exists>s1 s2 e1 e2 sp1 sp2.
     run_skip (apply_tx toy_frost) pending_state (map (\<lambda>v. SubmitCommitment toy_rid v (10 * v)) [1, 2, 3]) = Ok s1 \<and>
     run_skip (apply_tx toy_frost) pending_state (map (\<lambda>v. SubmitCommitment toy_rid v (10 * v)) [3, 1, 2]) = Ok s2 \<and>
     bt_get (requests s1) toy_rid = Some e1 \<and> status e1 = Signing sp1 (bs_collect [1, 2]) bt_new \<and>
     bt_get (requests s2) toy_rid = Some e2 \<and> status e2 = Signing sp2 (bs_collect [3, 1]) bt_new \<and> s1 \<noteq> s2"
proof -
  have vs: "distinct [1, 2, 3 :: nat]" "set [1, 2, 3] \<subseteq> dom (bt_get (g_validators toy_group))"
    "distinct [3, 1, 2 :: nat]" "set [3, 1, 2] = set [1, 2, 3 :: nat]" using pending_facts(4) by auto
  have t: "2 = unat (threshold (g_params toy_group))" "0 < (2 :: nat)" "2 < length [1, 2, 3 :: nat]"
    using pending_facts(5) by simp_all
  have tk: "take 2 [1, 2, 3 :: nat] = [1, 2]" "take 2 [3, 1, 2 :: nat] = [3, 1]" "set [1, 2 :: nat] \<noteq> set [3, 1]" by auto
  from delivery_order_diverges [OF pending_facts(1-3) vs t, of toy_frost "(*) 10", THEN conjunct2, unfolded tk(1,2)] tk(3)
  show ?thesis by (elim exE conjE) (intro exI conjI, assumption+, blast)
qed

end
