(* ===== verification/Escrow.thy ===== *)
theory Escrow
  imports Core
begin

text \<open>
  The crate \<open>sapphire-escrow\<close>: the terms of an escrow, the release and the refund predicates
  (\<open>lib.rs\<close>) and the two built-in condition verifiers (\<open>verifiers.rs\<close>). A verifier is the
  function its trait method computes; SHA-256 is a parameter.
\<close>

section \<open>Terms, intents and proposals\<close>

datatype address = Address string

datatype zatoshis = Zatoshis u64

record escrow_terms =
  escrow_id :: "32 bytes"
  amount :: zatoshis
  payee :: address
  refund_to :: address
  timeout_height :: u64
  condition :: "u8 list"

record payment_leg =
  leg_amount :: zatoshis
  leg_to :: address

record 'w settlement_intent =
  si_payment :: payment_leg
  si_witness :: 'w

record refund_intent =
  ri_payment :: payment_leg

record 'w release_proposal =
  proposal_escrow_id :: "32 bytes"
  intent :: "'w settlement_intent"

type_synonym 'w condition_verifier = "escrow_terms \<Rightarrow> 'w \<Rightarrow> bool"

datatype escrow_error =
    AmountMismatch zatoshis zatoshis
  | PayeeMismatch
  | ConditionNotMet
  | RefundTooEarly u64 u64
  | RefundPayeeMismatch

section \<open>The messages of the errors\<close>

fun show_nat :: "nat \<Rightarrow> string" where
  "show_nat n = (if n < 10 then [char_of (48 + n)] else show_nat (n div 10) @ [char_of (48 + n mod 10)])"

declare show_nat.simps [simp del]

fun zatoshis_debug :: "zatoshis \<Rightarrow> string" where
  "zatoshis_debug (Zatoshis z) = ''Zatoshis('' @ show_nat (unat z) @ '')''"

fun escrow_error_display :: "escrow_error \<Rightarrow> string" where
  "escrow_error_display (AmountMismatch want got) =
     ''payment moves '' @ zatoshis_debug got @ '', escrow holds '' @ zatoshis_debug want"
| "escrow_error_display PayeeMismatch = ''release pays the wrong recipient''"
| "escrow_error_display ConditionNotMet = ''release condition is not satisfied''"
| "escrow_error_display (RefundTooEarly current timeout) =
     ''refund is not yet valid: current height '' @ show_nat (unat current) @ '' < timeout '' @
     show_nat (unat timeout)"
| "escrow_error_display RefundPayeeMismatch = ''refund pays the wrong recipient''"

section \<open>The predicates\<close>

definition validate_settlement ::
  "escrow_terms \<Rightarrow> 'w settlement_intent \<Rightarrow> 'w condition_verifier \<Rightarrow> (unit, escrow_error) result" where
  "validate_settlement terms si verify =
     (if leg_amount (si_payment si) \<noteq> amount terms then
        Err (AmountMismatch (amount terms) (leg_amount (si_payment si)))
      else if leg_to (si_payment si) \<noteq> payee terms then Err PayeeMismatch
      else if \<not> verify terms (si_witness si) then Err ConditionNotMet
      else Ok ())"

definition validate_refund ::
  "escrow_terms \<Rightarrow> refund_intent \<Rightarrow> u64 \<Rightarrow> (unit, escrow_error) result" where
  "validate_refund terms ri current_height =
     (if current_height < timeout_height terms then
        Err (RefundTooEarly current_height (timeout_height terms))
      else if leg_to (ri_payment ri) \<noteq> refund_to terms then Err RefundPayeeMismatch
      else if leg_amount (ri_payment ri) \<noteq> amount terms then
        Err (AmountMismatch (amount terms) (leg_amount (ri_payment ri)))
      else Ok ())"

section \<open>The built-in verifiers\<close>

definition digest :: "(u8 list \<Rightarrow> 32 bytes) \<Rightarrow> u8 list \<Rightarrow> 32 bytes" where
  "digest sha256 preimage = sha256 preimage"

definition hash_preimage_verify :: "(u8 list \<Rightarrow> 32 bytes) \<Rightarrow> u8 list condition_verifier" where
  "hash_preimage_verify sha256 terms witness \<longleftrightarrow> condition terms = to_list (digest sha256 witness)"

definition accept_all_verify :: "unit condition_verifier" where
  "accept_all_verify terms witness \<longleftrightarrow> True"

section \<open>What the predicates decide\<close>

lemma settlement_Ok:
  "validate_settlement terms si verify = Ok u \<longleftrightarrow>
     si_payment si = \<lparr>leg_amount = amount terms, leg_to = payee terms\<rparr> \<and> verify terms (si_witness si)"
  by (cases "si_payment si") (auto simp: validate_settlement_def)

lemma refund_Ok:
  "validate_refund terms ri h = Ok u \<longleftrightarrow>
     timeout_height terms \<le> h \<and> ri_payment ri = \<lparr>leg_amount = amount terms, leg_to = refund_to terms\<rparr>"
  by (cases "ri_payment ri") (auto simp: validate_refund_def)

lemma no_panic [simp]:
  "validate_settlement terms si verify \<noteq> Panic" "validate_refund terms ri h \<noteq> Panic"
  by (auto simp: validate_settlement_def validate_refund_def)

text \<open>
  Where the money can go. Whatever the verifier and the witness, a settlement or a refund that
  is validated moves exactly the escrowed amount, a settlement to the payee and only with a witness
  that the verifier accepts, a refund to the refund address and only from the timeout height on;
  conversely such a payment is validated. So one payment passes both gates only if the payee is also
  the refund address.
\<close>

lemma escrow_gates:
  "((\<exists>w. validate_settlement terms \<lparr>si_payment = leg, si_witness = w\<rparr> verify = Ok ()) \<longleftrightarrow>
      leg = \<lparr>leg_amount = amount terms, leg_to = payee terms\<rparr> \<and> (\<exists>w. verify terms w)) \<and>
   (\<forall>h. validate_refund terms \<lparr>ri_payment = leg\<rparr> h = Ok () \<longleftrightarrow>
      unat (timeout_height terms) \<le> unat h \<and>
      leg = \<lparr>leg_amount = amount terms, leg_to = refund_to terms\<rparr>) \<and>
   ((\<exists>h. validate_refund terms \<lparr>ri_payment = leg\<rparr> h = Ok ()) \<longleftrightarrow>
      leg = \<lparr>leg_amount = amount terms, leg_to = refund_to terms\<rparr>) \<and>
   \<not> (\<exists>w h. validate_settlement terms \<lparr>si_payment = leg, si_witness = w\<rparr> verify = Ok () \<and>
      validate_refund terms \<lparr>ri_payment = leg\<rparr> h = Ok () \<and> payee terms \<noteq> refund_to terms)"
  by (auto simp: settlement_Ok refund_Ok word_le_nat_alt)

text \<open>
  C30. A hash lock opens to preimages of its condition only. A release under a hash-preimage verifier is
  validated only if the digest of the revealed witness is, byte for byte, the condition of the terms
  (which therefore is 32 bytes long) and the payment is that of the terms; so any two validated releases
  reveal witnesses with the same digest, and whoever reveals such a witness for that payment passes. The
  escrow identifier plays no role: the same release passes under any other identifier, refund address
  and timeout.
\<close>

theorem hash_lock:
  assumes "validate_settlement terms si (hash_preimage_verify sha256) = Ok ()"
  shows "condition terms = to_list (sha256 (si_witness si)) \<and> length (condition terms) = 32 \<and>
    si_payment si = \<lparr>leg_amount = amount terms, leg_to = payee terms\<rparr> \<and>
    (validate_settlement terms sj (hash_preimage_verify sha256) = Ok () \<longleftrightarrow>
       sha256 (si_witness sj) = sha256 (si_witness si) \<and> si_payment sj = si_payment si) \<and>
    validate_settlement (terms\<lparr>escrow_id := other, refund_to := a, timeout_height := h\<rparr>) si
      (hash_preimage_verify sha256) = Ok ()"
  using assms by (auto simp: settlement_Ok hash_preimage_verify_def digest_def intro: bytes_eqI)

definition sample_sha :: "u8 list \<Rightarrow> 32 bytes" where
  "sample_sha xs = bytes_fill (sum_list xs)"

definition sample_terms :: escrow_terms where
  "sample_terms = \<lparr>escrow_id = bytes_fill 1, amount = Zatoshis 500, payee = Address ''u1payee'',
     refund_to = Address ''u1refund'', timeout_height = 100, condition = replicate 32 9\<rparr>"

definition sample_intent :: "u8 list settlement_intent" where
  "sample_intent = \<lparr>si_payment = \<lparr>leg_amount = Zatoshis 500, leg_to = Address ''u1payee''\<rparr>,
     si_witness = [4, 5]\<rparr>"

lemma sample_settles: "validate_settlement sample_terms sample_intent (hash_preimage_verify sample_sha) = Ok ()"
  by (simp add: settlement_Ok sample_terms_def sample_intent_def hash_preimage_verify_def digest_def
      sample_sha_def)

theorem hash_lock_witness:
  "condition sample_terms = to_list (sample_sha [4, 5]) \<and>
   validate_settlement (sample_terms\<lparr>escrow_id := bytes_fill 2, refund_to := Address ''x'',
     timeout_height := 7\<rparr>) sample_intent (hash_preimage_verify sample_sha) = Ok () \<and>
   validate_settlement sample_terms (sample_intent\<lparr>si_witness := [5, 5]\<rparr>) (hash_preimage_verify sample_sha) \<noteq> Ok ()"
proof -
  note lock = hash_lock [OF sample_settles, where other = "bytes_fill 2" and a = "Address ''x''" and h = 7
      and sj = "sample_intent\<lparr>si_witness := [5, 5]\<rparr>"]
  have "sample_sha [5, 5] \<noteq> sample_sha (si_witness sample_intent)" by (simp add: sample_sha_def sample_intent_def)
  with lock have other: "validate_settlement sample_terms (sample_intent\<lparr>si_witness := [5, 5]\<rparr>)
      (hash_preimage_verify sample_sha) \<noteq> Ok ()" by auto
  have "condition sample_terms = to_list (sample_sha [4, 5])" using lock by (simp add: sample_intent_def)
  with lock other show ?thesis by blast
qed

end
