(* ===== verification/Policy.thy ===== *)
theory Policy
  imports Escrow
begin

text \<open>
  The signing policies of \<open>sapphire-node/src/policy.rs\<close>. The trait \<open>SignPolicy\<close> is the type of
  its method \<open>approve\<close>; the contract that the node relies on is the locale \<open>sign_policy\<close>,
  interpreted on both policies of the source. The JSON decoder is a parameter.
\<close>

section \<open>The trait and its implementations\<close>

type_synonym approve_fn = "u8 list \<Rightarrow> (unit, string) result"

definition accept_all_approve :: approve_fn where
  "accept_all_approve message = Ok ()"

record 'w escrow_policy =
  escrows :: "(32 bytes, escrow_terms) btree_map"
  verifier :: "'w condition_verifier"

definition escrow_policy_new :: "'w condition_verifier \<Rightarrow> 'w escrow_policy" where
  "escrow_policy_new verify = \<lparr>escrows = bt_new, verifier = verify\<rparr>"

definition with_escrow :: "'w escrow_policy \<Rightarrow> escrow_terms \<Rightarrow> 'w escrow_policy" where
  "with_escrow pol terms = pol\<lparr>escrows := bt_insert (escrow_id terms) terms (escrows pol)\<rparr>"

definition escrow_approve ::
  "(u8 list \<Rightarrow> string + 'w release_proposal) \<Rightarrow> hex_crate \<Rightarrow> 'w escrow_policy \<Rightarrow> approve_fn" where
  "escrow_approve from_slice hx pol message =
     result_bind (map_err (\<lambda>e. ''message is not a release proposal: '' @ e) (of_sum (from_slice message)))
       (\<lambda>proposal.
     result_bind (ok_or (''unknown escrow '' @ hex_encode hx (to_list (proposal_escrow_id proposal)))
         (bt_get (escrows pol) (proposal_escrow_id proposal))) (\<lambda>terms.
       map_err escrow_error_display (validate_settlement terms (intent proposal) (verifier pol))))"

section \<open>The contract of a policy\<close>

locale sign_policy =
  fixes approve :: approve_fn
  assumes approve_total: "approve message \<noteq> Panic"
begin

lemma approve_cases:
  obtains (approved) "approve message = Ok ()" | (refused) reason where "approve message = Err reason"
  using approve_total by (cases "approve message") auto

lemma approve_decides: "is_ok (approve message) \<longleftrightarrow> approve message = Ok ()"
  by (cases "approve message") auto

end

interpretation accept_all: sign_policy accept_all_approve
  by unfold_locales (simp add: accept_all_approve_def)

interpretation escrow: sign_policy "escrow_approve from_slice hx pol"
  by unfold_locales (simp add: escrow_approve_def)

section \<open>What an escrow policy approves\<close>

definition policy_of :: "'w condition_verifier \<Rightarrow> escrow_terms list \<Rightarrow> 'w escrow_policy" where
  "policy_of verify ts = fold (\<lambda>t pol. with_escrow pol t) ts (escrow_policy_new verify)"

lemma policy_of_snoc: "policy_of verify (ts @ [t]) = with_escrow (policy_of verify ts) t"
  by (simp add: policy_of_def)

lemma verifier_policy_of [simp]: "verifier (policy_of verify ts) = verify"
  by (induction ts rule: rev_induct)
    (simp_all add: policy_of_snoc with_escrow_def policy_of_def escrow_policy_new_def)

lemma escrows_policy_of:
  "bt_get (escrows (policy_of verify ts)) i = find (\<lambda>t. escrow_id t = i) (rev ts)"
  by (induction ts rule: rev_induct)
    (simp_all add: policy_of_snoc with_escrow_def policy_of_def escrow_policy_new_def)

lemma escrow_approve_Ok:
  "escrow_approve from_slice hx pol message = Ok u \<longleftrightarrow>
     (\<exists>p t. from_slice message = Inr p \<and> bt_get (escrows pol) (proposal_escrow_id p) = Some t \<and>
        si_payment (intent p) = \<lparr>leg_amount = amount t, leg_to = payee t\<rparr> \<and>
        verifier pol t (si_witness (intent p)))"
  by (auto simp: escrow_approve_def settlement_Ok)

text \<open>
  C19. What an escrow policy approves. A policy on which escrows were registered in some order
  approves a message exactly when it decodes to a proposal whose escrow identifier was registered,
  whose payment is the amount and the payee of the terms registered last under that identifier,
  and whose witness the verifier accepts for those terms; the terms never come from the proposal.
  It refuses everything else with a reason, and never panics.
\<close>

theorem escrow_policy_approves:
  "(escrow_approve from_slice hx (policy_of verify ts) message = Ok () \<longleftrightarrow>
     (\<exists>p t. from_slice message = Inr p \<and>
        find (\<lambda>t. escrow_id t = proposal_escrow_id p) (rev ts) = Some t \<and>
        si_payment (intent p) = \<lparr>leg_amount = amount t, leg_to = payee t\<rparr> \<and>
        verify t (si_witness (intent p)))) \<and>
   (escrow_approve from_slice hx (policy_of verify ts) message \<noteq> Ok () \<longleftrightarrow>
     (\<exists>reason. escrow_approve from_slice hx (policy_of verify ts) message = Err reason))"
proof (rule conjI)
  show "escrow_approve from_slice hx (policy_of verify ts) message \<noteq> Ok () \<longleftrightarrow>
     (\<exists>reason. escrow_approve from_slice hx (policy_of verify ts) message = Err reason)"
    by (rule escrow.approve_cases [of from_slice hx "policy_of verify ts" message]) auto
qed (simp add: escrow_approve_Ok escrows_policy_of)

end
