(* ===== verification/Node.thy ===== *)
theory Node
  imports Chain_Order Policy
begin

text \<open>
  The signer of \<open>sapphire-node/src/lib.rs\<close>: its memory, the two FROST rounds, and \<open>react\<close>,
  the loop over the requests of the chain. Operations that mutate the node and consume randomness
  return the new node and the new generator state beside their result, also when the result is an
  error, since the source keeps the mutations made before an early return. Here the node is used by one
  thread at a time; \<open>Node_Lock\<close> has concurrent callers of \<open>commit\<close> and the lock around the nonces.

  The FROST functions of the signer are the fields of the parameter record \<open>frost_signer\<close>;
  \<open>'kp\<close> is the type of key packages, \<open>'ss\<close> of signing shares, \<open>'nc\<close> of nonces, \<open>'g\<close> of
  generator states.
\<close>

section \<open>The node\<close>

record ('i, 'kp, 'ss, 'nc, 'cm, 'sp, 'rz, 'sh, 'g) frost_signer =
  kp_identifier :: "'kp \<Rightarrow> 'i"
  signing_share :: "'kp \<Rightarrow> 'ss"
  round1_commit :: "'ss \<Rightarrow> 'g \<Rightarrow> ('nc \<times> 'cm) \<times> 'g"
  frost_sign :: "'sp \<Rightarrow> 'nc \<Rightarrow> 'kp \<Rightarrow> 'rz \<Rightarrow> string + 'sh"

record ('i, 'kp, 'pkp, 'nc) node =
  node_identifier :: 'i
  node_bundle :: "('kp, 'pkp) key_share_bundle"
  pending :: "uuid \<rightharpoonup> 'nc"
  committed_requests :: "uuid set"
  shared_requests :: "uuid set"
  policy :: approve_fn

definition node_new ::
  "('i, 'kp, 'ss, 'nc, 'cm, 'sp, 'rz, 'sh, 'g) frost_signer \<Rightarrow> ('kp, 'pkp) key_share_bundle \<Rightarrow>
   ('i, 'kp, 'pkp, 'nc) node" where
  "node_new S b = \<lparr>node_identifier = kp_identifier S (bundle_key_package b), node_bundle = b,
     pending = Map.empty, committed_requests = {}, shared_requests = {}, policy = accept_all_approve\<rparr>"

definition with_policy :: "('i, 'kp, 'pkp, 'nc) node \<Rightarrow> approve_fn \<Rightarrow> ('i, 'kp, 'pkp, 'nc) node" where
  "with_policy n approve = n\<lparr>policy := approve\<rparr>"

definition key_package :: "('i, 'kp, 'pkp, 'nc) node \<Rightarrow> 'kp" where
  "key_package n = bundle_key_package (node_bundle n)"

section \<open>The two rounds\<close>

definition commit ::
  "('i, 'kp, 'ss, 'nc, 'cm, 'sp, 'rz, 'sh, 'g) frost_signer \<Rightarrow> ('i, 'kp, 'pkp, 'nc) node \<Rightarrow> uuid \<Rightarrow> 'g \<Rightarrow>
   ('cm, error) result \<times> ('i, 'kp, 'pkp, 'nc) node \<times> 'g" where
  "commit S n session_id rng =
     (let ((nonces, commitments), rng') = round1_commit S (signing_share S (key_package n)) rng
      in if pending n session_id \<noteq> None then (Err SessionInUse, n, rng')
         else (Ok commitments, n\<lparr>pending := (pending n)(session_id \<mapsto> nonces)\<rparr>, rng'))"

definition sign_share_rerandomized ::
  "('i, 'kp, 'ss, 'nc, 'cm, 'sp, 'rz, 'sh, 'g) frost_signer \<Rightarrow> ('i, 'kp, 'pkp, 'nc) node \<Rightarrow> uuid \<Rightarrow>
   'sp \<Rightarrow> 'rz \<Rightarrow> ('sh, error) result \<times> ('i, 'kp, 'pkp, 'nc) node" where
  "sign_share_rerandomized S n session_id signing_package rz =
     (case pending n session_id of
        None \<Rightarrow> (Err SessionNotFound, n)
      | Some nonces \<Rightarrow>
          (map_err Frost (of_sum (frost_sign S signing_package nonces (key_package n) rz)),
           n\<lparr>pending := (pending n)(session_id := None)\<rparr>))"

section \<open>The reaction to a chain state\<close>

text \<open>One pass of the loop body: \<open>Ok None\<close> is \<open>continue\<close>, \<open>Ok (Some t)\<close> is a pushed
  transaction, \<open>Err\<close> the early return of \<open>?\<close>.\<close>

definition react_request ::
  "('i::linorder, 'kp, 'ss, 'nc, 'cm, 'sp, 'rz, 'sh, 'g) frost_signer \<Rightarrow> ('i, 'kp, 'pkp, 'nc) node \<Rightarrow> 'g \<Rightarrow>
   uuid \<Rightarrow> ('i, 'cm, 'rz, 'sp, 'sh, 'sg) request_entry \<Rightarrow>
   (('i, 'pkp, 'p1, 'cm, 'rz, 'sh) tx option, error) result \<times> ('i, 'kp, 'pkp, 'nc) node \<times> 'g" where
  "react_request S n rng rid entry =
     (case status entry of
        AwaitingCommitments commitments \<Rightarrow>
          if bt_contains_key commitments (node_identifier n) then
            (Ok None, n\<lparr>committed_requests := insert rid (committed_requests n)\<rparr>, rng)
          else if rid \<in> committed_requests n then (Ok None, n, rng)
          else (case policy n (message entry) of
              Err reason \<Rightarrow> (Ok None, n, rng)
            | Panic \<Rightarrow> (Panic, n, rng)
            | Ok _ \<Rightarrow>
                (case commit S n rid rng of
                   (Ok cm, n', rng') \<Rightarrow>
                     (Ok (Some (SubmitCommitment rid (node_identifier n') cm)),
                      n'\<lparr>committed_requests := insert rid (committed_requests n')\<rparr>, rng')
                 | (Err e, n', rng') \<Rightarrow> (Err e, n', rng')
                 | (Panic, n', rng') \<Rightarrow> (Panic, n', rng')))
      | Signing signing_package participants shares \<Rightarrow>
          if \<not> bt_contains_key participants (node_identifier n) then (Ok None, n, rng)
          else if bt_contains_key shares (node_identifier n) then
            (Ok None, n\<lparr>shared_requests := insert rid (shared_requests n)\<rparr>, rng)
          else if rid \<in> shared_requests n then (Ok None, n, rng)
          else (case sign_share_rerandomized S n rid signing_package (randomizer entry) of
              (Ok sh, n') \<Rightarrow>
                (Ok (Some (SubmitShare rid (node_identifier n') sh)),
                 n'\<lparr>shared_requests := insert rid (shared_requests n')\<rparr>, rng)
            | (Err e, n') \<Rightarrow> (if e = SessionNotFound then (Ok None, n', rng) else (Err e, n', rng))
            | (Panic, n') \<Rightarrow> (Panic, n', rng))
      | Completed _ _ \<Rightarrow> (Ok None, n, rng)
      | Failed _ \<Rightarrow> (Ok None, n, rng))"

fun react_loop ::
  "('i::linorder, 'kp, 'ss, 'nc, 'cm, 'sp, 'rz, 'sh, 'g) frost_signer \<Rightarrow> ('i, 'kp, 'pkp, 'nc) node \<Rightarrow> 'g \<Rightarrow>
   ('i, 'pkp, 'p1, 'cm, 'rz, 'sh) tx list \<Rightarrow> (uuid \<times> ('i, 'cm, 'rz, 'sp, 'sh, 'sg) request_entry) list \<Rightarrow>
   (('i, 'pkp, 'p1, 'cm, 'rz, 'sh) tx list, error) result \<times> ('i, 'kp, 'pkp, 'nc) node \<times> 'g" where
  "react_loop S n rng out [] = (Ok out, n, rng)"
| "react_loop S n rng out ((rid, entry) # xs) =
     (case react_request S n rng rid entry of
        (Ok t, n', rng') \<Rightarrow> react_loop S n' rng' (out @ (case t of None \<Rightarrow> [] | Some t \<Rightarrow> [t])) xs
      | (Err e, n', rng') \<Rightarrow> (Err e, n', rng')
      | (Panic, n', rng') \<Rightarrow> (Panic, n', rng'))"

definition react ::
  "('i::linorder, 'kp, 'ss, 'nc, 'cm, 'sp, 'rz, 'sh, 'g) frost_signer \<Rightarrow> ('i, 'kp, 'pkp, 'nc) node \<Rightarrow>
   ('i, 'pkp, 'p1, 'cm, 'rz, 'sp, 'sh, 'sg) state \<Rightarrow> 'g \<Rightarrow>
   (('i, 'pkp, 'p1, 'cm, 'rz, 'sh) tx list, error) result \<times> ('i, 'kp, 'pkp, 'nc) node \<times> 'g" where
  "react S n s rng =
     (case group s of
        None \<Rightarrow> (Ok [], n, rng)
      | Some g \<Rightarrow>
          if \<not> bt_contains_key (g_validators g) (node_identifier n) then (Ok [], n, rng)
          else react_loop S n rng [] (bt_iter (requests s)))"

end
