(* ===== verification/Node_Trace.thy ===== *)
theory Node_Trace
  imports Node "HOL-Library.Sublist"
begin

text \<open>
  The behaviour of a signer over its lifetime. A pass of the loop body of \<open>react\<close> is a step of
  the relation \<open>request_step\<close>; the lifetime of a node is a trace of such steps, and what the node
  remembers is explained by its trace. The runs of \<open>react\<close> on a sequence of chain states are
  \<open>node_run\<close>s, and each of them has a trace.
\<close>

section \<open>The steps of a node\<close>

inductive request_step ::
  "('i::linorder, 'kp, 'ss, 'nc, 'cm, 'sp, 'rz, 'sh, 'g) frost_signer \<Rightarrow> ('i, 'kp, 'pkp, 'nc) node \<Rightarrow>
   uuid \<Rightarrow> ('i, 'cm, 'rz, 'sp, 'sh, 'sg) request_entry \<Rightarrow>
   (('i, 'pkp, 'p1, 'cm, 'rz, 'sh) tx option, error) result \<Rightarrow> ('i, 'kp, 'pkp, 'nc) node \<Rightarrow> bool"
  for S n rid e where
  step_idle: "request_step S n rid e (Ok None) n"
| step_saw_commitment: "status e = AwaitingCommitments cms \<Longrightarrow> bt_get cms (node_identifier n) \<noteq> None \<Longrightarrow>
    request_step S n rid e (Ok None) (n\<lparr>committed_requests := insert rid (committed_requests n)\<rparr>)"
| step_policy_panic: "policy n (message e) = Panic \<Longrightarrow> request_step S n rid e Panic n"
| step_commit: "status e = AwaitingCommitments cms \<Longrightarrow> bt_get cms (node_identifier n) = None \<Longrightarrow>
    rid \<notin> committed_requests n \<Longrightarrow> policy n (message e) = Ok () \<Longrightarrow> pending n rid = None \<Longrightarrow>
    round1_commit S (signing_share S (key_package n)) rng = ((nc, cm), rng') \<Longrightarrow>
    request_step S n rid e (Ok (Some (SubmitCommitment rid (node_identifier n) cm)))
      (n\<lparr>pending := (pending n)(rid \<mapsto> nc), committed_requests := insert rid (committed_requests n)\<rparr>)"
| step_in_use: "rid \<notin> committed_requests n \<Longrightarrow> pending n rid \<noteq> None \<Longrightarrow>
    request_step S n rid e (Err SessionInUse) n"
| step_saw_share: "status e = Signing sp P shs \<Longrightarrow> bt_get shs (node_identifier n) \<noteq> None \<Longrightarrow>
    request_step S n rid e (Ok None) (n\<lparr>shared_requests := insert rid (shared_requests n)\<rparr>)"
| step_share: "status e = Signing sp P shs \<Longrightarrow> bt_get P (node_identifier n) \<noteq> None \<Longrightarrow>
    bt_get shs (node_identifier n) = None \<Longrightarrow> rid \<notin> shared_requests n \<Longrightarrow> pending n rid = Some nc \<Longrightarrow>
    frost_sign S sp nc (key_package n) (randomizer e) = Inr sh \<Longrightarrow>
    request_step S n rid e (Ok (Some (SubmitShare rid (node_identifier n) sh)))
      (n\<lparr>pending := (pending n)(rid := None), shared_requests := insert rid (shared_requests n)\<rparr>)"
| step_sign_error: "status e = Signing sp P shs \<Longrightarrow> bt_get P (node_identifier n) \<noteq> None \<Longrightarrow>
    bt_get shs (node_identifier n) = None \<Longrightarrow> pending n rid = Some nc \<Longrightarrow>
    frost_sign S sp nc (key_package n) (randomizer e) = Inl reason \<Longrightarrow>
    request_step S n rid e (Err (Frost reason)) (n\<lparr>pending := (pending n)(rid := None)\<rparr>)"

lemma record_fields_commute [simp]:
  "n\<lparr>pending := p, committed_requests := c\<rparr> = n\<lparr>committed_requests := c, pending := p\<rparr>"
  "n\<lparr>pending := p, shared_requests := c\<rparr> = n\<lparr>shared_requests := c, pending := p\<rparr>"
  by simp_all

lemma awaiting_step:
  assumes "react_request S n rng rid e = (r, n', rng')" "status e = AwaitingCommitments cms"
  shows "request_step S n rid e r n'"
proof (cases "bt_contains_key cms (node_identifier n) \<or> rid \<in> committed_requests n \<or>
    (\<exists>reason. policy n (message e) = Err reason) \<or> policy n (message e) = Panic")
  case True
  with assms show ?thesis
    by (auto simp: react_request_def bt_contains_key_def
        intro: step_idle step_saw_commitment step_policy_panic split: if_splits)
next
  case False
  then have ok: "policy n (message e) = Ok ()" by (cases "policy n (message e)") auto
  obtain nc cm g' where c: "round1_commit S (signing_share S (key_package n)) rng = ((nc, cm), g')"
    by (metis prod.collapse)
  show ?thesis
  proof (cases "pending n rid")
    case None
    with assms False ok c
    have "r = Ok (Some (SubmitCommitment rid (node_identifier n) cm))"
      "n' = n\<lparr>pending := (pending n)(rid \<mapsto> nc), committed_requests := insert rid (committed_requests n)\<rparr>"
      by (auto simp: react_request_def commit_def)
    with step_commit [of e cms n rid S rng nc cm g'] assms(2) False None ok c show ?thesis
      by (simp add: bt_contains_key_def)
  next
    case (Some nc0)
    with assms False ok c have "r = Err SessionInUse" "n' = n"
      by (auto simp: react_request_def commit_def)
    with False Some show ?thesis by (auto intro: step_in_use)
  qed
qed

lemma signing_step:
  assumes "react_request S n rng rid e = (r, n', rng')" "status e = Signing sp P shs"
  shows "request_step S n rid e r n'"
proof (cases "\<not> bt_contains_key P (node_identifier n) \<or> bt_contains_key shs (node_identifier n) \<or>
    rid \<in> shared_requests n \<or> pending n rid = None")
  case True
  with assms show ?thesis
    by (auto simp: react_request_def bt_contains_key_def sign_share_rerandomized_def
        intro: step_idle step_saw_share split: if_splits)
next
  case False
  then obtain nc where nc: "pending n rid = Some nc" by auto
  show ?thesis
  proof (cases "frost_sign S sp nc (key_package n) (randomizer e)")
    case (Inl reason)
    with assms False nc
    have "r = Err (Frost reason)" "n' = n\<lparr>pending := (pending n)(rid := None)\<rparr>"
      by (auto simp: react_request_def sign_share_rerandomized_def)
    with step_sign_error [of e sp P shs n rid nc S reason] assms(2) False nc Inl show ?thesis
      by (simp add: bt_contains_key_def)
  next
    case (Inr sh)
    with assms False nc
    have "r = Ok (Some (SubmitShare rid (node_identifier n) sh))"
      "n' = n\<lparr>pending := (pending n)(rid := None), shared_requests := insert rid (shared_requests n)\<rparr>"
      by (auto simp: react_request_def sign_share_rerandomized_def)
    with step_share [of e sp P shs n rid nc S sh] assms(2) False nc Inr show ?thesis
      by (simp add: bt_contains_key_def)
  qed
qed

lemma react_request_step:
  assumes "react_request S n rng rid e = (r, n', rng')"
  shows "request_step S n rid e r n'"
proof (cases "status e")
  case (AwaitingCommitments cms)
  with assms show ?thesis by (rule awaiting_step)
next
  case (Signing sp P shs)
  with assms show ?thesis by (rule signing_step)
qed (use assms in \<open>auto simp: react_request_def intro: step_idle\<close>)

section \<open>Traces\<close>

type_synonym ('i, 'pkp, 'p1, 'cm, 'rz, 'sp, 'sh, 'sg) event =
  "uuid \<times> ('i, 'cm, 'rz, 'sp, 'sh, 'sg) request_entry \<times> (('i, 'pkp, 'p1, 'cm, 'rz, 'sh) tx option, error) result"

inductive node_trace ::
  "('i::linorder, 'kp, 'ss, 'nc, 'cm, 'sp, 'rz, 'sh, 'g) frost_signer \<Rightarrow> ('i, 'kp, 'pkp, 'nc) node \<Rightarrow>
   ('i, 'pkp, 'p1, 'cm, 'rz, 'sp, 'sh, 'sg) event list \<Rightarrow> ('i, 'kp, 'pkp, 'nc) node \<Rightarrow> bool"
  for S n0 where
  trace_nil: "node_trace S n0 [] n0"
| trace_snoc: "node_trace S n0 tr n \<Longrightarrow> request_step S n rid e r n' \<Longrightarrow>
    node_trace S n0 (tr @ [(rid, e, r)]) n'"

lemma trace_append:
  "node_trace S n1 tr2 n2 \<Longrightarrow> node_trace S n0 tr1 n1 \<Longrightarrow> node_trace S n0 (tr1 @ tr2) n2"
proof (induction rule: node_trace.induct)
  case (trace_snoc tr n rid e r n')
  then show ?case using node_trace.trace_snoc [of S n0 "tr1 @ tr" n rid e r n'] by simp
qed simp

lemma trace_single: "request_step S n rid e r n' \<Longrightarrow> node_trace S n [(rid, e, r)] n'"
  using trace_snoc [OF trace_nil, of S n rid e r n'] by simp

text \<open>The transactions that the steps of a trace produced.\<close>

fun produced :: "('i, 'pkp, 'p1, 'cm, 'rz, 'sp, 'sh, 'sg) event \<Rightarrow> ('i, 'pkp, 'p1, 'cm, 'rz, 'sh) tx option" where
  "produced (rid, e, Ok t) = t"
| "produced (rid, e, _) = None"

definition emitted ::
  "('i, 'pkp, 'p1, 'cm, 'rz, 'sp, 'sh, 'sg) event list \<Rightarrow> ('i, 'pkp, 'p1, 'cm, 'rz, 'sh) tx list" where
  "emitted tr = List.map_filter produced tr"

lemma emitted_simps [simp]:
  "emitted [] = []" "emitted (ev # tr) = (case produced ev of None \<Rightarrow> [] | Some t \<Rightarrow> [t]) @ emitted tr"
  "emitted (tr @ tr') = emitted tr @ emitted tr'"
  by (simp_all add: emitted_def List.map_filter_def split: option.splits)

lemma subseq_distinct: "subseq xs ys \<Longrightarrow> distinct ys \<Longrightarrow> distinct xs"
  by (auto simp: subseq_conv_nths intro: distinct_nthsI)

lemma produced_Some: "produced ev = Some t \<longleftrightarrow> (\<exists>rid e. ev = (rid, e, Ok (Some t)))"
  by (cases ev rule: produced.cases) auto

lemma in_emitted: "t \<in> set (emitted tr) \<longleftrightarrow> (\<exists>rid e. (rid, e, Ok (Some t)) \<in> set tr)"
proof (induction tr)
  case (Cons ev tr)
  have "t \<in> set (emitted (ev # tr)) \<longleftrightarrow> produced ev = Some t \<or> t \<in> set (emitted tr)"
    by (auto split: option.splits)
  with Cons show ?case by (auto simp: produced_Some)
qed simp

lemma react_loop_trace:
  fixes out :: "('i::linorder, 'pkp, 'p1, 'cm, 'rz, 'sh) tx list"
  assumes "react_loop S n rng out xs = (r, n', rng')"
  shows "\<exists>tr. node_trace S n tr n' \<and> (\<forall>rid e r. (rid, e, r) \<in> set tr \<longrightarrow> (rid, e) \<in> set xs) \<and>
    (\<forall>out'. r = Ok out' \<longrightarrow> out' = out @ emitted tr \<and> map (\<lambda>(rid, e, r). (rid, e)) tr = xs) \<and>
    (r = Panic \<longrightarrow> (\<exists>rid e. (rid, e, Panic) \<in> set tr)) \<and>
    (\<forall>err. r = Err err \<longrightarrow> (\<exists>rid e. (rid, e, Err err) \<in> set tr))"
  using assms
proof (induction S n rng out xs rule: react_loop.induct)
  case (1 S n rng out)
  then show ?case using trace_nil by (intro exI [of _ "[]"]) auto
next
  case (2 S n rng out rid e xs)
  obtain r1 :: "(('i, 'pkp, 'p1, 'cm, 'rz, 'sh) tx option, error) result" and n1 g1 where one: "react_request S n rng rid e = (r1, n1, g1)" by (metis prod_cases3)
  then have step: "node_trace S n [(rid, e, r1)] n1" by (rule trace_single [OF react_request_step])
  show ?case
  proof (cases r1)
    case (Ok t)
    with 2(2) one have "react_loop S n1 g1 (out @ (case t of None \<Rightarrow> [] | Some t \<Rightarrow> [t])) xs = (r, n', rng')"
      by simp
    from 2(1) [OF one [symmetric] Ok refl this] obtain tr where tr: "node_trace S n1 tr n'"
      "\<forall>rid e r. (rid, e, r) \<in> set tr \<longrightarrow> (rid, e) \<in> set xs"
      "\<forall>out'. r = Ok out' \<longrightarrow> out' = (out @ (case t of None \<Rightarrow> [] | Some t \<Rightarrow> [t])) @ emitted tr \<and>
         map (\<lambda>(rid, e, r). (rid, e)) tr = xs"
      "r = Panic \<longrightarrow> (\<exists>rid e. (rid, e, Panic) \<in> set tr)"
      "\<forall>err. r = Err err \<longrightarrow> (\<exists>rid e. (rid, e, Err err) \<in> set tr)"
      by blast
    have "node_trace S n ((rid, e, r1) # tr) n'" using trace_append [OF tr(1) step] by simp
    with tr Ok show ?thesis by (intro exI [of _ "(rid, e, r1) # tr"]) auto
  qed (use 2 one step in \<open>auto intro!: exI [of _ "[(rid, e, r1)]"]\<close>)
qed

lemma react_trace:
  assumes "react S n s rng = (r, n', rng')"
  shows "\<exists>tr. node_trace S n tr n' \<and> (\<forall>rid e r. (rid, e, r) \<in> set tr \<longrightarrow> bt_get (requests s) rid = Some e) \<and>
    (\<forall>out. r = Ok out \<longrightarrow> out = emitted tr) \<and>
    (r = Panic \<longrightarrow> (\<exists>rid e. (rid, e, Panic) \<in> set tr)) \<and>
    (\<forall>err. r = Err err \<longrightarrow> (\<exists>rid e. (rid, e, Err err) \<in> set tr))"
proof (cases "\<exists>g. group s = Some g \<and> bt_contains_key (g_validators g) (node_identifier n)")
  case True
  with assms have "react_loop S n rng [] (bt_iter (requests s)) = (r, n', rng')"
    by (auto simp: react_def)
  from react_loop_trace [OF this] show ?thesis unfolding in_set_bt_iter append_Nil by blast
next
  case False
  with assms have "r = Ok []" "n' = n" by (auto simp: react_def split: option.splits)
  then show ?thesis using trace_nil by (intro exI [of _ "[]"]) auto
qed

section \<open>What a node remembers\<close>

definition fresh_node :: "('i, 'kp, 'pkp, 'nc) node \<Rightarrow> bool" where
  "fresh_node n \<longleftrightarrow> pending n = Map.empty \<and> committed_requests n = {} \<and> shared_requests n = {}"

lemma fresh_new [simp]: "fresh_node (node_new S b)" "fresh_node (with_policy (node_new S b) approve)"
  by (simp_all add: fresh_node_def node_new_def with_policy_def)

lemma step_fixed:
  "request_step S n rid e r n' \<Longrightarrow>
   node_identifier n' = node_identifier n \<and> node_bundle n' = node_bundle n \<and> policy n' = policy n"
  by (erule request_step.cases) simp_all

lemma trace_fixed:
  "node_trace S n0 tr n \<Longrightarrow>
   node_identifier n = node_identifier n0 \<and> policy n = policy n0 \<and> key_package n = key_package n0"
  by (induction rule: node_trace.induct) (auto dest: step_fixed simp: key_package_def)

text \<open>The nonces were drawn in a commitment of this trace, to a message that the policy approved.\<close>

definition drawn_for ::
  "('i::linorder, 'kp, 'ss, 'nc, 'cm, 'sp, 'rz, 'sh, 'g) frost_signer \<Rightarrow> ('i, 'kp, 'pkp, 'nc) node \<Rightarrow>
   ('i, 'pkp, 'p1, 'cm, 'rz, 'sp, 'sh, 'sg) event list \<Rightarrow> uuid \<Rightarrow> 'nc \<Rightarrow> bool" where
  "drawn_for S n tr rid nc \<longleftrightarrow>
     (\<exists>e cm rng rng'. (rid, e, Ok (Some (SubmitCommitment rid (node_identifier n) cm))) \<in> set tr \<and>
        policy n (message e) = Ok () \<and>
        round1_commit S (signing_share S (key_package n)) rng = ((nc, cm), rng'))"

lemma drawn_for_mono: "drawn_for S n tr rid nc \<Longrightarrow> drawn_for S n (tr @ tr') rid nc"
  unfolding drawn_for_def by fastforce

fun tx_key :: "('i, 'pkp, 'p1, 'cm, 'rz, 'sh) tx \<Rightarrow> (bool \<times> uuid) option" where
  "tx_key (SubmitCommitment rid _ _) = Some (False, rid)"
| "tx_key (SubmitShare rid _ _) = Some (True, rid)"
| "tx_key _ = None"

definition memory_inv ::
  "('i::linorder, 'kp, 'ss, 'nc, 'cm, 'sp, 'rz, 'sh, 'g) frost_signer \<Rightarrow> ('i, 'kp, 'pkp, 'nc) node \<Rightarrow>
   ('i, 'pkp, 'p1, 'cm, 'rz, 'sp, 'sh, 'sg) event list \<Rightarrow> ('i, 'kp, 'pkp, 'nc) node \<Rightarrow> bool" where
  "memory_inv S n0 tr n \<longleftrightarrow>
     dom (pending n) \<subseteq> committed_requests n \<and>
     (\<forall>rid nc. pending n rid = Some nc \<longrightarrow> drawn_for S n0 tr rid nc) \<and>
     (\<forall>rid. Some (False, rid) \<in> tx_key ` set (emitted tr) \<longrightarrow> rid \<in> committed_requests n) \<and>
     (\<forall>rid. Some (True, rid) \<in> tx_key ` set (emitted tr) \<longrightarrow> rid \<in> shared_requests n) \<and>
     distinct (map tx_key (emitted tr))"

lemma trace_memory:
  assumes "node_trace S n0 tr n" "fresh_node n0"
  shows "memory_inv S n0 tr n"
  using assms
proof (induction rule: node_trace.induct)
  case trace_nil
  then show ?case by (simp add: memory_inv_def fresh_node_def)
next
  case (trace_snoc tr n rid e r n')
  note inv = trace_snoc.IH [OF trace_snoc.prems] and fixed = trace_fixed [OF trace_snoc.hyps(1)]
  have old: "drawn_for S n0 (tr @ [(rid, e, r)]) rid' nc" if "pending n rid' = Some nc" for rid' nc
    using inv that unfolding memory_inv_def by (blast intro: drawn_for_mono)
  from trace_snoc.hyps(2) show ?case
  proof cases
    case (step_commit cms rng nc cm rng')
    have new: "drawn_for S n0 (tr @ [(rid, e, r)]) rid nc"
      using step_commit fixed unfolding drawn_for_def by auto
    have "Some (False, rid) \<notin> tx_key ` set (emitted tr)"
      using inv step_commit(5) unfolding memory_inv_def by blast
    with inv new old step_commit show ?thesis
      unfolding memory_inv_def by (auto split: if_splits)
  next
    case (step_share sp P shs nc sh)
    have "Some (True, rid) \<notin> tx_key ` set (emitted tr)"
      using inv step_share(6) unfolding memory_inv_def by blast
    with inv old step_share show ?thesis
      unfolding memory_inv_def by (auto split: if_splits)
  qed (use inv old in \<open>auto simp: memory_inv_def split: if_splits\<close>)
qed

text \<open>Every produced transaction is a commitment that passed the gate, or a share computed with
  nonces that were drawn behind the gate.\<close>

definition gated ::
  "('i::linorder, 'kp, 'ss, 'nc, 'cm, 'sp, 'rz, 'sh, 'g) frost_signer \<Rightarrow> ('i, 'kp, 'pkp, 'nc) node \<Rightarrow>
   ('i, 'pkp, 'p1, 'cm, 'rz, 'sp, 'sh, 'sg) event list \<Rightarrow> uuid \<Rightarrow>
   ('i, 'cm, 'rz, 'sp, 'sh, 'sg) request_entry \<Rightarrow> ('i, 'pkp, 'p1, 'cm, 'rz, 'sh) tx \<Rightarrow> bool" where
  "gated S n tr rid e t \<longleftrightarrow>
     (\<exists>cms cm. t = SubmitCommitment rid (node_identifier n) cm \<and> status e = AwaitingCommitments cms \<and>
        bt_get cms (node_identifier n) = None \<and> policy n (message e) = Ok ()) \<or>
     (\<exists>sp P shs nc sh. t = SubmitShare rid (node_identifier n) sh \<and> status e = Signing sp P shs \<and>
        bt_get P (node_identifier n) \<noteq> None \<and> bt_get shs (node_identifier n) = None \<and>
        drawn_for S n tr rid nc \<and> frost_sign S sp nc (key_package n) (randomizer e) = Inr sh)"

lemma gated_mono: "gated S n tr rid e t \<Longrightarrow> gated S n (tr @ tr') rid e t"
  unfolding gated_def by (blast intro: drawn_for_mono)

lemma trace_gated:
  assumes "node_trace S n0 tr n" "fresh_node n0" "(rid, e, Ok (Some t)) \<in> set tr"
  shows "gated S n0 tr rid e t"
  using assms
proof (induction rule: node_trace.induct)
  case (trace_snoc tr n rid' e' r n')
  note fixed = trace_fixed [OF trace_snoc.hyps(1)]
    and mem = trace_memory [OF trace_snoc.hyps(1) trace_snoc.prems(1)]
  show ?case
  proof (cases "(rid, e, Ok (Some t)) \<in> set tr")
    case True
    with trace_snoc show ?thesis by (blast intro: gated_mono)
  next
    case False
    with trace_snoc.prems have eq: "rid' = rid" "e' = e" "r = Ok (Some t)" by auto
    from trace_snoc.hyps(2) show ?thesis
    proof cases
      case (step_share sp P shs nc sh)
      have "drawn_for S n0 (tr @ [(rid', e', r)]) rid nc"
        using mem step_share eq unfolding memory_inv_def by (blast intro: drawn_for_mono)
      with step_share eq fixed show ?thesis unfolding gated_def by auto
    qed (use eq fixed in \<open>auto simp: gated_def\<close>)
  qed
qed simp

section \<open>Runs of \<open>react\<close>\<close>

text \<open>A history lists the chain states on which the node reacted and what it returned.\<close>

inductive node_run ::
  "('i::linorder, 'kp, 'ss, 'nc, 'cm, 'sp, 'rz, 'sh, 'g) frost_signer \<Rightarrow> ('i, 'kp, 'pkp, 'nc) node \<Rightarrow>
   (('i, 'pkp, 'p1, 'cm, 'rz, 'sp, 'sh, 'sg) state \<times>
     (('i, 'pkp, 'p1, 'cm, 'rz, 'sh) tx list, error) result) list \<Rightarrow> ('i, 'kp, 'pkp, 'nc) node \<Rightarrow> bool"
  for S n0 where
  run_start: "node_run S n0 [] n0"
| run_react: "node_run S n0 hist n \<Longrightarrow> react S n s rng = (r, n', rng') \<Longrightarrow>
    node_run S n0 (hist @ [(s, r)]) n'"

definition outputs ::
  "(('i, 'pkp, 'p1, 'cm, 'rz, 'sp, 'sh, 'sg) state \<times>
     (('i, 'pkp, 'p1, 'cm, 'rz, 'sh) tx list, error) result) list \<Rightarrow> ('i, 'pkp, 'p1, 'cm, 'rz, 'sh) tx list" where
  "outputs hist = concat (map (\<lambda>(s, r). case r of Ok out \<Rightarrow> out | _ \<Rightarrow> []) hist)"

lemma outputs_simps [simp]:
  "outputs [] = []" "outputs (hist @ [(s, r)]) = outputs hist @ (case r of Ok out \<Rightarrow> out | _ \<Rightarrow> [])"
  by (simp_all add: outputs_def)

text \<open>An event belongs to a reaction of the history; when that reaction succeeded, the transaction that
  the event produced is among its outputs.\<close>

definition event_of ::
  "(('i, 'pkp, 'p1, 'cm, 'rz, 'sp, 'sh, 'sg) state \<times>
     (('i, 'pkp, 'p1, 'cm, 'rz, 'sh) tx list, error) result) list \<Rightarrow>
   ('i::linorder, 'pkp, 'p1, 'cm, 'rz, 'sp, 'sh, 'sg) event \<Rightarrow> bool" where
  "event_of hist ev \<longleftrightarrow> (\<exists>s r0. (s, r0) \<in> set hist \<and> bt_get (requests s) (fst ev) = Some (fst (snd ev)) \<and>
     (\<forall>out t. r0 = Ok out \<and> snd (snd ev) = Ok (Some t) \<longrightarrow> t \<in> set out))"

lemma event_of_append: "event_of hist ev \<Longrightarrow> event_of (hist @ hist') ev"
  unfolding event_of_def by fastforce

lemma event_of_last:
  assumes "bt_get (requests s) rid = Some e" "\<And>out. r = Ok out \<Longrightarrow> out = emitted tr" "(rid, e, r') \<in> set tr"
  shows "event_of (hist @ [(s, r)]) (rid, e, r')"
  unfolding event_of_def
proof (intro exI conjI allI impI)
  show "t \<in> set out" if "r = Ok out \<and> snd (snd (rid, e, r')) = Ok (Some t)" for out t
    using that assms(2) [of out] assms(3) by (auto simp: in_emitted)
qed (use assms(1) in simp_all)

lemma node_run_trace:
  assumes "node_run S n0 hist n"
  shows "\<exists>tr. node_trace S n0 tr n \<and> subseq (outputs hist) (emitted tr) \<and>
    (\<forall>ev \<in> set tr. event_of hist ev) \<and>
    (\<forall>s out t. (s, Ok out) \<in> set hist \<and> t \<in> set out \<longrightarrow>
       (\<exists>rid e. bt_get (requests s) rid = Some e \<and> (rid, e, Ok (Some t)) \<in> set tr))"
  using assms
proof induction
  case run_start
  show ?case by (intro exI [of _ "[]"]) (auto intro: trace_nil)
next
  case (run_react hist n s rng r n' rng')
  from run_react.IH obtain tr where tr: "node_trace S n0 tr n" "subseq (outputs hist) (emitted tr)"
    "\<forall>ev \<in> set tr. event_of hist ev"
    "\<And>s out t. (s, Ok out) \<in> set hist \<Longrightarrow> t \<in> set out \<Longrightarrow>
       \<exists>rid e. bt_get (requests s) rid = Some e \<and> (rid, e, Ok (Some t)) \<in> set tr" by blast
  from react_trace [OF run_react.hyps(2)] obtain tr' where tr': "node_trace S n tr' n'"
    "\<And>rid e r. (rid, e, r) \<in> set tr' \<Longrightarrow> bt_get (requests s) rid = Some e"
    "\<And>out. r = Ok out \<Longrightarrow> out = emitted tr'" by blast
  have out: "subseq (case r of Ok out \<Rightarrow> out | _ \<Rightarrow> []) (emitted tr')"
    using tr'(3) by (auto split: result.splits)
  show ?case
  proof (intro exI [of _ "tr @ tr'"] conjI allI impI)
    show "node_trace S n0 (tr @ tr') n'" by (rule trace_append [OF tr'(1) tr(1)])
    show "subseq (outputs (hist @ [(s, r)])) (emitted (tr @ tr'))"
      using tr(2) out by (simp add: list_emb_append_mono)
    show "\<forall>ev \<in> set (tr @ tr'). event_of (hist @ [(s, r)]) ev"
      using tr(3) tr'(2,3) by (auto intro: event_of_append event_of_last)
    show "\<exists>rid e. bt_get (requests s') rid = Some e \<and> (rid, e, Ok (Some t)) \<in> set (tr @ tr')"
      if "(s', Ok out) \<in> set (hist @ [(s, r)]) \<and> t \<in> set out" for s' out t
    proof (cases "(s', Ok out) \<in> set hist")
      case True
      with tr(4) that show ?thesis by fastforce
    next
      case False
      with that have "s' = s" "t \<in> set (emitted tr')" using tr'(3) by auto
      with tr'(2) show ?thesis unfolding in_emitted by (metis UnCI set_append)
    qed
  qed
qed

end
