(* ===== verification/Node_Props.thy ===== *)
theory Node_Props
  imports Node_Trace
begin

text \<open>
  What a signer guarantees: it signs only messages that its policy approved, it commits and signs at
  most once per request, the chain accepts what it submits, and its only failures are those of the
  signing function.
\<close>

section \<open>A small signer for the witnesses\<close>

text \<open>Key packages are identifiers; signing fails under the randomizer zero.\<close>

definition toy_signer :: "(nat, nat, nat, nat, nat, (nat, nat) btree_map \<times> u8 list, nat, nat, nat) frost_signer" where
  "toy_signer = \<lparr>kp_identifier = id, signing_share = id, round1_commit = (\<lambda>ss rng. ((rng, 10 * ss), Suc rng)),
     frost_sign = (\<lambda>sp nc kp rz. if rz = 0 then Inl ''bad randomizer'' else Inr (100 * kp + nc))\<rparr>"

definition toy_node :: "approve_fn \<Rightarrow> (nat, nat, nat list, nat) node" where
  "toy_node approve = with_policy (node_new toy_signer
     \<lparr>bundle_key_package = 1, bundle_public_key_package = [1, 2, 3]\<rparr>) approve"

definition signing_entry :: "(nat, nat, nat, (nat, nat) btree_map \<times> u8 list, nat, nat) request_entry" where
  "signing_entry = pending_entry\<lparr>status :=
     Signing (insert_all ((*) 10) [1, 2] bt_new, [104, 105]) (bs_collect [1, 2]) bt_new\<rparr>"

definition signing_state :: toy_state where
  "signing_state = with_entry pending_state toy_rid signing_entry"

lemma pending_iter [simp]:
  "bt_iter (requests pending_state) = [(toy_rid, pending_entry)]"
  "bt_iter (requests signing_state) = [(toy_rid, signing_entry)]"
  by (simp_all add: pending_state_def signing_state_def with_entry_def)

lemma signing_group: "group signing_state = Some toy_group"
  by (simp add: signing_state_def pending_facts(1))

lemma signing_run:
  "run_all (apply_tx toy_frost) pending_state [SubmitCommitment toy_rid 1 10, SubmitCommitment toy_rid 2 20]
   = Ok signing_state"
proof -
  have start: "with_entry pending_state toy_rid pending_entry = pending_state"
    using pending_facts(2) by (simp add: with_entry_def bt.ins_same)
  have members: "set [1, 2] \<subseteq> dom (bt_get (g_validators toy_group))" using pending_facts(4) by auto
  have t: "length [1, 2 :: nat] = unat (threshold (g_params toy_group))" using pending_facts(5) by simp
  have pkg: "signing_package_new toy_frost m (message pending_entry) = (m, [104, 105])" for m
    by (simp add: toy_frost_def pending_entry_def)
  have txs: "map (\<lambda>v. SubmitCommitment toy_rid v (10 * v)) [1, 2 :: nat] =
      [SubmitCommitment toy_rid 1 10, SubmitCommitment toy_rid 2 20]" by simp
  have d: "distinct [1, 2 :: nat]" "[1, 2 :: nat] \<noteq> []" by simp_all
  show ?thesis
    unfolding signing_state_def signing_entry_def
    by (rule commits_reach_signing [OF pending_facts(1,3) d(1) members t d(2), of toy_frost toy_rid "(*) 10",
          unfolded start pkg txs])
qed

lemma sample_reach:
  "reach (apply_tx toy_frost) default_state pending_state"
  "reach (apply_tx toy_frost) default_state signing_state"
  by (rule run_all_reach [OF pending_run])
    (rule reach_trans [OF run_all_reach [OF pending_run] run_all_reach [OF signing_run]])

lemma sample_le: "chain_le pending_state signing_state"
  by (rule chain_mono.run_all_rel [OF reachable_inv [OF sample_reach(1)] signing_run])

lemmas sample_eval = toy_signer_def toy_node_def node_new_def with_policy_def key_package_def
  react_request_def commit_def sign_share_rerandomized_def bt_contains_key_def

lemma sample_commits:
  assumes "approve [104, 105] = Ok ()"
  shows "react toy_signer (toy_node approve) pending_state 5 =
    (Ok [SubmitCommitment toy_rid 1 10],
     (toy_node approve)\<lparr>pending := [toy_rid \<mapsto> 5], committed_requests := {toy_rid}\<rparr>, 6)"
  using assms pending_facts(4)
  by (auto simp: react_def sample_eval pending_facts(1) pending_entry_def domIff)

lemma sample_signs:
  "react toy_signer ((toy_node approve)\<lparr>pending := [toy_rid \<mapsto> 5], committed_requests := {toy_rid}\<rparr>)
      signing_state 6 =
    (Ok [SubmitShare toy_rid 1 105],
     (toy_node approve)\<lparr>committed_requests := {toy_rid}, shared_requests := {toy_rid}\<rparr>, 6)"
  using pending_facts(4)
  by (auto simp: react_def sample_eval signing_group signing_entry_def pending_entry_def domIff)

definition sample_hist ::
  "(toy_state \<times> (toy_tx list, error) result) list" where
  "sample_hist = [(pending_state, Ok [SubmitCommitment toy_rid 1 10]), (signing_state, Ok [SubmitShare toy_rid 1 105])]"

lemma sample_node_run:
  assumes "approve [104, 105] = Ok ()"
  shows "node_run toy_signer (toy_node approve) sample_hist
    ((toy_node approve)\<lparr>committed_requests := {toy_rid}, shared_requests := {toy_rid}\<rparr>)"
  unfolding sample_hist_def
  using run_react [OF run_react [OF run_start sample_commits [of approve, OF assms]] sample_signs] by simp

text \<open>An escrow policy that approves the message of the sample request.\<close>

definition sample_decode :: "u8 list \<Rightarrow> string + u8 list release_proposal" where
  "sample_decode m = (if m = [104, 105] then Inr \<lparr>proposal_escrow_id = bytes_fill 1, intent = sample_intent\<rparr>
     else Inl ''expected value'')"

definition sample_approve :: approve_fn where
  "sample_approve = escrow_approve sample_decode plain_hex
     (policy_of (hash_preimage_verify sample_sha) [sample_terms])"

lemma sample_approves: "sample_approve [104, 105] = Ok ()"
  using sample_settles
  by (simp add: sample_approve_def escrow_approve_def sample_decode_def escrows_policy_of) (simp add: sample_terms_def)

section \<open>Only approved messages are signed\<close>

lemma chain_le_entries:
  assumes "chain_le s s' \<or> chain_le s' s" "bt_get (requests s) rid = Some e" "bt_get (requests s') rid = Some e'"
  shows "message e = message e' \<and> randomizer e = randomizer e'"
proof -
  have "message e2 = message e1 \<and> randomizer e2 = randomizer e1"
    if "chain_le t1 t2" "bt_get (requests t1) rid = Some e1" "bt_get (requests t2) rid = Some e2" for t1 t2 e1 e2
  proof -
    from that(1,2) obtain e' where "bt_get (requests t2) rid = Some e'" "entry_le e1 e'"
      unfolding chain_le_def by blast
    with that(3) show ?thesis by (simp add: entry_le_def)
  qed
  with assms show ?thesis by metis
qed

lemma sorted_wrt_cases:
  "sorted_wrt P xs \<Longrightarrow> x \<in> set xs \<Longrightarrow> y \<in> set xs \<Longrightarrow> x = y \<or> P x y \<or> P y x"
  by (induction xs) auto

lemma share_gated:
  assumes run: "node_run S n0 hist n" and fresh: "fresh_node n0"
    and mono: "sorted_wrt chain_le (map fst hist)"
    and out: "(s, Ok out) \<in> set hist" "SubmitShare rid v sh \<in> set out"
  shows "\<exists>e sp P shs nc cm rng rng'. bt_get (requests s) rid = Some e \<and> status e = Signing sp P shs \<and>
    v = node_identifier n0 \<and> bt_get P v \<noteq> None \<and> policy n0 (message e) = Ok () \<and>
    round1_commit S (signing_share S (key_package n0)) rng = ((nc, cm), rng') \<and>
    (\<exists>s0 r0 e0 cms0. (s0, r0) \<in> set hist \<and> bt_get (requests s0) rid = Some e0 \<and>
       status e0 = AwaitingCommitments cms0 \<and> (\<forall>out0. r0 = Ok out0 \<longrightarrow> SubmitCommitment rid v cm \<in> set out0)) \<and>
    frost_sign S sp nc (key_package n0) (randomizer e) = Inr sh"
proof -
  from node_run_trace [OF run] obtain tr where tr: "node_trace S n0 tr n"
    "\<forall>ev \<in> set tr. event_of hist ev"
    "\<And>s out t. (s, Ok out) \<in> set hist \<Longrightarrow> t \<in> set out \<Longrightarrow>
       \<exists>rid e. bt_get (requests s) rid = Some e \<and> (rid, e, Ok (Some t)) \<in> set tr" by blast
  from tr(3) [OF out] obtain rid' e where e: "bt_get (requests s) rid' = Some e"
    "(rid', e, Ok (Some (SubmitShare rid v sh))) \<in> set tr" by blast
  from trace_gated [OF tr(1) fresh e(2)] obtain sp P shs nc where g: "rid' = rid" "v = node_identifier n0"
    "status e = Signing sp P shs" "bt_get P v \<noteq> None" "drawn_for S n0 tr rid nc"
    "frost_sign S sp nc (key_package n0) (randomizer e) = Inr sh"
    unfolding gated_def by auto
  from g(2,5) obtain e0 cm rng rng' where d: "(rid, e0, Ok (Some (SubmitCommitment rid v cm))) \<in> set tr"
    "policy n0 (message e0) = Ok ()"
    "round1_commit S (signing_share S (key_package n0)) rng = ((nc, cm), rng')"
    unfolding drawn_for_def by blast
  from trace_gated [OF tr(1) fresh d(1)] obtain cms0 where cms0: "status e0 = AwaitingCommitments cms0"
    unfolding gated_def by auto
  from tr(2) d(1) obtain s0 r0 where s0: "(s0, r0) \<in> set hist" "bt_get (requests s0) rid = Some e0"
    "\<forall>out0. r0 = Ok out0 \<longrightarrow> SubmitCommitment rid v cm \<in> set out0"
    unfolding event_of_def by fastforce
  have "s \<in> set (map fst hist)" "s0 \<in> set (map fst hist)" using out(1) s0(1) by force+
  from sorted_wrt_cases [OF mono this] have "chain_le s s0 \<or> chain_le s0 s"
    using chain_le_refl by blast
  from chain_le_entries [OF this _ s0(2)] e g have "message e = message e0" by blast
  with d(2) have "policy n0 (message e) = Ok ()" by simp
  with e(1) g d(3) s0 cms0 show ?thesis by blast
qed

text \<open>
  C1. Only approved messages are signed. Let a new node with some policy react to a growing sequence
  of reachable chain states. Whenever it hands out a signature share for a request, the policy
  approved exactly the message that the request carries on the chain, the node is one of the chosen
  participants, and the share is the signature, under the request's randomizer, of a signing package
  over that message. The nonces of that signature and a commitment \<open>cm\<close> are the two halves of one
  draw, and \<open>cm\<close> is the commitment that the node submitted for this request when it reacted to a
  state in which the request was still collecting commitments; it is missing from that reaction's
  transactions only if the reaction ended in an error and so handed out none.
\<close>

theorem shares_only_for_approved:
  assumes run: "node_run S (with_policy (node_new S b) approve) hist n"
    and mono: "sorted_wrt chain_le (map fst hist)"
    and chain: "\<forall>s \<in> fst ` set hist. reach (apply_tx F) default_state s"
    and out: "(s, Ok out) \<in> set hist" "SubmitShare rid v sh \<in> set out"
  shows "\<exists>e cms nc cm rng rng'. bt_get (requests s) rid = Some e \<and> approve (message e) = Ok () \<and>
    v = kp_identifier S (bundle_key_package b) \<and> bt_get cms v \<noteq> None \<and>
    round1_commit S (signing_share S (bundle_key_package b)) rng = ((nc, cm), rng') \<and>
    (\<exists>s0 r0 e0 cms0. (s0, r0) \<in> set hist \<and> bt_get (requests s0) rid = Some e0 \<and>
       status e0 = AwaitingCommitments cms0 \<and> (\<forall>out0. r0 = Ok out0 \<longrightarrow> SubmitCommitment rid v cm \<in> set out0)) \<and>
    frost_sign S (signing_package_new F cms (message e)) nc (bundle_key_package b) (randomizer e) = Inr sh"
proof -
  let ?n = "with_policy (node_new S b) approve"
  let ?submitted = "\<lambda>cm. \<exists>s0 r0 e0 cms0. (s0, r0) \<in> set hist \<and> bt_get (requests s0) rid = Some e0 \<and>
    status e0 = AwaitingCommitments cms0 \<and> (\<forall>out0. r0 = Ok out0 \<longrightarrow> SubmitCommitment rid v cm \<in> set out0)"
  have n: "policy ?n = approve" "key_package ?n = bundle_key_package b"
    "node_identifier ?n = kp_identifier S (bundle_key_package b)"
    by (simp_all add: with_policy_def node_new_def key_package_def)
  from share_gated [OF run fresh_new(2) mono out, unfolded n] obtain e sp P shs nc cm rng rng' where
    e: "bt_get (requests s) rid = Some e" "status e = Signing sp P shs" "v = kp_identifier S (bundle_key_package b)"
      "bt_get P v \<noteq> None" "approve (message e) = Ok ()"
    and r: "round1_commit S (signing_share S (bundle_key_package b)) rng = ((nc, cm), rng')" "?submitted cm"
      "frost_sign S sp nc (bundle_key_package b) (randomizer e) = Inr sh"
    by (elim exE conjE) blast
  have "s \<in> fst ` set hist" using out(1) by force
  with chain have inv: "chain_inv F s" by (intro reachable_inv) blast
  with e(1) obtain g where "request_inv F g rid e" unfolding chain_inv_def by blast
  with e(2) obtain cms where c: "dom (bt_get cms) = dom (bt_get P)" "sp = signing_package_new F cms (message e)"
    by (auto simp: request_inv_def status_inv_def Let_def)
  have "bt_get cms v \<noteq> None" using c(1) e(4) by blast
  with e(1,3,5) r c(2) show ?thesis by blast
qed

theorem shares_only_for_approved_witness:
  "\<exists>e cms nc cm rng rng'. bt_get (requests signing_state) toy_rid = Some e \<and> sample_approve (message e) = Ok () \<and>
     round1_commit toy_signer 1 rng = ((nc, cm), rng') \<and>
     (\<exists>s0 r0. (s0, r0) \<in> set sample_hist \<and> (\<forall>out0. r0 = Ok out0 \<longrightarrow> SubmitCommitment toy_rid 1 cm \<in> set out0)) \<and>
     frost_sign toy_signer (signing_package_new toy_frost cms (message e)) nc 1 (randomizer e) = Inr 105"
proof -
  have run: "node_run toy_signer (with_policy (node_new toy_signer
      \<lparr>bundle_key_package = 1, bundle_public_key_package = [1, 2, 3]\<rparr>) sample_approve) sample_hist
      ((toy_node sample_approve)\<lparr>committed_requests := {toy_rid}, shared_requests := {toy_rid}\<rparr>)"
    using sample_node_run [of sample_approve, OF sample_approves] unfolding toy_node_def .
  have mono: "sorted_wrt chain_le (map fst sample_hist)" using sample_le by (simp add: sample_hist_def)
  have chain: "\<forall>s \<in> fst ` set sample_hist. reach (apply_tx toy_frost) default_state s"
    using sample_reach by (auto simp: sample_hist_def)
  have "(signing_state, Ok [SubmitShare toy_rid 1 105]) \<in> set sample_hist" by (simp add: sample_hist_def)
  note app = shares_only_for_approved [OF run mono chain this, of toy_rid 1 105]
  have eval: "signing_share toy_signer 1 = 1"
    "bundle_key_package \<lparr>bundle_key_package = 1 :: nat, bundle_public_key_package = [1, 2, 3 :: nat]\<rparr> = 1"
    by (simp_all add: toy_signer_def)
  have "SubmitShare toy_rid 1 105 \<in> set [SubmitShare toy_rid 1 105 :: toy_tx]" by simp
  from app [OF this, unfolded eval] show ?thesis by blast
qed

section \<open>At most one commitment and one share per request\<close>

text \<open>
  C21. No nonce is used twice. Over the whole life of a node, whatever chain states it is shown (also
  inconsistent or repeated ones) and whatever errors occur, it hands out at most one commitment and
  at most one share per request.
\<close>

theorem at_most_once:
  fixes hist :: "(('i::linorder, 'pkp, 'p1, 'cm, 'rz, 'sp, 'sh, 'sg) state \<times> _) list"
  assumes "node_run S (with_policy (node_new S b) approve) hist n"
  shows "distinct (map tx_key (outputs hist))"
proof -
  from node_run_trace [OF assms] obtain tr :: "('i, 'pkp, 'p1, 'cm, 'rz, 'sp, 'sh, 'sg) event list" where
    tr: "node_trace S (with_policy (node_new S b) approve) tr n" "subseq (outputs hist) (emitted tr)"
    by blast
  have "distinct (map tx_key (emitted tr))"
    using trace_memory [OF tr(1) fresh_new(2)] unfolding memory_inv_def by blast
  moreover have "subseq (map tx_key (outputs hist)) (map tx_key (emitted tr))"
    by (rule subseq_map [OF tr(2)])
  ultimately show ?thesis by (metis subseq_distinct)
qed

theorem at_most_once_witness: "distinct (map tx_key (outputs sample_hist))"
  by (rule at_most_once [OF sample_node_run [of sample_approve, OF sample_approves, unfolded toy_node_def]])

section \<open>The chain accepts what a node submits\<close>

lemma trace_produced:
  assumes "node_trace S n0 tr n" "(rid, e, Ok (Some t)) \<in> set tr"
  shows "(\<exists>cms cm. t = SubmitCommitment rid (node_identifier n0) cm \<and> status e = AwaitingCommitments cms \<and>
      bt_get cms (node_identifier n0) = None) \<or>
    (\<exists>sp P shs sh. t = SubmitShare rid (node_identifier n0) sh \<and> status e = Signing sp P shs \<and>
      bt_get P (node_identifier n0) \<noteq> None \<and> bt_get shs (node_identifier n0) = None)"
  using assms
proof (induction rule: node_trace.induct)
  case (trace_snoc tr n rid' e' r n')
  show ?case
  proof (cases "(rid, e, Ok (Some t)) \<in> set tr")
    case False
    with trace_snoc.prems have eq: "rid' = rid" "e' = e" "r = Ok (Some t)" by auto
    from trace_snoc.hyps(2) show ?thesis
      by cases (use eq trace_fixed [OF trace_snoc.hyps(1)] in auto)
  qed (use trace_snoc.IH in blast)
qed simp

lemma emitted_requests:
  assumes "\<And>rid e t. (rid, e, Ok (Some t)) \<in> set tr \<Longrightarrow> tx_request t = Some rid"
  shows "subseq (map tx_request (emitted tr)) (map (\<lambda>(rid, e, r). Some rid) tr)"
  using assms
proof (induction tr)
  case (Cons ev tr)
  show ?case
  proof (cases "produced ev")
    case (Some t)
    then obtain rid e where "ev = (rid, e, Ok (Some t))" by (auto simp: produced_Some)
    with Cons Some show ?thesis by auto
  qed (use Cons in \<open>auto intro: subseq_Cons' split: prod.splits\<close>)
qed simp

lemma accepted_elsewhere:
  assumes "tx_request t = Some r" "tx_request u = Some r'" "r \<noteq> r'"
    and "apply_tx F s t = Ok s'" "is_ok (apply_tx F s u)"
  shows "is_ok (apply_tx F s' u)"
proof -
  from assms(4) obtain g e where "group s = Some g" and s': "s' = s\<lparr>requests := bt_insert r e (requests s)\<rparr>"
    unfolding request_tx_Ok [OF assms(1)] by blast
  moreover from assms(5) this obtain e' where "request_effect F g u (bt_get (requests s) r') e'"
    unfolding is_ok_iff request_tx_Ok [OF assms(2)] by auto
  ultimately have "\<exists>s2. apply_tx F s' u = Ok s2"
    unfolding request_tx_Ok [OF assms(2)] using assms(3) by auto
  then show ?thesis by (simp add: is_ok_iff)
qed

lemma run_distinct_requests:
  assumes "\<And>t. t \<in> set ts \<Longrightarrow> tx_request t \<noteq> None \<and> is_ok (apply_tx F s t)"
    and "distinct (map tx_request ts)"
  shows "\<exists>s'. run_all (apply_tx F) s ts = Ok s'"
  using assms
proof (induction ts arbitrary: s)
  case (Cons t ts)
  from Cons.prems(1) [of t] obtain r s1 where t: "tx_request t = Some r" "apply_tx F s t = Ok s1"
    by (auto simp: is_ok_iff)
  have "tx_request u \<noteq> None \<and> is_ok (apply_tx F s1 u)" if "u \<in> set ts" for u
  proof -
    from that Cons.prems(1) obtain r' where u: "tx_request u = Some r'" "is_ok (apply_tx F s u)" by auto
    moreover have "r \<noteq> r'" using Cons.prems(2) t(1) u(1) that by force
    ultimately show ?thesis using accepted_elsewhere [OF t(1) u(1) _ t(2) u(2)] by simp
  qed
  with Cons.IH [of s1] Cons.prems(2) t(2) show ?case by auto
qed simp

text \<open>
  C27. The chain accepts what a node submits. The transactions that a node returns for a chain state,
  in the order in which it returns them, are all accepted by \<open>apply_tx\<close> from that state: a node
  never submits for a foreign group, twice, in the wrong phase or as a non-participant.
\<close>

theorem react_accepted:
  fixes s :: "('i::linorder, 'pkp, 'p1, 'cm, 'rz, 'sp, 'sh, 'sg) state"
  assumes "react S n s rng = (Ok out, n', rng')"
  shows "\<exists>s'. run_all (apply_tx F) s out = Ok s'"
proof (cases "\<exists>g. group s = Some g \<and> bt_contains_key (g_validators g) (node_identifier n)")
  case False
  with assms have "out = []" by (auto simp: react_def split: option.splits if_splits)
  then show ?thesis by simp
next
  case True
  then obtain g where g: "group s = Some g" "node_identifier n \<in> dom (bt_get (g_validators g))"
    by (auto simp: bt_contains_key_def)
  from True assms have "react_loop S n rng [] (bt_iter (requests s)) = (Ok out, n', rng')"
    by (auto simp: react_def)
  from react_loop_trace [OF this] obtain tr :: "('i, 'pkp, 'p1, 'cm, 'rz, 'sp, 'sh, 'sg) event list"
    where tr: "node_trace S n tr n'" "out = emitted tr" "map (\<lambda>(rid, e, r). (rid, e)) tr = bt_iter (requests s)"
    by auto
  have entry: "bt_get (requests s) rid = Some e" if "(rid, e, r) \<in> set tr" for rid e r
  proof -
    have "(rid, e) \<in> set (map (\<lambda>(rid, e, r). (rid, e)) tr)" using that by force
    then show ?thesis unfolding tr(3) by (simp add: in_set_bt_iter)
  qed
  note ev = trace_produced [OF tr(1)]
  have "tx_request t \<noteq> None \<and> is_ok (apply_tx F s t)" if "t \<in> set out" for t
  proof -
    from that tr(2) obtain rid e where e: "(rid, e, Ok (Some t)) \<in> set tr" by (auto simp: in_emitted)
    from ev [OF e] entry [OF e] g show ?thesis
      by (elim disjE exE conjE)
        (simp_all only: is_ok_iff apply_tx.simps submit_commitment_Ok submit_share_Ok domIff, auto)
  qed
  moreover have "distinct (map tx_request out)"
  proof -
    have "subseq (map tx_request out) (map (\<lambda>(rid, e, r). Some rid) tr)"
      unfolding tr(2) by (rule emitted_requests) (use ev in fastforce)
    moreover have "map (\<lambda>(rid, e, r). Some rid) tr = map Some (map fst (bt_iter (requests s)))"
      by (simp flip: tr(3) add: comp_def split_beta)
    moreover have "distinct (map Some (map fst (bt_iter (requests s))))"
      using distinct_bt_iter [of "requests s"] by (simp only: distinct_map) (simp add: inj_on_def)
    ultimately show ?thesis by (metis subseq_distinct)
  qed
  ultimately show ?thesis by (rule run_distinct_requests)
qed

theorem react_accepted_witness:
  "\<exists>s'. run_all (apply_tx toy_frost) pending_state [SubmitCommitment toy_rid 1 10] = Ok s'"
  by (rule react_accepted [OF sample_commits [of sample_approve, OF sample_approves]])

section \<open>Failures\<close>

text \<open>The node committed to a request that fails to sign, and then sees it beside a fresh request.\<close>

definition other_rid :: uuid where
  "other_rid = Uuid (bytes_fill 2)"

definition failing_entry :: "(nat, nat, nat, (nat, nat) btree_map \<times> u8 list, nat, nat) request_entry" where
  "failing_entry = signing_entry\<lparr>request_id := other_rid, randomizer := 0\<rparr>"

definition failing_state :: toy_state where
  "failing_state = with_entry pending_state other_rid failing_entry"

definition waiting_node :: "(nat, nat, nat list, nat) node" where
  "waiting_node = (toy_node sample_approve)\<lparr>pending := [other_rid \<mapsto> 4], committed_requests := {other_rid}\<rparr>"

lemma rid_less: "toy_rid < other_rid"
  by (simp add: toy_rid_def other_rid_def less_uuid_def less_bytes_def numeral_eq_Suc)

lemma failing_facts:
  "group failing_state = Some toy_group"
  "bt_iter (requests failing_state) = [(toy_rid, pending_entry), (other_rid, failing_entry)]"
  using rid_less by (auto simp: failing_state_def pending_facts(1) with_entry_def)

definition first_state :: toy_state where
  "first_state = \<lparr>ceremony = None, group = Some toy_group,
     requests = bt_insert other_rid (pending_entry\<lparr>request_id := other_rid, randomizer := 0\<rparr>) bt_new\<rparr>"

lemma member_one: "bt_get (g_validators toy_group) 1 = Some ()"
  using pending_facts(4) by (metis domIff insertI1 not_Some_eq old.unit.exhaust)

lemma waiting_react:
  "react toy_signer (toy_node sample_approve) first_state 4 =
     (Ok [SubmitCommitment other_rid 1 10 :: toy_tx], waiting_node, 5)"
  using member_one sample_approves
  by (simp add: react_def first_state_def sample_eval pending_entry_def waiting_node_def)

lemma failing_react:
  "react toy_signer waiting_node failing_state 5 =
     (Err (Frost ''bad randomizer''), (toy_node sample_approve)\<lparr>pending := [toy_rid \<mapsto> 5],
        committed_requests := {toy_rid, other_rid}\<rparr>, 6)"
  using member_one sample_approves rid_less
  by (simp add: react_def failing_facts sample_eval pending_entry_def waiting_node_def failing_entry_def
      signing_entry_def fun_upd_twist)

lemma trace_no_panic:
  assumes "node_trace S n0 tr n" "(rid, e, Panic) \<in> set tr" "\<And>m. policy n0 m \<noteq> Panic"
  shows False
  using assms
proof (induction rule: node_trace.induct)
  case (trace_snoc tr n rid' e' r n')
  from trace_snoc.hyps(2) have "r \<noteq> Panic"
    by cases (use trace_snoc.prems(2) trace_fixed [OF trace_snoc.hyps(1)] in auto)
  with trace_snoc show ?case by auto
qed simp

text \<open>An error is the answer of the signing function to nonces that were drawn behind the gate.\<close>

definition failed_signing ::
  "('i::linorder, 'kp, 'ss, 'nc, 'cm, 'sp, 'rz, 'sh, 'g) frost_signer \<Rightarrow> ('i, 'kp, 'pkp, 'nc) node \<Rightarrow>
   ('i, 'pkp, 'p1, 'cm, 'rz, 'sp, 'sh, 'sg) event list \<Rightarrow> uuid \<Rightarrow>
   ('i, 'cm, 'rz, 'sp, 'sh, 'sg) request_entry \<Rightarrow> error \<Rightarrow> bool" where
  "failed_signing S n tr rid e err \<longleftrightarrow>
     (\<exists>sp P shs nc reason. err = Frost reason \<and> status e = Signing sp P shs \<and>
        bt_get P (node_identifier n) \<noteq> None \<and> bt_get shs (node_identifier n) = None \<and>
        drawn_for S n tr rid nc \<and> frost_sign S sp nc (key_package n) (randomizer e) = Inl reason)"

lemma failed_signing_mono: "failed_signing S n tr rid e err \<Longrightarrow> failed_signing S n (tr @ tr') rid e err"
  unfolding failed_signing_def by (blast intro: drawn_for_mono)

lemma trace_error:
  assumes "node_trace S n0 tr n" "fresh_node n0" "(rid, e, Err err) \<in> set tr"
  shows "failed_signing S n0 tr rid e err"
  using assms
proof (induction rule: node_trace.induct)
  case (trace_snoc tr n rid' e' r n')
  note fixed = trace_fixed [OF trace_snoc.hyps(1)]
  have mem: "dom (pending n) \<subseteq> committed_requests n"
    "pending n rid = Some nc \<Longrightarrow> drawn_for S n0 tr rid nc" for rid nc
    using trace_memory [OF trace_snoc.hyps(1) trace_snoc.prems(1)] unfolding memory_inv_def by blast+
  have new: "failed_signing S n0 tr rid' e' err" if "r = Err err"
    using trace_snoc.hyps(2)
  proof cases
    case step_in_use
    with mem(1) show ?thesis by blast
  next
    case (step_sign_error sp P shs nc reason)
    with that mem(2) [OF step_sign_error(6)] fixed show ?thesis unfolding failed_signing_def by auto
  qed (use that in simp_all)
  show ?case
  proof (cases "(rid, e, Err err) \<in> set tr")
    case True
    with trace_snoc show ?thesis by (blast intro: failed_signing_mono)
  next
    case False
    with trace_snoc.prems(2) have "rid' = rid" "e' = e" "r = Err err" by auto
    with new show ?thesis by (blast intro: failed_signing_mono)
  qed
qed simp

text \<open>What the contract of a policy gives the node that uses it.\<close>

context sign_policy
begin

lemma react_failures:
  fixes hist :: "(('i::linorder, 'pkp, 'p1, 'cm, 'rz, 'sp, 'sh, 'sg) state \<times> _) list"
    and s :: "('i, 'pkp, 'p1, 'cm, 'rz, 'sp, 'sh, 'sg) state"
  assumes "node_run S (with_policy (node_new S b) approve) hist n" "react S n s rng = (r, n', rng')"
  shows "r \<noteq> Panic \<and> (\<forall>err. r = Err err \<longrightarrow>
    (\<exists>rid e sp P shs nc cm rng0 rng1 reason. err = Frost reason \<and> bt_get (requests s) rid = Some e \<and>
       status e = Signing sp P shs \<and> bt_get P (kp_identifier S (bundle_key_package b)) \<noteq> None \<and>
       bt_get shs (kp_identifier S (bundle_key_package b)) = None \<and>
       round1_commit S (signing_share S (bundle_key_package b)) rng0 = ((nc, cm), rng1) \<and>
       frost_sign S sp nc (bundle_key_package b) (randomizer e) = Inl reason))"
proof -
  let ?n = "with_policy (node_new S b) approve"
  have fields: "node_identifier ?n = kp_identifier S (bundle_key_package b)" "key_package ?n = bundle_key_package b"
    by (simp_all add: with_policy_def node_new_def key_package_def)
  from node_run_trace [OF assms(1)] obtain tr :: "('i, 'pkp, 'p1, 'cm, 'rz, 'sp, 'sh, 'sg) event list"
    where tr: "node_trace S ?n tr n" by blast
  from react_trace [OF assms(2)] obtain tr' :: "('i, 'pkp, 'p1, 'cm, 'rz, 'sp, 'sh, 'sg) event list"
    where tr': "node_trace S n tr' n'" "\<forall>rid e r. (rid, e, r) \<in> set tr' \<longrightarrow> bt_get (requests s) rid = Some e"
      "r = Panic \<longrightarrow> (\<exists>rid e. (rid, e, Panic) \<in> set tr')"
      "\<forall>err. r = Err err \<longrightarrow> (\<exists>rid e. (rid, e, Err err) \<in> set tr')" by blast
  have "policy n m \<noteq> Panic" for m
    using approve_total trace_fixed [OF tr] by (simp add: with_policy_def)
  then have "r \<noteq> Panic" using trace_no_panic [OF tr'(1)] tr'(3) by blast
  moreover have "\<exists>rid e. bt_get (requests s) rid = Some e \<and> failed_signing S ?n (tr @ tr') rid e err" if "r = Err err" for err
  proof -
    from tr'(4) that obtain rid e where e: "(rid, e, Err err) \<in> set tr'" by auto
    then have "(rid, e, Err err) \<in> set (tr @ tr')" by simp
    from trace_error [OF trace_append [OF tr'(1) tr] fresh_new(2) this] e tr'(2) show ?thesis by blast
  qed
  ultimately show ?thesis unfolding failed_signing_def drawn_for_def fields by blast
qed

end

text \<open>
  C31. The only failure of an escrow signer is a failed signature. Over the whole life of a node with
  an escrow policy, \<open>react\<close> never panics and never finds a session in use. When it returns an
  error, some request on the chain is in its signing phase with the node among the participants and
  its share missing, and the error is the one with which the FROST signing function refused that
  request's package and randomizer, the node's key package and nonces that the node drew.
\<close>

theorem escrow_node_failures:
  fixes hist :: "(('i::linorder, 'pkp, 'p1, 'cm, 'rz, 'sp, 'sh, 'sg) state \<times> _) list"
    and s :: "('i, 'pkp, 'p1, 'cm, 'rz, 'sp, 'sh, 'sg) state"
  assumes "node_run S (with_policy (node_new S b) (escrow_approve from_slice hx pol)) hist n"
    and "react S n s rng = (r, n', rng')"
  shows "r \<noteq> Panic \<and> (\<forall>err. r = Err err \<longrightarrow>
    (\<exists>rid e sp P shs nc cm rng0 rng1 reason. err = Frost reason \<and> bt_get (requests s) rid = Some e \<and>
       status e = Signing sp P shs \<and> bt_get P (kp_identifier S (bundle_key_package b)) \<noteq> None \<and>
       bt_get shs (kp_identifier S (bundle_key_package b)) = None \<and>
       round1_commit S (signing_share S (bundle_key_package b)) rng0 = ((nc, cm), rng1) \<and>
       frost_sign S sp nc (bundle_key_package b) (randomizer e) = Inl reason))"
  using escrow.react_failures [OF assms] .

text \<open>The node commits to a request with a bad randomizer, and its signature for it fails.\<close>

lemma failing_run:
  "node_run toy_signer (with_policy (node_new toy_signer
      \<lparr>bundle_key_package = 1, bundle_public_key_package = [1, 2, 3]\<rparr>) sample_approve)
     [(first_state, Ok [SubmitCommitment other_rid 1 10 :: toy_tx])] waiting_node"
  using run_react [OF run_start waiting_react] by (simp add: toy_node_def)

theorem escrow_node_failures_witness:
  "\<exists>r n' rng'. react toy_signer waiting_node failing_state 5 = (r, n', rng') \<and> r = Err (Frost ''bad randomizer'') \<and>
     (\<exists>rid e sp nc. bt_get (requests failing_state) rid = Some e \<and>
        frost_sign toy_signer sp nc 1 (randomizer e) = Inl ''bad randomizer'')"
proof -
  have kp: "bundle_key_package \<lparr>bundle_key_package = 1 :: nat, bundle_public_key_package = [1, 2, 3 :: nat]\<rparr> = 1"
    by simp
  from escrow_node_failures [OF failing_run [unfolded sample_approve_def] failing_react, unfolded kp]
  have "\<exists>rid e sp nc. bt_get (requests failing_state) rid = Some e \<and>
      frost_sign toy_signer sp nc 1 (randomizer e) = Inl ''bad randomizer''" by blast
  with failing_react show ?thesis by blast
qed

section \<open>What a node does not forget to do\<close>

definition same_memory :: "uuid \<Rightarrow> ('i, 'kp, 'pkp, 'nc) node \<Rightarrow> ('i, 'kp, 'pkp, 'nc) node \<Rightarrow> bool" where
  "same_memory rid n n' \<longleftrightarrow> pending n' rid = pending n rid \<and>
     (rid \<in> committed_requests n' \<longleftrightarrow> rid \<in> committed_requests n) \<and>
     (rid \<in> shared_requests n' \<longleftrightarrow> rid \<in> shared_requests n) \<and>
     node_identifier n' = node_identifier n \<and> policy n' = policy n \<and> key_package n' = key_package n"

lemma step_elsewhere:
  "request_step S n rid e r n' \<Longrightarrow> rid' \<noteq> rid \<Longrightarrow> same_memory rid' n n'"
  by (erule request_step.cases) (auto simp: same_memory_def key_package_def)

lemma react_loop_extends: "react_loop S n rng out xs = (Ok out', n', rng') \<Longrightarrow> set out \<subseteq> set out'"
  using react_loop_trace by fastforce

lemma same_memory_refl: "same_memory rid n n"
  by (simp add: same_memory_def)

lemma same_memory_trans: "same_memory rid n1 n2 \<Longrightarrow> same_memory rid n2 n3 \<Longrightarrow> same_memory rid n1 n3"
  by (simp add: same_memory_def)

lemma react_loop_elsewhere:
  fixes out :: "('i::linorder, 'pkp, 'p1, 'cm, 'rz, 'sh) tx list"
  assumes "react_loop S n rng out xs = (r, n', rng')" "rid \<notin> fst ` set xs"
  shows "same_memory rid n n'"
  using assms
proof (induction S n rng out xs rule: react_loop.induct)
  case (2 S n rng out rid0 e0 xs)
  obtain r1 :: "(('i, 'pkp, 'p1, 'cm, 'rz, 'sh) tx option, error) result" and n1 g1
    where one: "react_request S n rng rid0 e0 = (r1, n1, g1)" by (metis prod_cases3)
  have "same_memory rid n n1" using step_elsewhere [OF react_request_step [OF one]] 2(3) by simp
  then show ?case
    using 2(1) [OF one [symmetric]] 2(2,3) one by (cases r1) (auto intro: same_memory_trans)
qed (simp add: same_memory_refl)

lemma react_loop_visits:
  assumes "react_loop S n rng out xs = (Ok out', n', rng')" "distinct (map fst xs)" "(rid, e) \<in> set xs"
  shows "\<exists>n1 rng1 t n2 rng2. same_memory rid n n1 \<and> react_request S n1 rng1 rid e = (Ok t, n2, rng2) \<and>
    (\<forall>t'. t = Some t' \<longrightarrow> t' \<in> set out') \<and> same_memory rid n2 n'"
  using assms
proof (induction S n rng out xs rule: react_loop.induct)
  case (2 S n rng out rid0 e0 xs)
  from 2(2) obtain t n1 g1 where one: "react_request S n rng rid0 e0 = (Ok t, n1, g1)"
    and rest: "react_loop S n1 g1 (out @ (case t of None \<Rightarrow> [] | Some t \<Rightarrow> [t])) xs = (Ok out', n', rng')"
    by (auto split: prod.splits result.splits)
  show ?case
  proof (cases "rid = rid0")
    case True
    with 2(3,4) have "e = e0" "rid \<notin> fst ` set xs" by force+
    moreover have "\<forall>t'. t = Some t' \<longrightarrow> t' \<in> set out'" using react_loop_extends [OF rest] by auto
    ultimately show ?thesis using one True same_memory_refl react_loop_elsewhere [OF rest] by blast
  next
    case False
    with 2(3,4) have "distinct (map fst xs)" "(rid, e) \<in> set xs" by auto
    from 2(1) [OF one [symmetric] refl refl rest this] obtain n2 g2 t2 n3 g3 where
      "same_memory rid n1 n2" "react_request S n2 g2 rid e = (Ok t2, n3, g3)"
      "\<forall>t'. t2 = Some t' \<longrightarrow> t' \<in> set out'" "same_memory rid n3 n'" by blast
    moreover have "same_memory rid n n1" by (rule step_elsewhere [OF react_request_step [OF one] False])
    ultimately show ?thesis using same_memory_trans by blast
  qed
qed simp

text \<open>
  A node contributes wherever it may. If \<open>react\<close> succeeds for a member of the group, then for
  every request that still awaits its commitment, that it has not committed to before and whose
  message its policy approves, it submits a commitment; and for every request that it was chosen to
  sign, has not signed before and holds nonces for, it submits a share made with these nonces.
\<close>

lemma react_contributes:
  assumes react: "react S n s rng = (Ok out, n', rng')" and g: "group s = Some g"
    and member: "bt_get (g_validators g) (node_identifier n) \<noteq> None"
    and e: "bt_get (requests s) rid = Some e"
  shows "(\<forall>cms. status e = AwaitingCommitments cms \<and> bt_get cms (node_identifier n) = None \<and>
      rid \<notin> committed_requests n \<and> policy n (message e) = Ok () \<longrightarrow>
      (\<exists>cm. SubmitCommitment rid (node_identifier n) cm \<in> set out)) \<and>
    (\<forall>sp P shs nc. status e = Signing sp P shs \<and> bt_get P (node_identifier n) \<noteq> None \<and>
      bt_get shs (node_identifier n) = None \<and> rid \<notin> shared_requests n \<and> pending n rid = Some nc \<longrightarrow>
      (\<exists>sh. frost_sign S sp nc (key_package n) (randomizer e) = Inr sh \<and>
         SubmitShare rid (node_identifier n) sh \<in> set out))"
proof -
  have "react_loop S n rng [] (bt_iter (requests s)) = (Ok out, n', rng')"
    using react g member by (auto simp: react_def bt_contains_key_def)
  from react_loop_visits [OF this distinct_bt_iter, of rid e] e obtain n1 rng1 t n2 rng2 where
    same: "same_memory rid n n1" and req: "react_request S n1 rng1 rid e = (Ok t, n2, rng2)"
    and out: "\<forall>t'. t = Some t' \<longrightarrow> t' \<in> set out"
    by (auto simp: in_set_bt_iter)
  show ?thesis
  proof (intro conjI allI impI)
    fix cms
    assume "status e = AwaitingCommitments cms \<and> bt_get cms (node_identifier n) = None \<and>
      rid \<notin> committed_requests n \<and> policy n (message e) = Ok ()"
    then have "\<exists>cm. t = Some (SubmitCommitment rid (node_identifier n) cm)"
      using same req
      by (auto simp: react_request_def bt_contains_key_def same_memory_def commit_def
          split: prod.splits result.splits if_splits)
    with out show "\<exists>cm. SubmitCommitment rid (node_identifier n) cm \<in> set out" by blast
  next
    fix sp P shs nc
    assume "status e = Signing sp P shs \<and> bt_get P (node_identifier n) \<noteq> None \<and>
      bt_get shs (node_identifier n) = None \<and> rid \<notin> shared_requests n \<and> pending n rid = Some nc"
    then have "\<exists>sh. frost_sign S sp nc (key_package n) (randomizer e) = Inr sh \<and>
        t = Some (SubmitShare rid (node_identifier n) sh)"
      using same req
      by (cases "frost_sign S sp nc (key_package n) (randomizer e)")
        (auto simp: react_request_def bt_contains_key_def same_memory_def sign_share_rerandomized_def)
    with out show "\<exists>sh. frost_sign S sp nc (key_package n) (randomizer e) = Inr sh \<and>
         SubmitShare rid (node_identifier n) sh \<in> set out" by blast
  qed
qed

section \<open>A lost commitment\<close>

lemma committed_stays:
  "node_trace S n0 tr n \<Longrightarrow> rid \<in> committed_requests n0 \<Longrightarrow>
   rid \<in> committed_requests n \<and> (\<forall>v cm. SubmitCommitment rid v cm \<notin> set (emitted tr))"
proof (induction rule: node_trace.induct)
  case (trace_snoc tr n rid' e r n')
  from trace_snoc.hyps(2) trace_snoc.IH [OF trace_snoc.prems] show ?case
    by cases auto
qed simp

text \<open>A pass over requests none of which fails goes on with the next request.\<close>

lemma react_loop_append:
  "react_loop S n rng out xs = (Ok out1, n1, rng1) \<Longrightarrow> react_loop S n rng out (xs @ zs) = react_loop S n1 rng1 out1 zs"
  by (induction S n rng out xs rule: react_loop.induct) (auto split: prod.splits result.splits)

lemma react_loop_succeeds:
  fixes out :: "('i::linorder, 'pkp, 'p1, 'cm, 'rz, 'sh) tx list"
  assumes "distinct (map fst xs)" "\<forall>(rid, e) \<in> set xs. \<forall>m g. same_memory rid n m \<longrightarrow>
    (\<exists>(t :: ('i, 'pkp, 'p1, 'cm, 'rz, 'sh) tx option) m' g'. react_request S m g rid e = (Ok t, m', g'))"
  shows "\<exists>out1 n1 rng1. react_loop S n rng out xs = (Ok out1, n1, rng1)"
  using assms
proof (induction xs arbitrary: n rng out)
  case (Cons x xs)
  obtain rid e where x: "x = (rid, e)" by (cases x)
  from bspec [OF Cons.prems(2) list.set_intros(1)] same_memory_refl [of rid n]
  obtain t :: "('i, 'pkp, 'p1, 'cm, 'rz, 'sh) tx option" and n1 g1
    where one: "react_request S n rng rid e = (Ok t, n1, g1)" unfolding x prod.case by blast
  have "\<exists>(t :: ('i, 'pkp, 'p1, 'cm, 'rz, 'sh) tx option) m' g'. react_request S m g rid' e' = (Ok t, m', g')"
    if "(rid', e') \<in> set xs" "same_memory rid' n1 m" for rid' e' m g
  proof -
    have "rid' \<noteq> rid" using that(1) Cons.prems(1) x by force
    then have "same_memory rid' n m"
      using step_elsewhere [OF react_request_step [OF one]] same_memory_trans that(2) by blast
    with bspec [OF Cons.prems(2) list.set_intros(2) [OF that(1)]] show ?thesis by simp
  qed
  with Cons.IH [of n1 g1] Cons.prems(1) one show ?case by (simp add: x split_beta)
qed simp

text \<open>A request that the node may commit to.\<close>

definition may_commit ::
  "('i::linorder, 'kp, 'pkp, 'nc) node \<Rightarrow> uuid \<Rightarrow> ('i, 'cm, 'rz, 'sp, 'sh, 'sg) request_entry \<Rightarrow> bool" where
  "may_commit n rid e \<longleftrightarrow> (\<exists>cms. status e = AwaitingCommitments cms \<and> bt_get cms (node_identifier n) = None) \<and>
     rid \<notin> committed_requests n \<and> policy n (message e) = Ok ()"

lemma react_request_ok:
  assumes "same_memory rid n m" "pending n rid \<noteq> None \<longrightarrow> rid \<in> committed_requests n" "policy n (message e) \<noteq> Panic"
    and sign: "\<forall>sp P shs nc. status e = Signing sp P shs \<and> pending n rid = Some nc \<longrightarrow>
      (\<exists>sh. frost_sign S sp nc (key_package n) (randomizer e) = Inr sh)"
  shows "\<exists>t m' g'. react_request S m g rid e = (Ok t, m', g')"
proof (cases "status e")
  case (AwaitingCommitments cms)
  with assms(1-3) show ?thesis
    by (cases "policy n (message e)")
      (auto simp: react_request_def commit_def same_memory_def split: prod.splits)
next
  case (Signing sp P shs)
  show ?thesis
  proof (cases "pending n rid")
    case None
    with Signing assms(1) show ?thesis
      by (auto simp: react_request_def sign_share_rerandomized_def same_memory_def)
  next
    case (Some nc)
    with Signing sign obtain sh where "frost_sign S sp nc (key_package n) (randomizer e) = Inr sh" by blast
    with Signing Some assms(1) show ?thesis
      by (auto simp: react_request_def sign_share_rerandomized_def same_memory_def)
  qed
qed (auto simp: react_request_def)

lemma react_request_commits:
  assumes "same_memory rid n m" "may_commit n rid e" "react_request S m g rid e = (Ok t, m', g')"
  shows "rid \<in> committed_requests m' \<and> (\<exists>nc cm. pending m' rid = Some nc \<and>
    round1_commit S (signing_share S (key_package n)) g = ((nc, cm), g') \<and>
    t = Some (SubmitCommitment rid (node_identifier n) cm))"
  using assms
  by (auto simp: may_commit_def react_request_def commit_def same_memory_def bt_contains_key_def
      split: prod.splits if_splits)

lemma react_request_fails:
  assumes "same_memory rid n m" "status e = Signing sp P shs" "bt_get P (node_identifier n) \<noteq> None"
    "bt_get shs (node_identifier n) = None" "rid \<notin> shared_requests n" "pending n rid = Some nc"
    "frost_sign S sp nc (key_package n) (randomizer e) = Inl reason"
  shows "react_request S m g rid e = (Err (Frost reason), m\<lparr>pending := (pending m)(rid := None)\<rparr>, g)"
  using assms
  by (auto simp: react_request_def sign_share_rerandomized_def same_memory_def bt_contains_key_def)

lemma bt_iter_split:
  assumes "bt_get m k = Some v"
  shows "\<exists>xs ys. bt_iter m = xs @ (k, v) # ys \<and> distinct (map fst xs) \<and>
    (\<forall>k' v'. (k', v') \<in> set xs \<longleftrightarrow> k' < k \<and> bt_get m k' = Some v')"
proof -
  from assms obtain xs ys where split: "bt_iter m = xs @ (k, v) # ys"
    unfolding in_set_bt_iter [symmetric] by (meson split_list)
  have sorted: "sorted_wrt (<) (map fst (bt_iter m))" by (rule ordered_bt_iter)
  then have less: "\<forall>x \<in> set xs. fst x < k" "\<forall>y \<in> set ys. k < fst y" by (simp_all add: split sorted_wrt_append)
  have "(k', v') \<in> set xs \<longleftrightarrow> k' < k \<and> bt_get m k' = Some v'" for k' v'
    unfolding in_set_bt_iter [symmetric] split using less by fastforce
  moreover have "distinct (map fst xs)" using distinct_bt_iter [of m] by (simp add: split)
  ultimately show ?thesis using split by blast
qed

lemma committed_never_again:
  fixes hist :: "(('i::linorder, 'pkp, 'p1, 'cm, 'rz, 'sp, 'sh, 'sg) state \<times> _) list"
  assumes "rid \<in> committed_requests n" "node_run S n hist n'"
  shows "SubmitCommitment rid v cm \<notin> set (outputs hist)"
proof -
  from node_run_trace [OF assms(2)] obtain tr :: "('i, 'pkp, 'p1, 'cm, 'rz, 'sp, 'sh, 'sg) event list"
    where tr: "node_trace S n tr n'" "subseq (outputs hist) (emitted tr)" by blast
  from committed_stays [OF tr(1) assms(1)] have "SubmitCommitment rid v cm \<notin> set (emitted tr)" by blast
  with tr(2) show ?thesis by (auto dest: list_emb_set)
qed

text \<open>A request that fails, with none failing before it, ends the pass with its error; the requests
  before it that could be committed to are remembered as committed, with their nonces.\<close>

lemma react_fails_at:
  fixes s :: "('i::linorder, 'pkp, 'p1, 'cm, 'rz, 'sp, 'sh, 'sg) state"
  assumes g: "group s = Some g" "bt_get (g_validators g) (node_identifier n) \<noteq> None"
    and e': "bt_get (requests s) rid' = Some e'"
    and fails: "status e' = Signing sp P shs" "bt_get P (node_identifier n) \<noteq> None"
      "bt_get shs (node_identifier n) = None" "rid' \<notin> shared_requests n" "pending n rid' = Some nc"
      "frost_sign S sp nc (key_package n) (randomizer e') = Inl reason"
    and before: "\<forall>rid e sp P shs nc. rid < rid' \<and> bt_get (requests s) rid = Some e \<and> status e = Signing sp P shs \<and>
      pending n rid = Some nc \<longrightarrow> (\<exists>sh. frost_sign S sp nc (key_package n) (randomizer e) = Inr sh)"
    and mem: "dom (pending n) \<subseteq> committed_requests n" and total: "\<forall>m. policy n m \<noteq> Panic"
  shows "\<exists>n' rng'. react S n s rng = (Err (Frost reason), n', rng') \<and>
    (\<forall>rid e. rid < rid' \<and> bt_get (requests s) rid = Some e \<and> may_commit n rid e \<longrightarrow>
       rid \<in> committed_requests n' \<and>
       (\<exists>nc cm g g'. pending n' rid = Some nc \<and> round1_commit S (signing_share S (key_package n)) g = ((nc, cm), g')))"
proof -
  from bt_iter_split [OF e'] obtain xs ys where split: "bt_iter (requests s) = xs @ (rid', e') # ys"
    and d: "distinct (map fst xs)"
    and xs: "\<And>rid e. (rid, e) \<in> set xs \<longleftrightarrow> rid < rid' \<and> bt_get (requests s) rid = Some e" by blast
  have "\<exists>(t :: ('i, 'pkp, 'p1, 'cm, 'rz, 'sh) tx option) m' g'. react_request S m g rid e = (Ok t, m', g')"
    if "(rid, e) \<in> set xs" "same_memory rid n m" for rid e m g
  proof (rule react_request_ok [OF that(2)])
    show "pending n rid \<noteq> None \<longrightarrow> rid \<in> committed_requests n" using mem by blast
    show "policy n (message e) \<noteq> Panic" using total by blast
    show "\<forall>sp P shs nc. status e = Signing sp P shs \<and> pending n rid = Some nc \<longrightarrow>
      (\<exists>sh. frost_sign S sp nc (key_package n) (randomizer e) = Inr sh)"
      using before that(1) xs by blast
  qed
  then have "\<forall>(rid, e) \<in> set xs. \<forall>m g. same_memory rid n m \<longrightarrow>
      (\<exists>(t :: ('i, 'pkp, 'p1, 'cm, 'rz, 'sh) tx option) m' g'. react_request S m g rid e = (Ok t, m', g'))" by blast
  from react_loop_succeeds [OF d this, of rng "[]"] obtain out1 n1 rng1
    where loop: "react_loop S n rng [] xs = (Ok (out1 :: ('i, 'pkp, 'p1, 'cm, 'rz, 'sh) tx list), n1, rng1)" by blast
  have "rid' \<notin> fst ` set xs" using xs by fastforce
  note err = react_request_fails [OF react_loop_elsewhere [OF loop this] fails]
  let ?n = "n1\<lparr>pending := (pending n1)(rid' := None)\<rparr>"
  have "react S n s rng = (Err (Frost reason), ?n, rng1)"
    using g react_loop_append [OF loop] by (auto simp: react_def bt_contains_key_def split err)
  moreover have "rid \<in> committed_requests ?n \<and>
      (\<exists>nc cm g g'. pending ?n rid = Some nc \<and> round1_commit S (signing_share S (key_package n)) g = ((nc, cm), g'))"
    if "rid < rid'" "bt_get (requests s) rid = Some e" "may_commit n rid e" for rid e
  proof -
    from that(1,2) xs have "(rid, e) \<in> set xs" by blast
    from react_loop_visits [OF loop d this] obtain m g m' g' and t :: "('i, 'pkp, 'p1, 'cm, 'rz, 'sh) tx option"
      where s: "same_memory rid n m" "react_request S m g rid e = (Ok t, m', g')" "same_memory rid m' n1" by blast
    from react_request_commits [OF s(1) that(3) s(2)] s(3) that(1) show ?thesis
      by (auto simp: same_memory_def)
  qed
  ultimately show ?thesis by blast
qed

text \<open>
  C33. An error loses the commitments of the pass, for good. Let a node with some policy that does not
  panic meet a request that it was chosen to sign but for which the signing function refuses its
  stored nonces, while it can sign for the smaller requests. Then \<open>react\<close> returns that error and no
  transaction, although it has drawn and stored nonces for every smaller request that it could commit
  to; and no later reaction of the node, on whatever chain states, submits a commitment for any of
  these requests.
\<close>

theorem lost_commitment:
  fixes hist :: "(('i::linorder, 'pkp, 'p1, 'cm, 'rz, 'sp, 'sh, 'sg) state \<times> _) list"
    and s :: "('i, 'pkp, 'p1, 'cm, 'rz, 'sp, 'sh, 'sg) state"
  assumes run: "node_run S (with_policy (node_new S b) approve) hist n" and total: "\<forall>m. approve m \<noteq> Panic"
    and i: "i = kp_identifier S (bundle_key_package b)"
    and g: "group s = Some g" "bt_get (g_validators g) i \<noteq> None"
    and e': "bt_get (requests s) rid' = Some e'"
    and fails: "status e' = Signing sp P shs" "bt_get P i \<noteq> None" "bt_get shs i = None"
      "rid' \<notin> shared_requests n" "pending n rid' = Some nc"
      "frost_sign S sp nc (bundle_key_package b) (randomizer e') = Inl reason"
    and before: "\<forall>rid e sp P shs nc. rid < rid' \<and> bt_get (requests s) rid = Some e \<and> status e = Signing sp P shs \<and>
      pending n rid = Some nc \<longrightarrow> (\<exists>sh. frost_sign S sp nc (bundle_key_package b) (randomizer e) = Inr sh)"
  shows "\<exists>n' rng'. react S n s rng = (Err (Frost reason), n', rng') \<and>
    (\<forall>rid e cms. rid < rid' \<and> bt_get (requests s) rid = Some e \<and> status e = AwaitingCommitments cms \<and>
       bt_get cms i = None \<and> rid \<notin> committed_requests n \<and> approve (message e) = Ok () \<longrightarrow>
       (\<exists>nc cm g g'. pending n' rid = Some nc \<and>
          round1_commit S (signing_share S (bundle_key_package b)) g = ((nc, cm), g')) \<and>
       (\<forall>(later :: (('i, 'pkp, 'p1, 'cm, 'rz, 'sp, 'sh, 'sg) state \<times> _) list) n'' cm.
          node_run S n' later n'' \<longrightarrow> SubmitCommitment rid i cm \<notin> set (outputs later)))"
proof -
  let ?n = "with_policy (node_new S b) approve"
  from node_run_trace [OF run] obtain tr :: "('i, 'pkp, 'p1, 'cm, 'rz, 'sp, 'sh, 'sg) event list"
    where tr: "node_trace S ?n tr n" by blast
  have n: "node_identifier n = i" "policy n = approve" "key_package n = bundle_key_package b"
    using trace_fixed [OF tr] by (simp_all add: with_policy_def node_new_def key_package_def i)
  have mem: "dom (pending n) \<subseteq> committed_requests n"
    using trace_memory [OF tr fresh_new(2)] unfolding memory_inv_def by blast
  from react_fails_at [of s g n rid' e' sp P shs nc S reason rng, unfolded n, OF g e' fails before mem total]
  obtain n' rng' where r: "react S n s rng = (Err (Frost reason), n', rng')"
    "\<And>rid e. rid < rid' \<and> bt_get (requests s) rid = Some e \<and> may_commit n rid e \<Longrightarrow>
       rid \<in> committed_requests n' \<and> (\<exists>nc cm g g'. pending n' rid = Some nc \<and>
         round1_commit S (signing_share S (bundle_key_package b)) g = ((nc, cm), g'))" by blast
  have silent: "SubmitCommitment rid i cm \<notin> set (outputs later)"
    if "rid \<in> committed_requests n'" "node_run S n' later n''"
    for rid cm n'' and later :: "(('i, 'pkp, 'p1, 'cm, 'rz, 'sp, 'sh, 'sg) state \<times> _) list"
    by (rule committed_never_again [OF that])
  show ?thesis
    by (rule exI [of _ n'], rule exI [of _ rng'], rule conjI [OF r(1)])
      (use r(2) silent n in \<open>unfold may_commit_def, blast\<close>)
qed

theorem lost_commitment_witness:
  "\<exists>n' rng'. react toy_signer waiting_node failing_state 5 = (Err (Frost ''bad randomizer''), n', rng') \<and>
     (\<exists>nc. pending n' toy_rid = Some nc) \<and>
     (\<forall>(later :: (toy_state \<times> (toy_tx list, error) result) list) n'' cm.
        node_run toy_signer n' later n'' \<longrightarrow> SubmitCommitment toy_rid 1 cm \<notin> set (outputs later))"
proof -
  let ?b = "\<lparr>bundle_key_package = 1 :: nat, bundle_public_key_package = [1, 2, 3 :: nat]\<rparr>"
  let ?sp = "(insert_all ((*) 10) [1, 2] bt_new, [104, 105])"
  have total: "\<forall>m. sample_approve m \<noteq> Panic"
    unfolding sample_approve_def by (rule allI) (rule escrow.approve_total)
  have i: "1 = kp_identifier toy_signer (bundle_key_package ?b)" by (simp add: toy_signer_def)
  have e: "bt_get (requests failing_state) toy_rid = Some pending_entry"
    "bt_get (requests failing_state) other_rid = Some failing_entry"
    by (simp_all add: in_set_bt_iter [symmetric] failing_facts(2))
  have fails: "status failing_entry = Signing ?sp (bs_collect [1, 2]) bt_new" "bt_get (bs_collect [1, 2]) 1 \<noteq> None"
    "bt_get bt_new (1 :: nat) = None" "other_rid \<notin> shared_requests waiting_node" "pending waiting_node other_rid = Some 4"
    "frost_sign toy_signer ?sp 4 (bundle_key_package ?b) (randomizer failing_entry) = Inl ''bad randomizer''"
    by (simp_all add: failing_entry_def signing_entry_def waiting_node_def toy_node_def toy_signer_def node_new_def with_policy_def)
  have before: "\<forall>rid e sp P shs nc. rid < other_rid \<and> bt_get (requests failing_state) rid = Some e \<and>
      status e = Signing sp P shs \<and> pending waiting_node rid = Some nc \<longrightarrow>
      (\<exists>sh. frost_sign toy_signer sp nc (bundle_key_package ?b) (randomizer e) = Inr sh)"
    by (simp add: waiting_node_def toy_node_def node_new_def with_policy_def)
  have fresh: "toy_rid \<notin> committed_requests waiting_node" using rid_less by (auto simp: waiting_node_def)
  have member: "bt_get (g_validators toy_group) 1 \<noteq> None" using member_one by simp
  from lost_commitment [OF failing_run total i failing_facts(1) member e(2) fails before, of 5]
  obtain n' rng' where "react toy_signer waiting_node failing_state 5 = (Err (Frost ''bad randomizer''), n', rng')"
    and lost: "\<And>rid e cms. rid < other_rid \<and> bt_get (requests failing_state) rid = Some e \<and>
      status e = AwaitingCommitments cms \<and> bt_get cms 1 = None \<and> rid \<notin> committed_requests waiting_node \<and>
      sample_approve (message e) = Ok () \<Longrightarrow> (\<exists>nc. pending n' rid = Some nc) \<and>
      (\<forall>(later :: (toy_state \<times> (toy_tx list, error) result) list) n'' cm.
        node_run toy_signer n' later n'' \<longrightarrow> SubmitCommitment rid 1 cm \<notin> set (outputs later))" by blast
  moreover have "status pending_entry = AwaitingCommitments bt_new" "bt_get bt_new (1 :: nat) = None"
    "sample_approve (message pending_entry) = Ok ()"
    using sample_approves by (simp_all add: pending_entry_def)
  ultimately show ?thesis using rid_less e(1) fresh by blast
qed

end
