(* ===== verification/Dkg_Participant.thy ===== *)
theory Dkg_Participant
  imports Node
begin

text \<open>
  The chain-driven key generation of \<open>sapphire-node/src/dkg.rs\<close>: the participant's memory and
  its \<open>react\<close>, one definition per round. The FROST key-generation functions and the JSON codec of
  the round-two packages are the fields of the parameter record \<open>frost_dkg\<close>; \<open>'s1\<close>, \<open>'s2\<close>
  are the types of the secret packages, \<open>'p2\<close> of the round-two packages. As in the signer, an
  operation returns the participant and the generator states beside its result.
\<close>

section \<open>The participant\<close>

record ('i, 's1, 'p1, 's2, 'p2, 'kp, 'pkp, 'g) frost_dkg =
  part1 :: "'i \<Rightarrow> u16 \<Rightarrow> u16 \<Rightarrow> 'g \<Rightarrow> (string + 's1 \<times> 'p1) \<times> 'g"
  part2 :: "'s1 \<Rightarrow> ('i, 'p1) btree_map \<Rightarrow> string + 's2 \<times> ('i, 'p2) btree_map"
  part3 :: "'s2 \<Rightarrow> ('i, 'p1) btree_map \<Rightarrow> ('i, 'p2) btree_map \<Rightarrow> string + 'kp \<times> 'pkp"
  p2_to_vec :: "'p2 \<Rightarrow> string + u8 list"
  p2_from_slice :: "u8 list \<Rightarrow> string + 'p2"

record ('i, 'sk, 's1, 's2, 'kp, 'pkp) dkg_participant =
  d_identifier :: 'i
  enc_secret :: 'sk
  enc_public :: enc_public_key
  secret_r1 :: "'s1 option"
  secret_r2 :: "'s2 option"
  submitted_r1 :: bool
  submitted_r2 :: bool
  submitted_finalize :: bool
  d_key_package :: "'kp option"
  d_public_key_package :: "'pkp option"

datatype dkg_error =
    DkgFrost string
  | DkgEnvelope envelope_error
  | DkgSerde string
  | Inconsistent string

definition participant_new ::
  "('sk, 'pk, 'box, 'g, 'o) cbox_crate \<Rightarrow> 'i \<Rightarrow> 'g \<Rightarrow> ('i, 'sk, 's1, 's2, 'kp, 'pkp) dkg_participant \<times> 'g" where
  "participant_new cb ident rng =
     (let (secret, rng') = sk_generate cb rng
      in (\<lparr>d_identifier = ident, enc_secret = secret,
           enc_public = enc_from_public cb (sk_public cb secret),
           secret_r1 = None, secret_r2 = None,
           submitted_r1 = False, submitted_r2 = False, submitted_finalize = False,
           d_key_package = None, d_public_key_package = None\<rparr>, rng'))"

section \<open>The rounds\<close>

definition others_r1 :: "('i::linorder, 'pkp, 'p1) dkg_ceremony \<Rightarrow> 'i \<Rightarrow> ('i, 'p1) btree_map" where
  "others_r1 c ident = bt_collect (filter (\<lambda>(k, _). k \<noteq> ident) (bt_iter (round1 c)))"

definition dkg_round1 ::
  "('i::linorder, 's1, 'p1, 's2, 'p2, 'kp, 'pkp, 'g) frost_dkg \<Rightarrow>
   ('i, 'sk, 's1, 's2, 'kp, 'pkp) dkg_participant \<Rightarrow> ('i, 'pkp, 'p1) dkg_ceremony \<Rightarrow> 'g \<Rightarrow>
   (('i, 'pkp, 'p1, 'cm, 'rz, 'sh) tx list, dkg_error) result \<times>
   ('i, 'sk, 's1, 's2, 'kp, 'pkp) dkg_participant \<times> 'g" where
  "dkg_round1 D p c rng =
     (case part1 D (d_identifier p) (total (c_params c)) (threshold (c_params c)) rng of
        (Inl e, rng') \<Rightarrow> (Err (DkgFrost e), p, rng')
      | (Inr (secret, package), rng') \<Rightarrow>
          (Ok [DkgRound1 (d_identifier p) package],
           p\<lparr>secret_r1 := Some secret, submitted_r1 := True\<rparr>, rng'))"

text \<open>The loop that seals the outgoing packages.\<close>

fun seal_all ::
  "('i::linorder, 's1, 'p1, 's2, 'p2, 'kp, 'pkp, 'g) frost_dkg \<Rightarrow> ('sk, 'pk, 'box, 'g, 'o) cbox_crate \<Rightarrow>
   'i \<Rightarrow> ('i, enc_public_key) btree_map \<Rightarrow> 'g \<Rightarrow> 'o \<Rightarrow> ('i, 'pkp, 'p1, 'cm, 'rz, 'sh) tx list \<Rightarrow>
   ('i \<times> 'p2) list \<Rightarrow>
   (('i, 'pkp, 'p1, 'cm, 'rz, 'sh) tx list, dkg_error) result \<times> 'g \<times> 'o" where
  "seal_all D cb ident V rng os out [] = (Ok out, rng, os)"
| "seal_all D cb ident V rng os out ((recipient, pkg) # xs) =
     (case bt_get V recipient of
        None \<Rightarrow> (Err (Inconsistent ''recipient has no enc pubkey''), rng, os)
      | Some recipient_pk \<Rightarrow>
          (case p2_to_vec D pkg of
             Inl e \<Rightarrow> (Err (DkgSerde e), rng, os)
           | Inr plaintext \<Rightarrow>
               (case seal cb rng os recipient_pk plaintext of
                  Ok (s, rng', os') \<Rightarrow>
                    seal_all D cb ident V rng' os' (out @ [DkgRound2 ident recipient s]) xs
                | Err e \<Rightarrow> (Err e, rng, os)
                | Panic \<Rightarrow> (Panic, rng, os))))"

definition dkg_round2 ::
  "('i::linorder, 's1, 'p1, 's2, 'p2, 'kp, 'pkp, 'g) frost_dkg \<Rightarrow> ('sk, 'pk, 'box, 'g, 'o) cbox_crate \<Rightarrow>
   ('i, 'sk, 's1, 's2, 'kp, 'pkp) dkg_participant \<Rightarrow> ('i, 'pkp, 'p1) dkg_ceremony \<Rightarrow> 'g \<Rightarrow> 'o \<Rightarrow>
   (('i, 'pkp, 'p1, 'cm, 'rz, 'sh) tx list, dkg_error) result \<times>
   ('i, 'sk, 's1, 's2, 'kp, 'pkp) dkg_participant \<times> 'g \<times> 'o" where
  "dkg_round2 D cb p c rng os =
     (case secret_r1 p of
        None \<Rightarrow> (Err (Inconsistent ''missing r1 secret for r2''), p, rng, os)
      | Some secret \<Rightarrow>
          (let p1 = p\<lparr>secret_r1 := None\<rparr> in
           case part2 D secret (others_r1 c (d_identifier p)) of
             Inl e \<Rightarrow> (Err (DkgFrost e), p1, rng, os)
           | Inr (secret2, sent) \<Rightarrow>
               (let p2 = p1\<lparr>secret_r2 := Some secret2\<rparr> in
                case seal_all D cb (d_identifier p) (c_validators c) rng os [] (bt_iter sent) of
                  (Ok out, rng', os') \<Rightarrow> (Ok out, p2\<lparr>submitted_r2 := True\<rparr>, rng', os')
                | (Err e, rng', os') \<Rightarrow> (Err e, p2, rng', os')
                | (Panic, rng', os') \<Rightarrow> (Panic, p2, rng', os'))))"

text \<open>The loop that opens the envelopes addressed to the participant.\<close>

fun open_all ::
  "('i::linorder, 's1, 'p1, 's2, 'p2, 'kp, 'pkp, 'g) frost_dkg \<Rightarrow> ('sk, 'pk, 'box, 'g, 'o) cbox_crate \<Rightarrow>
   'sk \<Rightarrow> 'i \<Rightarrow> ('i, 'p2) btree_map \<Rightarrow> (('i \<times> 'i) \<times> sealed) list \<Rightarrow> (('i, 'p2) btree_map, dkg_error) result" where
  "open_all D cb secret ident received [] = Ok received"
| "open_all D cb secret ident received (((sender, recipient), s) # xs) =
     (if recipient \<noteq> ident then open_all D cb secret ident received xs
      else
        result_bind (map_err DkgEnvelope (open_envelope cb secret s)) (\<lambda>pt.
        result_bind (map_err DkgSerde (of_sum (p2_from_slice D pt))) (\<lambda>pkg.
          open_all D cb secret ident (bt_insert sender pkg received) xs)))"

definition dkg_finalize ::
  "('i::linorder, 's1, 'p1, 's2, 'p2, 'kp, 'pkp, 'g) frost_dkg \<Rightarrow> ('sk, 'pk, 'box, 'g, 'o) cbox_crate \<Rightarrow>
   ('i, 'sk, 's1, 's2, 'kp, 'pkp) dkg_participant \<Rightarrow> ('i, 'pkp, 'p1) dkg_ceremony \<Rightarrow>
   (('i, 'pkp, 'p1, 'cm, 'rz, 'sh) tx list, dkg_error) result \<times>
   ('i, 'sk, 's1, 's2, 'kp, 'pkp) dkg_participant" where
  "dkg_finalize D cb p c =
     (if bt_contains_key (finalize c) (d_identifier p) then (Ok [], p\<lparr>submitted_finalize := True\<rparr>)
      else
        case open_all D cb (enc_secret p) (d_identifier p) bt_new (bt_iter (round2 c)) of
          Err e \<Rightarrow> (Err e, p)
        | Panic \<Rightarrow> (Panic, p)
        | Ok received \<Rightarrow>
            (case secret_r2 p of
               None \<Rightarrow> (Err (Inconsistent ''missing r2 secret for finalize''), p)
             | Some secret \<Rightarrow>
                 (let p1 = p\<lparr>secret_r2 := None\<rparr> in
                  case part3 D secret (others_r1 c (d_identifier p)) received of
                    Inl e \<Rightarrow> (Err (DkgFrost e), p1)
                  | Inr (key_pkg, pkp) \<Rightarrow>
                      (Ok [DkgFinalize (d_identifier p) pkp],
                       p1\<lparr>d_key_package := Some key_pkg, d_public_key_package := Some pkp,
                          submitted_finalize := True\<rparr>))))"

section \<open>The reaction to a chain state\<close>

definition dkg_react ::
  "('i::linorder, 's1, 'p1, 's2, 'p2, 'kp, 'pkp, 'g) frost_dkg \<Rightarrow> ('sk, 'pk, 'box, 'g, 'o) cbox_crate \<Rightarrow>
   ('i, 'sk, 's1, 's2, 'kp, 'pkp) dkg_participant \<Rightarrow>
   ('i, 'pkp, 'p1, 'cm, 'rz, 'sp, 'sh, 'sg) state \<Rightarrow> 'g \<Rightarrow> 'o \<Rightarrow>
   (('i, 'pkp, 'p1, 'cm, 'rz, 'sh) tx list, dkg_error) result \<times>
   ('i, 'sk, 's1, 's2, 'kp, 'pkp) dkg_participant \<times> 'g \<times> 'o" where
  "dkg_react D cb p s rng os =
     (if group s \<noteq> None then (Ok [], p, rng, os)
      else case ceremony s of
        None \<Rightarrow> (Ok [], p, rng, os)
      | Some c \<Rightarrow>
          if \<not> bt_contains_key (c_validators c) (d_identifier p) then (Ok [], p, rng, os)
          else if \<not> submitted_r1 p \<and> \<not> bt_contains_key (round1 c) (d_identifier p) then
            (case dkg_round1 D p c rng of (r, p', rng') \<Rightarrow> (r, p', rng', os))
          else
            (let p0 = (if submitted_r1 p then p else p\<lparr>submitted_r1 := True\<rparr>) in
             if \<not> r1_complete c then (Ok [], p0, rng, os)
             else if \<not> submitted_r2 p0 then dkg_round2 D cb p0 c rng os
             else
               case r2_complete c of
                 Err e \<Rightarrow> (Err e, p0, rng, os)
               | Panic \<Rightarrow> (Panic, p0, rng, os)
               | Ok r2 \<Rightarrow>
                   if \<not> r2 then (Ok [], p0, rng, os)
                   else if \<not> submitted_finalize p0 then
                     (case dkg_finalize D cb p0 c of (r, p') \<Rightarrow> (r, p', rng, os))
                   else (Ok [], p0, rng, os)))"

definition is_complete :: "('i, 'sk, 's1, 's2, 'kp, 'pkp) dkg_participant \<Rightarrow> bool" where
  "is_complete p \<longleftrightarrow> d_key_package p \<noteq> None \<and> d_public_key_package p \<noteq> None"

definition into_node ::
  "('i, 'kp, 'ss, 'nc, 'cm, 'sp, 'rz, 'sh, 'g) frost_signer \<Rightarrow>
   ('i, 'sk, 's1, 's2, 'kp, 'pkp) dkg_participant \<Rightarrow> (('i, 'kp, 'pkp, 'nc) node, dkg_error) result" where
  "into_node S p =
     result_bind (ok_or (Inconsistent ''DKG not complete: no key package'') (d_key_package p)) (\<lambda>kp.
     result_bind (ok_or (Inconsistent ''DKG not complete: no PKP'') (d_public_key_package p)) (\<lambda>pkp.
       Ok (node_new S \<lparr>bundle_key_package = kp, bundle_public_key_package = pkp\<rparr>)))"

end
