(* ===== verification/Reactors.thy ===== *)
theory Reactors
  imports Sapphire_Prelude
begin

text \<open>
  The contract between a driver and the parties it drives. The drivers of the sources share one shape:
  every party reacts to the same chain state, what it returns is put into the mempool before the next
  party's turn, and the first error ends the pass. The locale states that contract; its lemma turns
  what each party does into what the pass does. It is interpreted on the key-generation driver and on
  the signing drivers.
\<close>

locale reactors =
  fixes act :: "'a \<Rightarrow> 's \<Rightarrow> 'r \<Rightarrow> ('t list, 'e) result \<times> 'a \<times> 'r"
    and state_of :: "'sim \<Rightarrow> 's"
    and put :: "'sim \<Rightarrow> 't list \<Rightarrow> 'sim"
    and pass :: "'sim \<Rightarrow> 'r \<Rightarrow> 'a list \<Rightarrow> (unit, 'e) result \<times> 'sim \<times> 'a list \<times> 'r"
  assumes state_put: "state_of (put sim ts) = state_of sim"
    and put_nil: "put sim [] = sim"
    and put_put: "put (put sim ts) us = put sim (ts @ us)"
    and pass_nil: "pass sim r [] = (Ok (), sim, [], r)"
    and pass_ok: "act a (state_of sim) r = (Ok out, a', r') \<Longrightarrow> pass (put sim out) r' as = (x, sim', as', r'') \<Longrightarrow>
      pass sim r (a # as) = (x, sim', a' # as', r'')"
    and pass_err: "act a (state_of sim) r = (Err e, a', r') \<Longrightarrow> pass sim r (a # as) = (Err e, sim, a' # as, r')"
    and pass_panic: "act a (state_of sim) r = (Panic, a', r') \<Longrightarrow> pass sim r (a # as) = (Panic, sim, a' # as, r')"
begin

text \<open>A pass only adds to the mempool, and keeps the number of parties, whatever its result.\<close>

lemma pass_puts: "pass sim r as = (x, sim', as', r') \<Longrightarrow> (\<exists>ts. sim' = put sim ts) \<and> length as' = length as"
proof (induction as arbitrary: sim r x sim' as' r')
  case Nil
  then show ?case using put_nil [of sim] by (simp add: pass_nil) metis
next
  case (Cons a as)
  obtain y a1 r1 where one: "act a (state_of sim) r = (y, a1, r1)" by (metis prod_cases3)
  show ?case
  proof (cases y)
    case (Ok out)
    obtain x2 sim2 as2 r2 where rest: "pass (put sim out) r1 as = (x2, sim2, as2, r2)" by (metis prod_cases4)
    from Cons.IH [OF rest] pass_ok [OF one [unfolded Ok] rest] Cons.prems show ?thesis
      by (auto simp: put_put)
  next
    case (Err e)
    with pass_err [of a sim r e a1 r1 as] one Cons.prems put_nil [of sim] show ?thesis by auto metis
  next
    case Panic
    with pass_panic [of a sim r a1 r1 as] one Cons.prems put_nil [of sim] show ?thesis by auto metis
  qed
qed

lemma pass_state: "pass sim r as = (x, sim', as', r') \<Longrightarrow> state_of sim' = state_of sim"
  using pass_puts state_put by metis

text \<open>What a family of parties does in one pass, from what each of them does.\<close>

lemma pass_family:
  assumes "\<And>i r. i \<in> set ids \<Longrightarrow> \<exists>out a' r'. act (A i) (state_of sim) r = (Ok out, a', r') \<and> R i out a'"
    and "distinct ids"
  shows "\<exists>out A' r'. pass sim r (map A ids) = (Ok (), put sim (concat (map out ids)), map A' ids, r') \<and>
    (\<forall>i \<in> set ids. R i (out i) (A' i))"
  using assms
proof (induction ids arbitrary: sim r)
  case (Cons i ids)
  from Cons.prems(1) [of i r] obtain out1 a1 r1 where
    one: "act (A i) (state_of sim) r = (Ok out1, a1, r1)" "R i out1 a1" by auto
  have "\<exists>out A' r'. pass (put sim out1) r1 (map A ids) =
      (Ok (), put (put sim out1) (concat (map out ids)), map A' ids, r') \<and> (\<forall>i \<in> set ids. R i (out i) (A' i))"
    by (rule Cons.IH) (use Cons.prems in \<open>auto simp: state_put\<close>)
  then obtain out A' r' where
    rest: "pass (put sim out1) r1 (map A ids) = (Ok (), put (put sim out1) (concat (map out ids)), map A' ids, r')"
    "\<forall>i \<in> set ids. R i (out i) (A' i)" by blast
  have new: "map (\<lambda>a. if a = i then out1 else out a) ids = map out ids"
    "map (\<lambda>a. if a = i then a1 else A' a) ids = map A' ids"
    using Cons.prems(2) by auto
  show ?case
    by (intro exI [of _ "out(i := out1)"] exI [of _ "A'(i := a1)"] exI [of _ r'])
      (use pass_ok [OF one(1) rest(1)] one(2) rest(2) Cons.prems(2) in \<open>auto simp: new put_put\<close>)
qed (simp add: pass_nil put_nil)

end

end
