(* ===== verification/Dkg_Driver.thy ===== *)
theory Dkg_Driver
  imports Dkg_Participant Chain_Sim Reactors
begin

text \<open>
  The driver of a key-generation ceremony, the first half of \<open>cmd_escrow_demo\<close> in
  \<open>sapphire-cli/src/main.rs\<close>: create the participants, announce them on a simulated chain, and let
  every participant react to every block until the chain has a group or twenty blocks have passed.
  Printing is left out. The conversion of a number into an identifier is a parameter.
\<close>

section \<open>Setting up\<close>

fun make_participants ::
  "(u16 \<Rightarrow> 'i option) \<Rightarrow> ('sk, 'pk, 'box, 'g, 'o) cbox_crate \<Rightarrow> 'g \<Rightarrow> u16 list \<Rightarrow>
   (('i, 'sk, 's1, 's2, 'kp, 'pkp) dkg_participant list \<times> 'g, 'e) result" where
  "make_participants id_of cb rng [] = Ok ([], rng)"
| "make_participants id_of cb rng (k # ks) =
     result_bind (expect (id_of k)) (\<lambda>ident.
       let (p, rng') = participant_new cb ident rng in
       result_bind (make_participants id_of cb rng' ks) (\<lambda>(ps, rng''). Ok (p # ps, rng'')))"

text \<open>\<open>1..=total\<close>\<close>

definition one_to :: "u16 \<Rightarrow> u16 list" where
  "one_to n = map of_nat [1..<Suc (unat n)]"

definition announce ::
  "mpc_params \<Rightarrow> ('i::linorder, 'sk, 's1, 's2, 'kp, 'pkp) dkg_participant list \<Rightarrow>
   ('i, 'pkp, 'p1, 'cm, 'rz, 'sh) tx" where
  "announce params ps = DkgBegin params (bt_collect (map (\<lambda>p. (d_identifier p, enc_public p)) ps))"

section \<open>The loop\<close>

definition submit_all ::
  "('i::linorder, 'pkp, 'p1, 'cm, 'rz, 'sp, 'sh, 'sg) chain_sim \<Rightarrow> ('i, 'pkp, 'p1, 'cm, 'rz, 'sh) tx list \<Rightarrow>
   ('i, 'pkp, 'p1, 'cm, 'rz, 'sp, 'sh, 'sg) chain_sim" where
  "submit_all sim ts = fold (\<lambda>t s. submit s t) ts sim"

fun participants_react ::
  "('i::linorder, 's1, 'p1, 's2, 'p2, 'kp, 'pkp, 'g) frost_dkg \<Rightarrow> ('sk, 'pk, 'box, 'g, 'o) cbox_crate \<Rightarrow>
   ('i, 'pkp, 'p1, 'cm, 'rz, 'sp, 'sh, 'sg) chain_sim \<Rightarrow> 'g \<Rightarrow> 'o \<Rightarrow>
   ('i, 'sk, 's1, 's2, 'kp, 'pkp) dkg_participant list \<Rightarrow>
   (unit, dkg_error) result \<times> ('i, 'pkp, 'p1, 'cm, 'rz, 'sp, 'sh, 'sg) chain_sim \<times>
   ('i, 'sk, 's1, 's2, 'kp, 'pkp) dkg_participant list \<times> 'g \<times> 'o" where
  "participants_react D cb sim rng os [] = (Ok (), sim, [], rng, os)"
| "participants_react D cb sim rng os (p # ps) =
     (case dkg_react D cb p (sim_state sim) rng os of
        (Ok out, p', rng', os') \<Rightarrow>
          (case participants_react D cb (submit_all sim out) rng' os' ps of
             (r, sim', ps', rng'', os'') \<Rightarrow> (r, sim', p' # ps', rng'', os''))
      | (Err e, p', rng', os') \<Rightarrow> (Err e, sim, p' # ps, rng', os')
      | (Panic, p', rng', os') \<Rightarrow> (Panic, sim, p' # ps, rng', os'))"

datatype drive_error = NotConverged | ReactFailed dkg_error

fun dkg_loop ::
  "('i::linorder, 'pkp, 'vk, 'vs, 'cm, 'rz, 'rp, 'sp, 'sh, 'sg) frost \<Rightarrow>
   ('i, 's1, 'p1, 's2, 'p2, 'kp, 'pkp, 'g) frost_dkg \<Rightarrow> ('sk, 'pk, 'box, 'g, 'o) cbox_crate \<Rightarrow> nat \<Rightarrow>
   ('i, 'pkp, 'p1, 'cm, 'rz, 'sp, 'sh, 'sg) chain_sim \<Rightarrow> 'g \<Rightarrow> 'o \<Rightarrow>
   ('i, 'sk, 's1, 's2, 'kp, 'pkp) dkg_participant list \<Rightarrow>
   (('i, 'pkp, 'p1, 'cm, 'rz, 'sp, 'sh, 'sg) chain_sim \<times>
    ('i, 'sk, 's1, 's2, 'kp, 'pkp) dkg_participant list \<times> 'g \<times> 'o, drive_error) result" where
  "dkg_loop F D cb 0 sim rng os ps =
     (if group (sim_state sim) \<noteq> None then Ok (sim, ps, rng, os) else Err NotConverged)"
| "dkg_loop F D cb (Suc n) sim rng os ps =
     (if group (sim_state sim) \<noteq> None then Ok (sim, ps, rng, os)
      else
        case participants_react D cb sim rng os ps of
          (Ok _, sim', ps', rng', os') \<Rightarrow>
            (case commit_block F sim' of
               Ok (sim'', results) \<Rightarrow> dkg_loop F D cb n sim'' rng' os' ps'
             | Err _ \<Rightarrow> Panic
             | Panic \<Rightarrow> Panic)
        | (Err e, _) \<Rightarrow> Err (ReactFailed e)
        | (Panic, _) \<Rightarrow> Panic)"

text \<open>The setup and the loop together: at most twenty blocks.\<close>

definition run_dkg ::
  "('i::linorder, 'pkp, 'vk, 'vs, 'cm, 'rz, 'rp, 'sp, 'sh, 'sg) frost \<Rightarrow>
   ('i, 's1, 'p1, 's2, 'p2, 'kp, 'pkp, 'g) frost_dkg \<Rightarrow> ('sk, 'pk, 'box, 'g, 'o) cbox_crate \<Rightarrow>
   mpc_params \<Rightarrow> 'g \<Rightarrow> 'o \<Rightarrow> ('i, 'sk, 's1, 's2, 'kp, 'pkp) dkg_participant list \<Rightarrow>
   (('i, 'pkp, 'p1, 'cm, 'rz, 'sp, 'sh, 'sg) chain_sim \<times>
    ('i, 'sk, 's1, 's2, 'kp, 'pkp) dkg_participant list \<times> 'g \<times> 'o, drive_error) result" where
  "run_dkg F D cb params rng os ps =
     (case commit_block F (submit sim_new (announce params ps)) of
        Ok (sim, results) \<Rightarrow> dkg_loop F D cb 20 sim rng os ps
      | Err _ \<Rightarrow> Panic
      | Panic \<Rightarrow> Panic)"

lemma submit_all_simps [simp]:
  "submit_all sim ts = sim\<lparr>mempool := mempool sim @ ts\<rparr>"
proof -
  have "fold (\<lambda>t s. submit s t) ts sim = sim\<lparr>mempool := mempool sim @ ts\<rparr>" for sim :: "('a, 'b, 'c, 'd, 'e, 'f, 'g, 'h) chain_sim"
    by (induction ts arbitrary: sim) (simp_all add: submit_def)
  then show ?thesis by (simp add: submit_all_def)
qed

text \<open>The participants as reacting parties; the randomness is the pair of the two generators.\<close>

interpretation dkg_parties: reactors "\<lambda>p s r. dkg_react D cb p s (fst r) (snd r)" sim_state submit_all
  "\<lambda>sim r ps. participants_react D cb sim (fst r) (snd r) ps" for D cb
  by unfold_locales (auto split: prod.splits)

lemma participants_react_family:
  assumes "\<And>i rng os. i \<in> set ids \<Longrightarrow>
      \<exists>out p' rng' os'. dkg_react D cb (P i) (sim_state sim) rng os = (Ok out, p', rng', os') \<and> R i out p'"
    and "distinct ids"
  shows "\<exists>out P' rng' os'. participants_react D cb sim rng os (map P ids) =
      (Ok (), sim\<lparr>mempool := mempool sim @ concat (map out ids)\<rparr>, map P' ids, rng', os') \<and>
    (\<forall>i \<in> set ids. R i (out i) (P' i))"
  using dkg_parties.pass_family [of ids D cb P sim R "(rng, os)"] assms by fastforce

end
