(* ===== verification/Dkg_Honest.thy ===== *)
theory Dkg_Honest
  imports Dkg_Driver
begin

text \<open>
  A ceremony of honest participants. Every participant reacts to the chain state of a block, the
  transactions are applied, and after three such blocks the chain has promoted a group and every
  participant holds its key package. What is relied on of FROST, of the JSON codec and of the
  authenticated cipher is stated as laws: the honest run of the key-generation functions succeeds and
  agrees.
\<close>

section \<open>Tables\<close>

definition tabulate :: "('k::linorder \<Rightarrow> 'v) \<Rightarrow> 'k set \<Rightarrow> ('k, 'v) btree_map" where
  "tabulate f A = insert_all f (sorted_list_of_set A) bt_new"

lemma bt_get_tabulate [simp]: "finite A \<Longrightarrow> bt_get (tabulate f A) = (\<lambda>k. if k \<in> A then Some (f k) else None)"
  by (auto simp: tabulate_def bt_get_insert_all fun_eq_iff)

lemma tabulate_eqI: "finite A \<Longrightarrow> (\<And>k. bt_get m k = (if k \<in> A then Some (f k) else None)) \<Longrightarrow> m = tabulate f A"
  by (rule bt_map_eqI) simp

lemma insert_all_tabulate: "insert_all f ks bt_new = tabulate f (set ks)"
  by (rule tabulate_eqI) (simp_all add: bt_get_insert_all)

lemma tabulate_cong: "(\<And>k. k \<in> A \<Longrightarrow> f k = g k) \<Longrightarrow> finite A \<Longrightarrow> tabulate f A = tabulate g A"
  by (rule tabulate_eqI) auto

lemma map_of_filter_neq:
  "map_of (filter (\<lambda>(k, _). k \<noteq> i) xs) = (\<lambda>k. if k = i then None else map_of xs k)"
  by (induction xs) auto

lemma others_r1_get: "bt_get (others_r1 c i) = (\<lambda>k. if k = i then None else bt_get (round1 c) k)"
proof -
  have d: "distinct (map fst (filter (\<lambda>(k, _). k \<noteq> i) (bt_iter (round1 c))))"
    by (rule distinct_map_filter) simp
  show ?thesis by (simp only: others_r1_def bt_get_collect_distinct [OF d] map_of_filter_neq map_of_bt_iter)
qed

lemma others_r1_tabulate:
  "finite I \<Longrightarrow> round1 c = tabulate p1 I \<Longrightarrow> others_r1 c i = tabulate p1 (I - {i})"
  by (rule tabulate_eqI) (auto simp: others_r1_get)

section \<open>What the libraries document\<close>

definition honest_part1 ::
  "('i::linorder, 's1, 'p1, 's2, 'p2, 'kp, 'pkp, 'g) frost_dkg \<Rightarrow> mpc_params \<Rightarrow> 'i \<Rightarrow> 's1 \<Rightarrow> 'p1 \<Rightarrow> bool" where
  "honest_part1 D params i s1 p1 \<longleftrightarrow>
     (\<exists>rng rng'. part1 D i (total params) (threshold params) rng = (Inr (s1, p1), rng'))"

text \<open>
  The three parts of FROST's key generation for the participants \<open>I\<close>: part one succeeds for every
  generator; part two, given the packages of the others, succeeds and addresses one package to each
  of them; part three, given what the others sent, succeeds, and all participants compute public key
  packages with the same verifying key and verifying shares.
\<close>

definition dkg_laws ::
  "('i::linorder, 'pkp, 'vk, 'vs, 'cm, 'rz, 'rp, 'sp, 'sh, 'sg) frost \<Rightarrow>
   ('i, 's1, 'p1, 's2, 'p2, 'kp, 'pkp, 'g) frost_dkg \<Rightarrow> mpc_params \<Rightarrow> 'i set \<Rightarrow> bool" where
  "dkg_laws F D params I \<longleftrightarrow>
     (\<forall>i \<in> I. \<forall>rng. \<exists>s1 p1 rng'. part1 D i (total params) (threshold params) rng = (Inr (s1, p1), rng')) \<and>
     (\<forall>s1 p1. (\<forall>i \<in> I. honest_part1 D params i (s1 i) (p1 i)) \<longrightarrow>
        (\<forall>i \<in> I. \<exists>s2 sent. part2 D (s1 i) (tabulate p1 (I - {i})) = Inr (s2, sent) \<and>
           dom (bt_get sent) = I - {i})) \<and>
     (\<forall>s1 p1 s2 sent. (\<forall>i \<in> I. honest_part1 D params i (s1 i) (p1 i) \<and>
           part2 D (s1 i) (tabulate p1 (I - {i})) = Inr (s2 i, tabulate (sent i) (I - {i}))) \<longrightarrow>
        (\<exists>kp pkp. (\<forall>i \<in> I. part3 D (s2 i) (tabulate p1 (I - {i})) (tabulate (\<lambda>j. sent j i) (I - {i})) =
             Inr (kp i, pkp i)) \<and>
           (\<forall>i \<in> I. \<forall>j \<in> I. pkp_agree F (pkp i) (pkp j))))"

lemma dkg_laws_part1:
  "dkg_laws F D params I \<Longrightarrow> i \<in> I \<Longrightarrow>
   \<exists>s1 p1 rng'. part1 D i (total params) (threshold params) rng = (Inr (s1, p1), rng')"
  unfolding dkg_laws_def by (elim conjE) simp

lemma dkg_laws_part2:
  assumes "dkg_laws F D params I" "\<And>i. i \<in> I \<Longrightarrow> honest_part1 D params i (s1 i) (p1 i)" "i \<in> I"
  shows "\<exists>s2 sent. part2 D (s1 i) (tabulate p1 (I - {i})) = Inr (s2, sent) \<and> dom (bt_get sent) = I - {i}"
  using assms(1) unfolding dkg_laws_def
  by (elim conjE) (drule spec [of _ s1], drule spec [of _ p1], use assms(2,3) in simp)

lemma dkg_laws_part3:
  assumes "dkg_laws F D params I" "\<And>i. i \<in> I \<Longrightarrow> honest_part1 D params i (s1 i) (p1 i)"
    and "\<And>i. i \<in> I \<Longrightarrow> part2 D (s1 i) (tabulate p1 (I - {i})) = Inr (s2 i, tabulate (sent i) (I - {i}))"
  shows "\<exists>kp pkp. (\<forall>i \<in> I. part3 D (s2 i) (tabulate p1 (I - {i})) (tabulate (\<lambda>j. sent j i) (I - {i})) =
      Inr (kp i, pkp i)) \<and> (\<forall>i \<in> I. \<forall>j \<in> I. pkp_agree F (pkp i) (pkp j))"
proof -
  from assms(1) have "\<forall>s1 p1 s2 sent. (\<forall>i \<in> I. honest_part1 D params i (s1 i) (p1 i) \<and>
           part2 D (s1 i) (tabulate p1 (I - {i})) = Inr (s2 i, tabulate (sent i) (I - {i}))) \<longrightarrow>
        (\<exists>kp pkp. (\<forall>i \<in> I. part3 D (s2 i) (tabulate p1 (I - {i})) (tabulate (\<lambda>j. sent j i) (I - {i})) =
             Inr (kp i, pkp i)) \<and> (\<forall>i \<in> I. \<forall>j \<in> I. pkp_agree F (pkp i) (pkp j)))"
    unfolding dkg_laws_def by (elim conjE)
  from this [rule_format, of s1 p1 s2 sent] assms(2,3) show ?thesis by simp
qed

text \<open>The key packages \<open>kp\<close> and public key packages \<open>pkp\<close> of an honest run among \<open>I\<close>.\<close>

definition honest_keys ::
  "('i::linorder, 's1, 'p1, 's2, 'p2, 'kp, 'pkp, 'g) frost_dkg \<Rightarrow> mpc_params \<Rightarrow> 'i set \<Rightarrow>
   ('i \<Rightarrow> 'kp) \<Rightarrow> ('i \<Rightarrow> 'pkp) \<Rightarrow> bool" where
  "honest_keys D params I kp pkp \<longleftrightarrow>
     (\<exists>s1 p1 s2 sent. \<forall>i \<in> I. honest_part1 D params i (s1 i) (p1 i) \<and>
        part2 D (s1 i) (tabulate p1 (I - {i})) = Inr (s2 i, tabulate (sent i) (I - {i})) \<and>
        part3 D (s2 i) (tabulate p1 (I - {i})) (tabulate (\<lambda>j. sent j i) (I - {i})) = Inr (kp i, pkp i))"

definition json_laws :: "('i, 's1, 'p1, 's2, 'p2, 'kp, 'pkp, 'g) frost_dkg \<Rightarrow> bool" where
  "json_laws D \<longleftrightarrow> (\<forall>pkg. \<exists>bs. p2_to_vec D pkg = Inr bs \<and> p2_from_slice D bs = Inr pkg)"

section \<open>One participant, round by round\<close>

lemma react_round1:
  assumes "group s = None" "ceremony s = Some c" "bt_get (c_validators c) (d_identifier p) \<noteq> None"
    and "\<not> submitted_r1 p" "bt_get (round1 c) (d_identifier p) = None"
    and "part1 D (d_identifier p) (total (c_params c)) (threshold (c_params c)) rng = (Inr (s1, p1), rng')"
  shows "dkg_react D cb p s rng os =
    (Ok [DkgRound1 (d_identifier p) p1], p\<lparr>secret_r1 := Some s1, submitted_r1 := True\<rparr>, rng', os)"
  using assms by (simp add: dkg_react_def dkg_round1_def bt_contains_key_def)

text \<open>An envelope that its recipient opens to a given package.\<close>

definition carries ::
  "('i::linorder, 's1, 'p1, 's2, 'p2, 'kp, 'pkp, 'g) frost_dkg \<Rightarrow> ('sk, 'pk, 'box, 'g, 'o) cbox_crate \<Rightarrow>
   'sk \<Rightarrow> sealed \<Rightarrow> 'p2 \<Rightarrow> bool" where
  "carries D cb sk env pkg \<longleftrightarrow> (\<exists>bs. open_envelope cb sk env = Ok bs \<and> p2_from_slice D bs = Inr pkg)"

lemma seal_carries:
  assumes "cbox_laws cb" "json_laws D"
  shows "\<exists>bs env rng' os'. p2_to_vec D pkg = Inr bs \<and>
    seal cb rng os (enc_from_public cb (sk_public cb sk)) bs =
      (Ok (env, rng', os') :: (_, dkg_error) result) \<and> carries D cb sk env pkg"
proof -
  from assms(2) obtain bs where bs: "p2_to_vec D pkg = Inr bs" "p2_from_slice D bs = Inr pkg"
    unfolding json_laws_def by blast
  from seal_opens [OF assms(1)] obtain env rng' os' where
    "seal cb rng os (enc_from_public cb (sk_public cb sk)) bs = (Ok (env, rng', os') :: (_, dkg_error) result)"
    "open_envelope cb sk env = Ok bs" by metis
  with bs show ?thesis unfolding carries_def by blast
qed

lemma seal_all_honest:
  assumes laws: "cbox_laws cb" "json_laws D"
    and "\<And>j pkg. (j, pkg) \<in> set xs \<Longrightarrow> bt_get V j = Some (enc_from_public cb (sk_public cb (sk j)))"
    and "distinct (map fst xs)"
  shows "\<exists>env rng' os'. seal_all D cb i V rng os out xs =
      (Ok (out @ map (\<lambda>(j, _). DkgRound2 i j (env j)) xs), rng', os') \<and>
    (\<forall>(j, pkg) \<in> set xs. carries D cb (sk j) (env j) pkg)"
  using assms(3,4)
proof (induction xs arbitrary: rng os out)
  case (Cons x xs)
  obtain j pkg where x: "x = (j, pkg)" by (cases x)
  from seal_carries [OF laws, of pkg rng os "sk j"] obtain bs e rng1 os1 where
    one: "p2_to_vec D pkg = Inr bs"
      "seal cb rng os (enc_from_public cb (sk_public cb (sk j))) bs = (Ok (e, rng1, os1) :: (_, dkg_error) result)"
      "carries D cb (sk j) e pkg" by blast
  have V: "bt_get V j = Some (enc_from_public cb (sk_public cb (sk j)))" using Cons.prems(1) x by auto
  from Cons.IH [of rng1 os1 "out @ [DkgRound2 i j e]"] Cons.prems obtain env rng' os' where
    rest: "seal_all D cb i V rng1 os1 (out @ [DkgRound2 i j e]) xs =
      (Ok ((out @ [DkgRound2 i j e]) @ map (\<lambda>(j, _). DkgRound2 i j (env j)) xs), rng', os')"
      "\<forall>(j, pkg) \<in> set xs. carries D cb (sk j) (env j) pkg" by force
  have j: "k \<noteq> j" if "(k, q) \<in> set xs" for k q using Cons.prems(2) x that by force
  have same: "map (\<lambda>(k, _). DkgRound2 i k (if k = j then e else env k)) xs = map (\<lambda>(k, _). DkgRound2 i k (env k)) xs"
    by (rule map_cong) (use j in auto)
  show ?case
    by (intro exI [of _ "env(j := e)"] exI [of _ rng'] exI [of _ os'])
      (use one rest V x j in \<open>auto simp: same\<close>)
qed simp

lemma map_fst_bt_keys: "map (\<lambda>(j, _). f j) (bt_iter m) = map f (bt_keys m)"
  by (simp add: bt_keys_def comp_def split_def)

lemma react_round2:
  fixes s :: "('i::linorder, 'pkp, 'p1, 'cm, 'rz, 'sp, 'sh, 'sg) state"
  assumes laws: "cbox_laws cb" "json_laws D"
    and "group s = None" "ceremony s = Some c" "bt_get (c_validators c) (d_identifier p) \<noteq> None"
    and "submitted_r1 p" "r1_complete c" "\<not> submitted_r2 p" "secret_r1 p = Some s1"
    and "part2 D s1 (others_r1 c (d_identifier p)) = Inr (s2, sent)"
    and keys: "\<And>j. bt_get sent j \<noteq> None \<Longrightarrow> bt_get (c_validators c) j = Some (enc_from_public cb (sk_public cb (sk j)))"
  shows "\<exists>env rng' os'. dkg_react D cb p s rng os =
      (Ok (map (\<lambda>j. DkgRound2 (d_identifier p) j (env j)) (bt_keys sent)),
       p\<lparr>secret_r1 := None, secret_r2 := Some s2, submitted_r2 := True\<rparr>, rng', os') \<and>
    (\<forall>j pkg. bt_get sent j = Some pkg \<longrightarrow> carries D cb (sk j) (env j) pkg)"
proof -
  have pks: "bt_get (c_validators c) j = Some (enc_from_public cb (sk_public cb (sk j)))"
    if "(j, pkg) \<in> set (bt_iter sent)" for j pkg
    using that keys by (simp add: in_set_bt_iter)
  have "\<exists>env rng' os'. seal_all D cb (d_identifier p) (c_validators c) rng os [] (bt_iter sent) =
      (Ok ([] @ map (\<lambda>(j, _). DkgRound2 (d_identifier p) j (env j) :: ('i, 'pkp, 'p1, 'cm, 'rz, 'sh) tx)
         (bt_iter sent)), rng', os') \<and>
    (\<forall>(j, pkg) \<in> set (bt_iter sent). carries D cb (sk j) (env j) pkg)"
    by (rule seal_all_honest [OF laws]) (use pks in auto)
  then obtain env rng' os' where
    sealed: "seal_all D cb (d_identifier p) (c_validators c) rng os [] (bt_iter sent) =
      (Ok (map (\<lambda>j. DkgRound2 (d_identifier p) j (env j) :: ('i, 'pkp, 'p1, 'cm, 'rz, 'sh) tx)
         (bt_keys sent)), rng', os')"
    and "\<forall>(j, pkg) \<in> set (bt_iter sent). carries D cb (sk j) (env j) pkg"
    by (auto simp: map_fst_bt_keys)
  then have "\<forall>j pkg. bt_get sent j = Some pkg \<longrightarrow> carries D cb (sk j) (env j) pkg"
    by (auto simp: in_set_bt_iter)
  then show ?thesis using assms(3-10) sealed
    by (intro exI [of _ env] exI [of _ rng'] exI [of _ os'])
      (simp add: dkg_react_def dkg_round2_def bt_contains_key_def)
qed

lemma open_all_honest:
  assumes "\<And>j e. ((j, i), e) \<in> set xs \<Longrightarrow> carries D cb sk e (pkg j)"
  shows "\<exists>m. open_all D cb sk i acc xs = Ok m \<and>
    bt_get m = (\<lambda>j. if (j, i) \<in> fst ` set xs then Some (pkg j) else bt_get acc j)"
  using assms
proof (induction xs arbitrary: acc)
  case (Cons x xs)
  obtain j k e where x: "x = ((j, k), e)" by (metis prod.collapse)
  have IH: "\<exists>m. open_all D cb sk i acc xs = Ok m \<and>
      bt_get m = (\<lambda>l. if (l, i) \<in> fst ` set xs then Some (pkg l) else bt_get acc l)" for acc
    by (rule Cons.IH) (use Cons.prems in auto)
  show ?case
  proof (cases "k = i")
    case True
    with Cons.prems x obtain bs where "open_envelope cb sk e = Ok bs" "p2_from_slice D bs = Inr (pkg j)"
      unfolding carries_def by force
    then have "open_all D cb sk i acc (x # xs) = open_all D cb sk i (bt_insert j (pkg j) acc) xs"
      using x True by simp
    moreover from IH [of "bt_insert j (pkg j) acc"] obtain m where "open_all D cb sk i (bt_insert j (pkg j) acc) xs = Ok m"
      "bt_get m = (\<lambda>l. if (l, i) \<in> fst ` set xs then Some (pkg l) else bt_get (bt_insert j (pkg j) acc) l)"
      by blast
    ultimately show ?thesis using x True by (auto simp: fun_eq_iff)
  next
    case False
    from IH [of acc] obtain m where "open_all D cb sk i acc xs = Ok m"
      "bt_get m = (\<lambda>l. if (l, i) \<in> fst ` set xs then Some (pkg l) else bt_get acc l)"
      by blast
    then show ?thesis using x False by (auto simp: fun_eq_iff)
  qed
qed simp

lemma react_finalize:
  assumes "group s = None" "ceremony s = Some c" "bt_get (c_validators c) (d_identifier p) \<noteq> None"
    and "submitted_r1 p" "r1_complete c" "submitted_r2 p" "r2_complete c = (Ok True :: (bool, dkg_error) result)"
    and "\<not> submitted_finalize p" "bt_get (finalize c) (d_identifier p) = None" "secret_r2 p = Some s2"
    and carries: "\<And>j e. bt_get (round2 c) (j, d_identifier p) = Some e \<Longrightarrow> carries D cb (enc_secret p) e (pkg j)"
    and dom: "finite J" "\<And>j. bt_get (round2 c) (j, d_identifier p) \<noteq> None \<longleftrightarrow> j \<in> J"
    and "part3 D s2 (others_r1 c (d_identifier p)) (tabulate pkg J) = Inr (kp, pkp)"
  shows "dkg_react D cb p s rng os = (Ok [DkgFinalize (d_identifier p) pkp],
    p\<lparr>secret_r2 := None, d_key_package := Some kp, d_public_key_package := Some pkp,
      submitted_finalize := True\<rparr>, rng, os)"
proof -
  let ?i = "d_identifier p" and ?xs = "bt_iter (round2 c)"
  from open_all_honest [of ?i ?xs D cb "enc_secret p" pkg bt_new] carries obtain m where
    m: "open_all D cb (enc_secret p) ?i bt_new ?xs = Ok m"
      "bt_get m = (\<lambda>j. if (j, ?i) \<in> fst ` set ?xs then Some (pkg j) else bt_get bt_new j)"
    by (auto simp: in_set_bt_iter)
  have "(j, ?i) \<in> fst ` set ?xs \<longleftrightarrow> j \<in> J" for j
    using dom(2) [of j] by (simp add: domIff flip: dom_map_of_conv_image_fst)
  with m(2) dom(1) have "m = tabulate pkg J" by (intro tabulate_eqI) auto
  with assms m(1) show ?thesis
    by (simp add: dkg_react_def dkg_finalize_def bt_contains_key_def)
qed

section \<open>All participants, block by block\<close>

definition honest_setup ::
  "('sk, 'pk, 'box, 'g, 'o) cbox_crate \<Rightarrow> 'i list \<Rightarrow> ('i, enc_public_key) btree_map \<Rightarrow>
   ('i::linorder \<Rightarrow> ('i, 'sk, 's1, 's2, 'kp, 'pkp) dkg_participant) \<Rightarrow> bool" where
  "honest_setup cb ids V P \<longleftrightarrow> distinct ids \<and> dom (bt_get V) = set ids \<and>
     (\<forall>i \<in> set ids. d_identifier (P i) = i \<and>
        bt_get V i = Some (enc_from_public cb (sk_public cb (enc_secret (P i)))) \<and>
        \<not> submitted_r1 (P i) \<and> \<not> submitted_r2 (P i) \<and> \<not> submitted_finalize (P i))"

text \<open>The ceremony after the announcement, and the participants after each block.\<close>

definition ceremony0 :: "mpc_params \<Rightarrow> ('i, enc_public_key) btree_map \<Rightarrow> ('i::linorder, 'pkp, 'p1) dkg_ceremony" where
  "ceremony0 params V = \<lparr>c_params = params, c_validators = V, round1 = bt_new, round2 = bt_new, finalize = bt_new\<rparr>"

definition after_r1 ::
  "('i, 'sk, 's1, 's2, 'kp, 'pkp) dkg_participant \<Rightarrow> 's1 \<Rightarrow> ('i, 'sk, 's1, 's2, 'kp, 'pkp) dkg_participant" where
  "after_r1 p s1 = p\<lparr>secret_r1 := Some s1, submitted_r1 := True\<rparr>"

definition after_r2 ::
  "('i, 'sk, 's1, 's2, 'kp, 'pkp) dkg_participant \<Rightarrow> 's2 \<Rightarrow> ('i, 'sk, 's1, 's2, 'kp, 'pkp) dkg_participant" where
  "after_r2 p s2 = p\<lparr>secret_r1 := None, secret_r2 := Some s2, submitted_r1 := True, submitted_r2 := True\<rparr>"

definition after_r3 ::
  "('i, 'sk, 's1, 's2, 'kp, 'pkp) dkg_participant \<Rightarrow> 'kp \<Rightarrow> 'pkp \<Rightarrow>
   ('i, 'sk, 's1, 's2, 'kp, 'pkp) dkg_participant" where
  "after_r3 p kp pkp = p\<lparr>secret_r1 := None, secret_r2 := None, submitted_r1 := True, submitted_r2 := True,
     submitted_finalize := True, d_key_package := Some kp, d_public_key_package := Some pkp\<rparr>"

lemma block1:
  fixes sim :: "('i::linorder, 'pkp, 'p1, 'cm, 'rz, 'sp, 'sh, 'sg) chain_sim"
  assumes laws: "dkg_laws F D params (set ids)" and honest: "honest_setup cb ids V P"
    and sim: "sim_state sim = with_ceremony s (ceremony0 params V)" "mempool sim = []" "group s = None"
  shows "\<exists>s1 p1 rng' os'. participants_react D cb sim rng os (map P ids) =
      (Ok (), sim\<lparr>mempool := map (\<lambda>i. DkgRound1 i (p1 i)) ids\<rparr>,
       map (\<lambda>i. after_r1 (P i) (s1 i)) ids, rng', os') \<and>
    (\<forall>i \<in> set ids. honest_part1 D params i (s1 i) (p1 i)) \<and>
    run_all (apply_tx F) (sim_state sim) (map (\<lambda>i. DkgRound1 i (p1 i)) ids) =
      Ok (with_ceremony s (ceremony0 params V\<lparr>round1 := tabulate p1 (set ids)\<rparr>))"
proof -
  let ?c = "ceremony0 params V :: ('i, 'pkp, 'p1) dkg_ceremony"
  define R where "R i (out :: ('i, 'pkp, 'p1, 'cm, 'rz, 'sh) tx list) p' \<longleftrightarrow> (\<exists>s1 p1. honest_part1 D params i s1 p1 \<and> out = [DkgRound1 i p1] \<and>
      p' = after_r1 (P i) s1)" for i out p'
  have each: "\<exists>out p' rng' os'. dkg_react D cb (P i) (sim_state sim) rng os = (Ok out, p', rng', os') \<and> R i out p'"
    if i: "i \<in> set ids" for i rng os
  proof -
    from dkg_laws_part1 [OF laws i, of rng] obtain s1 p1 rng' where
      part1: "part1 D i (total params) (threshold params) rng = (Inr (s1, p1), rng')"
      by blast
    have "dkg_react D cb (P i) (sim_state sim) rng os =
        (Ok [DkgRound1 (d_identifier (P i)) p1], (P i)\<lparr>secret_r1 := Some s1, submitted_r1 := True\<rparr>, rng', os)"
      by (rule react_round1 [where c = ?c]) (use sim honest i part1 in \<open>auto simp: honest_setup_def ceremony0_def\<close>)
    moreover have "d_identifier (P i) = i" using honest i by (simp add: honest_setup_def)
    ultimately show ?thesis using part1 unfolding R_def honest_part1_def after_r1_def by metis
  qed
  have "\<exists>out P' rng' os'. participants_react D cb sim rng os (map P ids) =
      (Ok (), sim\<lparr>mempool := mempool sim @ concat (map out ids)\<rparr>, map P' ids, rng', os') \<and>
    (\<forall>i \<in> set ids. R i (out i) (P' i))"
    by (rule participants_react_family [OF each]) (use honest in \<open>simp_all add: honest_setup_def\<close>)
  then obtain out P' rng' os' where
    react: "participants_react D cb sim rng os (map P ids) =
      (Ok (), sim\<lparr>mempool := mempool sim @ concat (map out ids)\<rparr>, map P' ids, rng', os')"
    and R: "\<forall>i \<in> set ids. R i (out i) (P' i)" by (elim exE conjE)
  from R obtain s1 p1 where sp: "\<forall>i \<in> set ids. honest_part1 D params i (s1 i) (p1 i) \<and>
      out i = [DkgRound1 i (p1 i)] \<and> P' i = after_r1 (P i) (s1 i)"
    unfolding R_def by metis
  then have "concat (map out ids) = map (\<lambda>i. DkgRound1 i (p1 i)) ids" "map P' ids = map (\<lambda>i. after_r1 (P i) (s1 i)) ids"
    by (simp_all add: concat_map_singleton cong: map_cong)
  moreover have "run_all (apply_tx F) (with_ceremony s ?c) (map (\<lambda>i. DkgRound1 i (p1 i)) ids) =
      Ok (with_ceremony s (?c\<lparr>round1 := insert_all p1 ids (round1 ?c)\<rparr>))"
    by (rule round1_run) (use honest in \<open>auto simp: honest_setup_def ceremony0_def\<close>)
  ultimately show ?thesis using react sim sp
    by (auto simp: ceremony0_def insert_all_tabulate)
qed

text \<open>The ordered pairs in the order in which the participants send their envelopes.\<close>

definition pairs :: "'i::linorder list \<Rightarrow> ('i \<times> 'i) list" where
  "pairs ids = concat (map (\<lambda>i. map (Pair i) (sorted_list_of_set (set ids - {i}))) ids)"

lemma set_pairs: "set (pairs ids) = {(i, j). i \<in> set ids \<and> j \<in> set ids \<and> i \<noteq> j}"
  by (auto simp: pairs_def)

lemma distinct_concat_Pair:
  "distinct is \<Longrightarrow> (\<And>i. distinct (f i)) \<Longrightarrow> distinct (concat (map (\<lambda>i. map (Pair i) (f i)) is))"
  by (induction "is") (auto simp: distinct_map inj_on_def)

lemma distinct_pairs: "distinct ids \<Longrightarrow> distinct (pairs ids)"
  unfolding pairs_def by (rule distinct_concat_Pair) simp_all

lemma map_tabulate_dom:
  assumes "dom (bt_get m) = A"
  shows "m = tabulate (\<lambda>k. the (bt_get m k)) A" "bt_keys m = sorted_list_of_set A"
proof -
  have "finite A" using assms finite_dom_bt_get by metis
  then show "m = tabulate (\<lambda>k. the (bt_get m k)) A" using assms by (intro tabulate_eqI) (auto simp: domIff)
qed (simp add: bt_keys_def keys_bt_iter assms)

text \<open>What a participant does in round two, given the packages of round one.\<close>

definition sends_round2 ::
  "('i::linorder, 's1, 'p1, 's2, 'p2, 'kp, 'pkp, 'g) frost_dkg \<Rightarrow> ('sk, 'pk, 'box, 'g, 'o) cbox_crate \<Rightarrow> 'i set \<Rightarrow>
   ('i \<Rightarrow> ('i, 'sk, 's1, 's2, 'kp, 'pkp) dkg_participant) \<Rightarrow> ('i \<Rightarrow> 's1) \<Rightarrow> ('i \<Rightarrow> 'p1) \<Rightarrow> 'i \<Rightarrow>
   ('i, 'pkp, 'p1, 'cm, 'rz, 'sh) tx list \<Rightarrow> ('i, 'sk, 's1, 's2, 'kp, 'pkp) dkg_participant \<Rightarrow>
   's2 \<Rightarrow> ('i \<Rightarrow> 'p2) \<Rightarrow> ('i \<Rightarrow> sealed) \<Rightarrow> bool" where
  "sends_round2 D cb I P s1 p1 i out p' s2 sent env \<longleftrightarrow>
     part2 D (s1 i) (tabulate p1 (I - {i})) = Inr (s2, tabulate sent (I - {i})) \<and>
     out = map (\<lambda>j. DkgRound2 i j (env j)) (sorted_list_of_set (I - {i})) \<and>
     (\<forall>j \<in> I - {i}. carries D cb (enc_secret (P j)) (env j) (sent j)) \<and> p' = after_r2 (P i) s2"

lemma round2_each:
  fixes s :: "('i::linorder, 'pkp, 'p1, 'cm, 'rz, 'sp, 'sh, 'sg) state" and c :: "('i, 'pkp, 'p1) dkg_ceremony"
  assumes laws: "dkg_laws F D params (set ids)" "cbox_laws cb" "json_laws D" and honest: "honest_setup cb ids V P"
    and part1: "\<And>i. i \<in> set ids \<Longrightarrow> honest_part1 D params i (s1 i) (p1 i)"
    and c: "c = ceremony0 params V\<lparr>round1 := tabulate p1 (set ids)\<rparr>" and r1: "r1_complete c"
    and s: "ceremony s = Some c" "group s = None" and i: "i \<in> set ids"
  shows "\<exists>out p' rng' os'. dkg_react D cb (after_r1 (P i) (s1 i)) s rng os = (Ok out, p', rng', os') \<and>
    (\<exists>s2 sent env. sends_round2 D cb (set ids) P s1 p1 i out p' s2 sent env)"
proof -
  let ?I = "set ids" and ?P = "\<lambda>i. after_r1 (P i) (s1 i)"
  have id: "d_identifier (?P i) = i" using honest i by (simp add: after_r1_def honest_setup_def)
  have upd: "(?P i)\<lparr>secret_r1 := None, secret_r2 := Some s2, submitted_r2 := True\<rparr> = after_r2 (P i) s2" for s2
    by (simp add: after_r1_def after_r2_def)
  have others: "others_r1 c i = tabulate p1 (?I - {i})"
    by (rule others_r1_tabulate) (simp_all add: c)
  from dkg_laws_part2 [OF laws(1) part1 i] obtain s2 sent where
    part2: "part2 D (s1 i) (tabulate p1 (?I - {i})) = Inr (s2, sent)" and dom: "dom (bt_get sent) = ?I - {i}"
    by blast
  have "\<exists>env rng' os'. dkg_react D cb (?P i) s rng os =
      (Ok (map (\<lambda>j. DkgRound2 (d_identifier (?P i)) j (env j)) (bt_keys sent)),
       (?P i)\<lparr>secret_r1 := None, secret_r2 := Some s2, submitted_r2 := True\<rparr>, rng', os') \<and>
    (\<forall>j pkg. bt_get sent j = Some pkg \<longrightarrow> carries D cb (enc_secret (P j)) (env j) pkg)"
  proof (rule react_round2 [OF laws(2,3)])
    show "part2 D (s1 i) (others_r1 c (d_identifier (?P i))) = Inr (s2, sent)" using part2 others id by simp
    show "bt_get (c_validators c) j = Some (enc_from_public cb (sk_public cb (enc_secret (P j))))"
      if "bt_get sent j \<noteq> None" for j
      using that dom honest by (auto simp: c ceremony0_def honest_setup_def)
  qed (use s i honest r1 id in \<open>auto simp: after_r1_def c ceremony0_def honest_setup_def\<close>)
  then obtain env rng' os' where react: "dkg_react D cb (?P i) s rng os =
      (Ok (map (\<lambda>j. DkgRound2 i j (env j)) (sorted_list_of_set (?I - {i}))), after_r2 (P i) s2, rng', os')"
    and carry: "\<forall>j pkg. bt_get sent j = Some pkg \<longrightarrow> carries D cb (enc_secret (P j)) (env j) pkg"
    unfolding id upd map_tabulate_dom(2) [OF dom] by (elim exE conjE)
  have carry': "carries D cb (enc_secret (P j)) (env j) (the (bt_get sent j))" if "j \<in> ?I - {i}" for j
    using that carry dom by (metis domD option.sel)
  have "sends_round2 D cb ?I P s1 p1 i (map (\<lambda>j. DkgRound2 i j (env j)) (sorted_list_of_set (?I - {i}))) (after_r2 (P i) s2)
      s2 (\<lambda>k. the (bt_get sent k)) env"
    unfolding sends_round2_def using part2 map_tabulate_dom(1) [OF dom] carry' by simp
  with react show ?thesis by blast
qed

lemma block2:
  fixes sim :: "('i::linorder, 'pkp, 'p1, 'cm, 'rz, 'sp, 'sh, 'sg) chain_sim"
    and c :: "('i, 'pkp, 'p1) dkg_ceremony"
  assumes laws: "dkg_laws F D params (set ids)" "cbox_laws cb" "json_laws D" and honest: "honest_setup cb ids V P"
    and part1: "\<And>i. i \<in> set ids \<Longrightarrow> honest_part1 D params i (s1 i) (p1 i)"
    and c: "c = ceremony0 params V\<lparr>round1 := tabulate p1 (set ids)\<rparr>" "length ids = unat (total params)"
    and sim: "sim_state sim = with_ceremony s c" "mempool sim = []" "group s = None"
  shows "\<exists>s2 sent env rng' os'. participants_react D cb sim rng os (map (\<lambda>i. after_r1 (P i) (s1 i)) ids) =
      (Ok (), sim\<lparr>mempool := map (\<lambda>(i, j). DkgRound2 i j (env (i, j))) (pairs ids)\<rparr>,
       map (\<lambda>i. after_r2 (P i) (s2 i)) ids, rng', os') \<and>
    (\<forall>i \<in> set ids. part2 D (s1 i) (tabulate p1 (set ids - {i})) = Inr (s2 i, tabulate (sent i) (set ids - {i}))) \<and>
    (\<forall>i \<in> set ids. \<forall>j \<in> set ids - {i}. carries D cb (enc_secret (P j)) (env (i, j)) (sent i j)) \<and>
    run_all (apply_tx F) (sim_state sim) (map (\<lambda>(i, j). DkgRound2 i j (env (i, j))) (pairs ids)) =
      Ok (with_ceremony s (c\<lparr>round2 := tabulate env (set (pairs ids))\<rparr>))"
proof -
  let ?I = "set ids" and ?P = "\<lambda>i. after_r1 (P i) (s1 i)"
  define R where "R i (out :: ('i, 'pkp, 'p1, 'cm, 'rz, 'sh) tx list) p' \<longleftrightarrow>
    (\<exists>s2 sent env. sends_round2 D cb ?I P s1 p1 i out p' s2 sent env)" for i out p'
  have len: "bt_len (tabulate p1 ?I) = unat (total params)"
    using honest c(2) by (simp add: bt_len_insert_all honest_setup_def flip: insert_all_tabulate)
  then have r1: "r1_complete c" by (simp add: r1_complete_def ceremony_total_def c ceremony0_def)
  have each: "\<exists>out p' rng' os'. dkg_react D cb (?P i) (sim_state sim) rng os = (Ok out, p', rng', os') \<and> R i out p'"
    if "i \<in> ?I" for i rng os
    unfolding R_def by (rule round2_each [OF laws honest part1 c(1) r1 _ _ that]) (simp_all add: sim)
  have "\<exists>out P' rng' os'. participants_react D cb sim rng os (map ?P ids) =
      (Ok (), sim\<lparr>mempool := mempool sim @ concat (map out ids)\<rparr>, map P' ids, rng', os') \<and>
    (\<forall>i \<in> set ids. R i (out i) (P' i))"
    by (rule participants_react_family [OF each]) (use honest in \<open>simp_all add: honest_setup_def\<close>)
  then obtain out P' rng' os' where
    react: "participants_react D cb sim rng os (map ?P ids) =
      (Ok (), sim\<lparr>mempool := mempool sim @ concat (map out ids)\<rparr>, map P' ids, rng', os')"
    and R: "\<forall>i \<in> set ids. R i (out i) (P' i)" by (elim exE conjE)
  from R obtain s2 sent env where "\<forall>i \<in> ?I. sends_round2 D cb ?I P s1 p1 i (out i) (P' i) (s2 i) (sent i) (env i)"
    unfolding R_def by metis
  then have
    w: "\<forall>i \<in> ?I. part2 D (s1 i) (tabulate p1 (?I - {i})) = Inr (s2 i, tabulate (sent i) (?I - {i})) \<and>
      out i = map (\<lambda>j. DkgRound2 i j (env i j)) (sorted_list_of_set (?I - {i})) \<and>
      (\<forall>j \<in> ?I - {i}. carries D cb (enc_secret (P j)) (env i j) (sent i j)) \<and> P' i = after_r2 (P i) (s2 i)"
    unfolding sends_round2_def .
  have outs: "concat (map out ids) = map (\<lambda>(i, j). DkgRound2 i j (case_prod env (i, j))) (pairs ids)"
    unfolding pairs_def map_concat map_map
    by (rule arg_cong [of _ _ concat], rule map_cong) (use w in auto)
  have ps: "map P' ids = map (\<lambda>i. after_r2 (P i) (s2 i)) ids" using w by simp
  have "run_all (apply_tx F) (with_ceremony s c) (map (\<lambda>(i, j). DkgRound2 i j (case_prod env (i, j))) (pairs ids)) =
      Ok (with_ceremony s (c\<lparr>round2 := insert_all (case_prod env) (pairs ids) (round2 c)\<rparr>))"
    by (rule round2_run [OF r1])
      (use honest in \<open>auto simp: honest_setup_def distinct_pairs set_pairs ordered_pairs_def c(1) ceremony0_def\<close>)
  then have run: "run_all (apply_tx F) (sim_state sim) (map (\<lambda>(i, j). DkgRound2 i j (case_prod env (i, j))) (pairs ids)) =
      Ok (with_ceremony s (c\<lparr>round2 := tabulate (case_prod env) (set (pairs ids))\<rparr>))"
    by (simp add: sim c(1) ceremony0_def insert_all_tabulate)
  show ?thesis
    by (rule exI [of _ s2], rule exI [of _ sent], rule exI [of _ "case_prod env"], rule exI [of _ rng'], rule exI [of _ os'],
        intro conjI ballI) (use react outs ps run sim(2) w in simp_all)
qed

lemma length_pairs: "distinct ids \<Longrightarrow> length (pairs ids) = length ids * (length ids - 1)"
proof -
  assume d: "distinct ids"
  then have "length (pairs ids) = card (set (pairs ids))" by (metis distinct_card distinct_pairs)
  also have "\<dots> = card (set ids) * (card (set ids) - 1)"
    using card_off_diagonal [of "set ids"] by (simp add: set_pairs)
  finally show ?thesis using d by (simp add: distinct_card)
qed

lemma finalize_each:
  fixes s :: "('i::linorder, 'pkp, 'p1, 'cm, 'rz, 'sp, 'sh, 'sg) state" and c :: "('i, 'pkp, 'p1) dkg_ceremony"
  assumes honest: "honest_setup cb ids V P"
    and part3: "\<forall>i \<in> set ids. part3 D (s2 i) (tabulate p1 (set ids - {i})) (tabulate (\<lambda>j. sent j i) (set ids - {i})) = Inr (kp i, pkp i)"
    and carries: "\<And>i j. i \<in> set ids \<Longrightarrow> j \<in> set ids \<Longrightarrow> j \<noteq> i \<Longrightarrow>
      carries D cb (enc_secret (P j)) (env (i, j)) (sent i j)"
    and fields: "c_validators c = V" "round1 c = tabulate p1 (set ids)" "round2 c = tabulate env (set (pairs ids))" "finalize c = bt_new"
    and full: "r1_complete c" and r2: "r2_complete c = (Ok True :: (bool, dkg_error) result)"
    and sim: "ceremony s = Some c" "group s = None" and i: "i \<in> set ids"
  shows "\<exists>out p' rng' os'. dkg_react D cb (after_r2 (P i) (s2 i)) s rng os = (Ok out, p', rng', os') \<and>
      out = [DkgFinalize i (pkp i)] \<and> p' = after_r3 (P i) (kp i) (pkp i)"
proof -
  let ?I = "set ids" and ?P = "\<lambda>i. after_r2 (P i) (s2 i)"
  have get2: "bt_get (round2 c) (j, i) = (if j \<in> ?I \<and> i \<in> ?I \<and> j \<noteq> i then Some (env (j, i)) else None)" for i j
    using bt_get_tabulate [of "set (pairs ids)" env] by (simp add: fields) (simp add: set_pairs)
  have id: "d_identifier (?P i) = i" "enc_secret (?P i) = enc_secret (P i)"
    using honest i by (simp_all add: after_r2_def honest_setup_def)
  have "others_r1 c i = tabulate p1 (?I - {i})" by (rule others_r1_tabulate) (simp_all add: fields)
  then have p3: "part3 D (s2 i) (others_r1 c (d_identifier (?P i))) (tabulate (\<lambda>j. sent j i) (?I - {i})) = Inr (kp i, pkp i)"
    using part3 i id by simp
  have "dkg_react D cb (?P i) s rng os = (Ok [DkgFinalize (d_identifier (?P i)) (pkp i)],
    (?P i)\<lparr>secret_r2 := None, d_key_package := Some (kp i), d_public_key_package := Some (pkp i),
      submitted_finalize := True\<rparr>, rng, os)"
  proof (rule react_finalize [OF _ _ _ _ full _ r2 _ _ _ _ _ _ p3])
    show "carries D cb (enc_secret (?P i)) e (sent j i)"
      if "bt_get (round2 c) (j, d_identifier (?P i)) = Some e" for j e
      using that carries [of j i] by (simp add: get2 id split: if_splits)
    show "bt_get (round2 c) (j, d_identifier (?P i)) \<noteq> None \<longleftrightarrow> j \<in> ?I - {i}" for j
      using i by (auto simp: get2 id)
  qed (use sim i honest id fields in \<open>auto simp: after_r2_def honest_setup_def\<close>)
  then show ?thesis unfolding id by (simp add: after_r2_def after_r3_def)
qed

lemma block3:
  fixes sim :: "('i::linorder, 'pkp, 'p1, 'cm, 'rz, 'sp, 'sh, 'sg) chain_sim"
    and c :: "('i, 'pkp, 'p1) dkg_ceremony"
  assumes laws: "dkg_laws F D params (set ids)" and honest: "honest_setup cb ids V P"
    and part1: "\<And>i. i \<in> set ids \<Longrightarrow> honest_part1 D params i (s1 i) (p1 i)"
    and part2: "\<And>i. i \<in> set ids \<Longrightarrow>
      part2 D (s1 i) (tabulate p1 (set ids - {i})) = Inr (s2 i, tabulate (sent i) (set ids - {i}))"
    and carries: "\<And>i j. i \<in> set ids \<Longrightarrow> j \<in> set ids \<Longrightarrow> j \<noteq> i \<Longrightarrow>
      carries D cb (enc_secret (P j)) (env (i, j)) (sent i j)"
    and c: "c = ceremony0 params V\<lparr>round1 := tabulate p1 (set ids), round2 := tabulate env (set (pairs ids))\<rparr>"
      "length ids = unat (total params)" "0 < unat (total params)"
    and sim: "sim_state sim = with_ceremony s c" "mempool sim = []" "group s = None"
  shows "\<exists>kp pkp rng' os'. participants_react D cb sim rng os (map (\<lambda>i. after_r2 (P i) (s2 i)) ids) =
      (Ok (), sim\<lparr>mempool := map (\<lambda>i. DkgFinalize i (pkp i)) ids\<rparr>,
       map (\<lambda>i. after_r3 (P i) (kp i) (pkp i)) ids, rng', os') \<and>
    honest_keys D params (set ids) kp pkp \<and> (\<forall>i \<in> set ids. \<forall>j \<in> set ids. pkp_agree F (pkp i) (pkp j)) \<and>
    run_all (apply_tx F) (sim_state sim) (map (\<lambda>i. DkgFinalize i (pkp i)) ids) =
      Ok (s\<lparr>ceremony := None, group := Some \<lparr>g_params = params, g_pkp = pkp (Min (set ids)),
        g_validators = bs_collect (bt_keys V)\<rparr>\<rparr>)"
proof -
  let ?I = "set ids" and ?P = "\<lambda>i. after_r2 (P i) (s2 i)"
  from dkg_laws_part3 [OF laws part1 part2] obtain kp pkp where
    part3: "\<forall>i \<in> ?I. part3 D (s2 i) (tabulate p1 (?I - {i})) (tabulate (\<lambda>j. sent j i) (?I - {i})) = Inr (kp i, pkp i)"
    and agree: "\<forall>i \<in> ?I. \<forall>j \<in> ?I. pkp_agree F (pkp i) (pkp j)" by blast
  have d: "distinct ids" "dom (bt_get V) = ?I" using honest by (simp_all add: honest_setup_def)
  have fields: "c_params c = params" "c_validators c = V" "round1 c = tabulate p1 ?I"
    "round2 c = tabulate env (set (pairs ids))" "finalize c = bt_new"
    by (simp_all add: c(1) ceremony0_def)
  have "bt_len (tabulate p1 ?I) = unat (total params)" "bt_len (tabulate env (set (pairs ids))) = length (pairs ids)"
    using d c(2) by (simp_all add: bt_len_insert_all distinct_pairs flip: insert_all_tabulate)
  then have full: "r1_complete c" "ceremony_total c = length ids"
      "bt_len (round2 c) = ceremony_total c * (ceremony_total c - 1)"
    using c(2) length_pairs [OF d(1)] by (simp_all add: r1_complete_def ceremony_total_def fields)
  have r2: "r2_complete c = (Ok True :: (bool, dkg_error) result)"
    using full(2,3) c(2,3) by (simp add: r2_complete_eq)
  have each: "\<exists>out p' rng' os'. dkg_react D cb (?P i) (sim_state sim) rng os = (Ok out, p', rng', os') \<and>
      out = [DkgFinalize i (pkp i)] \<and> p' = after_r3 (P i) (kp i) (pkp i)" if "i \<in> ?I" for i rng os
    by (rule finalize_each [OF honest part3 carries fields(2-5) full(1) r2 _ _ that]) (simp_all add: sim)
  have "\<exists>out P' rng' os'. participants_react D cb sim rng os (map ?P ids) =
      (Ok (), sim\<lparr>mempool := mempool sim @ concat (map out ids)\<rparr>, map P' ids, rng', os') \<and>
    (\<forall>i \<in> set ids. out i = [DkgFinalize i (pkp i)] \<and> P' i = after_r3 (P i) (kp i) (pkp i))"
    by (rule participants_react_family [OF each]) (use d in simp_all)
  then obtain out P' rng' os' where
    react: "participants_react D cb sim rng os (map ?P ids) =
      (Ok (), sim\<lparr>mempool := mempool sim @ concat (map out ids)\<rparr>, map P' ids, rng', os')"
    and R: "\<forall>i \<in> set ids. out i = [DkgFinalize i (pkp i)] \<and> P' i = after_r3 (P i) (kp i) (pkp i)"
    by (elim exE conjE)
  from R have outs: "concat (map out ids) = map (\<lambda>i. DkgFinalize i (pkp i)) ids"
    and ps: "map P' ids = map (\<lambda>i. after_r3 (P i) (kp i) (pkp i)) ids"
    by (simp_all add: concat_map_singleton cong: map_cong)
  have "run_all (apply_tx F) (with_ceremony s c) (map (\<lambda>i. DkgFinalize i (pkp i)) ids) =
    Ok (s\<lparr>ceremony := None, group := Some \<lparr>g_params = c_params c, g_pkp = pkp (Min ?I),
           g_validators = bs_collect (bt_keys (c_validators c))\<rparr>\<rparr>)"
    by (rule finalize_reach_group) (use full d c(2,3) agree in \<open>simp_all add: fields all_agree_def\<close>)
  moreover have "honest_keys D params ?I kp pkp"
    unfolding honest_keys_def using part1 part2 part3
    by (intro exI [of _ s1] exI [of _ p1] exI [of _ s2] exI [of _ sent]) blast
  ultimately show ?thesis using react sim agree outs ps
    by (intro exI [of _ kp] exI [of _ pkp] exI [of _ rng'] exI [of _ os']) (simp add: fields)
qed

section \<open>The whole ceremony\<close>

lemma loop_step:
  assumes "participants_react D cb sim rng os ps = (Ok (), sim\<lparr>mempool := txs\<rparr>, ps', rng', os')"
    and "run_all (apply_tx F) (sim_state sim) txs = Ok s'" "block_height sim \<noteq> - 1" "group (sim_state sim) = None"
  shows "dkg_loop F D cb (Suc n) sim rng os ps =
    dkg_loop F D cb n \<lparr>sim_state = s', mempool = [], block_height = block_height sim + 1, last_block = txs\<rparr> rng' os' ps'"
  using assms commit_block_all [of F "sim\<lparr>mempool := txs\<rparr>" s'] by simp

lemma honest_loop:
  fixes sim :: "('i::linorder, 'pkp, 'p1, 'cm, 'rz, 'sp, 'sh, 'sg) chain_sim"
  assumes laws: "dkg_laws F D params (set ids)" "cbox_laws cb" "json_laws D" and honest: "honest_setup cb ids V P"
    and total: "length ids = unat (total params)" "0 < unat (total params)"
    and sim: "sim_state sim = with_ceremony s (ceremony0 params V)" "mempool sim = []" "block_height sim = 1"
      "group s = None"
  shows "\<exists>sim' kp pkp rng' os'. dkg_loop F D cb (Suc (Suc (Suc n))) sim rng os (map P ids) =
      Ok (sim', map (\<lambda>i. after_r3 (P i) (kp i) (pkp i)) ids, rng', os') \<and>
    honest_keys D params (set ids) kp pkp \<and> (\<forall>i \<in> set ids. \<forall>j \<in> set ids. pkp_agree F (pkp i) (pkp j)) \<and> block_height sim' = 4 \<and> mempool sim' = [] \<and>
    sim_state sim' = s\<lparr>ceremony := None, group := Some \<lparr>g_params = params, g_pkp = pkp (Min (set ids)),
        g_validators = bs_collect (bt_keys V)\<rparr>\<rparr>"
proof -
  from block1 [OF laws(1) honest sim(1,2,4), of rng os] obtain s1 p1 rng1 os1 where
    one: "participants_react D cb sim rng os (map P ids) =
      (Ok (), sim\<lparr>mempool := map (\<lambda>i. DkgRound1 i (p1 i)) ids\<rparr>, map (\<lambda>i. after_r1 (P i) (s1 i)) ids, rng1, os1)"
    and p1: "\<And>i. i \<in> set ids \<Longrightarrow> honest_part1 D params i (s1 i) (p1 i)"
    and run1: "run_all (apply_tx F) (sim_state sim) (map (\<lambda>i. DkgRound1 i (p1 i)) ids) =
      Ok (with_ceremony s (ceremony0 params V\<lparr>round1 := tabulate p1 (set ids)\<rparr>))" by blast
  define c1 where "c1 = (ceremony0 params V :: ('i, 'pkp, 'p1) dkg_ceremony)\<lparr>round1 := tabulate p1 (set ids)\<rparr>"
  define sim1 where "sim1 = \<lparr>sim_state = with_ceremony s c1, mempool = [], block_height = 2,
      last_block = map (\<lambda>i. DkgRound1 i (p1 i)) ids :: ('i, 'pkp, 'p1, 'cm, 'rz, 'sh) tx list\<rparr>"
  have sim1: "sim_state sim1 = with_ceremony s c1" "mempool sim1 = []" "block_height sim1 = 2"
    by (simp_all add: sim1_def)
  from block2 [OF laws honest p1 c1_def total(1) sim1(1,2) sim(4), of rng1 os1] obtain s2 sent env rng2 os2 where
    two: "participants_react D cb sim1 rng1 os1 (map (\<lambda>i. after_r1 (P i) (s1 i)) ids) =
      (Ok (), sim1\<lparr>mempool := map (\<lambda>(i, j). DkgRound2 i j (env (i, j))) (pairs ids)\<rparr>,
       map (\<lambda>i. after_r2 (P i) (s2 i)) ids, rng2, os2)"
    and p2: "\<And>i. i \<in> set ids \<Longrightarrow> part2 D (s1 i) (tabulate p1 (set ids - {i})) = Inr (s2 i, tabulate (sent i) (set ids - {i}))"
    and env: "\<And>i j. i \<in> set ids \<Longrightarrow> j \<in> set ids \<Longrightarrow> j \<noteq> i \<Longrightarrow> carries D cb (enc_secret (P j)) (env (i, j)) (sent i j)"
    and run2: "run_all (apply_tx F) (sim_state sim1) (map (\<lambda>(i, j). DkgRound2 i j (env (i, j))) (pairs ids)) =
      Ok (with_ceremony s (c1\<lparr>round2 := tabulate env (set (pairs ids))\<rparr>))" by blast
  define c2 where "c2 = (ceremony0 params V :: ('i, 'pkp, 'p1) dkg_ceremony)\<lparr>round1 := tabulate p1 (set ids),
      round2 := tabulate env (set (pairs ids))\<rparr>"
  define sim2 where "sim2 = \<lparr>sim_state = with_ceremony s c2, mempool = [], block_height = 3,
      last_block = map (\<lambda>(i, j). DkgRound2 i j (env (i, j))) (pairs ids) :: ('i, 'pkp, 'p1, 'cm, 'rz, 'sh) tx list\<rparr>"
  have sim2: "sim_state sim2 = with_ceremony s c2" "mempool sim2 = []" "block_height sim2 = 3"
    by (simp_all add: sim2_def)
  from block3 [OF laws(1) honest p1 p2 env c2_def total sim2(1,2) sim(4), of rng2 os2] obtain kp pkp rng3 os3 where
    three: "participants_react D cb sim2 rng2 os2 (map (\<lambda>i. after_r2 (P i) (s2 i)) ids) =
      (Ok (), sim2\<lparr>mempool := map (\<lambda>i. DkgFinalize i (pkp i)) ids\<rparr>,
       map (\<lambda>i. after_r3 (P i) (kp i) (pkp i)) ids, rng3, os3)"
    and keys: "honest_keys D params (set ids) kp pkp" and agree: "\<forall>i \<in> set ids. \<forall>j \<in> set ids. pkp_agree F (pkp i) (pkp j)"
    and run3: "run_all (apply_tx F) (sim_state sim2) (map (\<lambda>i. DkgFinalize i (pkp i)) ids) =
      Ok (s\<lparr>ceremony := None, group := Some \<lparr>g_params = params, g_pkp = pkp (Min (set ids)),
        g_validators = bs_collect (bt_keys V)\<rparr>\<rparr>)" by blast
  have c12: "c1\<lparr>round2 := tabulate env (set (pairs ids))\<rparr> = c2" by (simp add: c1_def c2_def)
  have "dkg_loop F D cb (Suc (Suc (Suc n))) sim rng os (map P ids) =
      dkg_loop F D cb (Suc (Suc n)) sim1 rng1 os1 (map (\<lambda>i. after_r1 (P i) (s1 i)) ids)"
    using loop_step [OF one run1] sim by (simp add: sim1_def c1_def)
  also have "\<dots> = dkg_loop F D cb (Suc n) sim2 rng2 os2 (map (\<lambda>i. after_r2 (P i) (s2 i)) ids)"
    using loop_step [OF two run2] sim1 sim(4) by (simp add: sim2_def c12)
  also note loop_step [OF three run3]
  finally show ?thesis using keys agree sim2 sim(4) by (cases n) auto
qed

lemma participants_made:
  "make_participants id_of cb rng ks = Ok (ps, rng') \<Longrightarrow>
   map d_identifier ps = map (\<lambda>k. the (id_of k)) ks \<and> length ps = length ks \<and>
   (\<forall>p \<in> set ps. enc_public p = enc_from_public cb (sk_public cb (enc_secret p)) \<and>
      \<not> submitted_r1 p \<and> \<not> submitted_r2 p \<and> \<not> submitted_finalize p)"
  by (induction id_of cb rng ks arbitrary: ps rng' rule: make_participants.induct)
    (auto simp: participant_new_def split: prod.splits)

text \<open>A list of participants with distinct identifiers is the family of its members.\<close>

lemma as_family:
  assumes "distinct (map f xs)"
  shows "\<exists>P. xs = map P (map f xs) \<and> (\<forall>x \<in> set xs. P (f x) = x)"
proof -
  have inj: "inj_on f (set xs)" using assms by (simp add: distinct_map)
  let ?P = "the_inv_into (set xs) f"
  have "?P (f x) = x" if "x \<in> set xs" for x using inj that by (rule the_inv_into_f_f)
  then show ?thesis by (intro exI [of _ ?P]) (simp add: map_idI)
qed

lemma announced:
  assumes "distinct (map d_identifier ps)"
  shows "bt_get (bt_collect (map (\<lambda>p. (d_identifier p, enc_public p)) ps)) =
    map_of (map (\<lambda>p. (d_identifier p, enc_public p)) ps)"
  using assms by (intro bt_get_collect_distinct) (simp add: comp_def)

text \<open>Freshly made participants are an honest setup for the validators they announce.\<close>

lemma honest_made:
  fixes ps :: "('i::linorder, 'sk, 's1, 's2, 'kp, 'pkp) dkg_participant list"
  assumes made: "make_participants id_of cb rng0 ks = Ok (ps, rng)"
    and ids: "ids = map (\<lambda>k. the (id_of k)) ks" "distinct ids"
    and V: "V = bt_collect (map (\<lambda>p. (d_identifier p, enc_public p)) ps)"
  shows "length ps = length ks \<and> dom (bt_get V) = set ids \<and> (\<exists>P. ps = map P ids \<and> honest_setup cb ids V P)"
proof -
  from participants_made [OF made] ids have ps: "map d_identifier ps = ids" "length ps = length ks"
    and fresh: "\<And>p. p \<in> set ps \<Longrightarrow> enc_public p = enc_from_public cb (sk_public cb (enc_secret p)) \<and>
      \<not> submitted_r1 p \<and> \<not> submitted_r2 p \<and> \<not> submitted_finalize p" by auto
  from as_family [of d_identifier ps, unfolded ps(1), OF ids(2)] obtain P where
    P: "ps = map P ids" and fam: "\<And>p. p \<in> set ps \<Longrightarrow> P (d_identifier p) = p" by blast
  have getV: "bt_get V = map_of (map (\<lambda>p. (d_identifier p, enc_public p)) ps)"
    unfolding V by (rule announced) (use ps ids in simp)
  have domV: "dom (bt_get V) = set ids"
    unfolding getV dom_map_of_conv_image_fst set_map image_image fst_conv ps(1) [symmetric] ..
  have "honest_setup cb ids V P"
    unfolding honest_setup_def
  proof (intro conjI ballI)
    fix i
    assume "i \<in> set ids"
    then obtain p where p: "p \<in> set ps" "d_identifier p = i" using ps(1) by force
    then have Pi: "P i = p" using fam by blast
    have "bt_get V i = Some (enc_public p)"
      unfolding getV using p ids(2) ps(1) by (intro map_of_is_SomeI) (auto simp: comp_def)
    then show "d_identifier (P i) = i" "bt_get V i = Some (enc_from_public cb (sk_public cb (enc_secret (P i))))"
      "\<not> submitted_r1 (P i)" "\<not> submitted_r2 (P i)" "\<not> submitted_finalize (P i)"
      using fresh [OF p(1)] p(2) Pi by auto
  qed (use ids domV in simp_all)
  with P ps(2) domV show ?thesis by blast
qed

text \<open>The block with the announcement.\<close>

lemma announcement_committed:
  assumes "V = bt_collect (map (\<lambda>p. (d_identifier p, enc_public p)) ps)" "bt_len V = unat (total params)"
  shows "commit_block F (submit sim_new (announce params ps)) =
    Ok (\<lparr>sim_state = with_ceremony default_state (ceremony0 params V), mempool = [], block_height = 1,
         last_block = [announce params ps]\<rparr>, [(announce params ps, Ok ())])"
proof -
  have "run_all (apply_tx F) default_state [announce params ps] = Ok (with_ceremony default_state (ceremony0 params V))"
    using assms by (simp add: announce_def apply_dkg_begin_def default_state_def with_ceremony_def ceremony0_def)
  with commit_block_all [of F "submit sim_new (announce params ps)" "with_ceremony default_state (ceremony0 params V)"]
  show ?thesis by (simp add: submit_def sim_new_def sim_default_def)
qed

lemma honest_dkg_run:
  fixes F :: "('i::linorder, 'pkp, 'vk, 'vs, 'cm, 'rz, 'rp, 'sp, 'sh, 'sg) frost"
    and D :: "('i, 's1, 'p1, 's2, 'p2, 'kp, 'pkp, 'g) frost_dkg"
  assumes laws: "dkg_laws F D params (set ids)" "cbox_laws cb" "json_laws D"
    and total: "0 < unat (total params)"
    and ids: "ids = map (\<lambda>k. the (id_of k)) (one_to (total params))" "distinct ids"
    and made: "make_participants id_of cb rng0 (one_to (total params)) = Ok (ps, rng)"
  shows "\<exists>sim P kp pkp rng' os'.
    run_dkg F D cb params rng os ps = Ok (sim, map (\<lambda>i. after_r3 (P i) (kp i) (pkp i)) ids, rng', os') \<and>
    honest_keys D params (set ids) kp pkp \<and> (\<forall>i \<in> set ids. \<forall>j \<in> set ids. pkp_agree F (pkp i) (pkp j)) \<and>
    (\<forall>i \<in> set ids. d_identifier (P i) = i) \<and> block_height sim = 4 \<and> mempool sim = [] \<and>
    sim_state sim = default_state\<lparr>ceremony := None,
      group := Some \<lparr>g_params = params, g_pkp = pkp (Min (set ids)), g_validators = bs_collect ids\<rparr>\<rparr>"
proof -
  define V where "V = bt_collect (map (\<lambda>p. (d_identifier p, enc_public p)) ps)"
  from honest_made [OF made ids V_def] obtain P where P: "ps = map P ids" and honest: "honest_setup cb ids V P"
    and lenps: "length ps = length (one_to (total params))" and domV: "dom (bt_get V) = set ids" by blast
  then have len: "length ids = unat (total params)" using ids(1) by (simp add: one_to_def)
  have lenV: "bt_len V = unat (total params)" using domV ids(2) len by (simp add: bt_len_card distinct_card)
  let ?sim = "\<lparr>sim_state = with_ceremony (default_state :: ('i, 'pkp, 'p1, 'cm, 'rz, 'sp, 'sh, 'sg) state) (ceremony0 params V),
    mempool = [], block_height = 1, last_block = [announce params ps]\<rparr>"
  have start: "commit_block F (submit sim_new (announce params ps)) = Ok (?sim, [(announce params ps, Ok ())])"
    by (rule announcement_committed [OF V_def lenV])
  have sim0: "sim_state ?sim = with_ceremony default_state (ceremony0 params V)" "mempool ?sim = []" "block_height ?sim = 1"
    by simp_all
  have none: "group (default_state :: ('i, 'pkp, 'p1, 'cm, 'rz, 'sp, 'sh, 'sg) state) = None"
    by (simp add: default_state_def)
  have n20: "(20 :: nat) = Suc (Suc (Suc 17))" by simp
  from honest_loop [OF laws honest len total sim0 none, of 17 rng os] obtain sim kp pkp rng' os' where
    loop: "dkg_loop F D cb 20 ?sim rng os ps = Ok (sim, map (\<lambda>i. after_r3 (P i) (kp i) (pkp i)) ids, rng', os')"
    and keys: "honest_keys D params (set ids) kp pkp" and agree: "\<forall>i \<in> set ids. \<forall>j \<in> set ids. pkp_agree F (pkp i) (pkp j)"
    and fin: "block_height sim = 4" "mempool sim = []" "sim_state sim = default_state\<lparr>ceremony := None,
      group := Some \<lparr>g_params = params, g_pkp = pkp (Min (set ids)), g_validators = bs_collect (bt_keys V)\<rparr>\<rparr>"
    unfolding n20 P by (elim exE conjE)
  have "run_dkg F D cb params rng os ps = Ok (sim, map (\<lambda>i. after_r3 (P i) (kp i) (pkp i)) ids, rng', os')"
    using start loop by (simp add: run_dkg_def)
  moreover have "bs_collect (bt_keys V) = bs_collect ids" using domV by (simp add: bt_keys_def keys_bt_iter)
  moreover have "\<forall>i \<in> set ids. d_identifier (P i) = i" using honest by (simp add: honest_setup_def)
  ultimately show ?thesis using keys agree fin
    by (intro exI [of _ sim] exI [of _ P] exI [of _ kp] exI [of _ pkp] exI [of _ rng'] exI [of _ os'] conjI) simp_all
qed

text \<open>
  C12. The ceremony of honest participants succeeds. Create one participant per identifier from 1 to
  the (non-zero) total, announce them, and let them react to each block: if the identifiers are
  distinct, FROST's key-generation functions behave as documented for honest inputs, and the JSON
  codec and the cipher invert their encoders, then, whatever the random generators, the driver
  returns after three further blocks, well within its bound of twenty; the chain has no ceremony and a
  group with the given parameters and exactly these validators. Every participant is complete and
  turns into a node: the participants' key packages and public key packages are those of one run of
  the key-generation functions by honest parties, the node of a participant holds its two packages
  and nothing else in memory, and its public key package agrees with the group's.
\<close>

theorem honest_dkg_succeeds:
  fixes F :: "('i::linorder, 'pkp, 'vk, 'vs, 'cm, 'rz, 'rp, 'sp, 'sh, 'sg) frost"
    and D :: "('i, 's1, 'p1, 's2, 'p2, 'kp, 'pkp, 'g) frost_dkg"
    and S :: "('i, 'kp, 'ss, 'nc, 'cm, 'sp, 'rz, 'sh, 'g) frost_signer"
  assumes laws: "dkg_laws F D params (set ids)" "cbox_laws cb" "json_laws D"
    and total: "0 < unat (total params)"
    and ids: "ids = map (\<lambda>k. the (id_of k)) (one_to (total params))" "distinct ids"
    and made: "make_participants id_of cb rng0 (one_to (total params)) = Ok (ps, rng)"
  shows "\<exists>sim ps' rng' os' g kp pkp. run_dkg F D cb params rng os ps = Ok (sim, ps', rng', os') \<and>
    unat (block_height sim) = 4 \<and> mempool sim = [] \<and> ceremony (sim_state sim) = None \<and>
    group (sim_state sim) = Some g \<and> g_params g = params \<and> g_validators g = bs_collect ids \<and>
    map d_identifier ps' = ids \<and>
    (\<forall>p \<in> set ps'. is_complete p \<and> (\<exists>q. d_public_key_package p = Some q \<and> pkp_agree F q (g_pkp g))) \<and>
    honest_keys D params (set ids) kp pkp \<and> (\<forall>i \<in> set ids. pkp_agree F (pkp i) (g_pkp g)) \<and>
    map (into_node S) ps' =
      map (\<lambda>i. Ok (node_new S \<lparr>bundle_key_package = kp i, bundle_public_key_package = pkp i\<rparr>)) ids"
proof -
  from honest_dkg_run [OF assms, of os] obtain sim P kp pkp rng' os' where
    run: "run_dkg F D cb params rng os ps = Ok (sim, map (\<lambda>i. after_r3 (P i) (kp i) (pkp i)) ids, rng', os')"
    and keys: "honest_keys D params (set ids) kp pkp"
    and agree: "\<forall>i \<in> set ids. \<forall>j \<in> set ids. pkp_agree F (pkp i) (pkp j)" and P: "\<forall>i \<in> set ids. d_identifier (P i) = i"
    and fin: "block_height sim = 4" "mempool sim = []" "sim_state sim = default_state\<lparr>ceremony := None,
      group := Some \<lparr>g_params = params, g_pkp = pkp (Min (set ids)), g_validators = bs_collect ids\<rparr>\<rparr>"
    by (elim exE conjE)
  let ?g = "\<lparr>g_params = params, g_pkp = pkp (Min (set ids)), g_validators = bs_collect ids\<rparr>"
    and ?ps = "map (\<lambda>i. after_r3 (P i) (kp i) (pkp i)) ids"
  have min: "Min (set ids) \<in> set ids" using ids(1) total by (intro Min_in) (auto simp: one_to_def)
  have "map d_identifier ?ps = ids" using P by (simp add: after_r3_def map_idI)
  moreover have "is_complete p \<and> (\<exists>q. d_public_key_package p = Some q \<and> pkp_agree F q (g_pkp ?g))"
    if "p \<in> set ?ps" for p
    using that agree min by (auto simp: is_complete_def after_r3_def)
  moreover have "map (into_node S) ?ps =
      map (\<lambda>i. Ok (node_new S \<lparr>bundle_key_package = kp i, bundle_public_key_package = pkp i\<rparr>)) ids"
    by (simp add: into_node_def after_r3_def)
  ultimately show ?thesis using run fin keys agree min
    by (intro exI [of _ sim] exI [of _ ?ps] exI [of _ rng'] exI [of _ os'] exI [of _ ?g] exI [of _ kp]
        exI [of _ pkp]) simp
qed

section \<open>A small key generation for the witness\<close>

text \<open>The public key package is the list of all identifiers; part three insists on one package from
  every other participant.\<close>

definition toy_dkg :: "(nat, nat, nat, nat, nat, nat, nat list, nat) frost_dkg" where
  "toy_dkg = \<lparr>part1 = (\<lambda>i n t rng. (Inr (i, 10 * i), Suc rng)),
     part2 = (\<lambda>s1 others. Inr (s1, bt_collect (map (\<lambda>(k, _). (k, s1 + k)) (bt_iter others)))),
     part3 = (\<lambda>s2 others received. if bt_keys others = bt_keys received
        then Inr (s2, insort s2 (bt_keys others)) else Inl ''missing packages''),
     p2_to_vec = (\<lambda>n. Inr (replicate n 0)), p2_from_slice = (\<lambda>bs. Inr (length bs))\<rparr>"

lemma keys_tabulate [simp]: "finite A \<Longrightarrow> bt_keys (tabulate f A) = sorted_list_of_set A"
  by (rule map_tabulate_dom(2)) (auto split: if_splits)

lemma toy_part1: "honest_part1 toy_dkg params i s1 p1 \<longleftrightarrow> s1 = i \<and> p1 = 10 * i"
  by (auto simp: honest_part1_def toy_dkg_def)

lemma toy_part2_dom:
  assumes "finite A"
  shows "dom (bt_get (bt_collect (map (\<lambda>(k, _). (k, s + k)) (bt_iter (tabulate f A :: (nat, 'v) btree_map))))) = A"
proof -
  have "distinct (map fst (map (\<lambda>(k, _). (k, s + k)) (bt_iter (tabulate f A))))"
    using distinct_bt_iter [of "tabulate f A"] by (simp add: comp_def split_def)
  then have "dom (bt_get (bt_collect (map (\<lambda>(k, _). (k, s + k)) (bt_iter (tabulate f A))))) =
      fst ` set (map (\<lambda>(k, _). (k, s + k)) (bt_iter (tabulate f A)))"
    by (simp only: bt_get_collect_distinct dom_map_of_conv_image_fst)
  also have "\<dots> = fst ` set (bt_iter (tabulate f A))" by force
  also have "\<dots> = dom (bt_get (tabulate f A))" by (simp flip: dom_map_of_conv_image_fst)
  also have "\<dots> = A" using assms by (auto split: if_splits)
  finally show ?thesis .
qed

lemma toy_dkg_laws:
  assumes "finite I"
  shows "dkg_laws toy_frost toy_dkg params I"
  unfolding dkg_laws_def
proof (intro conjI allI impI ballI)
  fix s1 p1 i
  assume "\<forall>i \<in> I. honest_part1 toy_dkg params i (s1 i) (p1 i)" "i \<in> I"
  then show "\<exists>s2 sent. part2 toy_dkg (s1 i) (tabulate p1 (I - {i})) = Inr (s2, sent) \<and> dom (bt_get sent) = I - {i}"
    using toy_part2_dom [of "I - {i}" "s1 i" p1] assms by (simp add: toy_dkg_def)
next
  fix s1 p1 s2 sent
  assume h: "\<forall>i \<in> I. honest_part1 toy_dkg params i (s1 i) (p1 i) \<and>
    part2 toy_dkg (s1 i) (tabulate p1 (I - {i})) = Inr (s2 i, tabulate (sent i) (I - {i}))"
  have "part3 toy_dkg (s2 i) (tabulate p1 (I - {i})) (tabulate (\<lambda>j. sent j i) (I - {i})) = Inr (i, sorted_list_of_set I)"
    if "i \<in> I" for i
  proof -
    have "s1 i = i" using h that by (simp add: toy_part1)
    moreover have "part2 toy_dkg (s1 i) (tabulate p1 (I - {i})) = Inr (s2 i, tabulate (sent i) (I - {i}))"
      using h that by blast
    ultimately have "s2 i = i" by (simp add: toy_dkg_def)
    then show ?thesis
      using assms that by (simp add: toy_dkg_def sorted_list_of_set.fold_insort_key.remove)
  qed
  then show "\<exists>kp pkp. (\<forall>i \<in> I. part3 toy_dkg (s2 i) (tabulate p1 (I - {i})) (tabulate (\<lambda>j. sent j i) (I - {i})) =
      Inr (kp i, pkp i)) \<and> (\<forall>i \<in> I. \<forall>j \<in> I. pkp_agree toy_frost (pkp i) (pkp j))"
    by (intro exI [of _ id] exI [of _ "\<lambda>_. sorted_list_of_set I"]) (simp add: pkp_agree_def)
qed (simp add: toy_dkg_def)

lemma toy_json: "json_laws toy_dkg"
  by (simp add: json_laws_def toy_dkg_def)

lemma toy_numbers: "one_to (total toy_params) = [1, 2, 3]"
proof -
  have "unat (total toy_params) = 3" by (simp add: toy_params_def)
  moreover have "[1..<Suc 3] = [1, 2, 3]" by (simp add: upt_rec)
  ultimately show ?thesis by (simp add: one_to_def)
qed

definition toy_participant_signer ::
  "(nat, nat, nat, nat, nat, (nat, nat) btree_map \<times> u8 list, nat, nat, nat) frost_signer" where
  "toy_participant_signer = \<lparr>kp_identifier = id, signing_share = id, round1_commit = (\<lambda>ss rng. ((rng, 10 * ss), Suc rng)),
     frost_sign = (\<lambda>sp nc kp rz. Inr (100 * kp + nc))\<rparr>"

theorem honest_dkg_succeeds_witness:
  "\<exists>ps rng sim ps' rng' os' g. make_participants (\<lambda>k. Some (unat k)) toy_cbox 5 (one_to (total toy_params)) =
       (Ok (ps, rng) :: (_, string) result) \<and>
     run_dkg toy_frost toy_dkg toy_cbox toy_params rng (7 :: nat) ps =
       Ok (sim :: (nat, nat list, nat, nat, nat, (nat, nat) btree_map \<times> u8 list, nat, nat) chain_sim, ps', rng', os') \<and>
     group (sim_state sim) = Some g \<and> g_validators g = bs_collect [1, 2, 3] \<and>
     (\<exists>kp pkp. map (into_node toy_participant_signer) ps' = map (\<lambda>i. Ok (node_new toy_participant_signer
        \<lparr>bundle_key_package = kp i, bundle_public_key_package = pkp i\<rparr>)) [1 :: nat, 2, 3])"
proof -
  let ?id = "\<lambda>k :: u16. Some (unat k)"
  have ks: "one_to (total toy_params) = [1, 2, 3]" by (rule toy_numbers)
  obtain ps rng where made: "make_participants ?id toy_cbox 5 (one_to (total toy_params)) =
      (Ok (ps, rng) :: ((nat, 32 bytes, nat, nat, nat, nat list) dkg_participant list \<times> nat, string) result)"
    unfolding ks by (simp add: participant_new_def toy_cbox_def split: prod.splits)
  have ids: "[1, 2, 3] = map (\<lambda>k. the (?id k)) (one_to (total toy_params))" "distinct [1, 2, 3 :: nat]"
    unfolding ks by simp_all
  have "0 < unat (total toy_params)" by (simp add: toy_params_def)
  from honest_dkg_succeeds [OF toy_dkg_laws [OF finite_set] toy_cbox_laws toy_json this ids made, of 7 toy_participant_signer] made
  show ?thesis by blast
qed

end
