(* ===== verification/Dkg_Faults.thy ===== *)
theory Dkg_Faults
  imports Dkg_Honest
begin

text \<open>
  A participant that lost its round-one secret. The participant keeps its secrets in memory only and
  recognises its own round-one package on the chain by the identifier it carries; if that package was
  posted by an earlier incarnation of the participant, or by anybody else, the participant can never
  contribute to the ceremony.
\<close>

inductive dkg_run ::
  "('i::linorder, 's1, 'p1, 's2, 'p2, 'kp, 'pkp, 'g) frost_dkg \<Rightarrow> ('sk, 'pk, 'box, 'g, 'o) cbox_crate \<Rightarrow>
   ('i, 'sk, 's1, 's2, 'kp, 'pkp) dkg_participant \<Rightarrow>
   (('i, 'pkp, 'p1, 'cm, 'rz, 'sp, 'sh, 'sg) state \<times>
     (('i, 'pkp, 'p1, 'cm, 'rz, 'sh) tx list, dkg_error) result) list \<Rightarrow>
   ('i, 'sk, 's1, 's2, 'kp, 'pkp) dkg_participant \<Rightarrow> bool" for D cb p0 where
  dkg_start: "dkg_run D cb p0 [] p0"
| dkg_reaction: "dkg_run D cb p0 hist p \<Longrightarrow> dkg_react D cb p s rng os = (r, p', rng', os') \<Longrightarrow>
    dkg_run D cb p0 (hist @ [(s, r)]) p'"

definition lost_secret :: "('i, 'sk, 's1, 's2, 'kp, 'pkp) dkg_participant \<Rightarrow> bool" where
  "lost_secret p \<longleftrightarrow> submitted_r1 p \<and> secret_r1 p = None \<and> \<not> submitted_r2 p \<and> d_key_package p = None"

lemma lost_secret_step:
  assumes "lost_secret p" "dkg_react D cb p s rng os = (r, p', rng', os')"
  shows "p' = p \<and> (r = Ok [] \<or> r = Err (Inconsistent ''missing r1 secret for r2''))"
  using assms by (auto simp: lost_secret_def dkg_react_def dkg_round2_def Let_def split: if_splits option.splits)

lemma lost_secret_run:
  assumes "dkg_run D cb p hist p'" "lost_secret p"
  shows "p' = p \<and> (\<forall>(s, r) \<in> set hist. r = Ok [] \<or> r = Err (Inconsistent ''missing r1 secret for r2''))"
  using assms by (induction rule: dkg_run.induct) (auto dest: lost_secret_step)

section \<open>A ceremony without the envelopes of one participant\<close>

text \<open>As long as a participant has no envelope on the chain, round two is not complete.\<close>

definition stalled ::
  "('i::linorder, 'pkp, 'vk, 'vs, 'cm, 'rz, 'rp, 'sp, 'sh, 'sg) frost \<Rightarrow> 'i \<Rightarrow>
   mpc_params \<Rightarrow> ('i, enc_public_key) btree_map \<Rightarrow> ('i, 'pkp, 'p1, 'cm, 'rz, 'sp, 'sh, 'sg) state \<Rightarrow> bool" where
  "stalled F i ps V s \<longleftrightarrow> chain_inv F s \<and> (\<exists>c. ceremony s = Some c \<and> c_params c = ps \<and> c_validators c = V \<and> i \<in> dom (bt_get (c_validators c)) \<and>
     2 \<le> ceremony_total c \<and> (\<forall>j. bt_get (round2 c) (i, j) = None))"

lemma stalled_incomplete:
  assumes "ceremony_inv F c" "i \<in> dom (bt_get (c_validators c))" "2 \<le> ceremony_total c"
    "\<forall>j. bt_get (round2 c) (i, j) = None"
  shows "bt_len (round2 c) \<noteq> ceremony_total c * (ceremony_total c - 1)"
proof
  let ?V = "dom (bt_get (c_validators c))"
  assume "bt_len (round2 c) = ceremony_total c * (ceremony_total c - 1)"
  then have full: "dom (bt_get (round2 c)) = ordered_pairs (c_validators c)"
    using round2_full_iff [OF assms(1)] by simp
  have "card ?V = ceremony_total c" using assms(1) by (simp add: ceremony_inv_def Let_def bt_len_card)
  then have "1 < card ?V" using assms(3) by simp
  then have "\<not> ?V \<subseteq> {i}" using card_mono [of "{i}" ?V] by auto
  then obtain j where "j \<in> ?V" "j \<noteq> i" by blast
  with assms(2) have "(i, j) \<in> dom (bt_get (round2 c))" unfolding full ordered_pairs_def by simp
  with assms(4) show False by (auto simp: domIff)
qed

lemma stalled_step:
  assumes "stalled F i ps V s" "\<forall>j env. t \<noteq> DkgRound2 i j env"
  shows "apply_tx F s t \<noteq> Panic \<and> (\<forall>s'. apply_tx F s t = Ok s' \<longrightarrow> stalled F i ps V s')"
proof (intro conjI allI impI)
  from assms(1) obtain c where inv: "chain_inv F s" and c: "ceremony s = Some c" "i \<in> dom (bt_get (c_validators c))"
    "2 \<le> ceremony_total c" "\<forall>j. bt_get (round2 c) (i, j) = None"
    and same: "c_params c = ps" "c_validators c = V" unfolding stalled_def by blast
  show "apply_tx F s t \<noteq> Panic" using c(1,3) by (auto simp: panic_core ceremony_total_def)
  fix s'
  assume ok: "apply_tx F s t = Ok s'"
  have inv': "chain_inv F s'" by (rule apply_tx_inv [OF inv ok])
  have g: "group s = None" "ceremony_inv F c" using inv c(1) by (auto simp: chain_inv_def)
  have "bt_len (round2 c) \<noteq> ceremony_total c * (ceremony_total c - 1)" by (rule stalled_incomplete [OF g(2) c(2-4)])
  then have "\<exists>c'. ceremony s' = Some c' \<and> c_params c' = ps \<and> c_validators c' = V \<and> i \<in> dom (bt_get (c_validators c')) \<and>
      2 \<le> ceremony_total c' \<and> (\<forall>j. bt_get (round2 c') (i, j) = None)"
    using ok assms(2) c g(1) same by (cases t) (auto simp: arm_Ok ceremony_total_def)
  with inv' show "stalled F i ps V s'" unfolding stalled_def by blast
qed

lemma stalled_run:
  "stalled F i ps V s \<Longrightarrow> \<forall>j env. DkgRound2 i j env \<notin> set txs \<Longrightarrow> \<exists>s'. run_skip (apply_tx F) s txs = Ok s' \<and> stalled F i ps V s'"
proof (induction txs arbitrary: s)
  case (Cons t txs)
  then have "\<forall>j env. t \<noteq> DkgRound2 i j env" by auto
  from stalled_step [OF Cons.prems(1) this] Cons.IH Cons.prems show ?case
    by (cases "apply_tx F s t") auto
qed simp

text \<open>
  C37. A foreign round-one package locks a participant out. If a new participant first reacts to a
  chain state in whose ceremony there already is a round-one package under its identifier, then from
  that reaction on it never submits anything, whatever chain states it sees: every reaction returns
  nothing or the error about the missing secret, and it never becomes complete. The ceremony waits for
  it: if it has at least two participants and no envelope under this identifier, then whatever is
  applied to the chain, short of envelopes that somebody else posts under the identifier, the ceremony
  with these parameters and validators stays open and no group is formed.
\<close>

theorem foreign_round1_locks_out:
  fixes s :: "('i::linorder, 'pkp, 'p1, 'cm, 'rz, 'sp, 'sh, 'sg) state"
    and F :: "('i, 'pkp, 'vk, 'vs, 'cm, 'rz, 'rp, 'sp, 'sh, 'sg) frost"
  assumes new: "p = fst (participant_new cb i rng0)"
    and s: "group s = None" "ceremony s = Some c" "bt_get (c_validators c) i \<noteq> None" "bt_get (round1 c) i \<noteq> None"
    and first: "dkg_react D cb p s rng os = (r1, p1, rng1, os1)" and run: "dkg_run D cb p1 hist p2"
  shows "(r1 = Ok [] \<or> r1 = Err (Inconsistent ''missing r1 secret for r2'')) \<and>
    (\<forall>(s', r) \<in> set hist. r = Ok [] \<or> r = Err (Inconsistent ''missing r1 secret for r2'')) \<and> \<not> is_complete p2 \<and>
    (\<forall>txs. reach (apply_tx F) default_state s \<and> 2 \<le> unat (total (c_params c)) \<and>
       (\<forall>j. bt_get (round2 c) (i, j) = None) \<and> (\<forall>j env. DkgRound2 i j env \<notin> set txs) \<longrightarrow>
       (\<exists>s'. run_skip (apply_tx F) s txs = Ok s' \<and> group s' = None \<and>
         (\<exists>c'. ceremony s' = Some c' \<and> c_params c' = c_params c \<and> c_validators c' = c_validators c)))"
proof -
  have p: "d_identifier p = i" "\<not> submitted_r1 p" "secret_r1 p = None" "\<not> submitted_r2 p" "d_key_package p = None"
    using new by (auto simp: participant_new_def split: prod.splits)
  have "lost_secret p1 \<and> (r1 = Ok [] \<or> r1 = Err (Inconsistent ''missing r1 secret for r2''))"
    using first s p
    by (auto simp: dkg_react_def dkg_round2_def bt_contains_key_def lost_secret_def Let_def split: if_splits)
  moreover have "\<exists>s'. run_skip (apply_tx F) s txs = Ok s' \<and> group s' = None \<and>
         (\<exists>c'. ceremony s' = Some c' \<and> c_params c' = c_params c \<and> c_validators c' = c_validators c)"
    if "reach (apply_tx F) default_state s" "2 \<le> unat (total (c_params c))"
      "\<forall>j. bt_get (round2 c) (i, j) = None" "\<forall>j env. DkgRound2 i j env \<notin> set txs" for txs
  proof -
    have "stalled F i (c_params c) (c_validators c) s"
      using reachable_inv [OF that(1)] s(2,3) that(2,3) by (auto simp: stalled_def ceremony_total_def)
    from stalled_run [OF this that(4)] show ?thesis by (auto simp: stalled_def chain_inv_def)
  qed
  ultimately show ?thesis using lost_secret_run [OF run] by (auto simp: lost_secret_def is_complete_def)
qed

definition foreign_state :: toy_state where
  "foreign_state = with_ceremony default_state ((ceremony0 duo_params duo_validators)\<lparr>round1 := bt_insert 1 99 bt_new\<rparr>)"

lemma foreign_reach: "reach (apply_tx toy_frost) default_state foreign_state"
proof (rule run_all_reach)
  show "run_all (apply_tx toy_frost) default_state [DkgBegin duo_params duo_validators, DkgRound1 1 99] = Ok foreign_state"
    by (simp add: apply_dkg_begin_def apply_dkg_round1_def default_state_def foreign_state_def with_ceremony_def
        ceremony0_def duo_defs bt_len_insert)
qed

theorem foreign_round1_locks_out_witness:
  "\<exists>r p1 rng1 os1 s'. dkg_react toy_dkg toy_cbox (fst (participant_new toy_cbox 1 5)) foreign_state 6 7 = (r, p1, rng1, os1) \<and>
     r = Ok [] \<and> \<not> is_complete p1 \<and>
     run_skip (apply_tx toy_frost) foreign_state [DkgRound1 2 20, DkgRound2 2 1 (Sealed [21]), DkgFinalize 2 [1, 2]] = Ok s' \<and>
     group s' = None"
proof -
  let ?p = "fst (participant_new toy_cbox 1 5) :: (nat, 32 bytes, nat, nat, nat, nat list) dkg_participant"
  let ?c = "(ceremony0 duo_params duo_validators :: (nat, nat list, nat) dkg_ceremony)\<lparr>round1 := bt_insert 1 99 bt_new\<rparr>"
  let ?txs = "[DkgRound1 2 20, DkgRound2 2 1 (Sealed [21]), DkgFinalize 2 [1, 2]] :: toy_tx list"
  obtain r p1 rng1 os1 where react: "dkg_react toy_dkg toy_cbox ?p foreign_state 6 7 = (r, p1, rng1, os1)"
    by (metis prod_cases4)
  have s: "group foreign_state = None" "ceremony foreign_state = Some ?c"
    "bt_get (c_validators ?c) 1 \<noteq> None" "bt_get (round1 ?c) 1 \<noteq> None"
    by (simp_all add: foreign_state_def default_state_def ceremony0_def duo_validators_def with_ceremony_def)
  have "\<not> r1_complete ?c"
    by (simp add: r1_complete_def ceremony_total_def ceremony0_def duo_params_def bt_len_insert)
  then have "r = Ok []"
    using react s by (auto simp: dkg_react_def participant_new_def bt_contains_key_def split: prod.splits)
  moreover note locked = foreign_round1_locks_out [OF refl s react dkg_start, where F = toy_frost]
  have "2 \<le> unat (total (c_params ?c)) \<and> (\<forall>j. bt_get (round2 ?c) (1, j) = None) \<and> (\<forall>j env. DkgRound2 1 j env \<notin> set ?txs)"
    by (simp add: ceremony0_def duo_params_def)
  with locked foreign_reach have "\<exists>s'. run_skip (apply_tx toy_frost) foreign_state ?txs = Ok s' \<and> group s' = None"
    by blast
  moreover have "\<not> is_complete p1" using locked by blast
  ultimately show ?thesis using react by blast
qed

end
