(* ===== verification/Node_Types.thy ===== *)
theory Node_Types
  imports Node_Props Dkg_Faults
begin

text \<open>
  The types of what the reactors of \<open>sapphire-node\<close> put on the chain: who signs which kind of
  transaction, for which request and in which round. A signer and a participant only ever speak under
  their own identifier, and only what the state they react to asks of them.
\<close>

section \<open>The types\<close>

text \<open>A transaction that the signer \<open>i\<close> may send on the state \<open>s\<close>.\<close>

fun signer_typed ::
  "'i \<Rightarrow> ('i::linorder, 'pkp, 'p1, 'cm, 'rz, 'sp, 'sh, 'sg) state \<Rightarrow> ('i, 'pkp, 'p1, 'cm, 'rz, 'sh) tx \<Rightarrow> bool" where
  "signer_typed i s (SubmitCommitment rid v cm) \<longleftrightarrow> v = i \<and>
     (\<exists>e cms. bt_get (requests s) rid = Some e \<and> status e = AwaitingCommitments cms \<and> bt_get cms i = None)"
| "signer_typed i s (SubmitShare rid v sh) \<longleftrightarrow> v = i \<and>
     (\<exists>e sp P shs. bt_get (requests s) rid = Some e \<and> status e = Signing sp P shs \<and>
        bt_get P i \<noteq> None \<and> bt_get shs i = None)"
| "signer_typed i s _ \<longleftrightarrow> False"

text \<open>A transaction that the participant \<open>i\<close> may send in the ceremony \<open>c\<close>.\<close>

fun participant_typed :: "'i \<Rightarrow> ('i::linorder, 'pkp, 'p1) dkg_ceremony \<Rightarrow> ('i, 'pkp, 'p1, 'cm, 'rz, 'sh) tx \<Rightarrow> bool" where
  "participant_typed i c (DkgRound1 v p) \<longleftrightarrow> v = i \<and> bt_get (round1 c) i = None"
| "participant_typed i c (DkgRound2 v j env) \<longleftrightarrow> v = i \<and> r1_complete c \<and> bt_get (c_validators c) j \<noteq> None"
| "participant_typed i c (DkgFinalize v pkp) \<longleftrightarrow> v = i \<and> (r2_complete c :: (bool, dkg_error) result) = Ok True \<and>
     bt_get (finalize c) i = None"
| "participant_typed i c _ \<longleftrightarrow> False"

section \<open>The rounds are typed\<close>

lemma seal_all_typed:
  assumes "seal_all D cb i V rng os out xs = (Ok out', rng', os')"
  shows "\<forall>t \<in> set out'. t \<in> set out \<or> (\<exists>j env. t = DkgRound2 i j env \<and> bt_get V j \<noteq> None)"
  using assms
  by (induction D cb i V rng os out xs rule: seal_all.induct)
    (fastforce split: option.splits sum.splits result.splits prod.splits)+

lemma round1_typed:
  assumes "dkg_round1 D p c rng = (Ok out, p', rng')"
  shows "d_identifier p' = d_identifier p \<and> (\<forall>t \<in> set out. \<exists>pkg. t = DkgRound1 (d_identifier p) pkg)"
  using assms by (auto simp: dkg_round1_def split: prod.splits sum.splits)

lemma round2_typed:
  assumes "dkg_round2 D cb p c rng os = (Ok out, p', rng', os')"
  shows "d_identifier p' = d_identifier p \<and>
    (\<forall>t \<in> set out. \<exists>j env. t = DkgRound2 (d_identifier p) j env \<and> bt_get (c_validators c) j \<noteq> None)"
  using assms
  by (auto simp: dkg_round2_def Let_def dest!: seal_all_typed split: option.splits prod.splits sum.splits result.splits)

lemma finalize_typed:
  assumes "dkg_finalize D cb p c = (Ok out, p')"
  shows "d_identifier p' = d_identifier p \<and>
    (\<forall>t \<in> set out. \<exists>pkp. t = DkgFinalize (d_identifier p) pkp \<and> bt_get (finalize c) (d_identifier p) = None)"
  using assms
  by (auto simp: dkg_finalize_def bt_contains_key_def Let_def split: if_splits option.splits sum.splits prod.splits result.splits)

lemma dkg_react_typed:
  assumes "dkg_react D cb p s rng os = (Ok out, p', rng', os')"
  shows "d_identifier p' = d_identifier p \<and>
    (\<forall>t \<in> set out. \<exists>c. ceremony s = Some c \<and> group s = None \<and> bt_get (c_validators c) (d_identifier p) \<noteq> None \<and>
       participant_typed (d_identifier p) c t)"
proof (cases "group s = None \<and> (\<exists>c. ceremony s = Some c \<and> bt_contains_key (c_validators c) (d_identifier p))")
  case False
  with assms show ?thesis by (auto simp: dkg_react_def split: option.splits if_splits)
next
  case True
  then obtain c where c: "group s = None" "ceremony s = Some c" "bt_get (c_validators c) (d_identifier p) \<noteq> None"
    by (auto simp: bt_contains_key_def)
  define p0 where "p0 = (if submitted_r1 p then p else p\<lparr>submitted_r1 := True\<rparr>)"
  have p0: "d_identifier p0 = d_identifier p" by (simp add: p0_def)
  consider (r1) q g where "bt_get (round1 c) (d_identifier p) = None" "dkg_round1 D p c rng = (Ok out, q, g)" "p' = q"
    | (none) "out = []" "p' = p0"
    | (r2) "r1_complete c" "dkg_round2 D cb p0 c rng os = (Ok out, p', rng', os')"
    | (fin) "(r2_complete c :: (bool, dkg_error) result) = Ok True" "dkg_finalize D cb p0 c = (Ok out, p')"
    using assms c unfolding dkg_react_def p0_def [symmetric]
    by (auto simp: bt_contains_key_def Let_def p0_def split: if_splits prod.splits result.splits)
  then show ?thesis
  proof cases
    case r1
    from round1_typed [OF r1(2)] show ?thesis using c r1 by fastforce
  next
    case r2
    from round2_typed [OF r2(2)] show ?thesis using c r2(1) p0 by fastforce
  next
    case fin
    from finalize_typed [OF fin(2)] show ?thesis using c fin(1) p0 by fastforce
  qed (use p0 in simp)
qed

section \<open>Reactions are typed\<close>

text \<open>
  C20. What a reactor puts on the chain is well typed, and a reactor never changes its identity. Each
  transaction of a signer's reaction is a commitment or a share under the signer's own identifier for
  a request of that state: a commitment for a request that awaits them and has none of the signer, a
  share for a request being signed in which the signer takes part and whose share is missing. Each
  transaction of a participant's reaction carries its own identifier and fits the round of the
  ceremony: its round-1 package when the chain has none of it, round-2 envelopes for validators with
  an encryption key once round 1 is complete, its result once round 2 is complete and the chain has
  none of it.
\<close>

theorem reactions_typed:
  "(react S n s rng = (Ok out, n', rng') \<longrightarrow> node_identifier n' = node_identifier n \<and>
      (\<forall>t \<in> set out. signer_typed (node_identifier n) s t)) \<and>
   (dkg_react D cb p s rng os = (Ok out', p', rng'', os') \<longrightarrow> d_identifier p' = d_identifier p \<and>
      (\<forall>t \<in> set out'. \<exists>c. ceremony s = Some c \<and> participant_typed (d_identifier p) c t))"
proof (intro conjI impI)
  assume "react S n s rng = (Ok out, n', rng')"
  from react_trace [OF this] obtain tr where tr: "node_trace S n tr n'"
    "\<forall>rid e r. (rid, e, r) \<in> set tr \<longrightarrow> bt_get (requests s) rid = Some e" "out = emitted tr" by blast
  show "node_identifier n' = node_identifier n" using trace_fixed [OF tr(1)] by simp
  show "\<forall>t \<in> set out. signer_typed (node_identifier n) s t"
  proof
    fix t assume "t \<in> set out"
    then obtain rid e where e: "(rid, e, Ok (Some t)) \<in> set tr" unfolding tr(3) in_emitted by blast
    then have "bt_get (requests s) rid = Some e" using tr(2) by blast
    with trace_produced [OF tr(1) e] show "signer_typed (node_identifier n) s t" by auto
  qed
next
  assume r: "dkg_react D cb p s rng os = (Ok out', p', rng'', os')"
  show "d_identifier p' = d_identifier p" using dkg_react_typed [OF r] by simp
  show "\<forall>t \<in> set out'. \<exists>c. ceremony s = Some c \<and> participant_typed (d_identifier p) c t"
    using dkg_react_typed [OF r] by blast
qed

theorem reactions_typed_witness:
  "signer_typed (1 :: nat) signing_state (SubmitShare toy_rid 1 105 :: toy_tx) \<and>
   (\<exists>c. ceremony (with_ceremony default_state (ceremony0 duo_params duo_validators) :: toy_state) = Some c \<and>
      participant_typed 1 c (DkgRound1 1 10 :: toy_tx))"
proof -
  let ?n = "(toy_node sample_approve)\<lparr>pending := [toy_rid \<mapsto> 5], committed_requests := {toy_rid}\<rparr>"
    and ?p = "fst (participant_new toy_cbox 1 5) :: (nat, 32 bytes, nat, nat, nat, nat list) dkg_participant"
    and ?s = "with_ceremony default_state (ceremony0 duo_params duo_validators) :: toy_state"
  have id: "node_identifier ?n = 1" "d_identifier ?p = 1"
    by (simp_all add: toy_node_def with_policy_def node_new_def toy_signer_def participant_new_def split: prod.split)
  let ?c = "ceremony0 duo_params duo_validators :: (nat, nat list, nat) dkg_ceremony"
  have st: "group ?s = None" "ceremony ?s = Some ?c"
    "bt_contains_key (c_validators ?c) 1"
    "\<not> bt_contains_key (round1 ?c) 1" "\<not> submitted_r1 ?p"
    by (simp_all add: default_state_def ceremony0_def duo_validators_def with_ceremony_def bt_contains_key_def
        participant_new_def split: prod.split)
  obtain q where "dkg_round1 toy_dkg ?p ?c 6 = (Ok [DkgRound1 1 10 :: toy_tx], q, 7)"
    using id(2) by (simp add: dkg_round1_def toy_dkg_def)
  then have r: "dkg_react toy_dkg toy_cbox ?p ?s 6 7 = (Ok [DkgRound1 1 10 :: toy_tx], q, 7, 7)"
    using st id(2) by (auto simp: dkg_react_def bt_contains_key_def)
  have "signer_typed 1 signing_state (SubmitShare toy_rid 1 105 :: toy_tx)"
    using reactions_typed [THEN conjunct1, THEN mp, OF sample_signs [of sample_approve]] unfolding id by simp
  moreover have "\<exists>c. ceremony ?s = Some c \<and> participant_typed 1 c (DkgRound1 1 10 :: toy_tx)"
    using reactions_typed [THEN conjunct2, THEN mp, OF r] unfolding id by simp
  ultimately show ?thesis by blast
qed

end
