(* ===== verification/Net_Codec.thy ===== *)
theory Net_Codec
  imports Sapphire_Prelude
begin

text \<open>
  The frames of \<open>sapphire-net/src/codec.rs\<close>: a four-byte big-endian length and that many bytes of
  ciphertext. What can be read from a connection is the list of the bytes that arrive before it is
  closed; what is written is a list of bytes. The \<open>TransportState\<close> of the \<open>snow\<close> crate is a
  parameter: its two message functions, which take the input and the size of the output buffer.

  The locale \<open>framing\<close> is the contract of a self-delimiting frame format; it is interpreted here on
  the frames of the codec and in \<open>Net_Handshake\<close> on the messages of the handshake.
\<close>

unbundle bit_operations_syntax

section \<open>Errors of the standard library's I/O\<close>

datatype io_error =
    UnexpectedEof
  | InvalidData string
  | InvalidInput string
  | OtherError string
  | ConnectError string

text \<open>\<open>read_exact\<close>: the requested number of bytes, or the error of a connection that ends too early.\<close>

definition read_exact :: "nat \<Rightarrow> u8 list \<Rightarrow> (u8 list \<times> u8 list, io_error) result" where
  "read_exact n stream = (if length stream < n then Err UnexpectedEof else Ok (take n stream, drop n stream))"

section \<open>Big-endian lengths\<close>

definition to_be_bytes :: "u32 \<Rightarrow> u8 list" where
  "to_be_bytes x = [ucast (drop_bit 24 x), ucast (drop_bit 16 x), ucast (drop_bit 8 x), ucast x]"

fun from_be_bytes :: "u8 list \<Rightarrow> u32" where
  "from_be_bytes [a, b, c, d] =
     push_bit 24 (ucast a) OR push_bit 16 (ucast b) OR push_bit 8 (ucast c) OR ucast d"
| "from_be_bytes _ = 0"

lemma length_to_be_bytes [simp]: "length (to_be_bytes x) = 4"
  by (simp add: to_be_bytes_def)

lemma from_to_be_bytes [simp]: "from_be_bytes (to_be_bytes x) = x"
proof (rule bit_word_eqI)
  fix n
  assume "n < LENGTH(32)"
  then consider "n < 8" | "8 \<le> n" "n < 16" | "16 \<le> n" "n < 24" | "24 \<le> n" "n < 32" by fastforce
  then show "bit (from_be_bytes (to_be_bytes x)) n \<longleftrightarrow> bit x n"
    by cases (simp_all add: to_be_bytes_def bit_simps less_diff_conv2)
qed

section \<open>Frames\<close>

definition MAX_PAYLOAD :: nat where
  "MAX_PAYLOAD = 65535 - 16"

record 'ts noise_transport =
  ts_read :: "'ts \<Rightarrow> u8 list \<Rightarrow> nat \<Rightarrow> (string + u8 list) \<times> 'ts"
  ts_write :: "'ts \<Rightarrow> u8 list \<Rightarrow> nat \<Rightarrow> (string + u8 list) \<times> 'ts"

definition read_frame_bytes ::
  "(nat \<Rightarrow> string) \<Rightarrow> u8 list \<Rightarrow> (u8 list \<times> u8 list, io_error) result" where
  "read_frame_bytes too_big stream =
     result_bind (read_exact 4 stream) (\<lambda>(len_buf, stream').
       let n = unat (from_be_bytes len_buf) in
       if n > MAX_PAYLOAD + 16 then Err (InvalidData (too_big n))
       else read_exact n stream')"

definition decrypt_frame ::
  "'ts noise_transport \<Rightarrow> 'ts \<Rightarrow> u8 list \<Rightarrow> (u8 list, io_error) result \<times> 'ts" where
  "decrypt_frame N ts ciphertext =
     (case ts_read N ts ciphertext (length ciphertext) of
        (Inl e, ts') \<Rightarrow> (Err (InvalidData (''noise decrypt: '' @ e)), ts')
      | (Inr pt, ts') \<Rightarrow> (Ok pt, ts'))"

definition encrypt_frame ::
  "(nat \<Rightarrow> string) \<Rightarrow> 'ts noise_transport \<Rightarrow> 'ts \<Rightarrow> u8 list \<Rightarrow> (u8 list, io_error) result \<times> 'ts" where
  "encrypt_frame too_big N ts payload =
     (if length payload > MAX_PAYLOAD then (Err (InvalidInput (too_big (length payload))), ts)
      else case ts_write N ts payload (length payload + 16) of
        (Inl e, ts') \<Rightarrow> (Err (OtherError (''noise encrypt: '' @ e)), ts')
      | (Inr ct, ts') \<Rightarrow> (Ok ct, ts'))"

text \<open>The bytes that \<open>write_frame_bytes\<close> writes; \<open>as u32\<close> truncates.\<close>

definition write_frame_bytes :: "u8 list \<Rightarrow> u8 list" where
  "write_frame_bytes ciphertext = to_be_bytes (of_nat (length ciphertext)) @ ciphertext"

section \<open>The contract of a frame format\<close>

locale framing =
  fixes enc :: "'a \<Rightarrow> u8 list"
    and dec :: "u8 list \<Rightarrow> ('a \<times> u8 list, 'e) result"
    and ok :: "'a \<Rightarrow> bool"
  assumes dec_enc: "ok x \<Longrightarrow> dec (enc x @ rest) = Ok (x, rest)"
    and dec_shrinks: "dec s = Ok (x, rest) \<Longrightarrow> length rest < length s"
begin

lemma enc_prefix_free:
  assumes "ok x" "ok y" "enc x @ s = enc y @ t"
  shows "x = y \<and> s = t"
proof -
  have "Ok (x, s) = dec (enc y @ t)" unfolding assms(3) [symmetric] by (rule dec_enc [OF assms(1), symmetric])
  also have "\<dots> = Ok (y, t)" by (rule dec_enc [OF assms(2)])
  finally show ?thesis by simp
qed

lemma enc_inj: "ok x \<Longrightarrow> ok y \<Longrightarrow> enc x = enc y \<Longrightarrow> x = y"
  using enc_prefix_free [of x y "[]" "[]"] by simp

lemma concat_enc_inj:
  "\<forall>x \<in> set xs. ok x \<Longrightarrow> \<forall>y \<in> set ys. ok y \<Longrightarrow> concat (map enc xs) = concat (map enc ys) \<Longrightarrow> xs = ys"
proof (induction xs arbitrary: ys)
  case Nil
  then have "concat (map enc ys) = []" by simp
  moreover have "enc y \<noteq> []" if "ok y" for y
    using dec_shrinks [OF dec_enc [OF that, of "[]"]] by auto
  ultimately show ?case using Nil.prems(2) by (cases ys) auto
next
  case (Cons x xs)
  show ?case
  proof (cases ys)
    case Nil
    have "enc x \<noteq> []" using dec_shrinks [OF dec_enc [of x "[]"]] Cons.prems(1) by auto
    with Cons.prems(3) Nil show ?thesis by simp
  next
    case (Cons y ys')
    with Cons.prems enc_prefix_free [of x y "concat (map enc xs)" "concat (map enc ys')"]
    have "x = y" "concat (map enc xs) = concat (map enc ys')" by auto
    with Cons.IH [of ys'] Cons Cons.prems show ?thesis by simp
  qed
qed

end

lemma unat_length: "n < 2 ^ 32 \<Longrightarrow> unat (of_nat n :: u32) = n"
  by (simp add: unsigned_of_nat take_bit_nat_eq_self)

lemma read_write_frame:
  "length ct \<le> 65535 \<Longrightarrow> read_frame_bytes too_big (write_frame_bytes ct @ rest) = Ok (ct, rest)"
  by (simp add: read_frame_bytes_def write_frame_bytes_def read_exact_def unat_length MAX_PAYLOAD_def Let_def)

lemma read_frame_shrinks: "read_frame_bytes too_big s = Ok (ct, rest) \<Longrightarrow> length rest < length s"
  by (auto simp: read_frame_bytes_def read_exact_def Let_def split: if_splits)

interpretation frames: framing write_frame_bytes "read_frame_bytes too_big" "\<lambda>ct. length ct \<le> 65535"
  by unfold_locales (auto simp: read_write_frame dest: read_frame_shrinks)

section \<open>Properties\<close>

text \<open>
  C38. Frames are self-delimiting. A ciphertext of at most 65535 bytes is read back exactly, whatever
  bytes follow it; a connection that ends anywhere inside the frame gives the end-of-file error, never
  a shorter ciphertext; and a longer ciphertext, whose length still fits in 32 bits, is rejected by
  the reader.
\<close>

theorem frame_codec:
  "(length ct \<le> 65535 \<longrightarrow> read_frame_bytes too_big (write_frame_bytes ct @ rest) = Ok (ct, rest)) \<and>
   (length ct \<le> 65535 \<and> k < length (write_frame_bytes ct) \<longrightarrow>
      read_frame_bytes too_big (take k (write_frame_bytes ct)) = Err UnexpectedEof) \<and>
   (65535 < length ct \<and> length ct < 2 ^ 32 \<longrightarrow>
      read_frame_bytes too_big (write_frame_bytes ct @ rest) = Err (InvalidData (too_big (length ct))))"
proof (intro conjI impI)
  assume ct: "length ct \<le> 65535 \<and> k < length (write_frame_bytes ct)"
  show "read_frame_bytes too_big (take k (write_frame_bytes ct)) = Err UnexpectedEof"
  proof (cases "k < 4")
    case True
    then show ?thesis using ct by (simp add: read_frame_bytes_def read_exact_def)
  next
    case False
    then show ?thesis using ct
      by (auto simp: read_frame_bytes_def read_exact_def write_frame_bytes_def unat_length MAX_PAYLOAD_def Let_def min_def)
  qed
next
  assume "65535 < length ct \<and> length ct < 2 ^ 32"
  then show "read_frame_bytes too_big (write_frame_bytes ct @ rest) = Err (InvalidData (too_big (length ct)))"
    by (simp add: read_frame_bytes_def write_frame_bytes_def read_exact_def unat_length MAX_PAYLOAD_def Let_def)
qed (rule read_write_frame)

theorem frame_codec_witness:
  "read_frame_bytes (\<lambda>n. ''too big'') (write_frame_bytes [1, 2, 3] @ [9]) = Ok ([1, 2, 3], [9]) \<and>
   read_frame_bytes (\<lambda>n. ''too big'') (take 5 (write_frame_bytes [1, 2, 3])) = Err UnexpectedEof"
  using frame_codec [of "[1, 2, 3]" "\<lambda>n. ''too big''" "[9]" 5] by (simp add: write_frame_bytes_def)

text \<open>What the transport documents: it never writes more bytes than its buffer holds.\<close>

definition buffer_law :: "'ts noise_transport \<Rightarrow> bool" where
  "buffer_law N \<longleftrightarrow> (\<forall>ts p n ct ts'. ts_write N ts p n = (Inr ct, ts') \<longrightarrow> length ct \<le> n)"

lemma encrypted_fits:
  "buffer_law N \<Longrightarrow> encrypt_frame too_big N ts p = (Ok ct, ts') \<Longrightarrow> length ct \<le> 65535"
  by (force simp: encrypt_frame_def buffer_law_def MAX_PAYLOAD_def split: if_splits prod.splits sum.splits)

end
