(* ===== verification/Net_Handshake.thy ===== *)
theory Net_Handshake
  imports Net_Codec
begin

text \<open>
  The Noise handshake of \<open>sapphire-net/src/handshake.rs\<close>. The \<open>HandshakeState\<close> of the
  \<open>snow\<close> crate is the parameter record \<open>snow_crate\<close>. Each side is a function of its secret key
  and of the bytes that the other side sends; it returns its outcome with the bytes that are left to
  read, and, also when it fails, the bytes it has written.
\<close>

section \<open>The messages\<close>

record ('hs, 'ts, 'o) snow_crate =
  build_initiator :: "32 bytes \<Rightarrow> 'o \<Rightarrow> string + 'hs"
  build_responder :: "32 bytes \<Rightarrow> 'o \<Rightarrow> string + 'hs"
  hs_write :: "'hs \<Rightarrow> u8 list \<Rightarrow> nat \<Rightarrow> (string + u8 list) \<times> 'hs"
  hs_read :: "'hs \<Rightarrow> u8 list \<Rightarrow> nat \<Rightarrow> (string + u8 list) \<times> 'hs"
  remote_static :: "'hs \<Rightarrow> u8 list option"
  into_transport :: "'hs \<Rightarrow> string + 'ts"
  generate_keypair :: "'o \<Rightarrow> (string + u8 list \<times> u8 list) \<times> 'o"

text \<open>A result together with the bytes written on the way to it, which an error does not take back.\<close>

type_synonym ('a, 'e) writing = "('a, 'e) result \<times> u8 list"

definition no_write :: "('a, 'e) result \<Rightarrow> ('a, 'e) writing" where
  "no_write r = (r, [])"

definition write_bind :: "('a, 'e) writing \<Rightarrow> ('a \<Rightarrow> ('b, 'e) writing) \<Rightarrow> ('b, 'e) writing" where
  "write_bind m f =
     (case m of
        (Ok x, out) \<Rightarrow> (case f x of (r, out') \<Rightarrow> (r, out @ out'))
      | (Err e, out) \<Rightarrow> (Err e, out)
      | (Panic, out) \<Rightarrow> (Panic, out))"

lemma write_bind_simps [simp]:
  "write_bind (Ok x, out) f = (fst (f x), out @ snd (f x))"
  "write_bind (Err e, out) f = (Err e, out)"
  "write_bind (Panic, out) f = (Panic, out)"
  "write_bind (no_write (Ok x)) f = f x"
  by (simp_all add: write_bind_def no_write_def split: prod.split)

definition write_msg ::
  "('hs, 'ts, 'o) snow_crate \<Rightarrow> 'hs \<Rightarrow> u8 list \<Rightarrow> ('hs, io_error) writing" where
  "write_msg N hs payload =
     (case hs_write N hs payload 65535 of
        (Inl e, hs') \<Rightarrow> (Err (OtherError (''handshake write: '' @ e)), [])
      | (Inr buf, hs') \<Rightarrow> (Ok hs', to_be_bytes (of_nat (length buf)) @ buf))"

text \<open>The two reads at the head of \<open>read_msg\<close>.\<close>

definition read_msg_bytes :: "u8 list \<Rightarrow> (u8 list \<times> u8 list, io_error) result" where
  "read_msg_bytes stream =
     result_bind (read_exact 4 stream) (\<lambda>(len_buf, stream').
       let n = unat (from_be_bytes len_buf) in
       if n > 65535 then Err (InvalidData ''handshake msg too big'') else read_exact n stream')"

definition read_msg ::
  "('hs, 'ts, 'o) snow_crate \<Rightarrow> 'hs \<Rightarrow> u8 list \<Rightarrow> (u8 list \<times> 'hs \<times> u8 list, io_error) result" where
  "read_msg N hs stream =
     result_bind (read_msg_bytes stream) (\<lambda>(buf, stream').
       case hs_read N hs buf (length buf) of
         (Inl e, hs') \<Rightarrow> Err (OtherError (''handshake read: '' @ e))
       | (Inr out, hs') \<Rightarrow> Ok (out, hs', stream'))"

section \<open>The two sides\<close>

definition finish ::
  "(nat \<Rightarrow> string) \<Rightarrow> ('hs, 'ts, 'o) snow_crate \<Rightarrow> 'hs \<Rightarrow> ('ts \<times> 32 bytes, io_error) result" where
  "finish bad_length N hs =
     result_bind (ok_or (OtherError ''no remote static after XX'') (remote_static N hs)) (\<lambda>rs.
       if length rs \<noteq> 32 then Err (OtherError (bad_length (length rs)))
       else
         result_bind (expect (try_into_bytes rs)) (\<lambda>remote.
         result_bind (map_err (\<lambda>e. OtherError (''noise transport: '' @ e)) (of_sum (into_transport N hs))) (\<lambda>ts.
           Ok (ts, remote))))"

definition run_initiator ::
  "(nat \<Rightarrow> string) \<Rightarrow> ('hs, 'ts, 'o) snow_crate \<Rightarrow> 32 bytes \<Rightarrow> 'o \<Rightarrow> u8 list \<Rightarrow>
   (('ts \<times> 32 bytes) \<times> u8 list, io_error) writing" where
  "run_initiator bad_length N secret os stream =
     write_bind (no_write (map_err (\<lambda>e. OtherError (''noise build: '' @ e)) (of_sum (build_initiator N secret os)))) (\<lambda>h0.
     write_bind (write_msg N h0 []) (\<lambda>h1.
     write_bind (no_write (read_msg N h1 stream)) (\<lambda>(_, h2, stream1).
     write_bind (write_msg N h2 []) (\<lambda>h3.
       no_write (result_bind (finish bad_length N h3) (\<lambda>r. Ok (r, stream1)))))))"

definition run_responder ::
  "(nat \<Rightarrow> string) \<Rightarrow> ('hs, 'ts, 'o) snow_crate \<Rightarrow> 32 bytes \<Rightarrow> 'o \<Rightarrow> u8 list \<Rightarrow>
   (('ts \<times> 32 bytes) \<times> u8 list, io_error) writing" where
  "run_responder bad_length N secret os stream =
     write_bind (no_write (map_err (\<lambda>e. OtherError (''noise build: '' @ e)) (of_sum (build_responder N secret os)))) (\<lambda>g0.
     write_bind (no_write (read_msg N g0 stream)) (\<lambda>(_, g1, stream1).
     write_bind (write_msg N g1 []) (\<lambda>g2.
     write_bind (no_write (read_msg N g2 stream1)) (\<lambda>(_, g3, stream2).
       no_write (result_bind (finish bad_length N g3) (\<lambda>r. Ok (r, stream2)))))))"

text \<open>\<open>copy_from_slice\<close> panics unless the lengths agree.\<close>

definition generate_static_keypair ::
  "('hs, 'ts, 'o) snow_crate \<Rightarrow> 'o \<Rightarrow> ((32 bytes \<times> 32 bytes) \<times> 'o, io_error) result" where
  "generate_static_keypair N os =
     (case generate_keypair N os of
        (Inl e, os') \<Rightarrow> Panic
      | (Inr (private, public), os') \<Rightarrow>
          result_bind (expect (try_into_bytes private)) (\<lambda>sk.
          result_bind (expect (try_into_bytes public)) (\<lambda>pk. Ok ((sk, pk), os'))))"

section \<open>The handshake of two honest sides\<close>

definition msg_frame :: "u8 list \<Rightarrow> u8 list" where
  "msg_frame m = to_be_bytes (of_nat (length m)) @ m"

lemma read_msg_frame: "length m \<le> 65535 \<Longrightarrow> read_msg_bytes (msg_frame m @ rest) = Ok (m, rest)"
  by (simp add: read_msg_bytes_def msg_frame_def read_exact_def unat_length Let_def)

interpretation messages: framing msg_frame read_msg_bytes "\<lambda>m. length m \<le> 65535"
proof unfold_locales
  show "read_msg_bytes s = Ok (x, rest) \<Longrightarrow> length rest < length s" for s x rest
    by (auto simp: read_msg_bytes_def read_exact_def Let_def split: if_splits)
qed (rule read_msg_frame)

text \<open>
  What \<open>snow\<close> documents of the XX pattern with static keys: the three messages are accepted in turn,
  none is longer than a Noise message may be, both sides then know the other's static public key and
  can enter the transport mode with matching transports.
\<close>

definition xx_law ::
  "('hs, 'ts, 'o) snow_crate \<Rightarrow> (32 bytes \<Rightarrow> 32 bytes) \<Rightarrow> ('ts \<Rightarrow> 'ts \<Rightarrow> bool) \<Rightarrow> bool" where
  "xx_law N public paired \<longleftrightarrow> (\<forall>si sr oi os. \<exists>h0 m1 h1 g0 p1 g1 m2 g2 p2 h2 m3 h3 p3 g3 ti tr.
     build_initiator N si oi = Inr h0 \<and> hs_write N h0 [] 65535 = (Inr m1, h1) \<and>
     build_responder N sr os = Inr g0 \<and> hs_read N g0 m1 (length m1) = (Inr p1, g1) \<and>
     hs_write N g1 [] 65535 = (Inr m2, g2) \<and> hs_read N h1 m2 (length m2) = (Inr p2, h2) \<and>
     hs_write N h2 [] 65535 = (Inr m3, h3) \<and> hs_read N g2 m3 (length m3) = (Inr p3, g3) \<and>
     length m1 \<le> 65535 \<and> length m2 \<le> 65535 \<and> length m3 \<le> 65535 \<and>
     remote_static N h3 = Some (to_list (public sr)) \<and> remote_static N g3 = Some (to_list (public si)) \<and>
     into_transport N h3 = Inr ti \<and> into_transport N g3 = Inr tr \<and> paired ti tr)"

text \<open>
  The handshake authenticates both sides: for any two secret keys there are byte streams such that
  each side, reading what the other wrote followed by any further bytes, finishes: the initiator
  learns the responder's public key, the responder the initiator's, they hold matching transports,
  and exactly the further bytes are left to read.
\<close>

lemma handshake_completes:
  assumes "xx_law N public paired"
  shows "\<exists>ti tr to_responder to_initiator. paired ti tr \<and>
    (\<forall>rest. run_initiator bad_length N si oi (to_initiator @ rest) = (Ok ((ti, public sr), rest), to_responder)) \<and>
    (\<forall>rest. run_responder bad_length N sr os (to_responder @ rest) = (Ok ((tr, public si), rest), to_initiator))"
proof -
  from assms [unfolded xx_law_def, rule_format, of si oi sr os]
  obtain h0 m1 h1 g0 p1 g1 m2 g2 p2 h2 m3 h3 p3 g3 ti tr where
    i: "build_initiator N si oi = Inr h0" "hs_write N h0 [] 65535 = (Inr m1, h1)"
      "hs_read N h1 m2 (length m2) = (Inr p2, h2)" "hs_write N h2 [] 65535 = (Inr m3, h3)"
    and r: "build_responder N sr os = Inr g0" "hs_read N g0 m1 (length m1) = (Inr p1, g1)"
      "hs_write N g1 [] 65535 = (Inr m2, g2)" "hs_read N g2 m3 (length m3) = (Inr p3, g3)"
    and len: "length m1 \<le> 65535" "length m2 \<le> 65535" "length m3 \<le> 65535"
    and st: "remote_static N h3 = Some (to_list (public sr))" "remote_static N g3 = Some (to_list (public si))"
      "into_transport N h3 = Inr ti" "into_transport N g3 = Inr tr" "paired ti tr"
    by (elim exE conjE)
  have w: "write_msg N h0 [] = (Ok h1, msg_frame m1)" "write_msg N h2 [] = (Ok h3, msg_frame m3)"
    "write_msg N g1 [] = (Ok g2, msg_frame m2)"
    using i r by (simp_all add: write_msg_def msg_frame_def)
  have rd: "read_msg N h1 (msg_frame m2 @ rest) = Ok (p2, h2, rest)" "read_msg N g0 (msg_frame m1 @ rest) = Ok (p1, g1, rest)"
    "read_msg N g2 (msg_frame m3 @ rest) = Ok (p3, g3, rest)" for rest
    using i r len by (simp_all add: read_msg_def read_msg_frame)
  have f: "finish bad_length N h3 = Ok (ti, public sr)" "finish bad_length N g3 = Ok (tr, public si)"
    using st by (simp_all add: finish_def)
  have "run_initiator bad_length N si oi (msg_frame m2 @ rest) = (Ok ((ti, public sr), rest), msg_frame m1 @ msg_frame m3)" for rest
    using i w rd f by (simp add: run_initiator_def no_write_def)
  moreover have "run_responder bad_length N sr os ((msg_frame m1 @ msg_frame m3) @ rest) =
      (Ok ((tr, public si), rest), msg_frame m2)" for rest
    using r w rd f by (simp add: run_responder_def no_write_def)
  ultimately show ?thesis using st(5) by blast
qed

section \<open>A small handshake for the witness\<close>

text \<open>Public keys are the secret keys; each side sends its key and remembers what it read.\<close>

definition toy_snow :: "(32 bytes \<times> u8 list, 32 bytes \<times> u8 list, nat) snow_crate" where
  "toy_snow = \<lparr>build_initiator = (\<lambda>s os. Inr (s, [])), build_responder = (\<lambda>s os. Inr (s, [])),
     hs_write = (\<lambda>(s, r) p n. (Inr (to_list s), (s, r))), hs_read = (\<lambda>(s, r) m n. (Inr [], (s, m))),
     remote_static = (\<lambda>(s, r). Some r), into_transport = Inr, generate_keypair = (\<lambda>os. (Inl ''unused'', os))\<rparr>"

lemma toy_xx: "xx_law toy_snow (\<lambda>s. s) (\<lambda>t u. snd t = to_list (fst u) \<and> snd u = to_list (fst t))"
  by (simp add: xx_law_def toy_snow_def)

end
