(* ===== verification/Net_Mesh.thy ===== *)
theory Net_Mesh
  imports Net_Handshake BTree
begin

text \<open>
  The validator mesh of \<open>sapphire-net/src/mesh.rs\<close>: who dials whom, the authentication of a
  connection, the retries of a dialer, and the two tasks of a connection. The sockets, the channels
  and the scheduler of \<open>tokio\<close> are not modelled: a connection is the bytes that arrive on it, the
  broadcast channel is the list of what its receiver yields, and a limit says how many payloads
  (frames) the other end of a channel (socket) takes before it is closed. The reader and the writer
  of a connection use different halves of the transport and are modelled one by one.
\<close>

section \<open>Configuration and dialing\<close>

record 'addr peer_config =
  addr :: 'addr
  static_public :: "32 bytes"

record 'addr mesh_config =
  local_static_secret :: "32 bytes"
  local_static_public :: "32 bytes"
  bind_addr :: 'addr
  peers :: "'addr peer_config list"

datatype mesh_error =
    MeshIo io_error
  | MeshSerde string
  | UnknownPeer "32 bytes"

type_synonym key_set = "32 bytes \<rightharpoonup> unit"

definition allowed_keys :: "'addr peer_config list \<Rightarrow> key_set" where
  "allowed_keys ps = map_of (map (\<lambda>p. (static_public p, ())) ps)"

text \<open>The peers for which \<open>Mesh::start\<close> spawns a dialer.\<close>

definition dialed :: "32 bytes \<Rightarrow> 'addr peer_config list \<Rightarrow> 'addr peer_config list" where
  "dialed own ps = filter (\<lambda>p. \<not> static_public p \<le> own) ps"

record 'addr mesh =
  mesh_public :: "32 bytes"
  mesh_allowed :: key_set
  mesh_dialers :: "'addr peer_config list"

text \<open>\<open>Mesh::start\<close>, over the outcome of binding the listener.\<close>

definition mesh_start ::
  "('addr \<Rightarrow> io_error + unit) \<Rightarrow> 'addr mesh_config \<Rightarrow> ('addr mesh, mesh_error) result" where
  "mesh_start bind cfg =
     result_bind (map_err MeshIo (of_sum (bind (bind_addr cfg)))) (\<lambda>_.
       Ok \<lparr>mesh_public = local_static_public cfg, mesh_allowed = allowed_keys (peers cfg),
           mesh_dialers = dialed (local_static_public cfg) (peers cfg)\<rparr>)"

text \<open>\<open>Mesh::broadcast\<close>, over the outcome of the channel's \<open>send\<close>.\<close>

definition broadcast :: "(u8 list \<Rightarrow> unit + nat) \<Rightarrow> u8 list \<Rightarrow> nat" where
  "broadcast send payload = (case send payload of Inl _ \<Rightarrow> 0 | Inr n \<Rightarrow> n)"

section \<open>The two tasks of a connection\<close>

function reader_task ::
  "(nat \<Rightarrow> string) \<Rightarrow> 'ts noise_transport \<Rightarrow> 'ts \<Rightarrow> nat \<Rightarrow> u8 list \<Rightarrow> u8 list list" where
  "reader_task too_big N ts limit stream =
     (case read_frame_bytes too_big stream of
        Ok (ct, rest) \<Rightarrow>
          (case decrypt_frame N ts ct of
             (Ok pt, ts') \<Rightarrow> (if limit = 0 then [] else pt # reader_task too_big N ts' (limit - 1) rest)
           | (Err _, _) \<Rightarrow> []
           | (Panic, _) \<Rightarrow> [])
      | Err _ \<Rightarrow> []
      | Panic \<Rightarrow> [])"
  by pat_completeness auto
termination
  by (relation "measure (\<lambda>(_, _, _, _, s). length s)") (auto dest: read_frame_shrinks)

declare reader_task.simps [simp del]

datatype received = Payload "u8 list" | Lagged nat | Closed

fun writer_task ::
  "(nat \<Rightarrow> string) \<Rightarrow> 'ts noise_transport \<Rightarrow> 'ts \<Rightarrow> nat \<Rightarrow> received list \<Rightarrow> u8 list" where
  "writer_task too_big N ts limit [] = []"
| "writer_task too_big N ts limit (Closed # es) = []"
| "writer_task too_big N ts limit (Lagged n # es) = writer_task too_big N ts limit es"
| "writer_task too_big N ts limit (Payload p # es) =
     (case encrypt_frame too_big N ts p of
        (Ok ct, ts') \<Rightarrow>
          (if limit = 0 then [] else write_frame_bytes ct @ writer_task too_big N ts' (limit - 1) es)
      | (Err _, ts') \<Rightarrow> writer_task too_big N ts' limit es
      | (Panic, ts') \<Rightarrow> [])"

text \<open>What a connection delivers to the node and writes to the wire.\<close>

definition drive_connection ::
  "(nat \<Rightarrow> string) \<Rightarrow> 'ts noise_transport \<Rightarrow> 'ts \<Rightarrow> nat \<Rightarrow> nat \<Rightarrow> u8 list \<Rightarrow> received list \<Rightarrow>
   u8 list list \<times> u8 list" where
  "drive_connection too_big N ts limit_in limit_out stream es =
     (reader_task too_big N ts limit_in stream, writer_task too_big N ts limit_out es)"

section \<open>Connecting and authenticating\<close>

text \<open>The loop of \<open>retrying_connect\<close> over the outcomes of the successive attempts, with the delays
  (in milliseconds) it slept.\<close>

fun retry_loop ::
  "(nat \<Rightarrow> io_error + 'c) \<Rightarrow> nat \<Rightarrow> nat \<Rightarrow> nat \<Rightarrow> nat list \<Rightarrow> ('c, io_error) result \<times> nat list" where
  "retry_loop connect 0 k delay slept = (of_sum (connect k), slept)"
| "retry_loop connect (Suc n) k delay slept =
     (case connect k of
        Inr s \<Rightarrow> (Ok s, slept)
      | Inl _ \<Rightarrow> retry_loop connect n (Suc k) (min (delay * 2) 500) (slept @ [delay]))"

definition retrying_connect :: "(nat \<Rightarrow> io_error + 'c) \<Rightarrow> ('c, io_error) result \<times> nat list" where
  "retrying_connect connect = retry_loop connect 20 0 20 []"

text \<open>What came of a connection: the result of its task, the payloads it delivered to the node, and the
  bytes it wrote to the stream. An error takes neither back.\<close>

type_synonym conn_result = "(unit, mesh_error) result \<times> u8 list list \<times> u8 list"

definition serve_connection ::
  "(nat \<Rightarrow> string) \<Rightarrow> 'ts noise_transport \<Rightarrow> nat \<Rightarrow> nat \<Rightarrow> received list \<Rightarrow> u8 list \<Rightarrow> 'ts \<Rightarrow> u8 list \<Rightarrow> conn_result" where
  "serve_connection too_big N limit_in limit_out es out ts rest =
     (let (delivered, written) = drive_connection too_big N ts limit_in limit_out rest es
      in (Ok (), delivered, out @ written))"

definition serve_initiator ::
  "(nat \<Rightarrow> string) \<Rightarrow> (nat \<Rightarrow> string) \<Rightarrow> ('hs, 'ts, 'o) snow_crate \<Rightarrow> 'ts noise_transport \<Rightarrow>
   'addr peer_config \<Rightarrow> 32 bytes \<Rightarrow> 'o \<Rightarrow> key_set \<Rightarrow> ('addr \<Rightarrow> nat \<Rightarrow> io_error + u8 list) \<Rightarrow>
   nat \<Rightarrow> nat \<Rightarrow> received list \<Rightarrow> conn_result" where
  "serve_initiator too_big bad_length H N peer secret os allowed connect limit_in limit_out es =
     (case fst (retrying_connect (connect (addr peer))) of
        Err e \<Rightarrow> (Err (MeshIo e), [], [])
      | Panic \<Rightarrow> (Panic, [], [])
      | Ok stream \<Rightarrow>
          (case run_initiator bad_length H secret os stream of
             (Err e, out) \<Rightarrow> (Err (MeshIo e), [], out)
           | (Panic, out) \<Rightarrow> (Panic, [], out)
           | (Ok ((ts, remote), rest), out) \<Rightarrow>
               if remote \<noteq> static_public peer then (Err (UnknownPeer remote), [], out)
               else if allowed remote = None then (Err (UnknownPeer remote), [], out)
               else serve_connection too_big N limit_in limit_out es out ts rest))"

definition serve_responder ::
  "(nat \<Rightarrow> string) \<Rightarrow> (nat \<Rightarrow> string) \<Rightarrow> ('hs, 'ts, 'o) snow_crate \<Rightarrow> 'ts noise_transport \<Rightarrow>
   u8 list \<Rightarrow> 32 bytes \<Rightarrow> 'o \<Rightarrow> key_set \<Rightarrow> nat \<Rightarrow> nat \<Rightarrow> received list \<Rightarrow> conn_result" where
  "serve_responder too_big bad_length H N stream secret os allowed limit_in limit_out es =
     (case run_responder bad_length H secret os stream of
        (Err e, out) \<Rightarrow> (Err (MeshIo e), [], out)
      | (Panic, out) \<Rightarrow> (Panic, [], out)
      | (Ok ((ts, remote), rest), out) \<Rightarrow>
          if allowed remote = None then (Err (UnknownPeer remote), [], out)
          else serve_connection too_big N limit_in limit_out es out ts rest)"

end
