(* ===== verification/Net_Props.thy ===== *)
theory Net_Props
  imports Net_Mesh
begin

text \<open>
  What the mesh guarantees: every pair of validators is joined by exactly one dialed connection, a
  connection carries the payloads of both sides in order to the other side, only configured peers get
  that far, and a dialer gives up after a bounded number of attempts.
\<close>

section \<open>A connection delivers\<close>

text \<open>What the transport documents: a payload within the limit is encrypted with at most sixteen bytes
  of overhead, and the other side's transport, in step, decrypts it.\<close>

definition transport_law :: "'ts noise_transport \<Rightarrow> ('ts \<Rightarrow> 'ts \<Rightarrow> bool) \<Rightarrow> bool" where
  "transport_law N paired \<longleftrightarrow> (\<forall>w r p. paired w r \<and> length p \<le> MAX_PAYLOAD \<longrightarrow>
     (\<exists>ct w' r'. ts_write N w p (length p + 16) = (Inr ct, w') \<and> length ct \<le> length p + 16 \<and>
        ts_read N r ct (length ct) = (Inr p, r') \<and> paired w' r'))"

text \<open>The payloads a writer puts on the wire: those within the limit, until the channel closes.\<close>

fun carried :: "received list \<Rightarrow> u8 list list" where
  "carried [] = []"
| "carried (Closed # es) = []"
| "carried (Lagged n # es) = carried es"
| "carried (Payload p # es) = (if length p \<le> MAX_PAYLOAD then p # carried es else carried es)"

lemma read_empty: "reader_task too_big N ts limit [] = []"
  by (simp add: reader_task.simps read_frame_bytes_def read_exact_def)

lemma connection_delivers:
  assumes law: "transport_law N paired" and "paired w r" "length es \<le> limit_out" "length es \<le> limit_in"
  shows "reader_task too_big N r limit_in (writer_task too_big' N w limit_out es) = carried es"
  using assms(2-)
proof (induction es arbitrary: w r limit_out limit_in)
  case Nil
  then show ?case by (simp add: read_empty)
next
  case (Cons e es)
  show ?case
  proof (cases e)
    case (Payload p)
    show ?thesis
    proof (cases "length p \<le> MAX_PAYLOAD")
      case True
      with law Cons.prems(1) obtain ct w' r' where ct: "ts_write N w p (length p + 16) = (Inr ct, w')"
        "length ct \<le> length p + 16" "ts_read N r ct (length ct) = (Inr p, r')" "paired w' r'"
        unfolding transport_law_def by blast
      have len: "length ct \<le> 65535" using ct(2) True by (simp add: MAX_PAYLOAD_def)
      have enc: "encrypt_frame too_big' N w p = (Ok ct, w')" using ct(1) True by (simp add: encrypt_frame_def)
      have dec: "decrypt_frame N r ct = (Ok p, r')" using ct(3) by (simp add: decrypt_frame_def)
      have "writer_task too_big' N w limit_out (e # es) =
          write_frame_bytes ct @ writer_task too_big' N w' (limit_out - 1) es"
        using enc Cons.prems(2) Payload by simp
      moreover have "reader_task too_big N r limit_in (write_frame_bytes ct @ s) =
          p # reader_task too_big N r' (limit_in - 1) s" for s
        using dec Cons.prems(3) read_write_frame [OF len, of too_big s]
        by (subst reader_task.simps) simp
      ultimately show ?thesis
        using Cons.IH [OF ct(4), of "limit_out - 1" "limit_in - 1"] Cons.prems Payload True by simp
    next
      case False
      with Cons Payload show ?thesis by (simp add: encrypt_frame_def)
    qed
  qed (use Cons in \<open>auto simp: read_empty\<close>)
qed

lemma allowed_key_iff: "allowed_keys ks k \<noteq> None \<longleftrightarrow> k \<in> static_public ` set ks"
  by (force simp: allowed_keys_def map_of_eq_None_iff)

text \<open>
  A link between two validators carries both sides' broadcasts. Let the Noise library behave as
  documented. If a validator dials another, each has the other's key among its peers and the dialer's
  entry has the responder's key, then there are two byte streams, one per direction, such that with
  each side reading what the other side wrote, both authenticate, and each delivers to its node
  exactly the payloads of the other side's channel that respect the size limit, in order, up to the
  closing of that channel. The responder does so for every configured peer, also for one whose key is
  greater than its own.
\<close>

lemma link_delivers:
  assumes xx: "xx_law H public paired" and sym: "symp paired" and law: "transport_law N paired"
    and keys: "public sr = static_public peer" "public sr \<in> static_public ` set ps" "public si \<in> static_public ` set qs"
    and limits: "length es \<le> lout" "length es \<le> rin" "length fs \<le> rout" "length fs \<le> lin"
  shows "\<exists>to_initiator to_responder.
    (\<forall>connect. connect (addr peer) 0 = Inr to_initiator \<longrightarrow>
      serve_initiator too_big bad_length H N peer si oi (allowed_keys ps) connect lin lout es =
        (Ok (), carried fs, to_responder)) \<and>
    serve_responder too_big bad_length H N to_responder sr os (allowed_keys qs) rin rout fs =
      (Ok (), carried es, to_initiator)"
proof -
  from handshake_completes [OF xx] obtain ti tr out_i out_r where pair: "paired ti tr"
    and init: "\<And>rest. run_initiator bad_length H si oi (out_r @ rest) = (Ok ((ti, public sr), rest), out_i)"
    and resp: "\<And>rest. run_responder bad_length H sr os (out_i @ rest) = (Ok ((tr, public si), rest), out_r)"
    by blast
  let ?to_responder = "out_i @ writer_task too_big N ti lout es" and ?to_initiator = "out_r @ writer_task too_big N tr rout fs"
  have read: "reader_task too_big N ti lin (writer_task too_big N tr rout fs) = carried fs"
    "reader_task too_big N tr rin (writer_task too_big N ti lout es) = carried es"
    using connection_delivers [OF law sympD [OF sym pair] limits(3,4)] connection_delivers [OF law pair limits(1,2)] by simp_all
  have known: "allowed_keys ps (public sr) \<noteq> None" "allowed_keys qs (public si) \<noteq> None"
    unfolding allowed_key_iff using keys(2,3) .
  have "serve_initiator too_big bad_length H N peer si oi (allowed_keys ps) connect lin lout es =
      (Ok (), carried fs, ?to_responder)" if "connect (addr peer) 0 = Inr ?to_initiator" for connect
  proof -
    have "fst (retrying_connect (connect (addr peer))) = Ok ?to_initiator"
      using that by (simp add: retrying_connect_def numeral_eq_Suc)
    then show ?thesis
      using init known keys(1) read by (simp add: serve_initiator_def serve_connection_def drive_connection_def)
  qed
  moreover have "serve_responder too_big bad_length H N ?to_responder sr os (allowed_keys qs) rin rout fs =
      (Ok (), carried es, ?to_initiator)"
    using resp known read by (simp add: serve_responder_def serve_connection_def drive_connection_def)
  ultimately show ?thesis by blast
qed

text \<open>A transport for the witness: a tag byte in front of the payload.\<close>

definition toy_transport :: "(32 bytes \<times> u8 list) noise_transport" where
  "toy_transport = \<lparr>ts_read = (\<lambda>t ct n. (case ct of [] \<Rightarrow> Inl ''short'' | b # p \<Rightarrow> if b = 1 then Inr p else Inl ''tag'', t)),
     ts_write = (\<lambda>t p n. (Inr (1 # p), t))\<rparr>"

section \<open>Only configured peers\<close>

lemma allowed_None: "allowed_keys ks k = None \<longleftrightarrow> k \<notin> static_public ` set ks"
  using allowed_key_iff [of ks k] by blast

text \<open>A handshake that ends with one of the given keys.\<close>

definition authenticated :: "(('ts \<times> 32 bytes) \<times> u8 list, io_error) writing \<Rightarrow> 32 bytes set \<Rightarrow> bool" where
  "authenticated hs ks \<longleftrightarrow> (\<exists>ts k rest. fst hs = Ok ((ts, k), rest) \<and> k \<in> ks)"

text \<open>What a connection does when its handshake does not end with one of the keys.\<close>

definition turned_away :: "(('ts \<times> 32 bytes) \<times> u8 list, io_error) writing \<Rightarrow> conn_result" where
  "turned_away hs =
     (case fst hs of Ok ((_, k), _) \<Rightarrow> Err (UnknownPeer k) | Err e \<Rightarrow> Err (MeshIo e) | Panic \<Rightarrow> Panic, [], snd hs)"

lemma responder_turns_away:
  assumes "\<not> authenticated (run_responder bad_length H sr os stream) (static_public ` set ps)"
  shows "serve_responder too_big bad_length H N stream sr os (allowed_keys ps) lin lout es =
    turned_away (run_responder bad_length H sr os stream)"
  using assms
  by (auto simp: serve_responder_def allowed_None authenticated_def turned_away_def split: result.splits prod.splits)

lemma initiator_turns_away:
  assumes "fst (retrying_connect (connect (addr peer))) = Ok stream"
    and "\<not> authenticated (run_initiator bad_length H si oi stream) ({static_public peer} \<inter> static_public ` set ps)"
  shows "serve_initiator too_big bad_length H N peer si oi (allowed_keys ps) connect lin lout es =
    turned_away (run_initiator bad_length H si oi stream)"
  using assms
  by (auto simp: serve_initiator_def allowed_None authenticated_def turned_away_def split: result.splits prod.splits)

section \<open>The dialing topology\<close>

lemma dial_pairs:
  fixes K :: "'k :: linorder set"
  assumes "finite K"
  shows "2 * (\<Sum>k \<in> K. card {j \<in> K. k < j}) = card K * (card K - 1)"
  using assms
proof (induction rule: finite_linorder_max_induct)
  case (insert b A)
  have "{j \<in> insert b A. b < j} = {}" using insert.hyps(2) by auto
  moreover have "card {j \<in> insert b A. k < j} = Suc (card {j \<in> A. k < j})" if "k \<in> A" for k
  proof -
    have "{j \<in> insert b A. k < j} = insert b {j \<in> A. k < j}" using insert.hyps(2) that by auto
    moreover have "b \<notin> A" using insert.hyps(2) by auto
    ultimately show ?thesis using insert.hyps(1) by simp
  qed
  moreover have "b \<notin> A" using insert.hyps(2) by auto
  ultimately have "(\<Sum>k \<in> insert b A. card {j \<in> insert b A. k < j}) = (\<Sum>k \<in> A. card {j \<in> A. k < j}) + card A"
    using insert.hyps(1) unfolding sum_Suc [symmetric] by (subst sum.insert) (auto intro: sum.cong simp del: Suc_eq_plus1)
  then show ?case using insert.IH \<open>b \<notin> A\<close> insert.hyps(1) by (cases "card A") (auto simp: algebra_simps)
qed simp

text \<open>Every validator lists all the others, once each.\<close>

definition full_mesh :: "'addr mesh_config list \<Rightarrow> bool" where
  "full_mesh cfgs \<longleftrightarrow> distinct (map local_static_public cfgs) \<and>
     (\<forall>c \<in> set cfgs. distinct (map static_public (peers c)) \<and>
        set (map static_public (peers c)) = set (map local_static_public cfgs) - {local_static_public c})"

lemma length_dialed:
  assumes "full_mesh cfgs" "c \<in> set cfgs"
  shows "length (dialed (local_static_public c) (peers c)) =
    card {j \<in> set (map local_static_public cfgs). local_static_public c < j}"
proof -
  have d: "distinct (map static_public (dialed (local_static_public c) (peers c)))"
    using assms by (auto simp: full_mesh_def dialed_def distinct_map_filter)
  have "set (map static_public (dialed (local_static_public c) (peers c))) =
      {j \<in> set (map static_public (peers c)). local_static_public c < j}"
    by (auto simp: dialed_def not_le)
  also have "\<dots> = {j \<in> set (map local_static_public cfgs). local_static_public c < j}"
    using assms unfolding full_mesh_def by auto
  finally show ?thesis using distinct_card [OF d] by simp
qed

text \<open>
  In a mesh of \<open>n\<close> validators that list each other, the validators together dial exactly
  \<open>n(n - 1)/2\<close> connections, and of any two validators exactly one dials the other.
\<close>

lemma dial_topology:
  assumes full: "full_mesh cfgs"
  shows "2 * (\<Sum>c \<leftarrow> cfgs. length (dialed (local_static_public c) (peers c))) = length cfgs * (length cfgs - 1) \<and>
    (\<forall>a \<in> set cfgs. \<forall>b \<in> set cfgs. local_static_public a \<noteq> local_static_public b \<longrightarrow>
      (local_static_public b \<in> static_public ` set (dialed (local_static_public a) (peers a)) \<longleftrightarrow>
       local_static_public a \<notin> static_public ` set (dialed (local_static_public b) (peers b))))"
proof (intro conjI ballI impI)
  let ?K = "set (map local_static_public cfgs)"
  have d: "distinct (map local_static_public cfgs)" using full by (simp add: full_mesh_def)
  have "(\<Sum>c \<leftarrow> cfgs. length (dialed (local_static_public c) (peers c))) =
      (\<Sum>k \<leftarrow> map local_static_public cfgs. card {j \<in> ?K. k < j})"
    unfolding map_map comp_def by (rule arg_cong [of _ _ sum_list], rule map_cong) (simp_all add: length_dialed [OF full])
  also have "\<dots> = (\<Sum>k \<in> ?K. card {j \<in> ?K. k < j})" using d by (rule sum_list_distinct_conv_sum_set)
  finally show "2 * (\<Sum>c \<leftarrow> cfgs. length (dialed (local_static_public c) (peers c))) = length cfgs * (length cfgs - 1)"
    using dial_pairs [of ?K] distinct_card [OF d] by simp
next
  fix a b
  assume ab: "a \<in> set cfgs" "b \<in> set cfgs" "local_static_public a \<noteq> local_static_public b"
  have dial: "k \<in> static_public ` set (dialed (local_static_public c) (peers c)) \<longleftrightarrow>
      k \<in> set (map static_public (peers c)) \<and> local_static_public c < k" for k c
    by (auto simp: dialed_def not_le)
  have "local_static_public b \<in> set (map static_public (peers a))" "local_static_public a \<in> set (map static_public (peers b))"
    using full ab unfolding full_mesh_def by auto
  then show "local_static_public b \<in> static_public ` set (dialed (local_static_public a) (peers a)) \<longleftrightarrow>
      local_static_public a \<notin> static_public ` set (dialed (local_static_public b) (peers b))"
    unfolding dial using ab(3) by (metis less_asym' neqE)
qed

section \<open>The dialer gives up\<close>

fun backoff :: "nat \<Rightarrow> nat \<Rightarrow> nat list" where
  "backoff 0 d = []"
| "backoff (Suc n) d = d # backoff n (min (d * 2) 500)"

lemma retry_loop_spec:
  "retry_loop connect n k d slept =
     (case find (\<lambda>j. \<not> isl (connect j)) [k..<k + n] of
        Some j \<Rightarrow> (of_sum (connect j), slept @ take (j - k) (backoff n d))
      | None \<Rightarrow> (of_sum (connect (k + n)), slept @ backoff n d))"
proof (induction n arbitrary: k d slept)
  case (Suc n)
  have up: "[k..<k + Suc n] = k # [Suc k..<Suc k + n]" by (simp add: upt_rec)
  have "Suc k \<le> j" if "find (\<lambda>j. \<not> isl (connect j)) [Suc k..<Suc k + n] = Some j" for j
    using that unfolding find_Some_iff by (metis atLeastLessThan_iff nth_mem set_upt)
  then show ?case
    unfolding up using Suc by (cases "connect k") (auto simp: take_Cons' Suc_diff_le split: option.splits)
qed simp

text \<open>
  C39. A dialer tries at most 21 times: it returns the first connection that succeeds among the first
  twenty attempts, otherwise the outcome of the twenty-first, and it sleeps 20, 40, 80, 160, 320 and
  then 500 milliseconds between the attempts, in total at most 8120 milliseconds.
\<close>

theorem retrying_connect_bounded:
  "retrying_connect connect =
     (case find (\<lambda>j. \<not> isl (connect j)) [0..<20] of
        Some j \<Rightarrow> (of_sum (connect j), take j ([20, 40, 80, 160, 320] @ replicate 15 500))
      | None \<Rightarrow> (of_sum (connect 20), [20, 40, 80, 160, 320] @ replicate 15 500)) \<and>
   sum_list (snd (retrying_connect connect)) \<le> 8120"
proof -
  let ?ds = "[20, 40, 80, 160, 320] @ replicate 15 (500 :: nat)"
  have b: "backoff 20 20 = ?ds" by (simp add: numeral_eq_Suc)
  have "sum_list (take j ?ds) \<le> sum_list ?ds" for j
    using sum_list_append [of "take j ?ds" "drop j ?ds"] by (metis append_take_drop_id le_add1)
  moreover have "sum_list ?ds = 8120" by (simp add: sum_list_replicate)
  ultimately show ?thesis
    unfolding retrying_connect_def retry_loop_spec b by (auto split: option.splits simp del: append_Cons)
qed

end
