(* ===== verification/Net_Run.thy ===== *)
theory Net_Run
  imports Net_Props
begin

text \<open>
  The running mesh of \<open>sapphire-net/src/mesh.rs\<close>: the listener's loop and the dialers that \<open>Mesh::start\<close>
  spawns, each connection in a task of its own, and what a fully configured mesh gives every pair of
  validators. What the runtime hands a task is an argument: the outcome of each \<open>accept\<close>, the randomness
  of a handshake, what a subscription to the broadcast channel yields.
\<close>

section \<open>The tasks of a mesh\<close>

definition mesh_local_static_public :: "'addr mesh \<Rightarrow> 32 bytes" where
  "mesh_local_static_public m = mesh_public m"

text \<open>What a connection task is given: randomness, the capacities of the channel to the node and of the
  socket, and what its subscription yields.\<close>

record 'o task_input =
  randomness :: 'o
  takes_in :: nat
  takes_out :: nat
  yields :: "received list"

text \<open>The loop of the listener task: a failed \<open>accept\<close> is skipped, an accepted stream gets its own task,
  whose error is only logged. The list is the results of the tasks it has spawned.\<close>

fun accept_loop ::
  "(nat \<Rightarrow> string) \<Rightarrow> (nat \<Rightarrow> string) \<Rightarrow> ('hs, 'ts, 'o) snow_crate \<Rightarrow> 'ts noise_transport \<Rightarrow> 32 bytes \<Rightarrow> key_set \<Rightarrow>
   (io_error + u8 list \<times> 'o task_input) list \<Rightarrow> conn_result list" where
  "accept_loop too_big bad_length H N secret allowed [] = []"
| "accept_loop too_big bad_length H N secret allowed (Inl e # as) = accept_loop too_big bad_length H N secret allowed as"
| "accept_loop too_big bad_length H N secret allowed (Inr (stream, i) # as) =
     serve_responder too_big bad_length H N stream secret (randomness i) allowed (takes_in i) (takes_out i) (yields i) #
     accept_loop too_big bad_length H N secret allowed as"

text \<open>The loop over the peers: an entry whose key is not greater than the own key is skipped.\<close>

fun dial_loop ::
  "(nat \<Rightarrow> string) \<Rightarrow> (nat \<Rightarrow> string) \<Rightarrow> ('hs, 'ts, 'o) snow_crate \<Rightarrow> 'ts noise_transport \<Rightarrow> 32 bytes \<Rightarrow> 32 bytes \<Rightarrow>
   key_set \<Rightarrow> ('addr \<Rightarrow> nat \<Rightarrow> io_error + u8 list) \<Rightarrow> ('addr peer_config \<Rightarrow> 'o task_input) \<Rightarrow> 'addr peer_config list \<Rightarrow>
   conn_result list" where
  "dial_loop too_big bad_length H N secret own allowed connect inp [] = []"
| "dial_loop too_big bad_length H N secret own allowed connect inp (peer # ps) =
     (if static_public peer \<le> own then dial_loop too_big bad_length H N secret own allowed connect inp ps
      else serve_initiator too_big bad_length H N peer secret (randomness (inp peer)) allowed connect
             (takes_in (inp peer)) (takes_out (inp peer)) (yields (inp peer)) #
           dial_loop too_big bad_length H N secret own allowed connect inp ps)"

text \<open>\<open>Mesh::start\<close> and the tasks it leaves running: the results of the connection tasks, the listener's
  first.\<close>

definition mesh_run ::
  "(nat \<Rightarrow> string) \<Rightarrow> (nat \<Rightarrow> string) \<Rightarrow> ('hs, 'ts, 'o) snow_crate \<Rightarrow> 'ts noise_transport \<Rightarrow>
   ('addr \<Rightarrow> io_error + unit) \<Rightarrow> ('addr \<Rightarrow> nat \<Rightarrow> io_error + u8 list) \<Rightarrow> 'addr mesh_config \<Rightarrow>
   (io_error + u8 list \<times> 'o task_input) list \<Rightarrow> ('addr peer_config \<Rightarrow> 'o task_input) \<Rightarrow>
   (conn_result list, mesh_error) result" where
  "mesh_run too_big bad_length H N bind connect cfg accepts inp =
     result_bind (mesh_start bind cfg) (\<lambda>m.
       Ok (accept_loop too_big bad_length H N (local_static_secret cfg) (mesh_allowed m) accepts @
           dial_loop too_big bad_length H N (local_static_secret cfg) (mesh_local_static_public m) (mesh_allowed m)
             connect inp (peers cfg)))"

section \<open>The tasks do not affect each other\<close>

lemma accept_loop_append:
  "accept_loop too_big bad_length H N secret allowed (as @ bs) =
     accept_loop too_big bad_length H N secret allowed as @ accept_loop too_big bad_length H N secret allowed bs"
  by (induction too_big bad_length H N secret allowed as rule: accept_loop.induct) simp_all

lemma dial_loop_dialed:
  "dial_loop too_big bad_length H N secret own allowed connect inp ps =
     map (\<lambda>peer. serve_initiator too_big bad_length H N peer secret (randomness (inp peer)) allowed connect
        (takes_in (inp peer)) (takes_out (inp peer)) (yields (inp peer))) (dialed own ps)"
  by (induction ps) (simp_all add: dialed_def)

lemma mesh_run_Ok:
  assumes "mesh_run too_big bad_length H N bind connect cfg accepts inp = Ok rs"
  shows "rs = accept_loop too_big bad_length H N (local_static_secret cfg) (allowed_keys (peers cfg)) accepts @
    dial_loop too_big bad_length H N (local_static_secret cfg) (local_static_public cfg) (allowed_keys (peers cfg))
      connect inp (peers cfg)"
  using assms by (auto simp: mesh_run_def mesh_start_def mesh_local_static_public_def)

lemma mesh_run_bind:
  "mesh_run too_big bad_length H N bind connect cfg accepts inp =
     (case bind (bind_addr cfg) of
        Inl e \<Rightarrow> Err (MeshIo e)
      | Inr _ \<Rightarrow> Ok (accept_loop too_big bad_length H N (local_static_secret cfg) (allowed_keys (peers cfg)) accepts @
          dial_loop too_big bad_length H N (local_static_secret cfg) (local_static_public cfg) (allowed_keys (peers cfg))
            connect inp (peers cfg)))"
  by (simp add: mesh_run_def mesh_start_def mesh_local_static_public_def split: sum.split)

section \<open>Every pair of validators is linked\<close>

text \<open>The channel to the node and the socket take what they are given.\<close>

definition roomy :: "'o task_input \<Rightarrow> 'o task_input \<Rightarrow> bool" where
  "roomy i j \<longleftrightarrow> length (yields i) \<le> takes_out i \<and> length (yields i) \<le> takes_in j \<and>
     length (yields j) \<le> takes_out j \<and> length (yields j) \<le> takes_in i"

lemma filter_unique_key:
  assumes "distinct (map f xs)" "k \<in> f ` set xs"
  shows "\<exists>x. filter (\<lambda>y. f y = k) xs = [x]"
  using assms
proof (induction xs)
  case (Cons y ys)
  show ?case
  proof (cases "f y = k")
    case True
    then have "filter (\<lambda>y. f y = k) ys = []" using Cons.prems(1) by (auto simp: filter_empty_conv) (metis imageI)
    with True show ?thesis by simp
  qed (use Cons in auto)
qed simp

lemma unique_dial:
  assumes full: "full_mesh cfgs" and ab: "a \<in> set cfgs" "b \<in> set cfgs" and less: "local_static_public a < local_static_public b"
  shows "\<exists>peer. filter (\<lambda>p. static_public p = local_static_public b) (dialed (local_static_public a) (peers a)) = [peer]"
proof -
  let ?d = "dialed (local_static_public a) (peers a)"
  have "distinct (map static_public ?d)"
    using full ab(1) by (auto simp: full_mesh_def dialed_def distinct_map_filter)
  moreover have "local_static_public b \<in> static_public ` set (peers a)"
    using full ab less unfolding full_mesh_def by (metis Diff_iff image_eqI less_irrefl list.set_map singletonD)
  then have "local_static_public b \<in> static_public ` set ?d" using less by (auto simp: dialed_def not_le)
  ultimately show ?thesis by (rule filter_unique_key)
qed

lemma pair_linked:
  assumes xx: "xx_law H public paired" and sym: "symp paired" and law: "transport_law N paired"
    and full: "full_mesh cfgs" and keys: "\<forall>c \<in> set cfgs. public (local_static_secret c) = local_static_public c"
    and ab: "a \<in> set cfgs" "b \<in> set cfgs" and peer: "peer \<in> set (peers a)" "static_public peer = local_static_public b"
      "local_static_public a < local_static_public b"
    and room: "roomy (inp peer) i"
  shows "\<exists>to_a to_b.
    (\<forall>bind connect accepts rs. connect (addr peer) 0 = Inr to_a \<and>
       mesh_run too_big bad_length H N bind connect a accepts inp = Ok rs \<longrightarrow> (Ok (), carried (yields i), to_b) \<in> set rs) \<and>
    (\<forall>bind connect before after inp' rs.
       mesh_run too_big bad_length H N bind connect b (before @ Inr (to_b, i) # after) inp' = Ok rs \<longrightarrow>
         (Ok (), carried (yields (inp peer)), to_a) \<in> set rs)"
proof -
  have known: "public (local_static_secret b) = static_public peer"
      "public (local_static_secret b) \<in> static_public ` set (peers a)"
      "public (local_static_secret a) \<in> static_public ` set (peers b)"
    using keys ab peer full unfolding full_mesh_def by (auto simp: image_iff)
  obtain to_a to_b where a: "\<forall>connect. connect (addr peer) 0 = Inr to_a \<longrightarrow>
      serve_initiator too_big bad_length H N peer (local_static_secret a) (randomness (inp peer)) (allowed_keys (peers a))
        connect (takes_in (inp peer)) (takes_out (inp peer)) (yields (inp peer)) = (Ok (), carried (yields i), to_b)"
    and b: "serve_responder too_big bad_length H N to_b (local_static_secret b) (randomness i) (allowed_keys (peers b))
        (takes_in i) (takes_out i) (yields i) = (Ok (), carried (yields (inp peer)), to_a)"
    using link_delivers [OF xx sym law known, of "yields (inp peer)" "takes_out (inp peer)" "takes_in i" "yields i"
        "takes_out i" "takes_in (inp peer)" too_big bad_length "randomness (inp peer)" "randomness i"] room
    unfolding roomy_def by blast
  have dial: "peer \<in> set (dialed (local_static_public a) (peers a))" using peer by (simp add: dialed_def not_le)
  show ?thesis
  proof (intro exI conjI allI impI; (elim conjE)?)
    fix bind connect accepts rs
    assume "connect (addr peer) 0 = Inr to_a" and "mesh_run too_big bad_length H N bind connect a accepts inp = Ok rs"
    with a dial show "(Ok (), carried (yields i), to_b) \<in> set rs"
      by (auto dest!: mesh_run_Ok simp: dial_loop_dialed image_iff intro!: bexI [of _ peer])
  next
    fix bind connect before after inp' rs
    assume "mesh_run too_big bad_length H N bind connect b (before @ Inr (to_b, i) # after) inp' = Ok rs"
    then show "(Ok (), carried (yields (inp peer)), to_a) \<in> set rs"
      using b by (auto dest!: mesh_run_Ok simp: accept_loop_append)
  qed
qed

text \<open>
  C9. A fully configured mesh links every pair of validators exactly once and carries their broadcasts.
  Let the validators list each other with the public keys of their secrets, and let the Noise library
  behave as documented. Together they dial \<open>n(n - 1)/2\<close> connections. Of two validators, the one with
  the smaller key dials the other by exactly one entry and is not dialed by it. For that entry there
  are two byte streams such that, with each side reading what the other has written, one connection
  task of the dialer and one of the listener deliver to their nodes exactly the payloads of the other
  side's subscription that respect the size limit, in order, whatever \<open>accept\<close> fails and whatever other
  connections the two validators serve.
\<close>

theorem mesh_links:
  assumes xx: "xx_law H public paired" and sym: "symp paired" and law: "transport_law N paired"
    and full: "full_mesh cfgs" and keys: "\<forall>c \<in> set cfgs. public (local_static_secret c) = local_static_public c"
  shows "2 * (\<Sum>c \<leftarrow> cfgs. length (dialed (local_static_public c) (peers c))) = length cfgs * (length cfgs - 1) \<and>
    (\<forall>a \<in> set cfgs. \<forall>b \<in> set cfgs. local_static_public a < local_static_public b \<longrightarrow>
      local_static_public a \<notin> static_public ` set (dialed (local_static_public b) (peers b)) \<and>
      (\<exists>peer. filter (\<lambda>p. static_public p = local_static_public b) (dialed (local_static_public a) (peers a)) = [peer] \<and>
        (\<forall>inp i. roomy (inp peer) i \<longrightarrow>
          (\<exists>to_a to_b.
            (\<forall>bind connect accepts rs. connect (addr peer) 0 = Inr to_a \<and>
               mesh_run too_big bad_length H N bind connect a accepts inp = Ok rs \<longrightarrow>
                 (Ok (), carried (yields i), to_b) \<in> set rs) \<and>
            (\<forall>bind connect before after inp' rs.
               mesh_run too_big bad_length H N bind connect b (before @ Inr (to_b, i) # after) inp' = Ok rs \<longrightarrow>
                 (Ok (), carried (yields (inp peer)), to_a) \<in> set rs)))))"
proof (intro conjI ballI impI)
  show "2 * (\<Sum>c \<leftarrow> cfgs. length (dialed (local_static_public c) (peers c))) = length cfgs * (length cfgs - 1)"
    using dial_topology [OF full] by (rule conjunct1)
next
  fix a b assume ab: "a \<in> set cfgs" "b \<in> set cfgs" "local_static_public a < local_static_public b"
  show "local_static_public a \<notin> static_public ` set (dialed (local_static_public b) (peers b))"
    using ab(3) by (auto simp: dialed_def)
  obtain peer where peer: "filter (\<lambda>p. static_public p = local_static_public b) (dialed (local_static_public a) (peers a)) = [peer]"
    using unique_dial [OF full ab] by blast
  then have "peer \<in> set (filter (\<lambda>p. static_public p = local_static_public b) (dialed (local_static_public a) (peers a)))"
    by simp
  then have "peer \<in> set (peers a)" "static_public peer = local_static_public b" by (simp_all add: dialed_def)
  note pair_linked [OF xx sym law full keys ab(1,2) this ab(3), of _ _ too_big bad_length]
  with peer show "\<exists>peer. filter (\<lambda>p. static_public p = local_static_public b) (dialed (local_static_public a) (peers a)) = [peer] \<and>
        (\<forall>inp i. roomy (inp peer) i \<longrightarrow>
          (\<exists>to_a to_b.
            (\<forall>bind connect accepts rs. connect (addr peer) 0 = Inr to_a \<and>
               mesh_run too_big bad_length H N bind connect a accepts inp = Ok rs \<longrightarrow>
                 (Ok (), carried (yields i), to_b) \<in> set rs) \<and>
            (\<forall>bind connect before after inp' rs.
               mesh_run too_big bad_length H N bind connect b (before @ Inr (to_b, i) # after) inp' = Ok rs \<longrightarrow>
                 (Ok (), carried (yields (inp peer)), to_a) \<in> set rs)))"
    by (intro exI [of _ peer] conjI allI impI) assumption+
qed

lemma fill_less: "a < b \<Longrightarrow> (bytes_fill a :: 'n::len bytes) < bytes_fill b"
  by (cases "LENGTH('n)") (simp_all add: less_bytes_def to_list_fill)

definition duo :: "nat mesh_config list" where
  "duo = [\<lparr>local_static_secret = bytes_fill 1, local_static_public = bytes_fill 1, bind_addr = 1,
           peers = [\<lparr>addr = 2, static_public = bytes_fill 2\<rparr>]\<rparr>,
          \<lparr>local_static_secret = bytes_fill 2, local_static_public = bytes_fill 2, bind_addr = 2,
           peers = [\<lparr>addr = 1, static_public = bytes_fill 1\<rparr>]\<rparr>]"

definition duo_input :: "received list \<Rightarrow> nat task_input" where
  "duo_input es = \<lparr>randomness = 0, takes_in = 5, takes_out = 5, yields = es\<rparr>"

theorem mesh_links_witness:
  "\<exists>to_a to_b rs ss.
     mesh_run (\<lambda>n. ''size'') (\<lambda>n. ''size'') toy_snow toy_transport (\<lambda>x. Inr ()) (\<lambda>x k. Inr to_a) (duo ! 0) []
       (\<lambda>p. duo_input [Payload [10], Lagged 3, Payload [11]]) = Ok rs \<and> (Ok (), [[20]], to_b) \<in> set rs \<and>
     mesh_run (\<lambda>n. ''size'') (\<lambda>n. ''size'') toy_snow toy_transport (\<lambda>x. Inr ()) (\<lambda>x k. Inl UnexpectedEof) (duo ! 1)
       [Inl UnexpectedEof, Inr ([], duo_input []), Inr (to_b, duo_input [Payload [20], Closed])] (\<lambda>p. duo_input []) = Ok ss \<and>
     (Ok (), [[10], [11]], to_a) \<in> set ss"
proof -
  let ?f = "\<lambda>n :: nat. ''size''" and ?paired = "\<lambda>t u. snd t = to_list (fst u) \<and> snd u = to_list (fst t)"
    and ?i = "\<lambda>p :: nat peer_config. duo_input [Payload [10], Lagged 3, Payload [11]]" and ?j = "duo_input [Payload [20], Closed]"
  have sym: "symp ?paired" by (rule sympI) simp
  have law: "transport_law toy_transport ?paired" by (auto simp: transport_law_def toy_transport_def)
  have full: "full_mesh duo" by (auto simp: full_mesh_def duo_def)
  have keys: "\<forall>c \<in> set duo. local_static_secret c = local_static_public c" by (simp add: duo_def)
  have ab: "duo ! 0 \<in> set duo" "duo ! 1 \<in> set duo" "local_static_public (duo ! 0) < local_static_public (duo ! 1)"
    by (simp_all add: duo_def fill_less)
  have carried: "carried (yields ?j) = [[20]]" "carried (yields (?i p)) = [[10], [11]]" "roomy (?i p) ?j" for p
    by (simp_all add: duo_input_def MAX_PAYLOAD_def roomy_def)
  obtain peer where linked: "\<forall>inp i. roomy (inp peer) i \<longrightarrow> (\<exists>to_a to_b.
      (\<forall>bind connect accepts rs. connect (addr peer) 0 = Inr to_a \<and>
         mesh_run ?f ?f toy_snow toy_transport bind connect (duo ! 0) accepts inp = Ok rs \<longrightarrow>
           (Ok (), carried (yields i), to_b) \<in> set rs) \<and>
      (\<forall>bind connect before after inp' rs.
         mesh_run ?f ?f toy_snow toy_transport bind connect (duo ! 1) (before @ Inr (to_b, i) # after) inp' = Ok rs \<longrightarrow>
           (Ok (), carried (yields (inp peer)), to_a) \<in> set rs))"
    using mesh_links [OF toy_xx sym law full keys, THEN conjunct2, THEN bspec, OF ab(1), THEN bspec, OF ab(2),
        THEN mp, OF ab(3), THEN conjunct2, of ?f ?f] by (elim exE conjE)
  obtain to_a to_b where
    a: "\<forall>bind connect accepts rs. connect (addr peer) 0 = Inr to_a \<and>
       mesh_run ?f ?f toy_snow toy_transport bind connect (duo ! 0) accepts ?i = Ok rs \<longrightarrow> (Ok (), [[20]], to_b) \<in> set rs"
    and b: "\<forall>bind connect before after inp' rs.
       mesh_run ?f ?f toy_snow toy_transport bind connect (duo ! 1) (before @ Inr (to_b, ?j) # after) inp' = Ok rs \<longrightarrow>
         (Ok (), [[10], [11]], to_a) \<in> set rs"
    using linked [THEN spec, THEN spec, THEN mp, OF carried(3)] unfolding carried(1,2) by (elim exE conjE)
  obtain rs where rs: "mesh_run ?f ?f toy_snow toy_transport (\<lambda>x. Inr ()) (\<lambda>x k. Inr to_a) (duo ! 0) [] ?i = Ok rs"
    by (simp add: mesh_run_bind)
  obtain ss where ss: "mesh_run ?f ?f toy_snow toy_transport (\<lambda>x. Inr ()) (\<lambda>x k. Inl UnexpectedEof) (duo ! 1)
      ([Inl UnexpectedEof, Inr ([], duo_input [])] @ Inr (to_b, ?j) # []) (\<lambda>p. duo_input []) = Ok ss"
    by (simp add: mesh_run_bind)
  have "(Ok (), [[20]], to_b) \<in> set rs" using a rs by simp
  moreover have "(Ok (), [[10], [11]], to_a) \<in> set ss" using b ss by blast
  ultimately show ?thesis
    using rs ss
    by (intro exI [where x = to_a] exI [where x = to_b]) (rule exI [where x = rs], rule exI [where x = ss], simp)
qed

section \<open>Nothing is exchanged with a stranger\<close>

fun accepted :: "(io_error + 'a) list \<Rightarrow> 'a list" where
  "accepted [] = []"
| "accepted (Inl e # as) = accepted as"
| "accepted (Inr x # as) = x # accepted as"

text \<open>The handshakes of a running mesh, in the order of its connections, each with the keys that it may end
  with: those of all peers for an accepted stream, that of the dialed entry for a dialed one. There is
  none when no connection came about.\<close>

definition handshakes ::
  "(nat \<Rightarrow> string) \<Rightarrow> ('hs, 'ts, 'o) snow_crate \<Rightarrow> ('addr \<Rightarrow> nat \<Rightarrow> io_error + u8 list) \<Rightarrow> 'addr mesh_config \<Rightarrow>
   (io_error + u8 list \<times> 'o task_input) list \<Rightarrow> ('addr peer_config \<Rightarrow> 'o task_input) \<Rightarrow>
   ((('ts \<times> 32 bytes) \<times> u8 list, io_error) writing \<times> 32 bytes set) option list" where
  "handshakes bad_length H connect cfg accepts inp =
     map (\<lambda>(stream, i). Some (run_responder bad_length H (local_static_secret cfg) (randomness i) stream,
        static_public ` set (peers cfg))) (accepted accepts) @
     map (\<lambda>peer. case fst (retrying_connect (connect (addr peer))) of
          Ok stream \<Rightarrow> Some (run_initiator bad_length H (local_static_secret cfg) (randomness (inp peer)) stream,
            {static_public peer})
        | _ \<Rightarrow> None) (dialed (local_static_public cfg) (peers cfg))"

lemma accept_loop_accepted:
  "accept_loop too_big bad_length H N secret allowed accepts =
     map (\<lambda>(stream, i). serve_responder too_big bad_length H N stream secret (randomness i) allowed
        (takes_in i) (takes_out i) (yields i)) (accepted accepts)"
  by (induction too_big bad_length H N secret allowed accepts rule: accept_loop.induct) auto

text \<open>The outcome of a connection, given its handshake and the keys the handshake may end with.\<close>

definition guarded :: "(('ts \<times> 32 bytes) \<times> u8 list, io_error) writing \<Rightarrow> 32 bytes set \<Rightarrow> conn_result \<Rightarrow> bool" where
  "guarded hs keys x \<longleftrightarrow>
     (if authenticated hs keys then fst x = Ok () \<and> (\<exists>more. snd (snd x) = snd hs @ more)
      else fst x \<noteq> Ok () \<and> fst (snd x) = [] \<and> snd (snd x) = snd hs \<and>
        (\<forall>ts k rest. fst hs = Ok ((ts, k), rest) \<longrightarrow> fst x = Err (UnknownPeer k)))"

lemma turned_away_guarded: "\<not> authenticated hs keys \<Longrightarrow> guarded hs keys (turned_away hs)"
  by (auto simp: guarded_def turned_away_def split: result.splits prod.splits)

lemma responder_guarded:
  "guarded (run_responder bad_length H sr os stream) (static_public ` set ps)
     (serve_responder too_big bad_length H N stream sr os (allowed_keys ps) lin lout es)"
proof (cases "authenticated (run_responder bad_length H sr os stream) (static_public ` set ps)")
  case True
  then show ?thesis
    by (auto simp: guarded_def serve_responder_def serve_connection_def allowed_None authenticated_def Let_def split_beta
        split: prod.splits)
next
  case False
  then show ?thesis using turned_away_guarded by (simp add: responder_turns_away)
qed

lemma initiator_guarded:
  assumes "fst (retrying_connect (connect (addr peer))) = Ok stream" "static_public peer \<in> static_public ` set ps"
  shows "guarded (run_initiator bad_length H si oi stream) {static_public peer}
     (serve_initiator too_big bad_length H N peer si oi (allowed_keys ps) connect lin lout es)"
proof (cases "authenticated (run_initiator bad_length H si oi stream) {static_public peer}")
  case True
  with assms show ?thesis
    by (auto simp: guarded_def serve_initiator_def serve_connection_def allowed_None authenticated_def Let_def split_beta
        split: prod.splits)
next
  case False
  moreover have "{static_public peer} \<inter> static_public ` set ps = {static_public peer}" using assms(2) by blast
  ultimately show ?thesis using turned_away_guarded assms(1) by (simp add: initiator_turns_away)
qed

lemma dial_loop_cong:
  assumes "\<And>peer. peer \<in> set (dialed own ps) \<Longrightarrow>
    serve_initiator too_big bad_length H N peer secret (randomness (inp peer)) allowed connect
      (takes_in (inp peer)) (takes_out (inp peer)) (yields (inp peer)) =
    serve_initiator too_big bad_length H N peer secret (randomness (inp' peer)) allowed connect
      (takes_in (inp' peer)) (takes_out (inp' peer)) (yields (inp' peer))"
  shows "dial_loop too_big bad_length H N secret own allowed connect inp ps =
    dial_loop too_big bad_length H N secret own allowed connect inp' ps"
  unfolding dial_loop_dialed using assms by (rule map_cong [OF refl])

text \<open>The outcome of a connection, when there need not be one.\<close>

definition guarded_option ::
  "((('ts \<times> 32 bytes) \<times> u8 list, io_error) writing \<times> 32 bytes set) option \<Rightarrow> conn_result \<Rightarrow> bool" where
  "guarded_option h x \<longleftrightarrow>
     (case h of None \<Rightarrow> fst x \<noteq> Ok () \<and> fst (snd x) = [] \<and> snd (snd x) = [] | Some (hs, keys) \<Rightarrow> guarded hs keys x)"

lemma mesh_run_guarded:
  assumes "mesh_run too_big bad_length H N bind connect cfg accepts inp = Ok rs"
  shows "list_all2 guarded_option (handshakes bad_length H connect cfg accepts inp) rs"
  unfolding mesh_run_Ok [OF assms] handshakes_def accept_loop_accepted dial_loop_dialed
proof (rule list_all2_appendI; unfold list.rel_map; rule list.rel_refl_strong)
  fix x :: "u8 list \<times> 'c task_input"
  show "guarded_option (case x of (stream, i) \<Rightarrow> Some (run_responder bad_length H (local_static_secret cfg) (randomness i) stream,
        static_public ` set (peers cfg)))
      (case x of (stream, i) \<Rightarrow> serve_responder too_big bad_length H N stream (local_static_secret cfg) (randomness i)
        (allowed_keys (peers cfg)) (takes_in i) (takes_out i) (yields i))"
    by (cases x) (simp add: guarded_option_def responder_guarded)
next
  fix peer
  assume "peer \<in> set (dialed (local_static_public cfg) (peers cfg))"
  then have known: "static_public peer \<in> static_public ` set (peers cfg)" by (simp add: dialed_def)
  show "guarded_option (case fst (retrying_connect (connect (addr peer))) of
          Ok stream \<Rightarrow> Some (run_initiator bad_length H (local_static_secret cfg) (randomness (inp peer)) stream,
            {static_public peer})
        | _ \<Rightarrow> None)
      (serve_initiator too_big bad_length H N peer (local_static_secret cfg) (randomness (inp peer)) (allowed_keys (peers cfg))
        connect (takes_in (inp peer)) (takes_out (inp peer)) (yields (inp peer)))"
  proof (cases "fst (retrying_connect (connect (addr peer)))")
    case (Ok stream)
    with initiator_guarded [where connect = connect and peer = peer and ps = "peers cfg", OF Ok known] show ?thesis by (simp add: guarded_option_def)
  qed (simp_all add: guarded_option_def serve_initiator_def)
qed

text \<open>What a connection that is turned away is given makes no difference to the mesh.\<close>

lemma listener_ignores:
  assumes "\<not> authenticated (run_responder bad_length H (local_static_secret cfg) (randomness i) stream)
      (static_public ` set (peers cfg))" "randomness i' = randomness i"
  shows "mesh_run too_big bad_length H N bind connect cfg (before @ Inr (stream, i') # after) inp =
    mesh_run too_big bad_length H N bind connect cfg (before @ Inr (stream, i) # after) inp"
  using assms by (simp add: mesh_run_bind accept_loop_append responder_turns_away split: sum.split)

lemma dialer_ignores:
  assumes "\<And>stream. fst (retrying_connect (connect (addr peer))) = Ok stream \<Longrightarrow>
      \<not> authenticated (run_initiator bad_length H (local_static_secret cfg) (randomness (inp peer)) stream) {static_public peer}"
    and "randomness i' = randomness (inp peer)"
  shows "mesh_run too_big bad_length H N bind connect cfg accepts (inp(peer := i')) =
    mesh_run too_big bad_length H N bind connect cfg accepts inp"
proof -
  have "dial_loop too_big bad_length H N (local_static_secret cfg) (local_static_public cfg) (allowed_keys (peers cfg))
        connect (inp(peer := i')) (peers cfg) =
      dial_loop too_big bad_length H N (local_static_secret cfg) (local_static_public cfg) (allowed_keys (peers cfg))
        connect inp (peers cfg)"
  proof (rule dial_loop_cong, goal_cases)
    case (1 q)
    show ?case
    proof (cases "q = peer")
      case True
      show ?thesis
      proof (cases "fst (retrying_connect (connect (addr peer)))")
        case (Ok stream)
        then have "\<not> authenticated (run_initiator bad_length H (local_static_secret cfg) (randomness (inp peer)) stream)
            ({static_public peer} \<inter> static_public ` set (peers cfg))" using assms(1) unfolding authenticated_def by blast
        note initiator_turns_away [where connect = connect, OF Ok this]
        with True assms(2) show ?thesis by simp
      qed (use True in \<open>simp_all add: serve_initiator_def\<close>)
    qed simp
  qed
  then show ?thesis by (simp add: mesh_run_bind split: sum.split)
qed

text \<open>
  C24. Nothing is exchanged with a stranger. Every connection of a running mesh goes with its handshake.
  If the handshake ends with the key of a configured peer, for a dialed connection the key of the dialed
  entry, the connection is served and ends without an error. If it ends with another key, the connection
  ends with the error that names this key; it has delivered nothing to the node and written exactly the
  bytes of the handshake, and the same holds, with another error, when the handshake fails or no
  connection comes about. Nor does what a stranger sees depend on the payloads: whatever its
  connection's subscription would have yielded, and however much the socket and the channel would have
  taken, all connections of the mesh end in the same way.
\<close>

theorem only_known_peers:
  fixes H :: "('hs, 'ts, 'o) snow_crate"
  shows "(\<forall>rs. mesh_run too_big bad_length H N bind connect cfg accepts inp = Ok rs \<longrightarrow>
       list_all2 (\<lambda>h (r, delivered, written).
         case h of
           None \<Rightarrow> r \<noteq> Ok () \<and> delivered = [] \<and> written = []
         | Some (hs, keys) \<Rightarrow>
             if \<exists>ts k rest. fst hs = Ok ((ts, k), rest) \<and> k \<in> keys
             then r = Ok () \<and> (\<exists>more. written = snd hs @ more)
             else r \<noteq> Ok () \<and> delivered = [] \<and> written = snd hs \<and>
               (\<forall>ts k rest. fst hs = Ok ((ts, k), rest) \<longrightarrow> r = Err (UnknownPeer k)))
         (handshakes bad_length H connect cfg accepts inp) rs) \<and>
    (\<forall>before stream i i' after. accepts = before @ Inr (stream, i) # after \<and> randomness i' = randomness i \<and>
       (\<forall>ts k rest. fst (run_responder bad_length H (local_static_secret cfg) (randomness i) stream) = Ok ((ts, k), rest) \<longrightarrow>
          k \<notin> static_public ` set (peers cfg)) \<longrightarrow>
       mesh_run too_big bad_length H N bind connect cfg (before @ Inr (stream, i') # after) inp =
       mesh_run too_big bad_length H N bind connect cfg accepts inp) \<and>
    (\<forall>peer i'. randomness i' = randomness (inp peer) \<and>
       (\<forall>stream ts k rest. fst (retrying_connect (connect (addr peer))) = Ok stream \<and>
          fst (run_initiator bad_length H (local_static_secret cfg) (randomness (inp peer)) stream) = Ok ((ts, k), rest) \<longrightarrow>
          k \<noteq> static_public peer) \<longrightarrow>
       mesh_run too_big bad_length H N bind connect cfg accepts (inp(peer := i')) =
       mesh_run too_big bad_length H N bind connect cfg accepts inp)"
proof (intro conjI allI impI; (elim conjE)?)
  fix rs
  assume "mesh_run too_big bad_length H N bind connect cfg accepts inp = Ok rs"
  from mesh_run_guarded [OF this] show "list_all2 (\<lambda>h (r, delivered, written).
         case h of
           None \<Rightarrow> r \<noteq> Ok () \<and> delivered = [] \<and> written = []
         | Some (hs, keys) \<Rightarrow>
             if \<exists>ts k rest. fst hs = Ok ((ts, k), rest) \<and> k \<in> keys
             then r = Ok () \<and> (\<exists>more. written = snd hs @ more)
             else r \<noteq> Ok () \<and> delivered = [] \<and> written = snd hs \<and>
               (\<forall>ts k rest. fst hs = Ok ((ts, k), rest) \<longrightarrow> r = Err (UnknownPeer k)))
         (handshakes bad_length H connect cfg accepts inp) rs"
    by (rule list_all2_mono) (simp only: guarded_option_def guarded_def authenticated_def split_def)
next
  fix before stream after and i i' :: "'o task_input"
  assume a: "accepts = before @ Inr (stream, i) # after" "randomness i' = randomness i"
    "\<forall>ts k rest. fst (run_responder bad_length H (local_static_secret cfg) (randomness i) stream) = Ok ((ts, k), rest) \<longrightarrow>
          k \<notin> static_public ` set (peers cfg)"
  then have "\<not> authenticated (run_responder bad_length H (local_static_secret cfg) (randomness i) stream)
      (static_public ` set (peers cfg))" unfolding authenticated_def by blast
  then show "mesh_run too_big bad_length H N bind connect cfg (before @ Inr (stream, i') # after) inp =
       mesh_run too_big bad_length H N bind connect cfg accepts inp"
    unfolding a(1) using a(2) by (rule listener_ignores)
next
  fix peer and i' :: "'o task_input"
  assume a: "randomness i' = randomness (inp peer)"
    "\<forall>stream ts k rest. fst (retrying_connect (connect (addr peer))) = Ok stream \<and>
          fst (run_initiator bad_length H (local_static_secret cfg) (randomness (inp peer)) stream) = Ok ((ts, k), rest) \<longrightarrow>
          k \<noteq> static_public peer"
  show "mesh_run too_big bad_length H N bind connect cfg accepts (inp(peer := i')) =
       mesh_run too_big bad_length H N bind connect cfg accepts inp"
    by (rule dialer_ignores [where inp = inp and peer = peer]) (use a in \<open>unfold authenticated_def, blast, simp\<close>)
qed

text \<open>A stranger with the key one completes a handshake with a validator that knows the key three only.\<close>

definition lone :: "nat mesh_config" where
  "lone = \<lparr>local_static_secret = bytes_fill 5, local_static_public = bytes_fill 5, bind_addr = 1,
     peers = [\<lparr>addr = 2, static_public = bytes_fill 3\<rparr>]\<rparr>"

theorem only_known_peers_witness:
  "\<exists>out_i written.
     mesh_run (\<lambda>n. ''size'') (\<lambda>n. ''size'') toy_snow toy_transport (\<lambda>x. Inr ()) (\<lambda>x k. Inl UnexpectedEof) lone
       [Inr (out_i, duo_input [])] (\<lambda>p. duo_input []) = Ok [(Err (UnknownPeer (bytes_fill 1)), [], written)] \<and>
     mesh_run (\<lambda>n. ''size'') (\<lambda>n. ''size'') toy_snow toy_transport (\<lambda>x. Inr ()) (\<lambda>x k. Inl UnexpectedEof) lone
       [Inr (out_i, duo_input [Payload [7]])] (\<lambda>p. duo_input []) = Ok [(Err (UnknownPeer (bytes_fill 1)), [], written)]"
proof -
  let ?f = "\<lambda>n :: nat. ''size''" and ?c = "\<lambda>(x :: nat) (k :: nat). Inl UnexpectedEof :: io_error + u8 list"
  obtain tr out_i out_r where
    "\<forall>rest. run_responder ?f toy_snow (bytes_fill 5) 0 (out_i @ rest) = (Ok ((tr, bytes_fill 1), rest), out_r)"
    using handshake_completes [OF toy_xx, of ?f "bytes_fill 1" 0 "bytes_fill 5" 0] by (elim exE conjE)
  then have hs: "run_responder ?f toy_snow (bytes_fill 5) 0 out_i = (Ok ((tr, bytes_fill 1), []), out_r)"
    by (metis append_Nil2)
  note app = only_known_peers [where too_big = ?f and bad_length = ?f and H = toy_snow and N = toy_transport and
      bind = "\<lambda>x. Inr ()" and connect = ?c and cfg = lone and accepts = "[Inr (out_i, duo_input [])]" and inp = "\<lambda>p. duo_input []"]
  have stranger: "[Inr (out_i, duo_input [])] = [] @ Inr (out_i, duo_input []) # [] \<and>
      randomness (duo_input [Payload [7]]) = randomness (duo_input []) \<and>
      (\<forall>ts k rest. fst (run_responder ?f toy_snow (local_static_secret lone) (randomness (duo_input [])) out_i) =
        Ok ((ts, k), rest) \<longrightarrow> k \<notin> static_public ` set (peers lone))"
    by (simp add: lone_def duo_input_def hs)
  have le: "bytes_fill 3 \<le> (bytes_fill 5 :: 32 bytes)" by (rule less_imp_le) (simp add: fill_less)
  have "(bytes_fill 1 :: 32 bytes) < bytes_fill 3" by (simp add: fill_less)
  then have known: "allowed_keys [\<lparr>addr = 2 :: nat, static_public = bytes_fill 3\<rparr>] (bytes_fill 1) = None"
    by (simp add: allowed_keys_def)
  have "mesh_run ?f ?f toy_snow toy_transport (\<lambda>x. Inr ()) ?c lone [Inr (out_i, duo_input [])] (\<lambda>p. duo_input []) =
      Ok [(Err (UnknownPeer (bytes_fill 1)), [], out_r)]"
    by (simp only: mesh_run_bind accept_loop.simps serve_responder_def lone_def duo_input_def mesh_config.simps
        task_input.simps sum.case hs dial_loop.simps peer_config.simps le if_True append_Nil2 prod.case result.case known
        simp_thms)
  moreover have "mesh_run ?f ?f toy_snow toy_transport (\<lambda>x. Inr ()) ?c lone ([] @ Inr (out_i, duo_input [Payload [7]]) # [])
      (\<lambda>p. duo_input []) =
    mesh_run ?f ?f toy_snow toy_transport (\<lambda>x. Inr ()) ?c lone [Inr (out_i, duo_input [])] (\<lambda>p. duo_input [])"
    by (rule app [THEN conjunct2, THEN conjunct1, THEN spec, THEN spec, THEN spec, THEN spec, THEN spec, THEN mp, OF stranger])
  ultimately show ?thesis unfolding append_Nil by (intro exI [of _ out_i] exI [of _ out_r]) (rule conjI, assumption, erule (1) trans)
qed

end
