(* ===== verification/Node_Lock.thy ===== *)
theory Node_Lock
  imports Node_Props
begin

text \<open>
  Concurrent callers of \<open>Node::commit\<close> (\<open>sapphire-node/src/lib.rs\<close>), which takes a shared reference:
  every caller draws its nonces before it takes the lock around \<open>pending\<close>, and the test and the
  insertion are one critical section. A call is a small state machine; the calls run interleaved over
  the map they share. (\<open>react\<close>, the only caller of \<open>sign_share_rerandomized\<close>, has exclusive access.)
\<close>

section \<open>Calls in progress\<close>

datatype ('nc, 'cm) call_phase =
    Called
  | Drawn 'nc 'cm
  | Returned "('cm, error) result"

record ('g, 'nc, 'cm) commit_call =
  session :: uuid
  generator :: 'g
  phase :: "('nc, 'cm) call_phase"

text \<open>One transition of a call: the draw, then the critical section.\<close>

definition call_step ::
  "('i, 'kp, 'ss, 'nc, 'cm, 'sp, 'rz, 'sh, 'g) frost_signer \<Rightarrow> ('i, 'kp, 'pkp, 'nc) node \<Rightarrow>
   ('g, 'nc, 'cm) commit_call \<Rightarrow> (('i, 'kp, 'pkp, 'nc) node \<times> ('g, 'nc, 'cm) commit_call) option" where
  "call_step S n c =
     (case phase c of
        Called \<Rightarrow>
          (case round1_commit S (signing_share S (key_package n)) (generator c) of
             ((nc, cm), g) \<Rightarrow> Some (n, c\<lparr>generator := g, phase := Drawn nc cm\<rparr>))
      | Drawn nc cm \<Rightarrow>
          if pending n (session c) \<noteq> None then Some (n, c\<lparr>phase := Returned (Err SessionInUse)\<rparr>)
          else Some (n\<lparr>pending := (pending n)(session c \<mapsto> nc)\<rparr>, c\<lparr>phase := Returned (Ok cm)\<rparr>)
      | Returned r \<Rightarrow> None)"

inductive calls_step ::
  "('i, 'kp, 'ss, 'nc, 'cm, 'sp, 'rz, 'sh, 'g) frost_signer \<Rightarrow>
   ('i, 'kp, 'pkp, 'nc) node \<times> ('g, 'nc, 'cm) commit_call list \<Rightarrow>
   ('i, 'kp, 'pkp, 'nc) node \<times> ('g, 'nc, 'cm) commit_call list \<Rightarrow> bool"
  for S where
  step_call: "k < length cs \<Longrightarrow> call_step S n (cs ! k) = Some (n', c') \<Longrightarrow> calls_step S (n, cs) (n', cs[k := c'])"

inductive_cases calls_stepE: "calls_step S (n, cs) x"

text \<open>The same calls one after the other, in the order \<open>ks\<close>, with the result of each.\<close>

fun one_by_one ::
  "('i, 'kp, 'ss, 'nc, 'cm, 'sp, 'rz, 'sh, 'g) frost_signer \<Rightarrow> ('i, 'kp, 'pkp, 'nc) node \<Rightarrow>
   (uuid \<times> 'g) list \<Rightarrow> nat list \<Rightarrow> ('i, 'kp, 'pkp, 'nc) node \<times> (nat \<times> ('cm, error) result) list" where
  "one_by_one S n calls [] = (n, [])"
| "one_by_one S n calls (k # ks) =
     (case commit S n (fst (calls ! k)) (snd (calls ! k)) of
        (r, n', _) \<Rightarrow> (case one_by_one S n' calls ks of (n'', rs) \<Rightarrow> (n'', (k, r) # rs)))"

definition called :: "(uuid \<times> 'g) list \<Rightarrow> ('g, 'nc, 'cm) commit_call list" where
  "called calls = map (\<lambda>(rid, g). \<lparr>session = rid, generator = g, phase = Called\<rparr>) calls"

section \<open>The order of the critical sections\<close>

lemma one_by_one_append:
  "one_by_one S n calls (ks @ ls) =
     (case one_by_one S n calls ks of (n', rs) \<Rightarrow>
        (case one_by_one S n' calls ls of (n'', rs') \<Rightarrow> (n'', rs @ rs')))"
  by (induction ks arbitrary: n) (simp_all split: prod.splits)

lemma one_by_one_fixed:
  "one_by_one S n calls ks = (n', rs) \<Longrightarrow> n' = n\<lparr>pending := pending n'\<rparr> \<and> map fst rs = ks"
  by (induction ks arbitrary: n rs) (fastforce simp: commit_def split: prod.splits if_splits)+

text \<open>What holds while the calls run, with the critical sections so far in the order \<open>ks\<close>.\<close>

definition call_ok ::
  "('i, 'kp, 'ss, 'nc, 'cm, 'sp, 'rz, 'sh, 'g) frost_signer \<Rightarrow> ('i, 'kp, 'pkp, 'nc) node \<Rightarrow> uuid \<times> 'g \<Rightarrow>
   ('g, 'nc, 'cm) commit_call \<Rightarrow> bool" where
  "call_ok S n x c \<longleftrightarrow> session c = fst x \<and>
     (case phase c of
        Called \<Rightarrow> generator c = snd x
      | Drawn nc cm \<Rightarrow> fst (round1_commit S (signing_share S (key_package n)) (snd x)) = (nc, cm)
      | Returned r \<Rightarrow> True)"

definition ordered ::
  "('i, 'kp, 'ss, 'nc, 'cm, 'sp, 'rz, 'sh, 'g) frost_signer \<Rightarrow> ('i, 'kp, 'pkp, 'nc) node \<Rightarrow> (uuid \<times> 'g) list \<Rightarrow>
   nat list \<Rightarrow> ('i, 'kp, 'pkp, 'nc) node \<times> ('g, 'nc, 'cm) commit_call list \<Rightarrow> bool" where
  "ordered S n calls ks x \<longleftrightarrow> length (snd x) = length calls \<and>
     (\<forall>k < length calls. call_ok S n (calls ! k) (snd x ! k)) \<and>
     distinct ks \<and> set ks \<subseteq> {..<length calls} \<and>
     one_by_one S n calls ks = (fst x, map (\<lambda>k. (k, case phase (snd x ! k) of Returned r \<Rightarrow> r)) ks) \<and>
     (\<forall>k < length calls. k \<in> set ks \<longleftrightarrow> (\<exists>r. phase (snd x ! k) = Returned r))"

lemma ordered_start: "ordered S n calls [] (n, called calls)"
  by (simp add: ordered_def called_def call_ok_def split_beta)

abbreviation result_of :: "('g, 'nc, 'cm) commit_call \<Rightarrow> ('cm, error) result" where
  "result_of c \<equiv> (case phase c of Returned r \<Rightarrow> r)"

lemma orderedD:
  assumes "ordered S n calls ks (m, cs)"
  shows "length cs = length calls" "distinct ks" "set ks \<subseteq> {..<length calls}"
    and "one_by_one S n calls ks = (m, map (\<lambda>k. (k, result_of (cs ! k))) ks)"
    and "k < length calls \<Longrightarrow> call_ok S n (calls ! k) (cs ! k)"
    and "k < length calls \<Longrightarrow> k \<in> set ks \<longleftrightarrow> (\<exists>r. phase (cs ! k) = Returned r)"
  using assms by (simp_all add: ordered_def)

lemma one_by_one_key:
  "one_by_one S n calls ks = (m, rs) \<Longrightarrow> key_package m = key_package n"
  by (drule one_by_one_fixed) (metis key_package_def node.ext_inject node.surjective node.update_convs(3))

text \<open>Replacing a call that has not returned keeps the results of those that have.\<close>

lemma results_update:
  "k \<notin> set ks \<Longrightarrow> map (\<lambda>j. (j, result_of (cs[k := c] ! j))) ks = map (\<lambda>j. (j, result_of (cs ! j))) ks"
  by (intro map_cong refl) (metis nth_list_update_neq)

lemma ordered_draw:
  assumes o: "ordered S n calls ks (m, cs)" and k: "k < length cs" "phase (cs ! k) = Called"
    and d: "round1_commit S (signing_share S (key_package m)) (generator (cs ! k)) = ((nc, cm), g)"
  shows "ordered S n calls ks (m, cs[k := (cs ! k)\<lparr>generator := g, phase := Drawn nc cm\<rparr>])"
proof -
  note o' = orderedD [OF o]
  have fresh: "k \<notin> set ks" using o'(6) [of k] o'(1) k by simp
  have "call_ok S n (calls ! k) ((cs ! k)\<lparr>generator := g, phase := Drawn nc cm\<rparr>)"
    using o'(5) [of k] o'(1) k d one_by_one_key [OF o'(4)] by (simp add: call_ok_def)
  then show ?thesis
    using o'(1-3,5,6) k fresh unfolding ordered_def
    by (simp add: nth_list_update results_update o'(4))
qed

lemma ordered_return:
  assumes o: "ordered S n calls ks (m, cs)" and k: "k < length cs" "phase (cs ! k) = Drawn nc cm"
    and s: "call_step S m (cs ! k) = Some (m', c')"
  shows "ordered S n calls (ks @ [k]) (m', cs[k := c'])"
proof -
  note o' = orderedD [OF o]
  have fresh: "k \<notin> set ks" using o'(6) [of k] o'(1) k by simp
  have ok: "call_ok S n (calls ! k) (cs ! k)" using o'(5) [of k] o'(1) k by simp
  obtain r where c': "c' = (cs ! k)\<lparr>phase := Returned r\<rparr>" and
    seq: "\<exists>g. commit S m (fst (calls ! k)) (snd (calls ! k)) = (r, m', g)"
    using s k ok one_by_one_key [OF o'(4)]
    by (cases "round1_commit S (signing_share S (key_package n)) (snd (calls ! k))")
      (auto simp: call_step_def commit_def call_ok_def split: if_splits)
  then have "one_by_one S n calls (ks @ [k]) =
      (m', map (\<lambda>j. (j, result_of (cs[k := c'] ! j))) (ks @ [k]))"
    using k by (auto simp: one_by_one_append o'(4) results_update [OF fresh])
  then show ?thesis
    using o'(1-3,5,6) k fresh ok c' unfolding ordered_def
    by (auto simp: nth_list_update call_ok_def)
qed

lemma calls_step_ordered:
  assumes "calls_step S x y" "ordered S n calls ks x"
  shows "\<exists>ls. ordered S n calls ls y"
  using assms
proof cases
  case (step_call k cs m m' c')
  show ?thesis
  proof (cases "phase (cs ! k)")
    case Called
    then obtain nc cm g where d:
      "round1_commit S (signing_share S (key_package m)) (generator (cs ! k)) = ((nc, cm), g)"
      by (metis prod.collapse)
    then have "m' = m" "c' = (cs ! k)\<lparr>generator := g, phase := Drawn nc cm\<rparr>"
      using step_call(4) Called by (simp_all add: call_step_def)
    then show ?thesis using ordered_draw [of S n calls ks m cs k] assms(2) step_call Called d by metis
  next
    case (Drawn nc cm)
    then show ?thesis using ordered_return [of S n calls ks m cs k] assms(2) step_call by metis
  next
    case (Returned r)
    then show ?thesis using step_call by (simp add: call_step_def)
  qed
qed

lemma calls_steps_ordered:
  "(calls_step S)\<^sup>*\<^sup>* (n, called calls) y \<Longrightarrow> \<exists>ks. ordered S n calls ks y"
  by (induction rule: rtranclp_induct) (auto intro: ordered_start dest: calls_step_ordered)

section \<open>Who wins a session\<close>

text \<open>What a call draws, and the first call for a session in an order of calls.\<close>

definition draw ::
  "('i, 'kp, 'ss, 'nc, 'cm, 'sp, 'rz, 'sh, 'g) frost_signer \<Rightarrow> ('i, 'kp, 'pkp, 'nc) node \<Rightarrow> uuid \<times> 'g \<Rightarrow> 'nc \<times> 'cm" where
  "draw S n x = fst (round1_commit S (signing_share S (key_package n)) (snd x))"

definition winner :: "(uuid \<times> 'g) list \<Rightarrow> nat list \<Rightarrow> uuid \<Rightarrow> nat option" where
  "winner calls ks rid = find (\<lambda>k. fst (calls ! k) = rid) ks"

lemma commit_draw:
  "\<exists>g. commit S n rid rng =
     (if pending n rid \<noteq> None then (Err SessionInUse, n, g)
      else (Ok (snd (draw S n (rid, rng))), n\<lparr>pending := (pending n)(rid \<mapsto> fst (draw S n (rid, rng)))\<rparr>, g))"
  by (simp add: commit_def draw_def split_beta)

lemma draw_pending [simp]: "draw S (n\<lparr>pending := p\<rparr>) x = draw S n x"
  by (simp add: draw_def key_package_def)

lemma winner_Some: "winner calls ks rid = Some k \<Longrightarrow> k \<in> set ks \<and> fst (calls ! k) = rid"
  by (auto simp: winner_def find_Some_iff)

lemma one_by_one_pending:
  "one_by_one S n calls ks = (m, rs) \<Longrightarrow> pending m rid =
     (case pending n rid of Some nc \<Rightarrow> Some nc
      | None \<Rightarrow> map_option (\<lambda>k. fst (draw S n (calls ! k))) (winner calls ks rid))"
proof (induction ks arbitrary: n m rs)
  case (Cons k ks)
  then show ?case
    using commit_draw [of S n "fst (calls ! k)" "snd (calls ! k)"]
    by (auto simp: winner_def split: if_splits prod.splits option.splits)
qed (simp add: winner_def split: option.splits)

lemma one_by_one_results:
  "one_by_one S n calls ks = (m, rs) \<Longrightarrow> distinct ks \<Longrightarrow> (k, r) \<in> set rs \<Longrightarrow>
   r = (if pending n (fst (calls ! k)) = None \<and> winner calls ks (fst (calls ! k)) = Some k
        then Ok (snd (draw S n (calls ! k))) else Err SessionInUse)"
proof (induction ks arbitrary: n m rs)
  case (Cons l ks)
  note c = commit_draw [of S n "fst (calls ! l)" "snd (calls ! l)"]
  obtain r' n' g rs' where run: "commit S n (fst (calls ! l)) (snd (calls ! l)) = (r', n', g)"
    "one_by_one S n' calls ks = (m, rs')" and rs: "rs = (l, r') # rs'"
    using Cons.prems(1) by (auto split: prod.splits)
  show ?case
  proof (cases "(k, r) = (l, r')")
    case True
    then show ?thesis using c run(1) by (auto simp: winner_def split: if_splits)
  next
    case False
    then have later: "(k, r) \<in> set rs'" using Cons.prems(3) rs by auto
    moreover have "k \<in> set ks" using one_by_one_fixed [OF run(2)] later by (metis fst_conv image_eqI list.set_map)
    then have "k \<noteq> l" using Cons.prems(2) by auto
    ultimately show ?thesis
      using Cons.IH [OF run(2) _ later] Cons.prems(2) c run(1)
      by (auto simp: winner_def split: if_splits)
  qed
qed simp

text \<open>A call that has not returned can always take a step, so a run that is stuck is complete.\<close>

lemma call_step_None: "call_step S n c = None \<longleftrightarrow> (\<exists>r. phase c = Returned r)"
  by (auto simp: call_step_def split: call_phase.splits prod.splits)

lemma stuck_returned:
  "\<nexists>y. calls_step S (m, cs) y \<Longrightarrow> k < length cs \<Longrightarrow> \<exists>r. phase (cs ! k) = Returned r"
  by (metis call_step_None not_None_eq prod.collapse step_call)

text \<open>
  C29. Concurrent commitments. However the calls of \<open>commit\<close> interleave, a run in which no call can
  move on has answered them all, and there is an order of the calls, one after the other, that gives
  the same node and the same results: a session that was free belongs to the first call for it in
  that order, which gets the commitment it drew while its nonces are the ones kept; every other
  call for it, and every call for a session in use, is refused and leaves the nonces alone.
\<close>

theorem commits_linearizable:
  assumes "(calls_step S)\<^sup>*\<^sup>* (n, called calls) (m, cs)" and "\<nexists>y. calls_step S (m, cs) y"
  shows "\<exists>ks rs. distinct ks \<and> set ks = {..<length calls} \<and> one_by_one S n calls ks = (m, rs) \<and>
    m = n\<lparr>pending := pending m\<rparr> \<and>
    (\<forall>rid. pending m rid = (case pending n rid of Some nc \<Rightarrow> Some nc
       | None \<Rightarrow> map_option (\<lambda>k. fst (draw S n (calls ! k))) (winner calls ks rid))) \<and>
    (\<forall>k < length calls. (\<exists>r. (k, r) \<in> set rs \<and> phase (cs ! k) = Returned r) \<and> phase (cs ! k) = Returned
       (if pending n (fst (calls ! k)) = None \<and> winner calls ks (fst (calls ! k)) = Some k
        then Ok (snd (draw S n (calls ! k))) else Err SessionInUse))"
proof -
  obtain ks where o: "ordered S n calls ks (m, cs)" using calls_steps_ordered [OF assms(1)] by blast
  note o' = orderedD [OF o]
  have "\<forall>k < length calls. k \<in> set ks" using o'(1,6) stuck_returned [OF assms(2)] by metis
  then have all: "set ks = {..<length calls}" using o'(3) by auto
  have "(\<exists>r. (k, r) \<in> set (map (\<lambda>k. (k, result_of (cs ! k))) ks) \<and> phase (cs ! k) = Returned r) \<and>
      phase (cs ! k) = Returned
       (if pending n (fst (calls ! k)) = None \<and> winner calls ks (fst (calls ! k)) = Some k
        then Ok (snd (draw S n (calls ! k))) else Err SessionInUse)" if "k < length calls" for k
  proof -
    obtain r where r: "phase (cs ! k) = Returned r" using o'(1) stuck_returned [OF assms(2)] \<open>k < length calls\<close> by metis
    then have mem: "(k, r) \<in> set (map (\<lambda>k. (k, result_of (cs ! k))) ks)" using all \<open>k < length calls\<close> by force
    show ?thesis using one_by_one_results [OF o'(4,2) mem] mem r by blast
  qed
  then show ?thesis
    using o'(2,4) all one_by_one_pending [OF o'(4)] one_by_one_fixed [OF o'(4)] by blast
qed

text \<open>Two calls for the session that both draw before either reaches the lock; the second gets it.\<close>

definition two_calls :: "(uuid \<times> nat) list" where
  "two_calls = [(toy_rid, 3), (toy_rid, 4)]"

definition two_node :: "(nat, nat, nat list, nat) node" where
  "two_node = (toy_node accept_all_approve)\<lparr>pending := [toy_rid \<mapsto> 4]\<rparr>"

definition two_returned :: "(nat, nat, nat) commit_call list" where
  "two_returned = [\<lparr>session = toy_rid, generator = 4, phase = Returned (Err SessionInUse)\<rparr>,
     \<lparr>session = toy_rid, generator = 5, phase = Returned (Ok 10)\<rparr>]"

lemmas two_eval = two_calls_def two_node_def two_returned_def called_def call_step_def sample_eval

lemma one_step:
  "k < length cs \<Longrightarrow> call_step S n (cs ! k) = Some (n', c') \<Longrightarrow> (calls_step S)\<^sup>*\<^sup>* (n, cs) (n', cs[k := c'])"
  by (rule r_into_rtranclp, rule step_call)

lemma two_run: "(calls_step toy_signer)\<^sup>*\<^sup>* (toy_node accept_all_approve, called two_calls) (two_node, two_returned)"
proof -
  let ?n = "toy_node accept_all_approve" and ?c = "\<lambda>g p. \<lparr>session = toy_rid, generator = g, phase = p\<rparr>"
  have "(calls_step toy_signer)\<^sup>*\<^sup>* (?n, called two_calls) (?n, [?c 4 (Drawn 3 10), ?c 4 Called])"
    using one_step [of 0 "called two_calls" toy_signer ?n ?n "?c 4 (Drawn 3 10)"]
    by (simp add: two_eval)
  also have "(calls_step toy_signer)\<^sup>*\<^sup>* \<dots> (?n, [?c 4 (Drawn 3 10), ?c 5 (Drawn 4 10)])"
    using one_step [of 1 "[?c 4 (Drawn 3 10), ?c 4 Called]" toy_signer ?n ?n "?c 5 (Drawn 4 10)"]
    by (simp add: two_eval)
  also have "(calls_step toy_signer)\<^sup>*\<^sup>* \<dots> (two_node, [?c 4 (Drawn 3 10), ?c 5 (Returned (Ok 10))])"
    using one_step [of 1 "[?c 4 (Drawn 3 10), ?c 5 (Drawn 4 10)]" toy_signer ?n two_node
        "?c 5 (Returned (Ok 10))"]
    by (simp add: two_eval)
  also have "(calls_step toy_signer)\<^sup>*\<^sup>* \<dots> (two_node, two_returned)"
    using one_step [of 0 "[?c 4 (Drawn 3 10), ?c 5 (Returned (Ok 10))]" toy_signer two_node two_node
        "?c 4 (Returned (Err SessionInUse))"]
    by (simp add: two_eval)
  finally show ?thesis .
qed

lemma two_stuck: "\<nexists>y. calls_step toy_signer (two_node, two_returned) y"
  by (auto simp: two_returned_def less_Suc_eq call_step_def elim!: calls_stepE)

theorem commits_linearizable_witness:
  "\<exists>ks rs. distinct ks \<and> set ks = {..<length two_calls} \<and>
     one_by_one toy_signer (toy_node accept_all_approve) two_calls ks = (two_node, rs)"
  using commits_linearizable [OF two_run two_stuck] by blast

end
