(* ===== verification/Node_Faults.thy ===== *)
theory Node_Faults
  imports Node_Props
begin

text \<open>
  A signer that lost its nonces. A node keeps its nonces in memory only, and the chain does not
  authenticate who submits a commitment; a node that finds a commitment under its identifier which it did
  not make, because it was restarted or because somebody else posted one, never signs that request,
  and if the commitment is among the selected ones nobody else can bring the request to an end.
\<close>

section \<open>The node\<close>

text \<open>A commitment of the node is on the chain, or the request is past the commitments.\<close>

definition claimed :: "'i \<Rightarrow> ('i, 'cm, 'rz, 'sp, 'sh, 'sg) request_entry \<Rightarrow> bool" where
  "claimed i e \<longleftrightarrow> (\<forall>cms. status e = AwaitingCommitments cms \<longrightarrow> bt_get cms i \<noteq> None)"

lemma claimed_stays:
  assumes "claimed i e" "entry_le e e'"
  shows "claimed i e'"
proof (cases "status e'")
  case (AwaitingCommitments cms')
  then obtain cms where "status e = AwaitingCommitments cms" "bt_get cms \<subseteq>\<^sub>m bt_get cms'"
    using assms(2) by (cases "status e") (auto simp: entry_le_def)
  with assms(1) AwaitingCommitments show ?thesis by (auto simp: claimed_def dest!: map_le_implies_dom_le)
qed (simp_all add: claimed_def)

lemma lost_trace:
  assumes "node_trace S n0 tr n" "pending n0 rid = None"
    and "\<And>e r. (rid, e, r) \<in> set tr \<Longrightarrow> claimed (node_identifier n0) e"
  shows "pending n rid = None \<and> (\<forall>t \<in> set (emitted tr). \<forall>b. tx_key t \<noteq> Some (b, rid))"
  using assms
proof (induction rule: node_trace.induct)
  case (trace_snoc tr n rid' e r n')
  have IH: "pending n rid = None" "\<forall>t \<in> set (emitted tr). \<forall>b. tx_key t \<noteq> Some (b, rid)"
    using trace_snoc.IH trace_snoc.prems by auto
  have "claimed (node_identifier n) e" if "rid' = rid"
    using trace_snoc.prems(2) [of e r] that trace_fixed [OF trace_snoc.hyps(1)] by simp
  with trace_snoc.hyps(2) IH show ?case
    by cases (auto simp: claimed_def split: if_splits)
qed simp

section \<open>The chain\<close>

lemma unshared_step:
  assumes inv: "status_inv F g (message e) (randomizer e) (status e)" and step: "entry_step F g rid t (Some e) eo"
    and e: "status e = Signing sp P shs" "i \<in> dom (bt_get P)" "bt_get shs i = None"
    and t: "\<forall>sh. t \<noteq> SubmitShare rid i sh"
  shows "\<exists>e' shs'. eo = Some e' \<and> status e' = Signing sp P shs' \<and> bt_get shs' i = None"
  using step
proof cases
  case (entry_share sp' P' shs' v sh)
  then have v: "v \<noteq> i" "v \<in> dom (bt_get P)" using e t by auto
  have "dom (bt_get shs) \<subseteq> dom (bt_get P)" using inv e(1) by (simp add: status_inv_def Let_def)
  then have "dom (bt_get (bt_insert v sh shs)) \<subset> dom (bt_get P)" using v e(2,3) by auto
  then have "bt_len (bt_insert v sh shs) < bt_len P"
    unfolding bt_len_card by (rule psubset_card_mono [OF finite_dom_bt_get])
  then show ?thesis using entry_share e v by (simp add: after_share_def)
qed (use e in auto)

lemma unshared_run:
  assumes "chain_inv F s" "bt_get (requests s) rid = Some e" "status e = Signing sp P shs"
    and "i \<in> dom (bt_get P)" "bt_get shs i = None" "\<forall>sh. SubmitShare rid i sh \<notin> set txs"
    and "run_skip (apply_tx F) s txs = Ok s'"
  shows "\<exists>e' shs'. bt_get (requests s') rid = Some e' \<and> status e' = Signing sp P shs' \<and> bt_get shs' i = None"
  using assms
proof (induction txs arbitrary: s e shs)
  case (Cons t txs)
  show ?case
  proof (cases "apply_tx F s t")
    case (Ok s1)
    obtain g where g: "group s = Some g" using Cons.prems(1,2) unfolding chain_inv_def by blast
    have "entry_step F g rid t (Some e) (bt_get (requests s1) rid)"
      using apply_tx_entry_step [OF Cons.prems(1) Ok group_stable [OF Cons.prems(1) Ok g], of rid] Cons.prems(2) by simp
    moreover have "status_inv F g (message e) (randomizer e) (status e)"
      using request_invD [OF Cons.prems(1) g Cons.prems(2)] by (simp add: request_inv_def)
    ultimately obtain e1 shs1 where "bt_get (requests s1) rid = Some e1" "status e1 = Signing sp P shs1" "bt_get shs1 i = None"
      using unshared_step [of F g e rid t "bt_get (requests s1) rid" sp P shs i] Cons.prems(3-6) by fastforce
    with Cons.IH [OF chain.inv_step [OF Cons.prems(1) Ok]] Cons.prems(4,6,7) Ok show ?thesis by simp
  next
    case (Err err)
    with Cons.IH [OF Cons.prems(1-5)] Cons.prems(6,7) show ?thesis by simp
  qed (use Cons.prems in simp)
qed simp

text \<open>
  C32. Lost nonces stall a request. A node with empty memory, started when the chain already has a
  commitment under its identifier for a request (or is past the commitments), never submits a
  commitment or a share for that request, whatever later states of the chain it reacts to. If that
  commitment was selected, then whatever transactions arrive, as long as no share under the identifier of
  the node is among them the request stays as it is, being signed by the same participants with that
  share missing: it neither completes nor fails.
\<close>

theorem lost_nonces_stall:
  fixes hist :: "(('i::linorder, 'pkp, 'p1, 'cm, 'rz, 'sp, 'sh, 'sg) state \<times> _) list"
  assumes node: "node_run S (with_policy (node_new S b) approve) hist n" and i: "i = kp_identifier S (bundle_key_package b)"
    and s0: "reach (apply_tx F) default_state s0" "bt_get (requests s0) rid = Some e" "claimed i e"
    and later: "\<forall>(s, r) \<in> set hist. chain_le s0 s"
  shows "(\<forall>t \<in> set (outputs hist). tx_key t \<noteq> Some (False, rid) \<and> tx_key t \<noteq> Some (True, rid)) \<and>
    (\<forall>sp P shs txs s'. status e = Signing sp P shs \<and> i \<in> dom (bt_get P) \<and> bt_get shs i = None \<and>
       (\<forall>sh. SubmitShare rid i sh \<notin> set txs) \<and> run_skip (apply_tx F) s0 txs = Ok s' \<longrightarrow>
       (\<exists>e' shs'. bt_get (requests s') rid = Some e' \<and> status e' = Signing sp P shs' \<and> bt_get shs' i = None))"
proof (intro conjI allI impI)
  let ?n = "with_policy (node_new S b) approve"
  from node_run_trace [OF node] obtain tr :: "('i, 'pkp, 'p1, 'cm, 'rz, 'sp, 'sh, 'sg) event list" where
    tr: "node_trace S ?n tr n" "subseq (outputs hist) (emitted tr)"
    "\<forall>ev \<in> set tr. event_of hist ev" by blast
  have "claimed (node_identifier ?n) f" if "(rid, f, r) \<in> set tr" for f r
  proof -
    from tr(3) that later obtain s where "chain_le s0 s" "bt_get (requests s) rid = Some f"
      unfolding event_of_def by fastforce
    with s0(2) have "entry_le e f" unfolding chain_le_def by fastforce
    with claimed_stays [OF s0(3)] i show ?thesis by (simp add: with_policy_def node_new_def)
  qed
  moreover have "pending ?n rid = None" by (simp add: with_policy_def node_new_def)
  ultimately have none: "\<forall>t \<in> set (emitted tr). \<forall>b. tx_key t \<noteq> Some (b, rid)" using lost_trace [OF tr(1)] by blast
  show "\<forall>t \<in> set (outputs hist). tx_key t \<noteq> Some (False, rid) \<and> tx_key t \<noteq> Some (True, rid)"
    using none list_emb_set [OF tr(2)] by metis
next
  fix sp P shs txs s'
  assume "status e = Signing sp P shs \<and> i \<in> dom (bt_get P) \<and> bt_get shs i = None \<and>
       (\<forall>sh. SubmitShare rid i sh \<notin> set txs) \<and> run_skip (apply_tx F) s0 txs = Ok s'"
  then show "\<exists>e' shs'. bt_get (requests s') rid = Some e' \<and> status e' = Signing sp P shs' \<and> bt_get shs' i = None"
    using unshared_run [OF reachable_inv [OF s0(1)] s0(2)] by blast
qed

text \<open>Node 1 is restarted after its commitment was selected; the share of the other participant arrives.\<close>

theorem lost_nonces_stall_witness:
  "\<exists>r n' rng' s' e' shs'. react toy_signer (toy_node accept_all_approve) signing_state 5 = (r, n', rng') \<and>
     (\<forall>t \<in> set (outputs [(signing_state, r)]). tx_key t \<noteq> Some (True, toy_rid)) \<and>
     run_skip (apply_tx toy_frost) signing_state [SubmitShare toy_rid 2 (207 :: nat)] = Ok s' \<and>
     bt_get (requests s') toy_rid = Some e' \<and>
     status e' = Signing (insert_all ((*) 10) [1, 2] bt_new, [104, 105]) (bs_collect [1, 2]) shs' \<and> bt_get shs' 1 = None"
proof -
  obtain r :: "(toy_tx list, error) result" and n' rng' where
    react: "react toy_signer (toy_node accept_all_approve) signing_state 5 = (r, n', rng')" by (metis prod.collapse)
  let ?n = "with_policy (node_new toy_signer \<lparr>bundle_key_package = 1, bundle_public_key_package = [1, 2, 3]\<rparr>) accept_all_approve"
  have run: "node_run toy_signer ?n [(signing_state, r)] n'"
    using run_react [OF run_start react] unfolding toy_node_def by simp
  have e: "bt_get (requests signing_state) toy_rid = Some signing_entry"
    by (simp add: signing_state_def)
  have st: "status signing_entry = Signing (insert_all ((*) 10) [1, 2] bt_new, [104, 105]) (bs_collect [1, 2]) bt_new"
    by (simp add: signing_entry_def)
  have i: "(1 :: nat) = kp_identifier toy_signer
      (bundle_key_package \<lparr>bundle_key_package = 1, bundle_public_key_package = [1, 2, 3]\<rparr>)"
    by (simp add: toy_signer_def)
  have s: "claimed 1 signing_entry" "\<forall>(s, r) \<in> set [(signing_state, r)]. chain_le signing_state s"
    by (simp_all add: claimed_def st chain_le_refl)
  obtain s' where go: "run_skip (apply_tx toy_frost) signing_state [SubmitShare toy_rid 2 (207 :: nat) :: toy_tx] = Ok s'"
    by (cases "apply_submit_share toy_frost signing_state toy_rid 2 207")
      (auto simp: apply_submit_share_def require_group_def Let_def signing_group e st split: if_splits)
  note both = lost_nonces_stall [OF run i sample_reach(2) e s]
  have "\<exists>e' shs'. bt_get (requests s') toy_rid = Some e' \<and>
      status e' = Signing (insert_all ((*) 10) [1, 2] bt_new, [104, 105]) (bs_collect [1, 2]) shs' \<and> bt_get shs' 1 = None"
    by (rule both [THEN conjunct2, rule_format, where txs = "[SubmitShare toy_rid 2 207]" and shs = bt_new]) (use st go in simp)
  with both [THEN conjunct1] react go show ?thesis by blast
qed

end
