(* ===== verification/Scheduling.thy ===== *)
theory Scheduling
  imports Sapphire_Prelude
begin

text \<open>
  Tasks that run interleaved, as two contracts. In the first every step of a relation keeps an invariant
  and lowers a cost: then no schedule is longer than the cost of its first state, and every run can be
  brought to an end. The second extends it by an outcome of the whole run that no step changes: then all
  schedules have the same outcome.
\<close>

definition ended :: "('s \<Rightarrow> 's \<Rightarrow> bool) \<Rightarrow> 's \<Rightarrow> bool" where
  "ended step a \<longleftrightarrow> (\<forall>b. \<not> step a b)"

text \<open>The part about termination needs the cost to fall only in states that satisfy an invariant.\<close>

locale draining =
  fixes step :: "'s \<Rightarrow> 's \<Rightarrow> bool"
    and inv :: "'s \<Rightarrow> bool"
    and cost_left :: "'s \<Rightarrow> nat"
  assumes step_inv: "inv a \<Longrightarrow> step a b \<Longrightarrow> inv b"
    and step_cost: "inv a \<Longrightarrow> step a b \<Longrightarrow> cost_left b < cost_left a"
begin

lemma run_bounded: "(step ^^ n) a b \<Longrightarrow> inv a \<Longrightarrow> inv b \<and> n + cost_left b \<le> cost_left a"
proof (induction n arbitrary: b)
  case (Suc n)
  then obtain c where c: "(step ^^ n) a c" "step c b" by auto
  then have "inv c" "n + cost_left c \<le> cost_left a" using Suc.IH [OF c(1) Suc.prems(2)] by simp_all
  then show ?case using step_inv [OF _ c(2)] step_cost [OF _ c(2)] by simp
qed simp

lemma run_finishes: "inv a \<Longrightarrow> \<exists>n b. (step ^^ n) a b \<and> ended step b"
proof (induction "cost_left a" arbitrary: a rule: less_induct)
  case less
  show ?case
  proof (cases "ended step a")
    case True
    have "(step ^^ 0) a a" by simp
    with True show ?thesis by blast
  next
    case False
    then obtain c where c: "step a c" by (auto simp: ended_def)
    then obtain n b where "(step ^^ n) c b" "ended step b" using less step_inv step_cost by blast
    with c have "(step ^^ Suc n) a b" by (meson relpowp_Suc_I2)
    with \<open>ended step b\<close> show ?thesis by blast
  qed
qed

end

locale scheduled = draining step "\<lambda>_. True" cost_left
  for step :: "'s \<Rightarrow> 's \<Rightarrow> bool" and outcome :: "'s \<Rightarrow> 'v" and cost_left :: "'s \<Rightarrow> nat" +
  assumes step_outcome: "step a b \<Longrightarrow> outcome b = outcome a"
begin

lemma run_outcome: "(step ^^ n) a b \<Longrightarrow> outcome b = outcome a \<and> n + cost_left b \<le> cost_left a"
proof (rule conjI)
  assume "(step ^^ n) a b"
  then show "outcome b = outcome a" by (induction n arbitrary: b) (auto simp: step_outcome)
qed (simp add: run_bounded)

lemma run_ends: "\<exists>n b. (step ^^ n) a b \<and> ended step b"
  by (rule run_finishes) simp

lemma schedules_agree:
  assumes "(step ^^ m) a b" "(step ^^ n) a c"
  shows "outcome b = outcome c"
  using run_outcome [OF assms(1)] run_outcome [OF assms(2)] by simp

end

end
