(* ===== verification/Zcash_Session.thy ===== *)
theory Zcash_Session
  imports Dkg_Driver Node_Props
begin

text \<open>
  The signing driver of \<open>sapphire-zcash/src/lib.rs\<close>: submit a request for a sighash, then let all
  validators react to every block until the request has ended, at most eight times. As in the signer,
  the chain, the validators and the generator are returned beside the result. The rendering of a
  rejection (\<open>ApplyError::to_string\<close>, generated by \<open>thiserror\<close>) is a parameter.
\<close>

section \<open>The driver\<close>

datatype sign_error =
    SubmitRequestRejected string
  | ValidatorReact error
  | SessionAggregationFailed string
  | StuckBeforeCompletion string
  | RequestMissing

text \<open>The loop over the validators: the flag is \<open>emitted_any\<close>.\<close>

fun validators_react ::
  "('i::linorder, 'kp, 'ss, 'nc, 'cm, 'sp, 'rz, 'sh, 'g) frost_signer \<Rightarrow>
   ('i, 'pkp, 'p1, 'cm, 'rz, 'sp, 'sh, 'sg) chain_sim \<Rightarrow> 'g \<Rightarrow> bool \<Rightarrow> ('i, 'kp, 'pkp, 'nc) node list \<Rightarrow>
   (bool, error) result \<times> ('i, 'pkp, 'p1, 'cm, 'rz, 'sp, 'sh, 'sg) chain_sim \<times>
   ('i, 'kp, 'pkp, 'nc) node list \<times> 'g" where
  "validators_react S sim rng emitted_any [] = (Ok emitted_any, sim, [], rng)"
| "validators_react S sim rng emitted_any (v # vs) =
     (case react S v (sim_state sim) rng of
        (Ok out, v', rng') \<Rightarrow>
          (case validators_react S (submit_all sim out) rng' (emitted_any \<or> out \<noteq> []) vs of
             (r, sim', vs', rng'') \<Rightarrow> (r, sim', v' # vs', rng''))
      | (Err e, v', rng') \<Rightarrow> (Err e, sim, v' # vs, rng')
      | (Panic, v', rng') \<Rightarrow> (Panic, sim, v' # vs, rng'))"

fun status_name :: "('i, 'cm, 'sp, 'sh, 'sg) request_status \<Rightarrow> string" where
  "status_name (AwaitingCommitments _) = ''AwaitingCommitments''"
| "status_name (Signing _ _ _) = ''Signing''"
| "status_name _ = ''unreachable''"

fun session_loop ::
  "('i::linorder, 'pkp, 'vk, 'vs, 'cm, 'rz, 'rp, 'sp, 'sh, 'sg) frost \<Rightarrow>
   ('i, 'kp, 'ss, 'nc, 'cm, 'sp, 'rz, 'sh, 'g) frost_signer \<Rightarrow> uuid \<Rightarrow> nat \<Rightarrow>
   ('i, 'pkp, 'p1, 'cm, 'rz, 'sp, 'sh, 'sg) chain_sim \<Rightarrow> ('i, 'kp, 'pkp, 'nc) node list \<Rightarrow> 'g \<Rightarrow>
   ('sg, sign_error) result \<times> ('i, 'pkp, 'p1, 'cm, 'rz, 'sp, 'sh, 'sg) chain_sim \<times>
   ('i, 'kp, 'pkp, 'nc) node list \<times> 'g" where
  "session_loop F S rid 0 sim vs rng = (Err (StuckBeforeCompletion ''loop bound exhausted''), sim, vs, rng)"
| "session_loop F S rid (Suc n) sim vs rng =
     (case validators_react S sim rng False vs of
        (Ok emitted_any, sim1, vs1, rng1) \<Rightarrow>
          (case commit_block F sim1 of
             Ok (sim2, results) \<Rightarrow>
               (case bt_get (requests (sim_state sim2)) rid of
                  None \<Rightarrow> (Err RequestMissing, sim2, vs1, rng1)
                | Some entry \<Rightarrow>
                    (case status entry of
                       Completed P signature \<Rightarrow> (Ok signature, sim2, vs1, rng1)
                     | Failed reason \<Rightarrow> (Err (SessionAggregationFailed reason), sim2, vs1, rng1)
                     | st \<Rightarrow>
                         if \<not> emitted_any then (Err (StuckBeforeCompletion (status_name st)), sim2, vs1, rng1)
                         else session_loop F S rid n sim2 vs1 rng1))
           | _ \<Rightarrow> (Panic, sim1, vs1, rng1))
      | (Err e, sim1, vs1, rng1) \<Rightarrow> (Err (ValidatorReact e), sim1, vs1, rng1)
      | (Panic, sim1, vs1, rng1) \<Rightarrow> (Panic, sim1, vs1, rng1))"

text \<open>The first rejection among the results of a block.\<close>

fun first_rejection ::
  "(('i, 'pkp, 'p1, 'cm, 'rz, 'sh) tx \<times> (unit, apply_error) result) list \<Rightarrow> apply_error option" where
  "first_rejection [] = None"
| "first_rejection ((t, r) # rs) = (case r of Err e \<Rightarrow> Some e | _ \<Rightarrow> first_rejection rs)"

definition drive_signing_session ::
  "('i::linorder, 'pkp, 'vk, 'vs, 'cm, 'rz, 'rp, 'sp, 'sh, 'sg) frost \<Rightarrow>
   ('i, 'kp, 'ss, 'nc, 'cm, 'sp, 'rz, 'sh, 'g) frost_signer \<Rightarrow> ('g \<Rightarrow> 16 bytes \<times> 'g) \<Rightarrow>
   (apply_error \<Rightarrow> string) \<Rightarrow>
   ('i, 'pkp, 'p1, 'cm, 'rz, 'sp, 'sh, 'sg) chain_sim \<Rightarrow> ('i, 'kp, 'pkp, 'nc) node list \<Rightarrow>
   32 bytes \<Rightarrow> 'rz \<Rightarrow> 'g \<Rightarrow>
   ('sg, sign_error) result \<times> ('i, 'pkp, 'p1, 'cm, 'rz, 'sp, 'sh, 'sg) chain_sim \<times>
   ('i, 'kp, 'pkp, 'nc) node list \<times> 'g" where
  "drive_signing_session F S fill_bytes display sim vs sighash alpha rng =
     (let (rid, rng1) = uuid_new fill_bytes rng;
          sim1 = submit sim (SubmitRequest rid (to_list sighash) alpha)
      in case commit_block F sim1 of
           Ok (sim2, results) \<Rightarrow>
             (case first_rejection results of
                Some e \<Rightarrow> (Err (SubmitRequestRejected (display e)), sim2, vs, rng1)
              | None \<Rightarrow> session_loop F S rid 8 sim2 vs rng1)
         | _ \<Rightarrow> (Panic, sim1, vs, rng1))"

section \<open>A pass over the validators\<close>

text \<open>
  The validators as reacting parties: the randomness carries the flag \<open>emitted_any\<close> along, which
  has no meaning after an error.
\<close>

definition signer_act ::
  "('i::linorder, 'kp, 'ss, 'nc, 'cm, 'sp, 'rz, 'sh, 'g) frost_signer \<Rightarrow> ('i, 'kp, 'pkp, 'nc) node \<Rightarrow>
   ('i, 'pkp, 'p1, 'cm, 'rz, 'sp, 'sh, 'sg) state \<Rightarrow> 'g \<times> bool \<Rightarrow>
   (('i, 'pkp, 'p1, 'cm, 'rz, 'sh) tx list, error) result \<times> ('i, 'kp, 'pkp, 'nc) node \<times> 'g \<times> bool" where
  "signer_act S v s r =
     (case react S v s (fst r) of (x, v', rng') \<Rightarrow> (x, v', rng', (case x of Ok out \<Rightarrow> snd r \<or> out \<noteq> [] | _ \<Rightarrow> False)))"

definition signer_pass ::
  "('i::linorder, 'kp, 'ss, 'nc, 'cm, 'sp, 'rz, 'sh, 'g) frost_signer \<Rightarrow>
   ('i, 'pkp, 'p1, 'cm, 'rz, 'sp, 'sh, 'sg) chain_sim \<Rightarrow> 'g \<times> bool \<Rightarrow> ('i, 'kp, 'pkp, 'nc) node list \<Rightarrow>
   (unit, error) result \<times> ('i, 'pkp, 'p1, 'cm, 'rz, 'sp, 'sh, 'sg) chain_sim \<times> ('i, 'kp, 'pkp, 'nc) node list \<times> 'g \<times> bool" where
  "signer_pass S sim r vs =
     (case validators_react S sim (fst r) (snd r) vs of
        (Ok b, sim', vs', rng') \<Rightarrow> (Ok (), sim', vs', rng', b)
      | (Err e, sim', vs', rng') \<Rightarrow> (Err e, sim', vs', rng', False)
      | (Panic, sim', vs', rng') \<Rightarrow> (Panic, sim', vs', rng', False))"

interpretation signers: reactors "signer_act S" sim_state submit_all "signer_pass S" for S
  by unfold_locales (auto simp: signer_act_def signer_pass_def split: prod.splits result.splits)

text \<open>The flag tells whether something was submitted.\<close>

lemma emitted_flag:
  "validators_react S sim rng b vs = (Ok b', sim', vs', rng') \<Longrightarrow> 
   (b' \<longleftrightarrow> b \<or> mempool sim' \<noteq> mempool sim) \<and> length (mempool sim) \<le> length (mempool sim')"
proof (induction S sim rng b vs arbitrary: b' sim' vs' rng' rule: validators_react.induct)
  case (2 S sim rng b v vs)
  from 2(2) obtain out v1 rng1 vs1 where one: "react S v (sim_state sim) rng = (Ok out, v1, rng1)"
    and rest: "validators_react S (submit_all sim out) rng1 (b \<or> out \<noteq> []) vs = (Ok b', sim', vs1, rng')"
    by (auto split: prod.splits result.splits)
  from 2(1) [OF one [symmetric] refl refl rest] show ?case by (cases "out = []") auto
qed simp

section \<open>What the validators submit\<close>

lemma trace_commits:
  assumes "node_trace S n0 tr n" "(rid, e, Ok (Some t)) \<in> set tr" "t = SubmitCommitment r v cm"
  shows "r = rid \<and> v = node_identifier n0 \<and> policy n0 (message e) = Ok ()"
  using assms
proof (induction rule: node_trace.induct)
  case (trace_snoc tr n rid' e' r' n')
  show ?case
  proof (cases "(rid, e, Ok (Some t)) \<in> set tr")
    case False
    with trace_snoc.prems have eq: "rid' = rid" "e' = e" "r' = Ok (Some t)" by auto
    from trace_snoc.hyps(2) show ?thesis
      by cases (use eq trace_snoc.prems(2) trace_fixed [OF trace_snoc.hyps(1)] in auto)
  qed (use trace_snoc in blast)
qed simp

lemma react_fixed:
  assumes "react S n s rng = (r, n', rng')"
  shows "node_identifier n' = node_identifier n \<and> policy n' = policy n"
  using react_trace [OF assms] trace_fixed by blast

text \<open>A transaction that only an approving validator of the list submits for this request.\<close>

definition approved_tx ::
  "'i set \<Rightarrow> uuid \<Rightarrow> ('i, 'pkp, 'p1, 'cm, 'rz, 'sh) tx \<Rightarrow> bool" where
  "approved_tx A rid t \<longleftrightarrow>
     (case t of SubmitCommitment r v _ \<Rightarrow> r = rid \<longrightarrow> v \<in> A | SubmitShare _ _ _ \<Rightarrow> True | _ \<Rightarrow> False)"

definition approving :: "u8 list \<Rightarrow> ('i, 'kp, 'pkp, 'nc) node list \<Rightarrow> 'i set" where
  "approving msg vs = node_identifier ` {v \<in> set vs. policy v msg = Ok ()}"

lemma approving_simps [simp]:
  "approving msg [] = {}"
  "approving msg (v # vs) = (if policy v msg = Ok () then {node_identifier v} else {}) \<union> approving msg vs"
  by (auto simp: approving_def)

lemma approved_tx_mono: "approved_tx A rid t \<Longrightarrow> A \<subseteq> B \<Longrightarrow> approved_tx B rid t"
  by (auto simp: approved_tx_def split: tx.splits)

lemma react_approved:
  assumes "react S n s rng = (Ok out, n', rng')" "t \<in> set out"
    and "\<And>e. bt_get (requests s) rid = Some e \<Longrightarrow> message e = msg"
    and "policy n msg = Ok () \<Longrightarrow> node_identifier n \<in> A"
  shows "approved_tx A rid t"
proof -
  from react_trace [OF assms(1)] obtain tr where tr: "node_trace S n tr n'" "out = emitted tr"
    "\<And>r e x. (r, e, x) \<in> set tr \<Longrightarrow> bt_get (requests s) r = Some e" by blast
  from assms(2) tr(2) obtain r e where ev: "(r, e, Ok (Some t)) \<in> set tr" by (auto simp: in_emitted)
  from trace_produced [OF tr(1) ev] trace_commits [OF tr(1) ev] tr(3) [OF ev] assms(3,4)
  show ?thesis unfolding approved_tx_def by auto
qed

lemma validators_react_approved:
  assumes "validators_react S sim rng b vs = (r, sim', vs', rng')"
    and "\<And>e. bt_get (requests (sim_state sim)) rid = Some e \<Longrightarrow> message e = msg"
  shows "sim_state sim' = sim_state sim \<and> block_height sim' = block_height sim \<and>
    (\<exists>out. mempool sim' = mempool sim @ out \<and> (\<forall>t \<in> set out. approved_tx (approving msg vs) rid t)) \<and>
    map node_identifier vs' = map node_identifier vs \<and> map policy vs' = map policy vs"
  using assms
proof (induction S sim rng b vs arbitrary: r sim' vs' rng' rule: validators_react.induct)
  case (2 S sim rng b v vs)
  obtain r1 v1 rng1 where one: "react S v (sim_state sim) rng = (r1, v1, rng1)" by (metis prod_cases3)
  note fixed = react_fixed [OF one]
  show ?case
  proof (cases r1)
    case (Ok out)
    let ?sim = "submit_all sim out"
    obtain vs1 where rest: "validators_react S ?sim rng1 (b \<or> out \<noteq> []) vs = (r, sim', vs1, rng')"
      and vs': "vs' = v1 # vs1"
      using 2(2) one Ok by (auto split: prod.splits)
    from 2(1) [OF one [symmetric] Ok refl rest] 2(3) obtain more where
      more: "mempool sim' = mempool ?sim @ more" "\<forall>t \<in> set more. approved_tx (approving msg vs) rid t"
        "sim_state sim' = sim_state sim" "block_height sim' = block_height sim"
        "map node_identifier vs1 = map node_identifier vs" "map policy vs1 = map policy vs"
      by auto
    have "approved_tx (approving msg (v # vs)) rid t" if "t \<in> set out" for t
      using one that 2(3) unfolding Ok by (rule react_approved) auto
    moreover have "approved_tx (approving msg (v # vs)) rid t" if "t \<in> set more" for t
      using more(2) that by (auto intro: approved_tx_mono)
    ultimately show ?thesis using more fixed vs' by (auto intro!: exI [of _ "out @ more"])
  qed (use 2 one fixed in auto)
qed simp

lemma approving_cong:
  "map node_identifier vs' = map node_identifier vs \<Longrightarrow> map policy vs' = map policy vs \<Longrightarrow>
   approving msg vs' = approving msg vs"
proof (induction vs arbitrary: vs')
  case (Cons v vs)
  then obtain w ws where "vs' = w # ws" by (cases vs') auto
  with Cons.prems Cons.IH [of ws] show ?case by auto
qed simp

section \<open>A signature is backed by approvals\<close>

text \<open>The request is the submitted one, and everyone it counts on is in the given set.\<close>

definition backed ::
  "'i set \<Rightarrow> uuid \<Rightarrow> u8 list \<Rightarrow> 'rz \<Rightarrow> ('i, 'pkp, 'p1, 'cm, 'rz, 'sp, 'sh, 'sg) state \<Rightarrow> bool" where
  "backed A rid msg rz s \<longleftrightarrow>
     (\<exists>e. bt_get (requests s) rid = Some e \<and> message e = msg \<and> randomizer e = rz \<and>
        (case status e of
           AwaitingCommitments cms \<Rightarrow> dom (bt_get cms) \<subseteq> A
         | Signing sp P shs \<Rightarrow> dom (bt_get P) \<subseteq> A
         | Completed P sg \<Rightarrow> dom (bt_get P) \<subseteq> A
         | Failed reason \<Rightarrow> True))"

lemma after_commitment_backed:
  assumes "status_inv F g msg rz (AwaitingCommitments cms)" "bt_get cms v = None" "dom (bt_get cms) \<subseteq> A" "v \<in> A"
  shows "case after_commitment F (g_params g) msg (bt_insert v cm cms) of
      AwaitingCommitments cms \<Rightarrow> dom (bt_get cms) \<subseteq> A
    | Signing sp P shs \<Rightarrow> dom (bt_get P) \<subseteq> A | Completed P sg \<Rightarrow> dom (bt_get P) \<subseteq> A | Failed reason \<Rightarrow> True"
proof -
  have "bt_len (bt_insert v cm cms) \<le> max 1 (unat (threshold (g_params g)))"
    using assms(1,2) by (auto simp: status_inv_def Let_def)
  then show ?thesis using assms(3,4) by (simp add: after_commitment_cases)
qed

lemma backed_step:
  assumes inv: "chain_inv F s" and step: "apply_tx F s t = Ok s'" and t: "approved_tx A rid t"
    and old: "backed A rid msg rz s"
  shows "backed A rid msg rz s'"
proof -
  from old obtain e where e: "bt_get (requests s) rid = Some e" "message e = msg" "randomizer e = rz"
    "case status e of AwaitingCommitments cms \<Rightarrow> dom (bt_get cms) \<subseteq> A | Signing sp P shs \<Rightarrow> dom (bt_get P) \<subseteq> A
     | Completed P sg \<Rightarrow> dom (bt_get P) \<subseteq> A | Failed reason \<Rightarrow> True"
    unfolding backed_def by blast
  from inv e(1) obtain g where g: "group s = Some g" "request_inv F g rid e" unfolding chain_inv_def by blast
  from apply_tx_entry_step [OF inv step group_stable [OF inv step g(1)], of rid, unfolded e(1)] show ?thesis
  proof cases
    case (entry_commit cms v cm)
    have "v \<in> A" using t entry_commit by (simp add: approved_tx_def)
    moreover have "status_inv F g msg rz (AwaitingCommitments cms)"
      using g(2) entry_commit e by (simp add: request_inv_def)
    ultimately show ?thesis
      using after_commitment_backed [of F g msg rz cms v A cm] entry_commit e unfolding backed_def by auto
  next
    case (entry_share sp P shs v sh)
    with e show ?thesis unfolding backed_def after_share_def by (auto split: sum.splits)
  qed (use e in \<open>auto simp: backed_def\<close>)
qed

lemma backed_run:
  assumes "run_all (apply_tx F) s ts = Ok s'" "chain_inv F s" "\<forall>t \<in> set ts. approved_tx A rid t" "backed A rid msg rz s"
  shows "chain_inv F s' \<and> backed A rid msg rz s'"
  using assms
proof (induction ts arbitrary: s)
  case (Cons t ts)
  then obtain s1 where s1: "apply_tx F s t = Ok s1" "run_all (apply_tx F) s1 ts = Ok s'" by auto
  have "chain_inv F s1" "backed A rid msg rz s1"
    using apply_tx_inv [OF Cons.prems(2) s1(1)] backed_step [OF Cons.prems(2) s1(1) _ Cons.prems(4)] Cons.prems(3) by auto
  with Cons.IH [OF s1(2)] Cons.prems(3) show ?case by auto
qed simp

lemma block_subset: "commit_block F sim = Ok (sim', results) \<Longrightarrow> set (last_block sim') \<subseteq> set (mempool sim)"
proof -
  assume cb: "commit_block F sim = Ok (sim', results)"
  have "set (accepted_of results) \<subseteq> set (map fst results)" by (auto simp: accepted_of_def)
  with commit_block_Ok [OF cb] show ?thesis by simp
qed

text \<open>One round of the driver's loop.\<close>

lemma round_backed:
  assumes vr: "validators_react S sim rng b vs = (r, sim1, vs1, rng1)" and cb: "commit_block F sim1 = Ok (sim2, results)"
    and inv: "chain_inv F (sim_state sim)" "backed A rid msg rz (sim_state sim)" "mempool sim = []"
    and A: "approving msg vs \<subseteq> A"
  shows "chain_inv F (sim_state sim2) \<and> backed A rid msg rz (sim_state sim2) \<and> mempool sim2 = [] \<and>
    unat (block_height sim2) = Suc (unat (block_height sim)) \<and>
    approving msg vs1 = approving msg vs \<and> map policy vs1 = map policy vs"
proof -
  have msg: "message e = msg" if "bt_get (requests (sim_state sim)) rid = Some e" for e
    using inv(2) that by (auto simp: backed_def)
  have v: "sim_state sim1 = sim_state sim" "block_height sim1 = block_height sim"
      "\<forall>t \<in> set (mempool sim1). approved_tx (approving msg vs) rid t"
      "map node_identifier vs1 = map node_identifier vs" "map policy vs1 = map policy vs"
    using validators_react_approved [OF vr, of rid msg] msg inv(3) by auto
  from commit_block_Ok [OF cb] v(1,2) have run: "run_all (apply_tx F) (sim_state sim) (last_block sim2) = Ok (sim_state sim2)"
    "mempool sim2 = []" "unat (block_height sim2) = Suc (unat (block_height sim))" by auto
  have "\<forall>t \<in> set (last_block sim2). approved_tx A rid t"
    using block_subset [OF cb] v(3) A by (auto intro: approved_tx_mono)
  from backed_run [OF run(1) inv(1) this inv(2)] run(2,3) approving_cong [OF v(4,5)] v(5)
  show ?thesis by blast
qed

lemma session_backed:
  assumes "session_loop F S rid n sim vs rng = (Ok sg, sim', vs', rng')"
    and "chain_inv F (sim_state sim)" "backed (approving msg vs) rid msg rz (sim_state sim)" "mempool sim = []"
  shows "chain_inv F (sim_state sim') \<and> backed (approving msg vs) rid msg rz (sim_state sim') \<and>
    (\<exists>e P. bt_get (requests (sim_state sim')) rid = Some e \<and> status e = Completed P sg)"
  using assms
proof (induction n arbitrary: sim vs rng)
  case (Suc n)
  obtain r sim1 vs1 rng1 where vr: "validators_react S sim rng False vs = (r, sim1, vs1, rng1)" by (metis prod_cases4)
  with Suc.prems(1) obtain em sim2 results where r: "r = Ok em" and cb: "commit_block F sim1 = Ok (sim2, results)"
    by (auto split: result.splits)
  note round = round_backed [OF vr cb Suc.prems(2-4) subset_refl]
  then obtain e where e: "bt_get (requests (sim_state sim2)) rid = Some e" by (auto simp: backed_def)
  show ?case
  proof (cases "\<exists>P sg. status e = Completed P sg")
    case True
    with Suc.prems(1) vr r cb e round show ?thesis by auto
  next
    case False
    with Suc.prems(1) vr r cb e have "session_loop F S rid n sim2 vs1 rng1 = (Ok sg, sim', vs', rng')"
      by (auto split: request_status.splits if_splits)
    with Suc.IH [of sim2 vs1 rng1] round show ?thesis by simp
  qed
qed simp

lemma request_submitted:
  assumes cb: "commit_block F (submit sim (SubmitRequest rid msg rz)) = Ok (sim1, results)"
    and ok: "first_rejection results = None" and sim: "mempool sim = []" "chain_inv F (sim_state sim)"
  shows "chain_inv F (sim_state sim1) \<and> backed A rid msg rz (sim_state sim1) \<and> mempool sim1 = [] \<and>
    bt_get (requests (sim_state sim)) rid = None"
proof -
  let ?t = "SubmitRequest rid msg rz"
  have mp: "mempool (submit sim ?t) = [?t]" "sim_state (submit sim ?t) = sim_state sim"
    using sim(1) by (simp_all add: submit_def)
  have step: "apply_tx F (sim_state sim) ?t = Ok (sim_state sim1)"
    using cb ok unfolding commit_block_def mp
    by (cases "apply_tx F (sim_state sim) ?t") (auto simp del: apply_tx.simps)
  then have "bt_get (requests (sim_state sim)) rid = None" "backed A rid msg rz (sim_state sim1)"
    by (auto simp: submit_request_Ok backed_def)
  with apply_tx_inv [OF sim(2) step] commit_block_Ok [OF cb] show ?thesis by blast
qed

section \<open>The driver always returns\<close>

lemma apply_tx_no_panic: "ceremony s = None \<Longrightarrow> apply_tx F s t \<noteq> Panic"
  by (cases t) (auto simp: apply_defs Let_def split: if_splits option.splits request_status.splits)

lemma commit_loop_returns:
  assumes "chain_inv F s" "group s = Some g"
  shows "\<exists>s' acc' res'. commit_loop F s acc res ts = Ok (s', acc', res') \<and> chain_inv F s' \<and> group s' = Some g"
  using assms
proof (induction F s acc res ts rule: commit_loop.induct)
  case (2 F s acc res t ts)
  have "ceremony s = None" using 2(3,4) by (cases "ceremony s") (auto simp: chain_inv_def)
  then have "apply_tx F s t \<noteq> Panic" by (rule apply_tx_no_panic)
  then show ?case
    using 2 apply_tx_inv [OF 2(3), of t] group_stable [OF 2(3) _ 2(4), of t]
    by (cases "apply_tx F s t") (simp_all del: apply_tx.simps)
qed simp

lemma commit_block_returns:
  assumes "chain_inv F (sim_state sim)" "group (sim_state sim) = Some g" "unat (block_height sim) + 1 < 2 ^ 64"
  shows "\<exists>sim' results. commit_block F sim = Ok (sim', results) \<and> group (sim_state sim') = Some g"
proof -
  from commit_loop_returns [OF assms(1,2), of "[]" "[]" "mempool sim"] obtain s' acc' res' where
    "commit_loop F (sim_state sim) [] [] (mempool sim) = Ok (s', acc', res')" "group s' = Some g" by blast
  moreover have "block_height sim \<noteq> - 1" using assms(3) by (auto simp: unsigned_minus_1_eq_mask mask_eq_exp_minus_1)
  ultimately show ?thesis by (simp add: commit_block_def u64_inc_def)
qed

lemma react_no_panic:
  assumes "react S n s rng = (r, n', rng')" "\<And>m. policy n m \<noteq> Panic"
  shows "r \<noteq> Panic"
  using react_trace [OF assms(1)] trace_no_panic [OF _ _ assms(2)] by blast

lemma validators_react_no_panic:
  assumes "validators_react S sim rng b vs = (r, sim', vs', rng')" "\<forall>p \<in> set (map policy vs). \<forall>m. p m \<noteq> Panic"
  shows "r \<noteq> Panic"
  using assms
proof (induction S sim rng b vs arbitrary: r sim' vs' rng' rule: validators_react.induct)
  case (2 S sim rng b v vs)
  obtain r1 v1 rng1 where one: "react S v (sim_state sim) rng = (r1, v1, rng1)" by (metis prod_cases3)
  then have "r1 \<noteq> Panic" by (rule react_no_panic) (use 2(3) in auto)
  with 2 one show ?case by (cases r1) (auto split: prod.splits)
qed simp

lemma session_returns_aux:
  assumes "chain_inv F (sim_state sim)" "backed UNIV rid msg rz (sim_state sim)" "mempool sim = []"
    and "unat (block_height sim) + n < 2 ^ 64" "\<forall>p \<in> set (map policy vs). \<forall>m. p m \<noteq> Panic"
  shows "\<exists>r sim' vs' rng'. session_loop F S rid n sim vs rng = (r, sim', vs', rng') \<and> r \<noteq> Panic \<and>
    r \<noteq> Err RequestMissing \<and> r \<noteq> Err (StuckBeforeCompletion ''unreachable'') \<and>
    unat (block_height sim) \<le> unat (block_height sim') \<and> unat (block_height sim') \<le> unat (block_height sim) + n"
  using assms
proof (induction n arbitrary: sim vs rng)
  case (Suc n)
  obtain r sim1 vs1 rng1 where vr: "validators_react S sim rng False vs = (r, sim1, vs1, rng1)" by (metis prod_cases4)
  have v: "sim_state sim1 = sim_state sim" "block_height sim1 = block_height sim"
    using validators_react_approved [OF vr, of rid msg] Suc.prems(2) by (auto simp: backed_def)
  have np: "r \<noteq> Panic" by (rule validators_react_no_panic [OF vr Suc.prems(5)])
  show ?case
  proof (cases r)
    case (Ok em)
    from Suc.prems(2) obtain e0 where "bt_get (requests (sim_state sim)) rid = Some e0" by (auto simp: backed_def)
    with Suc.prems(1) obtain g where "group (sim_state sim) = Some g" unfolding chain_inv_def by blast
    then obtain sim2 results where cb: "commit_block F sim1 = Ok (sim2, results)"
      using commit_block_returns [of F sim1 g] v Suc.prems(1,4) by auto
    note round = round_backed [OF vr cb Suc.prems(1-3) subset_UNIV]
    then obtain e where e: "bt_get (requests (sim_state sim2)) rid = Some e" by (auto simp: backed_def)
    have "\<exists>r sim' vs' rng'. session_loop F S rid n sim2 vs1 rng1 = (r, sim', vs', rng') \<and> r \<noteq> Panic \<and>
        r \<noteq> Err RequestMissing \<and> r \<noteq> Err (StuckBeforeCompletion ''unreachable'') \<and>
        unat (block_height sim2) \<le> unat (block_height sim') \<and> unat (block_height sim') \<le> unat (block_height sim2) + n"
      by (rule Suc.IH) (use round Suc.prems(4,5) in auto)
    then obtain r' sim' vs' rng' where
      rec: "session_loop F S rid n sim2 vs1 rng1 = (r', sim', vs', rng')" "r' \<noteq> Panic" "r' \<noteq> Err RequestMissing"
        "r' \<noteq> Err (StuckBeforeCompletion ''unreachable'')"
        "unat (block_height sim2) \<le> unat (block_height sim')" "unat (block_height sim') \<le> unat (block_height sim2) + n"
      by blast
    have "unat (block_height sim2) = Suc (unat (block_height sim))" using round by blast
    with vr Ok cb e rec show ?thesis by (cases "status e") auto
  qed (use vr v np in auto)
qed simp

end
