(* ===== verification/Zcash_Live.thy ===== *)
theory Zcash_Live
  imports Zcash_Session Dkg_Honest
begin

text \<open>
  A session of honest validators ends with the outcome of the aggregation after three blocks: the
  request, the commitments, the shares. The state that such a session needs is also the state that it
  leaves, so that sessions can follow one another, as the Orchard signer and the demonstration use
  them.
\<close>

section \<open>Reacting to a single open request\<close>

definition terminal :: "('i, 'cm, 'sp, 'sh, 'sg) request_status \<Rightarrow> bool" where
  "terminal st \<longleftrightarrow> (case st of Completed _ _ \<Rightarrow> True | Failed _ \<Rightarrow> True | _ \<Rightarrow> False)"

definition others_terminal :: "uuid \<Rightarrow> ('i, 'pkp, 'p1, 'cm, 'rz, 'sp, 'sh, 'sg) state \<Rightarrow> bool" where
  "others_terminal rid s \<longleftrightarrow> (\<forall>r e. bt_get (requests s) r = Some e \<longrightarrow> r \<noteq> rid \<longrightarrow> terminal (status e))"

lemma react_loop_terminal:
  "\<forall>(r, e) \<in> set xs. terminal (status e) \<Longrightarrow> react_loop S n rng out xs = (Ok out, n, rng)"
  by (induction xs) (auto simp: react_request_def terminal_def split: request_status.splits)

lemma react_single:
  assumes "group s = Some g" "node_identifier n \<in> dom (bt_get (g_validators g))"
    and "bt_get (requests s) rid = Some e" "others_terminal rid s"
  shows "react S n s rng =
    (case react_request S n rng rid e of
       (Ok t, n', rng') \<Rightarrow> (Ok (case t of None \<Rightarrow> [] | Some t \<Rightarrow> [t]), n', rng')
     | (Err err, n', rng') \<Rightarrow> (Err err, n', rng')
     | (Panic, n', rng') \<Rightarrow> (Panic, n', rng'))"
proof -
  have "(rid, e) \<in> set (bt_iter (requests s))" using assms(3) by (simp add: in_set_bt_iter)
  then obtain xs ys where it: "bt_iter (requests s) = xs @ (rid, e) # ys" by (auto simp: in_set_conv_decomp)
  have d: "distinct (map fst (xs @ (rid, e) # ys))" using distinct_bt_iter [of "requests s"] by (simp add: it)
  have t: "terminal (status e')" if "(r, e') \<in> set xs \<union> set ys" for r e'
  proof -
    have "(r, e') \<in> set (bt_iter (requests s))" using that it by auto
    moreover have "r \<noteq> rid" using d that by force
    ultimately show ?thesis using assms(4) unfolding others_terminal_def in_set_bt_iter by blast
  qed
  have "react S n s rng = react_loop S n rng [] (xs @ (rid, e) # ys)"
    using assms(1,2) by (auto simp: react_def bt_contains_key_def it)
  also have "\<dots> = react_loop S n rng [] ((rid, e) # ys)"
    by (rule react_loop_append) (rule react_loop_terminal, use t in auto)
  finally have start: "react S n s rng = react_loop S n rng [] ((rid, e) # ys)" .
  have "\<forall>(r, e) \<in> set ys. terminal (status e)" using t by auto
  from react_loop_terminal [OF this] show ?thesis
    unfolding start by (auto split: prod.splits result.splits option.splits)
qed

lemma validators_react_family:
  assumes "\<And>i rng. i \<in> set ids \<Longrightarrow>
      \<exists>out v' rng'. react S (V i) (sim_state sim) rng = (Ok out, v', rng') \<and> R i out v'"
    and "distinct ids"
  shows "\<exists>out V' rng'. validators_react S sim rng b (map V ids) =
      (Ok (b \<or> (\<exists>i \<in> set ids. out i \<noteq> [])), sim\<lparr>mempool := mempool sim @ concat (map out ids)\<rparr>, map V' ids, rng') \<and>
    (\<forall>i \<in> set ids. R i (out i) (V' i))"
proof -
  have "\<exists>out v' r'. signer_act S (V i) (sim_state sim) r = (Ok out, v', r') \<and> R i out v'" if i: "i \<in> set ids" for i r
    using assms(1) [OF i, of "fst r"] by (auto simp: signer_act_def)
  from signers.pass_family [of ids S V sim R "(rng, b)", OF this assms(2)] obtain out V' rng' b' where
    pass: "signer_pass S sim (rng, b) (map V ids) = (Ok (), submit_all sim (concat (map out ids)), map V' ids, rng', b')"
    and R: "\<forall>i \<in> set ids. R i (out i) (V' i)" by auto
  then have vr: "validators_react S sim rng b (map V ids) =
      (Ok b', sim\<lparr>mempool := mempool sim @ concat (map out ids)\<rparr>, map V' ids, rng')"
    by (auto simp: signer_pass_def split: prod.splits result.splits)
  have "b' \<longleftrightarrow> b \<or> (\<exists>i \<in> set ids. out i \<noteq> [])" using emitted_flag [OF vr] by auto
  with vr R show ?thesis by blast
qed

lemma commit_block_skip:
  assumes "run_skip (apply_tx F) (sim_state sim) (mempool sim) = Ok s'" "unat (block_height sim) + 1 < 2 ^ 64"
  shows "\<exists>sim' results. commit_block F sim = Ok (sim', results) \<and> sim_state sim' = s' \<and> mempool sim' = [] \<and>
    unat (block_height sim') = Suc (unat (block_height sim))"
proof -
  have "commit_loop F (sim_state sim) [] [] (mempool sim) \<noteq> Panic" using assms(1) by (simp add: commit_loop_Panic)
  then obtain s1 acc res where loop: "commit_loop F (sim_state sim) [] [] (mempool sim) = Ok (s1, acc, res)"
    using commit_loop_total by (cases "commit_loop F (sim_state sim) [] [] (mempool sim)") fastforce+
  have "block_height sim \<noteq> - 1" using assms(2) by (auto simp: unsigned_minus_1_eq_mask mask_eq_exp_minus_1)
  with loop obtain sim' where cb: "commit_block F sim = Ok (sim', res)" by (simp add: commit_block_def u64_inc_def)
  from commit_block_Ok [OF cb] assms(1) cb show ?thesis by auto
qed

section \<open>What the signing functions document\<close>

text \<open>
  A commitment and a share made by the holder of a key package: nonces and commitment of one draw of
  round one, and the signature with these nonces over a signing package that contains the commitment.
\<close>

definition honest_share ::
  "('i::linorder, 'pkp, 'vk, 'vs, 'cm, 'rz, 'rp, 'sp, 'sh, 'sg) frost \<Rightarrow>
   ('i, 'kp, 'ss, 'nc, 'cm, 'sp, 'rz, 'sh, 'g) frost_signer \<Rightarrow> ('i, 'cm) btree_map \<Rightarrow> u8 list \<Rightarrow> 'rz \<Rightarrow>
   'kp \<Rightarrow> 'sh \<Rightarrow> bool" where
  "honest_share F S cms msg rz kp sh \<longleftrightarrow>
     (\<exists>rng rng' nc cm. round1_commit S (signing_share S kp) rng = ((nc, cm), rng') \<and>
        bt_get cms (kp_identifier S kp) = Some cm \<and>
        frost_sign S (signing_package_new F cms msg) nc kp rz = Inr sh)"

text \<open>Signing succeeds for a package of \<open>t\<close> commitments that contains the own one.\<close>

definition sign_law ::
  "('i::linorder, 'pkp, 'vk, 'vs, 'cm, 'rz, 'rp, 'sp, 'sh, 'sg) frost \<Rightarrow>
   ('i, 'kp, 'ss, 'nc, 'cm, 'sp, 'rz, 'sh, 'g) frost_signer \<Rightarrow> nat \<Rightarrow> 'kp \<Rightarrow> bool" where
  "sign_law F S t kp \<longleftrightarrow>
     (\<forall>rng rng' nc cm cms msg rz. round1_commit S (signing_share S kp) rng = ((nc, cm), rng') \<longrightarrow>
        bt_get cms (kp_identifier S kp) = Some cm \<longrightarrow> bt_len cms = t \<longrightarrow>
        (\<exists>sh. frost_sign S (signing_package_new F cms msg) nc kp rz = Inr sh))"

section \<open>The state between sessions\<close>

definition remembers ::
  "('i, 'pkp, 'p1, 'cm, 'rz, 'sp, 'sh, 'sg) state \<Rightarrow> ('i, 'kp, 'pkp, 'nc) node \<Rightarrow> bool" where
  "remembers s v \<longleftrightarrow>
     committed_requests v \<union> shared_requests v \<union> dom (pending v) \<subseteq> dom (bt_get (requests s))"

definition session_ready ::
  "('i::linorder, 'pkp, 'vk, 'vs, 'cm, 'rz, 'rp, 'sp, 'sh, 'sg) frost \<Rightarrow>
   ('i, 'kp, 'ss, 'nc, 'cm, 'sp, 'rz, 'sh, 'g) frost_signer \<Rightarrow> ('i, 'pkp) group_config \<Rightarrow>
   ('i, 'pkp, 'p1, 'cm, 'rz, 'sp, 'sh, 'sg) chain_sim \<Rightarrow> ('i, 'kp, 'pkp, 'nc) node list \<Rightarrow> bool" where
  "session_ready F S g sim vs \<longleftrightarrow>
     group (sim_state sim) = Some g \<and> mempool sim = [] \<and>
     (\<forall>r e. bt_get (requests (sim_state sim)) r = Some e \<longrightarrow> terminal (status e)) \<and>
     distinct (map node_identifier vs) \<and> set (map node_identifier vs) \<subseteq> dom (bt_get (g_validators g)) \<and>
     0 < unat (threshold (g_params g)) \<and> unat (threshold (g_params g)) \<le> length vs \<and>
     (\<forall>v \<in> set vs. node_identifier v = kp_identifier S (key_package v) \<and>
        sign_law F S (unat (threshold (g_params g))) (key_package v) \<and> remembers (sim_state sim) v)"

section \<open>The two rounds\<close>

definition committed :: "uuid \<Rightarrow> 'nc \<Rightarrow> ('i, 'kp, 'pkp, 'nc) node \<Rightarrow> ('i, 'kp, 'pkp, 'nc) node" where
  "committed rid nc v = v\<lparr>pending := (pending v)(rid \<mapsto> nc), committed_requests := insert rid (committed_requests v)\<rparr>"

definition shared :: "uuid \<Rightarrow> ('i, 'kp, 'pkp, 'nc) node \<Rightarrow> ('i, 'kp, 'pkp, 'nc) node" where
  "shared rid v = v\<lparr>pending := (pending v)(rid := None), shared_requests := insert rid (shared_requests v)\<rparr>"

lemma node_updates [simp]:
  "node_identifier (committed rid nc v) = node_identifier v" "key_package (committed rid nc v) = key_package v"
  "policy (committed rid nc v) = policy v" "pending (committed rid nc v) rid = Some nc"
  "shared_requests (committed rid nc v) = shared_requests v"
  "node_identifier (shared rid v) = node_identifier v" "key_package (shared rid v) = key_package v"
  "policy (shared rid v) = policy v"
  by (simp_all add: committed_def shared_def key_package_def)

lemma concat_singletons: "(\<And>i. i \<in> set ids \<Longrightarrow> out i = [f i]) \<Longrightarrow> concat (map out ids) = map f ids"
  by (induction ids) auto

lemma commit_round:
  fixes sim :: "('i::linorder, 'pkp, 'p1, 'cm, 'rz, 'sp, 'sh, 'sg) chain_sim"
  assumes g: "group (sim_state sim) = Some g" and e: "bt_get (requests (sim_state sim)) rid = Some e"
      "status e = AwaitingCommitments bt_new" "others_terminal rid (sim_state sim)"
    and ids: "distinct ids" "ids \<noteq> []" "set ids \<subseteq> dom (bt_get (g_validators g))"
    and V: "\<forall>i \<in> set ids. node_identifier (V i) = i \<and> policy (V i) (message e) = Ok () \<and>
      rid \<notin> committed_requests (V i) \<and> pending (V i) rid = None"
  shows "\<exists>nc cm rng'. validators_react S sim rng False (map V ids) =
      (Ok True, sim\<lparr>mempool := mempool sim @ map (\<lambda>i. SubmitCommitment rid i (cm i)) ids\<rparr>,
       map (\<lambda>i. committed rid (nc i) (V i)) ids, rng') \<and>
    (\<forall>i \<in> set ids. \<exists>r r'. round1_commit S (signing_share S (key_package (V i))) r = ((nc i, cm i), r'))"
proof -
  define R :: "'i \<Rightarrow> ('i, 'pkp, 'p1, 'cm, 'rz, 'sh) tx list \<Rightarrow> _" where
    "R i out v' \<longleftrightarrow> (\<exists>nc cm. out = [SubmitCommitment rid i cm] \<and> v' = committed rid nc (V i) \<and>
       (\<exists>r r'. round1_commit S (signing_share S (key_package (V i))) r = ((nc, cm), r')))" for i out v'
  have "\<exists>out v' rng'. react S (V i) (sim_state sim) rng = (Ok out, v', rng') \<and> R i out v'" if "i \<in> set ids" for i rng
  proof -
    obtain nc cm rng' where c: "round1_commit S (signing_share S (key_package (V i))) rng = ((nc, cm), rng')"
      by (metis prod.collapse)
    have "node_identifier (V i) \<in> dom (bt_get (g_validators g))" using bspec [OF V that] ids(3) that by auto
    from react_single [OF g this e(1,3), of S rng] bspec [OF V that] e(2) c
    have "react S (V i) (sim_state sim) rng = (Ok [SubmitCommitment rid i cm], committed rid nc (V i), rng')"
      by (simp add: react_request_def commit_def bt_contains_key_def committed_def)
    moreover have "R i [SubmitCommitment rid i cm] (committed rid nc (V i))" unfolding R_def using c by blast
    ultimately show ?thesis by blast
  qed
  from validators_react_family [of ids S V sim R rng False, OF this ids(1)] obtain out V' rng' where
    vr: "validators_react S sim rng False (map V ids) =
      (Ok (\<exists>i \<in> set ids. out i \<noteq> []), sim\<lparr>mempool := mempool sim @ concat (map out ids)\<rparr>, map V' ids, rng')"
    and R: "\<forall>i \<in> set ids. R i (out i) (V' i)" by auto
  from R [unfolded R_def] obtain nc cm where
    nc: "\<forall>i \<in> set ids. out i = [SubmitCommitment rid i (cm i)] \<and> V' i = committed rid (nc i) (V i) \<and>
       (\<exists>r r'. round1_commit S (signing_share S (key_package (V i))) r = ((nc i, cm i), r'))" by metis
  have "\<exists>i \<in> set ids. out i \<noteq> []" using nc ids(2) by (cases ids) auto
  moreover have "concat (map out ids) = map (\<lambda>i. SubmitCommitment rid i (cm i)) ids"
    by (rule concat_singletons) (use nc in auto)
  moreover have "map V' ids = map (\<lambda>i. committed rid (nc i) (V i)) ids" using nc by auto
  ultimately show ?thesis using vr nc by (intro exI [of _ nc] exI [of _ cm] exI [of _ rng']) auto
qed

lemma concat_selected:
  "(\<And>i. i \<in> set ids \<Longrightarrow> out i = (if i \<in> A then [f i] else [])) \<Longrightarrow> concat (map out ids) = map f (filter (\<lambda>i. i \<in> A) ids)"
  by (induction ids) auto

lemma share_round:
  fixes sim :: "('i::linorder, 'pkp, 'p1, 'cm, 'rz, 'sp, 'sh, 'sg) chain_sim"
  assumes g: "group (sim_state sim) = Some g" and e: "bt_get (requests (sim_state sim)) rid = Some e"
      "status e = Signing sp P bt_new" "others_terminal rid (sim_state sim)"
    and ids: "distinct ids" "set ids \<subseteq> dom (bt_get (g_validators g))" "dom (bt_get P) \<subseteq> set ids" "dom (bt_get P) \<noteq> {}"
    and V: "\<And>i. i \<in> set ids \<Longrightarrow> node_identifier (V i) = i \<and> rid \<notin> shared_requests (V i) \<and> pending (V i) rid = Some (nc i)"
    and sign: "\<And>i. i \<in> dom (bt_get P) \<Longrightarrow> frost_sign S sp (nc i) (key_package (V i)) (randomizer e) = Inr (sh i)"
  shows "\<exists>rng'. validators_react S sim rng False (map V ids) =
      (Ok True, sim\<lparr>mempool := mempool sim @ map (\<lambda>i. SubmitShare rid i (sh i)) (filter (\<lambda>i. i \<in> dom (bt_get P)) ids)\<rparr>,
       map (\<lambda>i. if i \<in> dom (bt_get P) then shared rid (V i) else V i) ids, rng')"
proof -
  define R :: "'i \<Rightarrow> ('i, 'pkp, 'p1, 'cm, 'rz, 'sh) tx list \<Rightarrow> _" where
    "R i out v' \<longleftrightarrow> out = (if i \<in> dom (bt_get P) then [SubmitShare rid i (sh i)] else []) \<and>
       v' = (if i \<in> dom (bt_get P) then shared rid (V i) else V i)" for i out v'
  have "\<exists>out v' rng'. react S (V i) (sim_state sim) rng = (Ok out, v', rng') \<and> R i out v'" if "i \<in> set ids" for i rng
  proof -
    have "node_identifier (V i) \<in> dom (bt_get (g_validators g))" using V [OF that] ids(2) that by auto
    from react_single [OF g this e(1,3), of S rng] V [OF that] e(2) sign [of i] show ?thesis
      by (cases "bt_get P i")
        (auto simp: react_request_def sign_share_rerandomized_def bt_contains_key_def shared_def R_def domIff)
  qed
  from validators_react_family [of ids S V sim R rng False, OF this ids(1)] obtain out V' rng' where
    vr: "validators_react S sim rng False (map V ids) =
      (Ok (\<exists>i \<in> set ids. out i \<noteq> []), sim\<lparr>mempool := mempool sim @ concat (map out ids)\<rparr>, map V' ids, rng')"
    and R: "\<forall>i \<in> set ids. R i (out i) (V' i)" by auto
  from ids(3,4) obtain i where "i \<in> set ids" "i \<in> dom (bt_get P)" by blast
  then have "\<exists>i \<in> set ids. out i \<noteq> []" using R by (auto simp: R_def)
  moreover have "concat (map out ids) = map (\<lambda>i. SubmitShare rid i (sh i)) (filter (\<lambda>i. i \<in> dom (bt_get P)) ids)"
    by (rule concat_selected) (use R in \<open>auto simp: R_def\<close>)
  moreover have "map V' ids = map (\<lambda>i. if i \<in> dom (bt_get P) then shared rid (V i) else V i) ids"
    using R by (auto simp: R_def)
  ultimately show ?thesis using vr by auto
qed

section \<open>A session\<close>

lemma first_block:
  assumes "group (sim_state sim) = Some g" "mempool sim = []" "bt_get (requests (sim_state sim)) rid = None"
    and "unat (block_height sim) + 1 < 2 ^ 64"
  shows "\<exists>sim' results. commit_block F (submit sim (SubmitRequest rid msg rz)) = Ok (sim', results) \<and>
    first_rejection results = None \<and> mempool sim' = [] \<and> unat (block_height sim') = Suc (unat (block_height sim)) \<and>
    sim_state sim' = with_entry (sim_state sim) rid
      \<lparr>request_id = rid, message = msg, randomizer = rz, status = AwaitingCommitments bt_new\<rparr>"
proof -
  let ?t = "SubmitRequest rid msg rz" and ?s = "with_entry (sim_state sim) rid
      \<lparr>request_id = rid, message = msg, randomizer = rz, status = AwaitingCommitments bt_new\<rparr>"
  have "apply_tx F (sim_state sim) ?t = Ok ?s"
    using assms(1,3) by (simp only: apply_tx.simps submit_request_Ok) (simp add: with_entry_def)
  then have "run_all (apply_tx F) (sim_state (submit sim ?t)) (mempool (submit sim ?t)) = Ok ?s"
    using assms(2) by (simp add: submit_def del: apply_tx.simps)
  moreover have "block_height (submit sim ?t) \<noteq> - 1"
    using assms(4) by (auto simp: submit_def unsigned_minus_1_eq_mask mask_eq_exp_minus_1)
  ultimately have cb: "commit_block F (submit sim ?t) = Ok (\<lparr>sim_state = ?s, mempool = [],
      block_height = block_height (submit sim ?t) + 1, last_block = mempool (submit sim ?t)\<rparr>, [(?t, Ok ())])"
    using assms(2) by (subst commit_block_all) (simp_all add: submit_def)
  from commit_block_Ok [OF cb] cb show ?thesis by (simp add: submit_def)
qed

text \<open>What a request looks like once the shares of the participants are aggregated.\<close>

definition outcome ::
  "('i::linorder, 'pkp, 'vk, 'vs, 'cm, 'rz, 'rp, 'sp, 'sh, 'sg) frost \<Rightarrow> 'pkp \<Rightarrow> ('i, 'cm) btree_map \<Rightarrow>
   ('i, 'sh) btree_map \<Rightarrow> u8 list \<Rightarrow> 'rz \<Rightarrow> string + 'sg" where
  "outcome F pkp cms shs msg rz =
     aggregate F (signing_package_new F cms msg) shs pkp (from_randomizer F (verifying_key F pkp) rz)"

lemma commitments_block:
  fixes sim :: "('i::linorder, 'pkp, 'p1, 'cm, 'rz, 'sp, 'sh, 'sg) chain_sim"
  assumes g: "group s = Some g" and sim: "sim_state sim = with_entry s rid e" "mempool sim = []"
      "unat (block_height sim) + 1 < 2 ^ 64"
    and e: "status e = AwaitingCommitments bt_new" "others_terminal rid s"
    and ids: "distinct ids" "set ids \<subseteq> dom (bt_get (g_validators g))"
    and t: "t = unat (threshold (g_params g))" "0 < t" "t \<le> length ids"
    and V: "\<forall>i \<in> set ids. node_identifier (V i) = i \<and> policy (V i) (message e) = Ok () \<and>
      rid \<notin> committed_requests (V i) \<and> pending (V i) rid = None"
  shows "\<exists>nc cm rng1 sim0 sim1 res.
      validators_react S sim rng False (map V ids) = (Ok True, sim0, map (\<lambda>i. committed rid (nc i) (V i)) ids, rng1) \<and>
      commit_block F sim0 = Ok (sim1, res) \<and> mempool sim1 = [] \<and> unat (block_height sim1) = Suc (unat (block_height sim)) \<and>
      sim_state sim1 = with_entry s rid (e\<lparr>status :=
        Signing (signing_package_new F (insert_all cm (take t ids) bt_new) (message e)) (bs_collect (take t ids)) bt_new\<rparr>) \<and>
      (\<forall>i \<in> set ids. \<exists>r r'. round1_commit S (signing_share S (key_package (V i))) r = ((nc i, cm i), r'))"
proof -
  have ne: "ids \<noteq> []" using t by auto
  have g': "group (sim_state sim) = Some g" and get: "bt_get (requests (sim_state sim)) rid = Some e"
    and oth: "others_terminal rid (sim_state sim)"
    using g sim(1) e(2) by (auto simp: others_terminal_def)
  from commit_round [OF g' get e(1) oth ids(1) ne ids(2) V, of S rng] obtain nc cm rng1 where
    vr1: "validators_react S sim rng False (map V ids) =
      (Ok True, sim\<lparr>mempool := mempool sim @ map (\<lambda>i. SubmitCommitment rid i (cm i)) ids\<rparr>, map (\<lambda>i. committed rid (nc i) (V i)) ids, rng1)"
    and draw: "\<forall>i \<in> set ids. \<exists>r r'. round1_commit S (signing_share S (key_package (V i))) r = ((nc i, cm i), r')"
    by (elim exE conjE)
  let ?e1 = "e\<lparr>status := Signing (signing_package_new F (insert_all cm (take t ids) bt_new) (message e)) (bs_collect (take t ids)) bt_new\<rparr>"
  let ?sim = "sim\<lparr>mempool := mempool sim @ map (\<lambda>i. SubmitCommitment rid i (cm i)) ids\<rparr>"
  have "run_skip (apply_tx F) (sim_state ?sim) (mempool ?sim) = Ok (with_entry s rid ?e1)"
    using run_commitments [OF g' get e(1) ids t, of F cm] by (simp add: sim(1,2))
  from commit_block_skip [OF this] sim(3) obtain sim1 res where "commit_block F ?sim = Ok (sim1, res)"
    "sim_state sim1 = with_entry s rid ?e1" "mempool sim1 = []" "unat (block_height sim1) = Suc (unat (block_height sim))"
    by auto
  with vr1 draw show ?thesis
    by (intro exI [of _ nc] exI [of _ cm] exI [of _ rng1] exI [of _ ?sim] exI [of _ sim1] exI [of _ res] conjI) assumption+
qed

lemma signed_shares:
  assumes V: "\<forall>i \<in> set vs. kp_identifier S (key_package (V i)) = i \<and> sign_law F S t (key_package (V i))"
    and draw: "\<forall>i \<in> set vs. \<exists>r r'. round1_commit S (signing_share S (key_package (V i))) r = ((nc i, cm i), r')"
    and len: "bt_len (insert_all cm vs bt_new) = t"
  shows "\<exists>sh. (\<forall>i \<in> set vs. frost_sign S (signing_package_new F (insert_all cm vs bt_new) msg) (nc i) (key_package (V i)) rz = Inr (sh i)) \<and>
    (\<forall>i \<in> set vs. honest_share F S (insert_all cm vs bt_new) msg rz (key_package (V i)) (sh i))"
proof -
  let ?cms = "insert_all cm vs bt_new"
  let ?sp = "signing_package_new F ?cms msg"
  have "\<forall>i \<in> set vs. \<exists>sh. frost_sign S ?sp (nc i) (key_package (V i)) rz = Inr sh \<and> honest_share F S ?cms msg rz (key_package (V i)) sh"
  proof
    fix i
    assume i: "i \<in> set vs"
    from draw i obtain r r' where d: "round1_commit S (signing_share S (key_package (V i))) r = ((nc i, cm i), r')" by blast
    have c: "bt_get ?cms (kp_identifier S (key_package (V i))) = Some (cm i)" using V i by (simp add: bt_get_insert_all)
    with bspec [OF V i] d len obtain sh where "frost_sign S ?sp (nc i) (key_package (V i)) rz = Inr sh"
      unfolding sign_law_def by blast
    with d c show "\<exists>sh. frost_sign S ?sp (nc i) (key_package (V i)) rz = Inr sh \<and> honest_share F S ?cms msg rz (key_package (V i)) sh"
      unfolding honest_share_def by blast
  qed
  from bchoice [OF this] show ?thesis by blast
qed

lemma shares_block:
  fixes sim :: "('i::linorder, 'pkp, 'p1, 'cm, 'rz, 'sp, 'sh, 'sg) chain_sim"
  assumes g: "group s = Some g" and sim: "sim_state sim = with_entry s rid (e\<lparr>status :=
        Signing (signing_package_new F (insert_all cm vs bt_new) (message e)) (bs_collect vs) bt_new\<rparr>)" "mempool sim = []"
      "unat (block_height sim) + 1 < 2 ^ 64"
    and oth: "others_terminal rid s"
    and ids: "distinct ids" "set ids \<subseteq> dom (bt_get (g_validators g))" and vs: "vs = take t ids" "vs \<noteq> []" "length vs = t"
    and V: "\<forall>i \<in> set ids. node_identifier (V i) = i \<and> kp_identifier S (key_package (V i)) = i \<and>
      rid \<notin> shared_requests (V i) \<and> pending (V i) rid = Some (nc i) \<and> sign_law F S t (key_package (V i))"
    and draw: "\<forall>i \<in> set ids. \<exists>r r'. round1_commit S (signing_share S (key_package (V i))) r = ((nc i, cm i), r')"
  shows "\<exists>sh rng1 sim0 sim1 res.
      validators_react S sim rng False (map V ids) =
        (Ok True, sim0, map (\<lambda>i. if i \<in> set vs then shared rid (V i) else V i) ids, rng1) \<and>
      commit_block F sim0 = Ok (sim1, res) \<and> mempool sim1 = [] \<and> unat (block_height sim1) = Suc (unat (block_height sim)) \<and>
      sim_state sim1 = with_entry s rid (e\<lparr>status :=
        (case outcome F (g_pkp g) (insert_all cm vs bt_new) (insert_all sh vs bt_new) (message e) (randomizer e) of
           Inr sg \<Rightarrow> Completed (bs_collect vs) sg | Inl reason \<Rightarrow> Failed reason)\<rparr>) \<and>
      (\<forall>i \<in> set vs. honest_share F S (insert_all cm vs bt_new) (message e) (randomizer e) (key_package (V i)) (sh i))"
proof -
  let ?cms = "insert_all cm vs bt_new"
  let ?sp = "signing_package_new F ?cms (message e)"
  let ?e1 = "e\<lparr>status := Signing ?sp (bs_collect vs) bt_new\<rparr>"
  have sub: "set vs \<subseteq> set ids" and dis: "distinct vs" using ids(1) vs(1) by (auto dest: in_set_takeD)
  have len: "bt_len ?cms = t" using dis vs(3) by (simp add: bt_len_insert_all)
  from signed_shares [of vs S V F t nc cm "message e" "randomizer e", OF _ _ len] V draw sub obtain sh where
    sign: "\<forall>i \<in> set vs. frost_sign S ?sp (nc i) (key_package (V i)) (randomizer e) = Inr (sh i)"
    and honest: "\<forall>i \<in> set vs. honest_share F S ?cms (message e) (randomizer e) (key_package (V i)) (sh i)"
    by blast
  have st: "bt_get (requests (sim_state sim)) rid = Some ?e1" "status ?e1 = Signing ?sp (bs_collect vs) bt_new"
    "others_terminal rid (sim_state sim)" "group (sim_state sim) = Some g"
    using sim(1) g oth by (auto simp: others_terminal_def)
  have dom: "dom (bt_get (bs_collect vs)) \<subseteq> set ids" "dom (bt_get (bs_collect vs)) \<noteq> {}" using sub vs(2) by auto
  have "\<exists>rng'. validators_react S sim rng False (map V ids) =
      (Ok True, sim\<lparr>mempool := mempool sim @ map (\<lambda>i. SubmitShare rid i (sh i)) (filter (\<lambda>i. i \<in> dom (bt_get (bs_collect vs))) ids)\<rparr>,
       map (\<lambda>i. if i \<in> dom (bt_get (bs_collect vs)) then shared rid (V i) else V i) ids, rng')"
    by (rule share_round [OF st(4,1,2,3) ids dom]) (use V sign in auto)
  moreover have "filter (\<lambda>i. i \<in> set vs) ids = vs"
  proof -
    have "ids = vs @ drop t ids" using vs(1) by simp
    then have "filter (\<lambda>i. i \<in> set vs) ids = vs @ filter (\<lambda>i. i \<in> set vs) (drop t ids)" by (metis filter_append filter_True)
    moreover have "set vs \<inter> set (drop t ids) = {}" using ids(1) vs(1) by (metis append_take_drop_id distinct_append)
    ultimately show ?thesis by (auto simp: filter_empty_conv)
  qed
  ultimately obtain rng1 where vr: "validators_react S sim rng False (map V ids) =
      (Ok True, sim\<lparr>mempool := map (\<lambda>i. SubmitShare rid i (sh i)) vs\<rparr>, map (\<lambda>i. if i \<in> set vs then shared rid (V i) else V i) ids, rng1)"
    using sim(2) by auto
  let ?sim = "sim\<lparr>mempool := map (\<lambda>i. SubmitShare rid i (sh i)) vs\<rparr>"
  let ?s = "with_entry s rid (e\<lparr>status :=
        (case outcome F (g_pkp g) ?cms (insert_all sh vs bt_new) (message e) (randomizer e) of
           Inr sg \<Rightarrow> Completed (bs_collect vs) sg | Inl reason \<Rightarrow> Failed reason)\<rparr>)"
  have "run_all (apply_tx F) (with_entry s rid ?e1) (map (\<lambda>v. SubmitShare rid v (sh v)) vs) = Ok ?s"
  proof -
    have "dom (bt_get (bs_collect vs)) \<subseteq> dom (bt_get (g_validators g))" "set vs = dom (bt_get (bs_collect vs))"
      using sub ids(2) by auto
    from shares_reach_end [OF g st(2) dis this vs(2), of F rid sh] show ?thesis by (simp add: outcome_def)
  qed
  then have "run_skip (apply_tx F) (sim_state ?sim) (mempool ?sim) = Ok ?s"
    using run_skip_prefix [of "apply_tx F" "with_entry s rid ?e1" _ ?s "[]"] sim(1) by simp
  from commit_block_skip [OF this] sim(3) obtain sim1 res where "commit_block F ?sim = Ok (sim1, res)"
    "sim_state sim1 = ?s" "mempool sim1 = []" "unat (block_height sim1) = Suc (unat (block_height sim))" by auto
  with vr honest show ?thesis
    by (intro exI [of _ sh] exI [of _ rng1] exI [of _ ?sim] exI [of _ sim1] exI [of _ res] conjI) assumption+
qed

lemma remembers_after:
  assumes "remembers s v"
  shows "remembers (with_entry s rid e) (committed rid nc v)" "remembers (with_entry s rid e) (shared rid (committed rid nc v))"
  using assms by (auto simp: remembers_def committed_def shared_def)

lemma session_ready_after:
  assumes "session_ready F S g sim vs" "sim_state sim' = with_entry (sim_state sim) rid e" "mempool sim' = []" "terminal (status e)"
    and "map node_identifier vs' = map node_identifier vs" "map key_package vs' = map key_package vs"
    and "\<forall>v \<in> set vs'. remembers (sim_state sim') v"
  shows "session_ready F S g sim' vs'"
proof -
  have len: "length vs' = length vs" using assms(5) by (metis length_map)
  have "node_identifier v = kp_identifier S (key_package v) \<and> sign_law F S (unat (threshold (g_params g))) (key_package v)"
    if "v \<in> set vs'" for v
  proof -
    from that obtain k where k: "k < length vs'" "v = vs' ! k" by (auto simp: in_set_conv_nth)
    then have "node_identifier v = node_identifier (vs ! k)" "key_package v = key_package (vs ! k)" "vs ! k \<in> set vs"
      using assms(5,6) len by (metis nth_map, metis nth_map, simp)
    then show ?thesis using assms(1) by (simp add: session_ready_def)
  qed
  with assms len show ?thesis unfolding session_ready_def by auto
qed

lemma two_rounds:
  fixes sim :: "('i::linorder, 'pkp, 'p1, 'cm, 'rz, 'sp, 'sh, 'sg) chain_sim"
  assumes g: "group s = Some g" and sim: "sim_state sim = with_entry s rid e" "mempool sim = []"
      "unat (block_height sim) + 2 < 2 ^ 64"
    and e: "status e = AwaitingCommitments bt_new" "others_terminal rid s"
    and ids: "distinct ids" "set ids \<subseteq> dom (bt_get (g_validators g))"
    and t: "t = unat (threshold (g_params g))" "0 < t" "t \<le> length ids"
    and V: "\<forall>i \<in> set ids. node_identifier (V i) = i \<and> kp_identifier S (key_package (V i)) = i \<and>
      policy (V i) (message e) = Ok () \<and> sign_law F S t (key_package (V i)) \<and>
      rid \<notin> committed_requests (V i) \<and> rid \<notin> shared_requests (V i) \<and> pending (V i) rid = None"
  shows "\<exists>nc cms shs rng1 sim1 sim2 res2 rng2 sim3 sim4 res4.
      validators_react S sim rng False (map V ids) = (Ok True, sim1, map (\<lambda>i. committed rid (nc i) (V i)) ids, rng1) \<and>
      commit_block F sim1 = Ok (sim2, res2) \<and>
      bt_get (requests (sim_state sim2)) rid =
        Some (e\<lparr>status := Signing (signing_package_new F cms (message e)) (bs_collect (take t ids)) bt_new\<rparr>) \<and>
      validators_react S sim2 rng1 False (map (\<lambda>i. committed rid (nc i) (V i)) ids) = (Ok True, sim3,
        map (\<lambda>i. if i \<in> set (take t ids) then shared rid (committed rid (nc i) (V i)) else committed rid (nc i) (V i)) ids, rng2) \<and>
      commit_block F sim3 = Ok (sim4, res4) \<and>
      mempool sim4 = [] \<and> unat (block_height sim4) = unat (block_height sim) + 2 \<and>
      sim_state sim4 = with_entry s rid (e\<lparr>status :=
        (case outcome F (g_pkp g) cms shs (message e) (randomizer e) of
           Inr sg \<Rightarrow> Completed (bs_collect (take t ids)) sg | Inl reason \<Rightarrow> Failed reason)\<rparr>) \<and>
      dom (bt_get cms) = set (take t ids) \<and> dom (bt_get shs) = set (take t ids) \<and>
      (\<forall>i \<in> set (take t ids). \<exists>sh. bt_get shs i = Some sh \<and>
         honest_share F S cms (message e) (randomizer e) (key_package (V i)) sh)"
proof -
  have h1: "unat (block_height sim) + 1 < 2 ^ 64" using sim(3) by simp
  have V1: "\<forall>i \<in> set ids. node_identifier (V i) = i \<and> policy (V i) (message e) = Ok () \<and>
      rid \<notin> committed_requests (V i) \<and> pending (V i) rid = None" using V by blast
  from commitments_block [OF g sim(1,2) h1 e ids t V1, of S rng F] obtain nc cm rng1 sim1a sim2 res2 where
    vr1: "validators_react S sim rng False (map V ids) = (Ok True, sim1a, map (\<lambda>i. committed rid (nc i) (V i)) ids, rng1)"
    and cb2: "commit_block F sim1a = Ok (sim2, res2)" and s2: "mempool sim2 = []" "unat (block_height sim2) = Suc (unat (block_height sim))"
    and s2': "sim_state sim2 = with_entry s rid (e\<lparr>status := Signing (signing_package_new F (insert_all cm (take t ids) bt_new) (message e))
        (bs_collect (take t ids)) bt_new\<rparr>)"
    and draw: "\<forall>i \<in> set ids. \<exists>r r'. round1_commit S (signing_share S (key_package (V i))) r = ((nc i, cm i), r')"
    by (elim exE conjE)
  let ?W = "\<lambda>i. committed rid (nc i) (V i)" and ?vs = "take t ids"
  have h2: "unat (block_height sim2) + 1 < 2 ^ 64" using sim(3) s2(2) by simp
  have draw': "\<forall>i \<in> set ids. \<exists>r r'. round1_commit S (signing_share S (key_package (?W i))) r = ((nc i, cm i), r')" using draw by simp
  have vs: "?vs \<noteq> []" "length ?vs = t" using t(2,3) by auto
  have V2: "\<forall>i \<in> set ids. node_identifier (?W i) = i \<and> kp_identifier S (key_package (?W i)) = i \<and> rid \<notin> shared_requests (?W i) \<and>
      pending (?W i) rid = Some (nc i) \<and> sign_law F S t (key_package (?W i))" using V by simp
  from shares_block [OF g s2' s2(1) h2 e(2) ids refl vs V2 draw', of rng1] obtain sh rng2 sim2a sim3 res3 where
    vr2: "validators_react S sim2 rng1 False (map ?W ids) = (Ok True, sim2a, map (\<lambda>i. if i \<in> set ?vs then shared rid (?W i) else ?W i) ids, rng2)"
    and cb3: "commit_block F sim2a = Ok (sim3, res3)" and s3: "mempool sim3 = []" "unat (block_height sim3) = Suc (unat (block_height sim2))"
    and s3': "sim_state sim3 = with_entry s rid (e\<lparr>status :=
        (case outcome F (g_pkp g) (insert_all cm ?vs bt_new) (insert_all sh ?vs bt_new) (message e) (randomizer e) of
           Inr sg \<Rightarrow> Completed (bs_collect ?vs) sg | Inl reason \<Rightarrow> Failed reason)\<rparr>)"
    and hs: "\<forall>i \<in> set ?vs. honest_share F S (insert_all cm ?vs bt_new) (message e) (randomizer e) (key_package (?W i)) (sh i)"
    by (elim exE conjE)
  have get: "bt_get (requests (sim_state sim2)) rid = Some (e\<lparr>status := Signing (signing_package_new F (insert_all cm (take t ids) bt_new) (message e))
        (bs_collect (take t ids)) bt_new\<rparr>)" using s2' by simp
  have h3: "unat (block_height sim3) = unat (block_height sim) + 2" using s2(2) s3(2) by simp
  have d: "dom (bt_get (insert_all cm ?vs bt_new)) = set ?vs" "dom (bt_get (insert_all sh ?vs bt_new)) = set ?vs" by simp_all
  have hs': "\<forall>i \<in> set ?vs. \<exists>s. bt_get (insert_all sh ?vs bt_new) i = Some s \<and>
      honest_share F S (insert_all cm ?vs bt_new) (message e) (randomizer e) (key_package (V i)) s"
    using hs by (simp add: bt_get_insert_all)
  show ?thesis by (intro exI conjI) (fact vr1 cb2 get vr2 cb3 s3(1) h3 s3' d hs')+
qed

text \<open>The validators of a ready state as a family, with what a new request needs of each of them.\<close>

lemma ready_nodes:
  assumes ready: "session_ready F S g sim vs" and approve: "\<forall>v \<in> set vs. policy v msg = Ok ()"
    and new: "bt_get (requests (sim_state sim)) rid = None"
    and t: "t = unat (threshold (g_params g))" and ids: "ids = map node_identifier vs"
  shows "\<exists>V. vs = map V ids \<and> (\<forall>v \<in> set vs. V (node_identifier v) = v) \<and>
    (\<forall>i \<in> set ids. remembers (sim_state sim) (V i)) \<and>
    (\<forall>i \<in> set ids. node_identifier (V i) = i \<and> kp_identifier S (key_package (V i)) = i \<and>
      policy (V i) msg = Ok () \<and> sign_law F S t (key_package (V i)) \<and>
      rid \<notin> committed_requests (V i) \<and> rid \<notin> shared_requests (V i) \<and> pending (V i) rid = None)"
proof -
  have dis: "distinct ids" and rv: "\<And>v. v \<in> set vs \<Longrightarrow> node_identifier v = kp_identifier S (key_package v) \<and>
      sign_law F S t (key_package v) \<and> remembers (sim_state sim) v"
    using ready by (auto simp: session_ready_def t ids)
  from as_family [of node_identifier vs, folded ids, OF dis] obtain V where
    V: "vs = map V ids" and fam: "\<forall>v \<in> set vs. V (node_identifier v) = v" by blast
  have "remembers (sim_state sim) (V i) \<and> node_identifier (V i) = i \<and> kp_identifier S (key_package (V i)) = i \<and>
      policy (V i) msg = Ok () \<and> sign_law F S t (key_package (V i)) \<and>
      rid \<notin> committed_requests (V i) \<and> rid \<notin> shared_requests (V i) \<and> pending (V i) rid = None" if "i \<in> set ids" for i
  proof -
    have i: "V i \<in> set vs" "node_identifier (V i) = i" using that fam unfolding ids by auto
    from rv [OF i(1)] have "rid \<notin> committed_requests (V i) \<union> shared_requests (V i) \<union> dom (pending (V i))"
      using new unfolding remembers_def by blast
    then show ?thesis using rv [OF i(1)] i approve by auto
  qed
  with V fam show ?thesis by blast
qed

text \<open>The blocks of a session: the request, the commitments, the shares.\<close>

lemma session_rounds:
  fixes sim :: "('i::linorder, 'pkp, 'p1, 'cm, 'rz, 'sp, 'sh, 'sg) chain_sim"
  assumes ready: "session_ready F S g sim vs" and approve: "\<forall>v \<in> set vs. policy v msg = Ok ()"
    and new: "bt_get (requests (sim_state sim)) rid = None" and height: "unat (block_height sim) + 3 < 2 ^ 64"
  shows "\<exists>cms shs sim1 res1 sim1a vs1 rng1 sim2 res2 e2 sp P sim2a vs' rng' sim' res' e'.
    commit_block F (submit sim (SubmitRequest rid msg alpha)) = Ok (sim1, res1) \<and> first_rejection res1 = None \<and>
    validators_react S sim1 rng0 False vs = (Ok True, sim1a, vs1, rng1) \<and> commit_block F sim1a = Ok (sim2, res2) \<and>
    bt_get (requests (sim_state sim2)) rid = Some e2 \<and> status e2 = Signing sp P bt_new \<and>
    validators_react S sim2 rng1 False vs1 = (Ok True, sim2a, vs', rng') \<and> commit_block F sim2a = Ok (sim', res') \<and>
    sim_state sim' = with_entry (sim_state sim) rid e' \<and> message e' = msg \<and>
    status e' = (case outcome F (g_pkp g) cms shs msg alpha of Inr sg \<Rightarrow> Completed P sg | Inl reason \<Rightarrow> Failed reason) \<and>
    session_ready F S g sim' vs' \<and> map policy vs' = map policy vs \<and> map key_package vs' = map key_package vs \<and>
    unat (block_height sim') = unat (block_height sim) + 3 \<and>
    dom (bt_get cms) = node_identifier ` set (take (unat (threshold (g_params g))) vs) \<and> dom (bt_get shs) = dom (bt_get cms) \<and>
    (\<forall>v \<in> set (take (unat (threshold (g_params g))) vs). \<exists>sh. bt_get shs (node_identifier v) = Some sh \<and>
          honest_share F S cms msg alpha (key_package v) sh)"
proof -
  let ?s = "sim_state sim"
  define t where "t = unat (threshold (g_params g))"
  define ids where "ids = map node_identifier vs"
  have r: "group ?s = Some g" "mempool sim = []" "\<And>r e. bt_get (requests ?s) r = Some e \<Longrightarrow> terminal (status e)"
    "distinct ids" "set ids \<subseteq> dom (bt_get (g_validators g))" "0 < t" "t \<le> length ids"
    using ready by (auto simp: session_ready_def t_def ids_def)
  from ready_nodes [OF ready approve new t_def ids_def] obtain V where
    V: "vs = map V ids" and fam: "\<forall>v \<in> set vs. V (node_identifier v) = v" and rv: "\<forall>i \<in> set ids. remembers ?s (V i)"
    and V1: "\<forall>i \<in> set ids. node_identifier (V i) = i \<and> kp_identifier S (key_package (V i)) = i \<and>
      policy (V i) msg = Ok () \<and> sign_law F S t (key_package (V i)) \<and>
      rid \<notin> committed_requests (V i) \<and> rid \<notin> shared_requests (V i) \<and> pending (V i) rid = None" by (elim exE conjE)
  have quiet: "others_terminal rid ?s" using r(3) by (auto simp: others_terminal_def)
  define e where "e = \<lparr>request_id = rid, message = msg, randomizer = alpha,
    status = AwaitingCommitments bt_new :: ('i, 'cm, 'sp, 'sh, 'sg) request_status\<rparr>"
  have em: "message e = msg" "randomizer e = alpha" and est: "status e = AwaitingCommitments bt_new" by (simp_all add: e_def)
  from first_block [OF r(1,2) new, of F msg alpha, folded e_def] height obtain sim1 res1 where
    cb1: "commit_block F (submit sim (SubmitRequest rid msg alpha)) = Ok (sim1, res1)" "first_rejection res1 = None"
    and s1: "sim_state sim1 = with_entry ?s rid e" "mempool sim1 = []" "unat (block_height sim1) = Suc (unat (block_height sim))"
    by auto
  have h1: "unat (block_height sim1) + 2 < 2 ^ 64" using s1(3) height by simp
  from two_rounds [OF r(1) s1(1,2) h1 est quiet r(4,5) t_def r(6,7) V1 [folded em(1)], of rng0]
  obtain nc cms shs rng1 sim1a sim2 res2 rng' sim2a sim' res' where
    one: "validators_react S sim1 rng0 False vs = (Ok True, sim1a, map (\<lambda>i. committed rid (nc i) (V i)) ids, rng1)"
      "commit_block F sim1a = Ok (sim2, res2)"
      "bt_get (requests (sim_state sim2)) rid =
        Some (e\<lparr>status := Signing (signing_package_new F cms msg) (bs_collect (take t ids)) bt_new\<rparr>)"
    and two: "validators_react S sim2 rng1 False (map (\<lambda>i. committed rid (nc i) (V i)) ids) = (Ok True, sim2a,
        map (\<lambda>i. if i \<in> set (take t ids) then shared rid (committed rid (nc i) (V i)) else committed rid (nc i) (V i)) ids, rng')"
      "commit_block F sim2a = Ok (sim', res')"
    and fin: "mempool sim' = []" "unat (block_height sim') = unat (block_height sim1) + 2"
      "sim_state sim' = with_entry ?s rid (e\<lparr>status := (case outcome F (g_pkp g) cms shs msg alpha of
           Inr sg \<Rightarrow> Completed (bs_collect (take t ids)) sg | Inl reason \<Rightarrow> Failed reason)\<rparr>)"
      "dom (bt_get cms) = set (take t ids)" "dom (bt_get shs) = set (take t ids)"
    and hs: "\<forall>i \<in> set (take t ids). \<exists>sh. bt_get shs i = Some sh \<and> honest_share F S cms msg alpha (key_package (V i)) sh"
    unfolding V [symmetric] em by (elim exE conjE)
  let ?vs = "map (\<lambda>i. if i \<in> set (take t ids) then shared rid (committed rid (nc i) (V i)) else committed rid (nc i) (V i)) ids"
  let ?e' = "e\<lparr>status := (case outcome F (g_pkp g) cms shs msg alpha of
           Inr sg \<Rightarrow> Completed (bs_collect (take t ids)) sg | Inl reason \<Rightarrow> Failed reason)\<rparr>"
  have same: "map node_identifier ?vs = map node_identifier vs" "map key_package ?vs = map key_package vs" "map policy ?vs = map policy vs"
    unfolding V by (auto simp: if_distrib)
  have rem: "\<forall>v \<in> set ?vs. remembers (sim_state sim') v"
    using rv unfolding fin(3) by (auto simp: remembers_after)
  have ready': "session_ready F S g sim' ?vs"
    by (rule session_ready_after [OF ready fin(3,1) _ same(1,2) rem]) (simp add: terminal_def split: sum.splits)
  have P: "set (take t ids) = node_identifier ` set (take t vs)" by (simp add: ids_def take_map)
  have h: "unat (block_height sim') = unat (block_height sim) + 3" using fin(2) s1(3) by simp
  have hs'': "\<forall>v \<in> set (take t vs). \<exists>sh. bt_get shs (node_identifier v) = Some sh \<and> honest_share F S cms msg alpha (key_package v) sh"
  proof
    fix v
    assume v: "v \<in> set (take t vs)"
    then have "V (node_identifier v) = v" using fam by (auto dest: in_set_takeD)
    with v hs show "\<exists>sh. bt_get shs (node_identifier v) = Some sh \<and> honest_share F S cms msg alpha (key_package v) sh"
      unfolding P by force
  qed
  have d: "dom (bt_get cms) = node_identifier ` set (take t vs)" "dom (bt_get shs) = dom (bt_get cms)" using fin(4,5) P by simp_all
  have e': "message ?e' = msg" "status ?e' = (case outcome F (g_pkp g) cms shs msg alpha of
      Inr sg \<Rightarrow> Completed (bs_collect (take t ids)) sg | Inl reason \<Rightarrow> Failed reason)" using em by simp_all
  have e2: "status (e\<lparr>status := Signing (signing_package_new F cms msg) (bs_collect (take t ids)) bt_new\<rparr>) =
      Signing (signing_package_new F cms msg) (bs_collect (take t ids)) bt_new" by simp
  show ?thesis
    unfolding t_def [symmetric]
    by (intro exI conjI) (fact cb1 one e2 two fin(3) e' ready' same h d hs'')+
qed

lemma session_of_family:
  fixes sim :: "('i::linorder, 'pkp, 'p1, 'cm, 'rz, 'sp, 'sh, 'sg) chain_sim"
  assumes ready: "session_ready F S g sim vs" and approve: "\<forall>v \<in> set vs. policy v (to_list sighash) = Ok ()"
    and u: "uuid_new fill_bytes rng = (rid, rng0)" "bt_get (requests (sim_state sim)) rid = None"
    and height: "unat (block_height sim) + 3 < 2 ^ 64"
  shows "\<exists>cms shs sim' vs' rng'.
    drive_signing_session F S fill_bytes display sim vs sighash alpha rng =
      (case outcome F (g_pkp g) cms shs (to_list sighash) alpha of
         Inr sg \<Rightarrow> Ok sg | Inl reason \<Rightarrow> Err (SessionAggregationFailed reason), sim', vs', rng') \<and>
    session_ready F S g sim' vs' \<and> map policy vs' = map policy vs \<and> map key_package vs' = map key_package vs \<and>
    unat (block_height sim') = unat (block_height sim) + 3 \<and>
    dom (bt_get cms) = node_identifier ` set (take (unat (threshold (g_params g))) vs) \<and> dom (bt_get shs) = dom (bt_get cms) \<and>
    (\<forall>v \<in> set (take (unat (threshold (g_params g))) vs). \<exists>sh. bt_get shs (node_identifier v) = Some sh \<and>
          honest_share F S cms (to_list sighash) alpha (key_package v) sh)"
proof -
  from session_rounds [OF ready approve u(2) height, of alpha rng0]
  obtain cms shs sim1 res1 sim1a vs1 rng1 sim2 res2 e2 sp P sim2a vs' rng' sim' res' e' where
    cb1: "commit_block F (submit sim (SubmitRequest rid (to_list sighash) alpha)) = Ok (sim1, res1)" "first_rejection res1 = None"
    and one: "validators_react S sim1 rng0 False vs = (Ok True, sim1a, vs1, rng1)" "commit_block F sim1a = Ok (sim2, res2)"
      "bt_get (requests (sim_state sim2)) rid = Some e2" "status e2 = Signing sp P bt_new"
    and two: "validators_react S sim2 rng1 False vs1 = (Ok True, sim2a, vs', rng')" "commit_block F sim2a = Ok (sim', res')"
    and e': "sim_state sim' = with_entry (sim_state sim) rid e'" "message e' = to_list sighash"
      "status e' = (case outcome F (g_pkp g) cms shs (to_list sighash) alpha of Inr sg \<Rightarrow> Completed P sg | Inl reason \<Rightarrow> Failed reason)"
    and rest: "session_ready F S g sim' vs'" "map policy vs' = map policy vs" "map key_package vs' = map key_package vs"
      "unat (block_height sim') = unat (block_height sim) + 3"
      "dom (bt_get cms) = node_identifier ` set (take (unat (threshold (g_params g))) vs)" "dom (bt_get shs) = dom (bt_get cms)"
      "\<forall>v \<in> set (take (unat (threshold (g_params g))) vs). \<exists>sh. bt_get shs (node_identifier v) = Some sh \<and>
          honest_share F S cms (to_list sighash) alpha (key_package v) sh"
    by (elim exE conjE)
  have "8 = Suc (Suc 6)" by simp
  then have "session_loop F S rid 8 sim1 vs rng0 = session_loop F S rid (Suc (Suc 6)) sim1 vs rng0" by (rule arg_cong)
  also have "\<dots> = session_loop F S rid (Suc 6) sim2 vs1 rng1"
    by (subst session_loop.simps(2)) (simp add: one del: session_loop.simps Suc_numeral)
  also have "\<dots> = (case outcome F (g_pkp g) cms shs (to_list sighash) alpha of
      Inr sg \<Rightarrow> Ok sg | Inl reason \<Rightarrow> Err (SessionAggregationFailed reason), sim', vs', rng')"
    by (subst session_loop.simps(2)) (simp add: two e' del: session_loop.simps Suc_numeral split: sum.splits)
  finally have drive: "drive_signing_session F S fill_bytes display sim vs sighash alpha rng =
      (case outcome F (g_pkp g) cms shs (to_list sighash) alpha of
         Inr sg \<Rightarrow> Ok sg | Inl reason \<Rightarrow> Err (SessionAggregationFailed reason), sim', vs', rng')"
    using u(1) cb1 by (simp add: drive_signing_session_def Let_def)
  show ?thesis by (intro exI conjI) (fact drive rest)+
qed

text \<open>
  C13. Honest validators sign. Let the chain have a group with a non-zero threshold and only ended
  requests, let at least a threshold of distinct members of the group take part, each with a memory
  of past requests only, and let signing succeed for packages that contain the signer's commitment.
  If all of them approve the sighash and the drawn request identifier is new, the driver returns
  after three blocks with the outcome of aggregating honest shares of the first threshold validators:
  the signature, or the aggregator's reason. It leaves the chain and the validators ready for the next
  session.
\<close>

theorem honest_session_signs:
  fixes sim :: "('i::linorder, 'pkp, 'p1, 'cm, 'rz, 'sp, 'sh, 'sg) chain_sim"
  assumes "session_ready F S g sim vs" and "\<forall>v \<in> set vs. policy v (to_list sighash) = Ok ()"
    and "uuid_new fill_bytes rng = (rid, rng0)" "bt_get (requests (sim_state sim)) rid = None"
    and "unat (block_height sim) + 3 < 2 ^ 64"
  shows "\<exists>cms shs sim' vs' rng'.
    drive_signing_session F S fill_bytes display sim vs sighash alpha rng =
      (case aggregate F (signing_package_new F cms (to_list sighash)) shs (g_pkp g)
              (from_randomizer F (verifying_key F (g_pkp g)) alpha) of
         Inr sg \<Rightarrow> Ok sg | Inl reason \<Rightarrow> Err (SessionAggregationFailed reason), sim', vs', rng') \<and>
    session_ready F S g sim' vs' \<and> map policy vs' = map policy vs \<and>
    unat (block_height sim') = unat (block_height sim) + 3 \<and>
    dom (bt_get cms) = node_identifier ` set (take (unat (threshold (g_params g))) vs) \<and> dom (bt_get shs) = dom (bt_get cms) \<and>
    (\<forall>v \<in> set (take (unat (threshold (g_params g))) vs). \<exists>sh. bt_get shs (node_identifier v) = Some sh \<and>
          honest_share F S cms (to_list sighash) alpha (key_package v) sh)"
  using session_of_family [OF assms, of display alpha] unfolding outcome_def by (elim exE conjE) (intro exI conjI)

section \<open>A small session\<close>

definition group_sim :: "(nat, nat list, nat, nat, nat, (nat, nat) btree_map \<times> u8 list, nat, nat) chain_sim" where
  "group_sim = sim_new\<lparr>sim_state := default_state\<lparr>group := Some toy_group\<rparr>\<rparr>"

text \<open>A signer whose signing never fails.\<close>

definition plain_signer :: "(nat, nat, nat, nat, nat, (nat, nat) btree_map \<times> u8 list, nat, nat, nat) frost_signer" where
  "plain_signer = toy_signer\<lparr>frost_sign := (\<lambda>sp nc kp rz. Inr (100 * kp))\<rparr>"

definition plain_node :: "nat \<Rightarrow> (nat, nat, nat list, nat) node" where
  "plain_node k = node_new plain_signer \<lparr>bundle_key_package = k, bundle_public_key_package = [1, 2, 3]\<rparr>"

lemma plain_ready: "session_ready toy_frost plain_signer toy_group group_sim (map plain_node [2, 1, 3])"
  by (simp add: session_ready_def group_sim_def sim_new_def sim_default_def default_state_def plain_node_def node_new_def
      plain_signer_def toy_signer_def sign_law_def remembers_def key_package_def toy_group_def toy_params_def)

theorem honest_session_signs_witness:
  "\<exists>cms shs sim' vs' rng'.
    drive_signing_session toy_frost plain_signer (\<lambda>r. (bytes_fill 4, Suc r)) (\<lambda>e. ''rejected'') group_sim
      (map plain_node [2, 1, 3]) (bytes_fill 9) 7 0 =
      (case aggregate toy_frost (signing_package_new toy_frost cms (replicate 32 9)) shs [1, 2, 3]
              (from_randomizer toy_frost (verifying_key toy_frost [1, 2, 3]) 7) of
         Inr sg \<Rightarrow> Ok sg | Inl reason \<Rightarrow> Err (SessionAggregationFailed reason), sim', vs', rng') \<and>
    dom (bt_get shs) = {1, 2} \<and> unat (block_height sim') = 3"
proof -
  have ok: "\<forall>v \<in> set (map plain_node [2, 1, 3]). policy v (to_list (bytes_fill 9 :: 32 bytes)) = Ok ()"
    by (simp add: plain_node_def node_new_def accept_all_approve_def)
  have u: "uuid_new (\<lambda>r. (bytes_fill 4, Suc r)) 0 = (Uuid (bytes_fill 4), 1)" by (simp add: uuid_new_def)
  have new: "bt_get (requests (sim_state group_sim)) (Uuid (bytes_fill 4)) = None" "unat (block_height group_sim) + 3 < 2 ^ 64"
    "unat (block_height group_sim) = 0"
    by (simp_all add: group_sim_def sim_new_def sim_default_def default_state_def)
  have g: "g_pkp toy_group = [1, 2, 3]" "unat (threshold (g_params toy_group)) = 2" by (simp_all add: toy_group_def toy_params_def)
  have s32: "to_list (bytes_fill 9 :: 32 bytes) = replicate 32 9" by simp
  have P: "node_identifier ` set (take 2 (map plain_node [2, 1, 3])) = {1, 2}"
    by (auto simp: plain_node_def node_new_def plain_signer_def toy_signer_def)
  from honest_session_signs [OF plain_ready ok u new(1,2), of "\<lambda>e. ''rejected''" 7]
  show ?thesis unfolding g P new(3) s32 by (elim exE conjE) (intro exI conjI, assumption, simp_all)
qed

end
