(* ===== verification/Signing_Network.thy ===== *)
theory Signing_Network
  imports Scheduling Zcash_Live
begin

text \<open>
  Signers and a chain with nothing synchronous between them: every signer reacts whenever it likes, to
  the chain as it is or as it was at any earlier moment, and what it submits travels in any order and
  for any time until the chain applies or rejects it. The two operations are \<open>react\<close> and \<open>apply_tx\<close>
  of the sources; the blocks of the simulator and the rounds of the drivers are special schedules. The
  invariant says what every message in flight, every commitment and every share on the chain tells
  about the memory of the signer it names.
\<close>

section \<open>The network\<close>

record ('i, 'kp, 'nc, 'pkp, 'p1, 'cm, 'rz, 'sp, 'sh, 'sg) network =
  signer :: "'i \<Rightarrow> ('i, 'kp, 'pkp, 'nc) node"
  chain :: "('i, 'pkp, 'p1, 'cm, 'rz, 'sp, 'sh, 'sg) state"
  past :: "('i, 'pkp, 'p1, 'cm, 'rz, 'sp, 'sh, 'sg) state list"
  flight :: "('i, 'pkp, 'p1, 'cm, 'rz, 'sh) tx list"

definition views where
  "views c = insert (chain c) (set (past c))"

text \<open>A reaction that submits nothing, and succeeds, is no step: it changes nothing, as shown below.\<close>

inductive net_step ::
  "('i::linorder, 'pkp, 'vk, 'vs, 'cm, 'rz, 'rp, 'sp, 'sh, 'sg) frost \<Rightarrow>
   ('i, 'kp, 'ss, 'nc, 'cm, 'sp, 'rz, 'sh, 'g) frost_signer \<Rightarrow> 'i set \<Rightarrow>
   ('i, 'kp, 'nc, 'pkp, 'p1, 'cm, 'rz, 'sp, 'sh, 'sg) network \<Rightarrow>
   ('i, 'kp, 'nc, 'pkp, 'p1, 'cm, 'rz, 'sp, 'sh, 'sg) network \<Rightarrow> bool"
  for F S ids where
  reacts: "i \<in> ids \<Longrightarrow> s \<in> views c \<Longrightarrow> react S (signer c i) s rng = (r, n', rng') \<Longrightarrow> r \<noteq> Ok [] \<Longrightarrow>
    net_step F S ids c (c\<lparr>signer := (signer c)(i := n'),
      flight := flight c @ (case r of Ok out \<Rightarrow> out | _ \<Rightarrow> [])\<rparr>)"
| applied: "t \<in> set (flight c) \<Longrightarrow> apply_tx F (chain c) t = Ok s' \<Longrightarrow>
    net_step F S ids c (c\<lparr>chain := s', past := chain c # past c, flight := remove1 t (flight c)\<rparr>)"
| rejected: "t \<in> set (flight c) \<Longrightarrow> apply_tx F (chain c) t = Err err \<Longrightarrow>
    net_step F S ids c (c\<lparr>flight := remove1 t (flight c)\<rparr>)"

inductive_cases net_stepE: "net_step F S ids c c'"

text \<open>Fresh signers, a chain with a group, and the requests of the clients on their way.\<close>

definition net_start ::
  "('i \<Rightarrow> ('i, 'kp, 'pkp, 'nc) node) \<Rightarrow> ('i, 'pkp, 'p1, 'cm, 'rz, 'sp, 'sh, 'sg) state \<Rightarrow>
   (uuid \<times> u8 list \<times> 'rz) list \<Rightarrow> ('i, 'kp, 'nc, 'pkp, 'p1, 'cm, 'rz, 'sp, 'sh, 'sg) network" where
  "net_start n0 s0 reqs = \<lparr>signer = n0, chain = s0, past = [],
     flight = map (\<lambda>(rid, msg, rz). SubmitRequest rid msg rz) reqs\<rparr>"

section \<open>The invariant\<close>

definition drawn ::
  "('i, 'kp, 'ss, 'nc, 'cm, 'sp, 'rz, 'sh, 'g) frost_signer \<Rightarrow> 'kp \<Rightarrow> 'nc \<Rightarrow> 'cm \<Rightarrow> bool" where
  "drawn S kp nc cm \<longleftrightarrow> (\<exists>rng rng'. round1_commit S (signing_share S kp) rng = ((nc, cm), rng'))"

text \<open>What the signers are: members with laws-abiding keys and a policy that answers.\<close>

definition net_setup ::
  "('i::linorder, 'pkp, 'vk, 'vs, 'cm, 'rz, 'rp, 'sp, 'sh, 'sg) frost \<Rightarrow>
   ('i, 'kp, 'ss, 'nc, 'cm, 'sp, 'rz, 'sh, 'g) frost_signer \<Rightarrow> 'i set \<Rightarrow> ('i, 'pkp) group_config \<Rightarrow>
   ('i \<Rightarrow> ('i, 'kp, 'pkp, 'nc) node) \<Rightarrow> bool" where
  "net_setup F S ids g n0 \<longleftrightarrow>
     ids \<subseteq> dom (bt_get (g_validators g)) \<and> 0 < unat (threshold (g_params g)) \<and>
     (\<forall>i \<in> ids. node_identifier (n0 i) = i \<and> kp_identifier S (key_package (n0 i)) = i \<and>
        sign_law F S (unat (threshold (g_params g))) (key_package (n0 i)) \<and>
        (\<forall>m. policy (n0 i) m \<noteq> Panic) \<and> fresh_node (n0 i))"

definition approvers :: "'i set \<Rightarrow> ('i \<Rightarrow> ('i, 'kp, 'pkp, 'nc) node) \<Rightarrow> u8 list \<Rightarrow> 'i set" where
  "approvers ids n0 msg = {i \<in> ids. policy (n0 i) msg = Ok ()}"

text \<open>A threshold of approvers, with the commitments that make the signing package.\<close>

definition selected ::
  "'i set \<Rightarrow> ('i, 'pkp) group_config \<Rightarrow> ('i \<Rightarrow> ('i::linorder, 'kp, 'pkp, 'nc) node) \<Rightarrow> u8 list \<Rightarrow>
   ('i, 'cm) btree_map \<Rightarrow> 'i btree_set \<Rightarrow> bool" where
  "selected ids g n0 msg cms P \<longleftrightarrow> dom (bt_get cms) = dom (bt_get P) \<and>
     bt_len cms = unat (threshold (g_params g)) \<and> dom (bt_get P) \<subseteq> approvers ids n0 msg"

definition made ::
  "('i::linorder, 'pkp, 'vk, 'vs, 'cm, 'rz, 'rp, 'sp, 'sh, 'sg) frost \<Rightarrow>
   ('i, 'kp, 'ss, 'nc, 'cm, 'sp, 'rz, 'sh, 'g) frost_signer \<Rightarrow> ('i, 'cm) btree_map \<Rightarrow> u8 list \<Rightarrow> 'rz \<Rightarrow>
   'kp \<Rightarrow> 'cm \<Rightarrow> 'sh \<Rightarrow> bool" where
  "made F S cms msg rz kp cm sh \<longleftrightarrow>
     (\<exists>nc. drawn S kp nc cm \<and> frost_sign S (signing_package_new F cms msg) nc kp rz = Inr sh)"

definition awaiting_ok where
  "awaiting_ok S ids g n0 c rid msg cms \<longleftrightarrow>
     bt_len cms < unat (threshold (g_params g)) \<and>
     (\<forall>i cm. bt_get cms i = Some cm \<longrightarrow> i \<in> approvers ids n0 msg \<and> rid \<in> committed_requests (signer c i) \<and>
        (\<exists>nc. pending (signer c i) rid = Some nc \<and> drawn S (key_package (n0 i)) nc cm)) \<and>
     (\<forall>i \<in> ids. rid \<notin> shared_requests (signer c i)) \<and>
     (\<forall>i \<in> ids. rid \<in> committed_requests (signer c i) \<longrightarrow>
        bt_get cms i \<noteq> None \<or> (\<exists>cm. SubmitCommitment rid i cm \<in> set (flight c))) \<and>
     (\<forall>i sh. SubmitShare rid i sh \<notin> set (flight c))"

text \<open>A selected signer: its share is on the chain, or in flight, or still to be made with its nonces.\<close>

definition share_ok where
  "share_ok F S n0 c rid cms msg rz shs i cm \<longleftrightarrow> rid \<in> committed_requests (signer c i) \<and>
     (\<forall>sh. SubmitShare rid i sh \<in> set (flight c) \<or> bt_get shs i = Some sh \<longrightarrow>
        rid \<in> shared_requests (signer c i) \<and> made F S cms msg rz (key_package (n0 i)) cm sh) \<and>
     (rid \<in> shared_requests (signer c i) \<longrightarrow> bt_get shs i = None \<longrightarrow>
        (\<exists>sh. SubmitShare rid i sh \<in> set (flight c))) \<and>
     (rid \<notin> shared_requests (signer c i) \<longrightarrow>
        (\<exists>nc. pending (signer c i) rid = Some nc \<and> drawn S (key_package (n0 i)) nc cm))"

definition signing_ok where
  "signing_ok F S ids g n0 c rid msg rz sp P shs \<longleftrightarrow>
     (\<exists>cms. selected ids g n0 msg cms P \<and> sp = signing_package_new F cms msg \<and>
        dom (bt_get shs) \<subset> dom (bt_get P) \<and>
        (\<forall>i cm. bt_get cms i = Some cm \<longrightarrow> share_ok F S n0 c rid cms msg rz shs i cm))"

text \<open>A request that is over: the outcome of aggregating the shares of a threshold of approvers.\<close>

definition over where
  "over F S ids g n0 msg rz st cms shs P \<longleftrightarrow>
     selected ids g n0 msg cms P \<and> dom (bt_get shs) = dom (bt_get P) \<and>
     (\<forall>i cm sh. bt_get cms i = Some cm \<longrightarrow> bt_get shs i = Some sh \<longrightarrow>
        made F S cms msg rz (key_package (n0 i)) cm sh) \<and>
     st = (case outcome F (g_pkp g) cms shs msg rz of Inr sg \<Rightarrow> Completed P sg | Inl reason \<Rightarrow> Failed reason)"

definition request_ok where
  "request_ok F S ids g n0 c rid e \<longleftrightarrow>
     (case status e of
        AwaitingCommitments cms \<Rightarrow> awaiting_ok S ids g n0 c rid (message e) cms
      | Signing sp P shs \<Rightarrow> signing_ok F S ids g n0 c rid (message e) (randomizer e) sp P shs
      | st \<Rightarrow> \<exists>cms shs P. over F S ids g n0 (message e) (randomizer e) st cms shs P)"

lemma signingE:
  assumes "request_ok F S ids g n0 c rid e" "status e = Signing sp P shs"
  obtains cms where "selected ids g n0 (message e) cms P" "sp = signing_package_new F cms (message e)"
    "dom (bt_get shs) \<subset> dom (bt_get P)"
    "\<And>j cm. bt_get cms j = Some cm \<Longrightarrow> share_ok F S n0 c rid cms (message e) (randomizer e) shs j cm"
  using assms by (auto simp: request_ok_def signing_ok_def)

lemma selected_member:
  "selected ids g n0 msg cms P \<Longrightarrow> i \<in> dom (bt_get P) \<Longrightarrow>
   i \<in> ids \<and> policy (n0 i) msg = Ok () \<and> (\<exists>cm. bt_get cms i = Some cm)"
  unfolding selected_def approvers_def by blast

text \<open>What a message in flight says, and what a state that was seen says, of the memory of the signers.\<close>

definition flying_ok where
  "flying_ok S ids n0 reqs c t \<longleftrightarrow>
     (case t of
        SubmitRequest rid msg rz \<Rightarrow> (rid, msg, rz) \<in> set reqs
      | SubmitCommitment rid i cm \<Rightarrow> rid \<in> committed_requests (signer c i) \<and>
          (\<exists>e. bt_get (requests (chain c)) rid = Some e \<and> i \<in> approvers ids n0 (message e) \<and>
             ((\<exists>cms. status e = AwaitingCommitments cms) \<longrightarrow>
                (\<exists>nc. pending (signer c i) rid = Some nc \<and> drawn S (key_package (n0 i)) nc cm)))
      | SubmitShare rid i sh \<Rightarrow> bt_get (requests (chain c)) rid \<noteq> None
      | _ \<Rightarrow> False)"

definition seen_ok where
  "seen_ok ids c s \<longleftrightarrow>
     (\<forall>rid e cms i. bt_get (requests s) rid = Some e \<longrightarrow> status e = AwaitingCommitments cms \<longrightarrow>
        i \<in> ids \<inter> dom (bt_get cms) \<longrightarrow> rid \<in> committed_requests (signer c i)) \<and>
     (\<forall>rid e sp P shs i. bt_get (requests s) rid = Some e \<longrightarrow> status e = Signing sp P shs \<longrightarrow>
        i \<in> ids \<inter> dom (bt_get P) \<longrightarrow>
        i \<in> dom (bt_get shs) \<or> (\<exists>e'. bt_get (requests (chain c)) rid = Some e' \<and> terminal (status e')) \<longrightarrow>
        rid \<in> shared_requests (signer c i))"

definition memory_ok where
  "memory_ok n0 c i \<longleftrightarrow> node_identifier (signer c i) = i \<and> key_package (signer c i) = key_package (n0 i) \<and>
     policy (signer c i) = policy (n0 i) \<and> dom (pending (signer c i)) \<subseteq> committed_requests (signer c i) \<and>
     committed_requests (signer c i) \<union> shared_requests (signer c i) \<subseteq> dom (bt_get (requests (chain c)))"

definition net_inv where
  "net_inv F S ids g n0 reqs c \<longleftrightarrow> net_setup F S ids g n0 \<and> chain_inv F (chain c) \<and>
     (\<forall>s \<in> views c. chain_le s (chain c) \<and> group s = Some g \<and> seen_ok ids c s) \<and>
     (\<forall>i \<in> ids. memory_ok n0 c i) \<and>
     (\<forall>t \<in> set (flight c). flying_ok S ids n0 reqs c t) \<and>
     (\<forall>rid e. bt_get (requests (chain c)) rid = Some e \<longrightarrow>
        (rid, message e, randomizer e) \<in> set reqs \<and> request_ok F S ids g n0 c rid e) \<and>
     (\<forall>(rid, msg, rz) \<in> set reqs.
        bt_get (requests (chain c)) rid \<noteq> None \<or> SubmitRequest rid msg rz \<in> set (flight c))"

lemma net_invD:
  assumes "net_inv F S ids g n0 reqs c"
  shows "net_setup F S ids g n0" "chain_inv F (chain c)" "group (chain c) = Some g"
    and "s \<in> views c \<Longrightarrow> chain_le s (chain c) \<and> group s = Some g \<and> seen_ok ids c s"
    and "i \<in> ids \<Longrightarrow> memory_ok n0 c i"
    and "t \<in> set (flight c) \<Longrightarrow> flying_ok S ids n0 reqs c t"
    and "bt_get (requests (chain c)) rid = Some e \<Longrightarrow> (rid, message e, randomizer e) \<in> set reqs"
    and "bt_get (requests (chain c)) rid = Some e \<Longrightarrow> request_ok F S ids g n0 c rid e"
    and "(rid', msg, rz) \<in> set reqs \<Longrightarrow>
      bt_get (requests (chain c)) rid' \<noteq> None \<or> SubmitRequest rid' msg rz \<in> set (flight c)"
  using assms unfolding net_inv_def views_def by (blast, blast, simp, blast, blast, blast, blast, blast, fast)

lemma net_invI:
  assumes "net_setup F S ids g n0" "chain_inv F (chain c)"
    and "\<And>s. s \<in> views c \<Longrightarrow> chain_le s (chain c) \<and> group s = Some g \<and> seen_ok ids c s"
    and "\<And>i. i \<in> ids \<Longrightarrow> memory_ok n0 c i"
    and "\<And>t. t \<in> set (flight c) \<Longrightarrow> flying_ok S ids n0 reqs c t"
    and "\<And>rid e. bt_get (requests (chain c)) rid = Some e \<Longrightarrow>
      (rid, message e, randomizer e) \<in> set reqs \<and> request_ok F S ids g n0 c rid e"
    and "\<And>rid msg rz. (rid, msg, rz) \<in> set reqs \<Longrightarrow>
      bt_get (requests (chain c)) rid \<noteq> None \<or> SubmitRequest rid msg rz \<in> set (flight c)"
  shows "net_inv F S ids g n0 reqs c"
  unfolding net_inv_def using assms by blast

lemma net_inv_start:
  assumes "net_setup F S ids g n0" "chain_inv F s0" "group s0 = Some g" "requests s0 = bt_new"
  shows "net_inv F S ids g n0 reqs (net_start n0 s0 reqs)"
  using assms unfolding net_inv_def
  by (auto simp: net_start_def views_def chain_le_refl seen_ok_def memory_ok_def net_setup_def fresh_node_def
      flying_ok_def image_iff split: prod.splits)

section \<open>A signer reacts\<close>

text \<open>The memory of one signer grows and it submits transactions: what stays true.\<close>

definition with_reaction where
  "with_reaction c i n' out = c\<lparr>signer := (signer c)(i := n'), flight := flight c @ out\<rparr>"

lemma with_reaction_simps [simp]:
  "signer (with_reaction c i n' out) = (signer c)(i := n')" "chain (with_reaction c i n' out) = chain c"
  "past (with_reaction c i n' out) = past c" "flight (with_reaction c i n' out) = flight c @ out"
  "views (with_reaction c i n' out) = views c"
  "with_reaction c i (signer c i) [] = c"
  "with_reaction (with_reaction c i n' out) i n'' out' = with_reaction c i n'' (out @ out')"
  by (simp_all add: with_reaction_def views_def)

lemma seen_ok_grows:
  assumes "seen_ok ids c s" "committed_requests (signer c i) \<subseteq> committed_requests n'"
    "shared_requests (signer c i) \<subseteq> shared_requests n'"
  shows "seen_ok ids (with_reaction c i n' out) s"
  using assms unfolding seen_ok_def by (simp add: subset_iff)

text \<open>Nothing changes for the other requests.\<close>

lemma request_ok_other:
  assumes "rid' \<noteq> rid" "out = [SubmitCommitment rid i cm] \<or> out = [SubmitShare rid i sh]"
    and "pending n' rid' = pending (signer c i) rid'"
    and "rid' \<in> committed_requests n' \<longleftrightarrow> rid' \<in> committed_requests (signer c i)"
    and "rid' \<in> shared_requests n' \<longleftrightarrow> rid' \<in> shared_requests (signer c i)"
  shows "request_ok F S ids g n0 (with_reaction c i n' out) rid' e = request_ok F S ids g n0 c rid' e"
proof -
  have fl: "SubmitCommitment rid' j cm' \<in> set (flight c @ out) \<longleftrightarrow> SubmitCommitment rid' j cm' \<in> set (flight c)"
    "SubmitShare rid' j sh' \<in> set (flight c @ out) \<longleftrightarrow> SubmitShare rid' j sh' \<in> set (flight c)" for j cm' sh'
    using assms(1,2) by auto
  have n: "pending (((signer c)(i := n')) j) rid' = pending (signer c j) rid'"
    "rid' \<in> committed_requests (((signer c)(i := n')) j) \<longleftrightarrow> rid' \<in> committed_requests (signer c j)"
    "rid' \<in> shared_requests (((signer c)(i := n')) j) \<longleftrightarrow> rid' \<in> shared_requests (signer c j)" for j
    using assms(3-5) by auto
  show ?thesis
    unfolding request_ok_def awaiting_ok_def signing_ok_def share_ok_def with_reaction_simps fl n ..
qed

lemma node_updates_memory [simp]:
  "committed_requests (committed rid nc n) = insert rid (committed_requests n)"
  "committed_requests (shared rid n) = committed_requests n"
  "shared_requests (shared rid n) = insert rid (shared_requests n)"
  "pending (committed rid nc n) = (pending n)(rid \<mapsto> nc)"
  "pending (shared rid n) = (pending n)(rid := None)"
  by (simp_all add: committed_def shared_def)

text \<open>The request that a signer commits to, whatever its status has become meanwhile.\<close>

lemma request_ok_commits:
  assumes ok: "request_ok F S ids g n0 c rid e" and i: "i \<in> ids" "rid \<notin> committed_requests (signer c i)"
    and d: "drawn S (key_package (n0 i)) nc cm"
  shows "request_ok F S ids g n0 (with_reaction c i (committed rid nc (signer c i)) [SubmitCommitment rid i cm]) rid e"
proof (cases "status e")
  case (AwaitingCommitments cms)
  then have a: "awaiting_ok S ids g n0 c rid (message e) cms" using ok by (simp add: request_ok_def)
  then have "bt_get cms i = None" using i(2) unfolding awaiting_ok_def by (metis not_None_eq)
  then show ?thesis
    using a AwaitingCommitments unfolding request_ok_def by (auto simp: awaiting_ok_def)
next
  case (Signing sp P shs)
  obtain cms where w: "selected ids g n0 (message e) cms P" "sp = signing_package_new F cms (message e)"
    "dom (bt_get shs) \<subset> dom (bt_get P)"
    "\<And>j cm. bt_get cms j = Some cm \<Longrightarrow> share_ok F S n0 c rid cms (message e) (randomizer e) shs j cm"
    using signingE [OF ok Signing] by metis
  have "share_ok F S n0 (with_reaction c i (committed rid nc (signer c i)) [SubmitCommitment rid i cm]) rid cms
      (message e) (randomizer e) shs j cm'" if "bt_get cms j = Some cm'" for j cm'
    using w(4) [OF that] i(2) by (auto simp: share_ok_def)
  then show ?thesis
    using w(1-3) by (auto simp: request_ok_def Signing signing_ok_def)
qed (use ok in \<open>simp_all add: request_ok_def\<close>)

lemma can_share:
  assumes members: "net_setup F S ids g n0"
    and ok: "request_ok F S ids g n0 c rid e" "status e = Signing sp P shs"
    and i: "i \<in> dom (bt_get P)" "rid \<notin> shared_requests (signer c i)"
  shows "\<exists>nc sh. pending (signer c i) rid = Some nc \<and> bt_get shs i = None \<and>
    frost_sign S sp nc (key_package (n0 i)) (randomizer e) = Inr sh \<and>
    request_ok F S ids g n0 (with_reaction c i (shared rid (signer c i)) [SubmitShare rid i sh]) rid e"
proof -
  let ?kp = "key_package (n0 i)"
  obtain cms where w: "selected ids g n0 (message e) cms P" "sp = signing_package_new F cms (message e)"
    "dom (bt_get shs) \<subset> dom (bt_get P)"
    "\<And>j cm. bt_get cms j = Some cm \<Longrightarrow> share_ok F S n0 c rid cms (message e) (randomizer e) shs j cm"
    using signingE [OF ok] by metis
  obtain cm where cm: "bt_get cms i = Some cm" using selected_member [OF w(1) i(1)] by blast
  with w(4) i(2) obtain nc where nc: "pending (signer c i) rid = Some nc" "drawn S ?kp nc cm"
    unfolding share_ok_def by metis
  have none: "bt_get shs i = None"
    using w(4) [OF cm] i(2) unfolding share_ok_def by (meson not_None_eq)
  have "i \<in> ids" using selected_member [OF w(1) i(1)] by blast
  then have "sign_law F S (unat (threshold (g_params g))) ?kp" "kp_identifier S ?kp = i"
    using members by (simp_all add: net_setup_def)
  with nc(2) cm w(1) obtain sh where sh: "frost_sign S sp nc ?kp (randomizer e) = Inr sh"
    unfolding sign_law_def drawn_def selected_def w(2) by metis
  have m: "made F S cms (message e) (randomizer e) ?kp cm sh" using nc(2) sh w(2) by (auto simp: made_def)
  let ?c = "with_reaction c i (shared rid (signer c i)) [SubmitShare rid i sh]"
  have "share_ok F S n0 ?c rid cms (message e) (randomizer e) shs j cm'" if "bt_get cms j = Some cm'" for j cm'
    using w(4) [OF that] that cm m by (auto simp: share_ok_def)
  then have "request_ok F S ids g n0 ?c rid e"
    using w(1-3) ok(2) by (auto simp: request_ok_def signing_ok_def)
  with nc(1) none sh show ?thesis by blast
qed

text \<open>Both reactions keep the invariant.\<close>

lemma reaction_inv:
  assumes inv: "net_inv F S ids g n0 reqs c" and i: "i \<in> ids" and e: "bt_get (requests (chain c)) rid = Some e"
    and out: "out = [SubmitCommitment rid i cm] \<and> n' = committed rid nc (signer c i) \<or>
      out = [SubmitShare rid i sh] \<and> n' = shared rid (signer c i) \<and> rid \<in> committed_requests (signer c i)"
    and fl: "\<forall>t \<in> set out. flying_ok S ids n0 reqs (with_reaction c i n' out) t"
    and old: "\<forall>t \<in> set (flight c). flying_ok S ids n0 reqs (with_reaction c i n' out) t"
    and ok: "request_ok F S ids g n0 (with_reaction c i n' out) rid e"
  shows "net_inv F S ids g n0 reqs (with_reaction c i n' out)"
proof -
  note D = net_invD [OF inv]
  let ?c = "with_reaction c i n' out"
  have grow: "committed_requests (signer c i) \<subseteq> committed_requests n'" "shared_requests (signer c i) \<subseteq> shared_requests n'"
    using out by auto
  have views: "chain_le s (chain c) \<and> group s = Some g \<and> seen_ok ids ?c s" if "s \<in> views c" for s
    using D(4) [OF that] seen_ok_grows [OF _ grow] by blast
  have mem: "memory_ok n0 ?c j" if "j \<in> ids" for j
    using D(5) [OF that] out e unfolding memory_ok_def by (fastforce split: if_splits)
  have reqs: "request_ok F S ids g n0 ?c rid' e'" if e': "bt_get (requests (chain c)) rid' = Some e'" for rid' e'
  proof (cases "rid' = rid")
    case True
    then show ?thesis using ok e e' by simp
  next
    case False
    have "request_ok F S ids g n0 ?c rid' e' = request_ok F S ids g n0 c rid' e'"
      by (rule request_ok_other [of rid' rid out i cm sh]) (use False out in auto)
    then show ?thesis using D(8) [OF e'] by simp
  qed
  show ?thesis
  proof (rule net_invI)
    show "flying_ok S ids n0 reqs ?c t" if "t \<in> set (flight ?c)" for t using fl old that by auto
  qed (use D(1,2,7) views mem reqs in simp_all, use D(9) in fastforce)
qed

text \<open>What a signer may still submit.\<close>

definition left_to_do :: "(uuid \<times> u8 list \<times> 'rz) list \<Rightarrow> ('i, 'kp, 'pkp, 'nc) node \<Rightarrow> nat" where
  "left_to_do reqs n = card (fst ` set reqs - committed_requests n) + card (fst ` set reqs - shared_requests n)"

lemma card_less_one: "finite A \<Longrightarrow> x \<in> A - B \<Longrightarrow> Suc (card (A - insert x B)) = card (A - B)"
  by (metis Diff_insert card_Suc_Diff1 finite_Diff)

lemma left_to_do_less:
  assumes "rid \<in> fst ` set reqs"
  shows "rid \<notin> committed_requests n \<Longrightarrow> Suc (left_to_do reqs (committed rid nc n)) = left_to_do reqs n"
    and "rid \<notin> shared_requests n \<Longrightarrow> Suc (left_to_do reqs (shared rid n)) = left_to_do reqs n"
  using assms card_less_one [of "fst ` set reqs" rid "committed_requests n"]
    card_less_one [of "fst ` set reqs" rid "shared_requests n"]
  by (simp_all add: left_to_do_def)

text \<open>A commitment that the signer makes now keeps the invariant.\<close>

lemma commits_inv:
  assumes inv: "net_inv F S ids g n0 reqs c" and i: "i \<in> ids" "rid \<notin> committed_requests (signer c i)"
    and e: "bt_get (requests (chain c)) rid = Some e" "policy (n0 i) (message e) = Ok ()"
    and d: "drawn S (key_package (n0 i)) nc cm"
  shows "net_inv F S ids g n0 reqs (with_reaction c i (committed rid nc (signer c i)) [SubmitCommitment rid i cm])"
proof (rule reaction_inv [OF inv i(1) e(1)])
  note D = net_invD [OF inv]
  let ?c = "with_reaction c i (committed rid nc (signer c i)) [SubmitCommitment rid i cm]"
  show "request_ok F S ids g n0 ?c rid e" by (rule request_ok_commits [OF D(8) [OF e(1)] i d])
  show "\<forall>t \<in> set [SubmitCommitment rid i cm]. flying_ok S ids n0 reqs ?c t"
    using i(1) e d by (auto simp: flying_ok_def approvers_def)
  show "\<forall>t \<in> set (flight c). flying_ok S ids n0 reqs ?c t"
  proof
    fix t
    assume "t \<in> set (flight c)"
    from D(6) [OF this] i(2) show "flying_ok S ids n0 reqs ?c t"
      by (auto simp: flying_ok_def split: tx.splits)
  qed
qed simp

lemma shares_inv:
  assumes inv: "net_inv F S ids g n0 reqs c" and i: "i \<in> ids" "rid \<in> committed_requests (signer c i)"
    and e: "bt_get (requests (chain c)) rid = Some e" "status e = Signing sp P shs"
    and ok: "request_ok F S ids g n0 (with_reaction c i (shared rid (signer c i)) [SubmitShare rid i sh]) rid e"
  shows "net_inv F S ids g n0 reqs (with_reaction c i (shared rid (signer c i)) [SubmitShare rid i sh])"
proof (rule reaction_inv [OF inv i(1) e(1) _ _ _ ok])
  note D = net_invD [OF inv]
  let ?c = "with_reaction c i (shared rid (signer c i)) [SubmitShare rid i sh]"
  show "\<forall>t \<in> set [SubmitShare rid i sh]. flying_ok S ids n0 reqs ?c t" using e by (auto simp: flying_ok_def)
  show "\<forall>t \<in> set (flight c). flying_ok S ids n0 reqs ?c t"
  proof
    fix t
    assume "t \<in> set (flight c)"
    from D(6) [OF this] e show "flying_ok S ids n0 reqs ?c t"
      by (auto simp: flying_ok_def split: tx.splits)
  qed
qed (use i(2) in simp)

text \<open>One request, seen in any of the states: the reaction succeeds, keeps the invariant, and either
  changes nothing or does a thing that was left to do.\<close>

definition good_reaction where
  "good_reaction F S ids g n0 reqs c i n' out \<longleftrightarrow>
     net_inv F S ids g n0 reqs (with_reaction c i n' out) \<and> (out = [] \<longrightarrow> n' = signer c i) \<and>
     left_to_do reqs n' + length out = left_to_do reqs (signer c i)"

lemma good_idle: "net_inv F S ids g n0 reqs c \<Longrightarrow> good_reaction F S ids g n0 reqs c i (signer c i) []"
  by (simp add: good_reaction_def)

lemma good_trans:
  assumes "good_reaction F S ids g n0 reqs c i n' out"
    and "good_reaction F S ids g n0 reqs (with_reaction c i n' out) i n'' out'"
  shows "good_reaction F S ids g n0 reqs c i n'' (out @ out')"
  using assms by (auto simp: good_reaction_def)

lemma memory_of:
  assumes "net_inv F S ids g n0 reqs c" "i \<in> ids"
  shows "node_identifier (signer c i) = i" "key_package (signer c i) = key_package (n0 i)"
    "policy (signer c i) = policy (n0 i)" "dom (pending (signer c i)) \<subseteq> committed_requests (signer c i)"
  using net_invD(5) [OF assms] by (simp_all add: memory_ok_def)

lemma known_request:
  "net_inv F S ids g n0 reqs c \<Longrightarrow> bt_get (requests (chain c)) rid = Some e \<Longrightarrow> rid \<in> fst ` set reqs"
  using net_invD(7) by force

lemma reacts_to_awaiting:
  fixes c :: "('i::linorder, 'kp, 'nc, 'pkp, 'p1, 'cm, 'rz, 'sp, 'sh, 'sg) network"
  assumes inv: "net_inv F S ids g n0 reqs c" and i: "i \<in> ids"
    and e: "status e = AwaitingCommitments cms" "bt_get (requests (chain c)) rid = Some e'" "message e' = message e"
    and seen: "bt_get cms i \<noteq> None \<Longrightarrow> rid \<in> committed_requests (signer c i)"
  shows "\<exists>t n' rng'. react_request S (signer c i) rng rid e = (Ok t, n', rng') \<and>
    good_reaction F S ids g n0 reqs c i n' (case t of None \<Rightarrow> [] | Some t \<Rightarrow> [t])"
proof (cases "rid \<in> committed_requests (signer c i) \<or> policy (n0 i) (message e) \<noteq> Ok ()")
  case True
  have "policy (n0 i) (message e) \<noteq> Panic" using net_invD(1) [OF inv] i by (simp add: net_setup_def)
  then have "react_request S (signer c i) rng rid e = (Ok (None :: ('i, 'pkp, 'p1, 'cm, 'rz, 'sh) tx option), signer c i, rng)"
    using True e(1) memory_of [OF inv i] seen
    by (cases "policy (n0 i) (message e)") (auto simp: react_request_def insert_absorb)
  then show ?thesis using good_idle [OF inv, of i] by force
next
  case False
  obtain nc cm rng' where d: "round1_commit S (signing_share S (key_package (n0 i))) rng = ((nc, cm), rng')"
    by (metis prod.collapse)
  have "bt_get cms i = None" "pending (signer c i) rid = None" using False memory_of(4) [OF inv i] seen by blast+
  then have run: "react_request S (signer c i) rng rid e =
      (Ok (Some (SubmitCommitment rid i cm :: ('i, 'pkp, 'p1, 'cm, 'rz, 'sh) tx)), committed rid nc (signer c i), rng')"
    using False e(1) memory_of [OF inv i] d by (simp add: react_request_def commit_def committed_def)
  have "policy (n0 i) (message e') = Ok ()" using False e(3) by simp
  from commits_inv [OF inv i _ e(2) this, of nc cm] d False
  have "good_reaction F S ids g n0 reqs c i (committed rid nc (signer c i)) [SubmitCommitment rid i cm]"
    using left_to_do_less(1) [OF known_request [OF inv e(2)], of "signer c i" nc] by (auto simp: good_reaction_def drawn_def)
  with run show ?thesis by fastforce
qed

lemma reacts_to_signing:
  fixes c :: "('i::linorder, 'kp, 'nc, 'pkp, 'p1, 'cm, 'rz, 'sp, 'sh, 'sg) network"
  assumes inv: "net_inv F S ids g n0 reqs c" and i: "i \<in> ids"
    and e: "status e = Signing sp P shs" "bt_get (requests (chain c)) rid = Some e'" "entry_le e e'"
    and seen: "i \<in> dom (bt_get P) \<Longrightarrow> bt_get shs i \<noteq> None \<or> terminal (status e') \<Longrightarrow> rid \<in> shared_requests (signer c i)"
  shows "\<exists>t n' rng'. react_request S (signer c i) rng rid e = (Ok t, n', rng') \<and>
    good_reaction F S ids g n0 reqs c i n' (case t of None \<Rightarrow> [] | Some t \<Rightarrow> [t])"
proof (cases "i \<in> dom (bt_get P) \<and> rid \<notin> shared_requests (signer c i)")
  case False
  then have "react_request S (signer c i) rng rid e = (Ok (None :: ('i, 'pkp, 'p1, 'cm, 'rz, 'sh) tx option), signer c i, rng)"
    using e(1) memory_of [OF inv i] seen by (auto simp: react_request_def insert_absorb)
  then show ?thesis using good_idle [OF inv, of i] by force
next
  case True
  note D = net_invD [OF inv] and mem = memory_of [OF inv i]
  have shs: "bt_get shs i = None" and "\<not> terminal (status e')" using True seen by blast+
  moreover have "status_le (Signing sp P shs) (status e')" and rz: "randomizer e' = randomizer e"
    using e(1,3) by (simp_all add: entry_le_def)
  ultimately obtain shs' where st: "status e' = Signing sp P shs'" by (cases "status e'") (auto simp: terminal_def)
  from can_share [OF D(1) D(8) [OF e(2)] st] True i obtain nc sh where
    sh: "pending (signer c i) rid = Some nc" "frost_sign S sp nc (key_package (n0 i)) (randomizer e') = Inr sh"
    and ok: "request_ok F S ids g n0 (with_reaction c i (shared rid (signer c i)) [SubmitShare rid i sh]) rid e'" by blast
  have run: "react_request S (signer c i) rng rid e =
      (Ok (Some (SubmitShare rid i sh :: ('i, 'pkp, 'p1, 'cm, 'rz, 'sh) tx)), shared rid (signer c i), rng)"
    using e(1) True mem sh shs rz by (simp add: react_request_def sign_share_rerandomized_def shared_def domIff)
  have "rid \<in> committed_requests (signer c i)" using mem(4) sh(1) by blast
  from shares_inv [OF inv i this e(2) st ok] True
  have "good_reaction F S ids g n0 reqs c i (shared rid (signer c i)) [SubmitShare rid i sh]"
    using left_to_do_less(2) [OF known_request [OF inv e(2)], of "signer c i"] by (auto simp: good_reaction_def)
  with run show ?thesis by fastforce
qed

lemma reacts_to_request:
  fixes c :: "('i::linorder, 'kp, 'nc, 'pkp, 'p1, 'cm, 'rz, 'sp, 'sh, 'sg) network"
  assumes inv: "net_inv F S ids g n0 reqs c" and i: "i \<in> ids" and s: "s \<in> views c"
    and e: "bt_get (requests s) rid = Some e"
  shows "\<exists>t n' rng'. react_request S (signer c i) rng rid e = (Ok t, n', rng') \<and>
    good_reaction F S ids g n0 reqs c i n' (case t of None \<Rightarrow> [] | Some t \<Rightarrow> [t])"
proof -
  note view = net_invD(4) [OF inv s]
  from view e obtain e' where e': "bt_get (requests (chain c)) rid = Some e'" "entry_le e e'"
    unfolding chain_le_def by blast
  show ?thesis
  proof (cases "status e")
    case (AwaitingCommitments cms)
    have "rid \<in> committed_requests (signer c i)" if "bt_get cms i \<noteq> None"
      using view e i AwaitingCommitments that unfolding seen_ok_def by blast
    moreover have "message e' = message e" using e'(2) by (simp add: entry_le_def)
    ultimately show ?thesis by (intro reacts_to_awaiting [OF inv i AwaitingCommitments e'(1)])
  next
    case (Signing sp P shs)
    have "rid \<in> shared_requests (signer c i)"
      if "i \<in> dom (bt_get P)" "bt_get shs i \<noteq> None \<or> terminal (status e')"
      using view e e'(1) i Signing that unfolding seen_ok_def by blast
    then show ?thesis by (rule reacts_to_signing [OF inv i Signing e'])
  qed (use good_idle [OF inv, of i] in \<open>force simp: react_request_def\<close>)+
qed

lemma reacts_to_requests:
  fixes c :: "('i::linorder, 'kp, 'nc, 'pkp, 'p1, 'cm, 'rz, 'sp, 'sh, 'sg) network"
  assumes "net_inv F S ids g n0 reqs c" "i \<in> ids" "s \<in> views c"
    and "\<forall>(rid, e) \<in> set xs. bt_get (requests s) rid = Some e"
  shows "\<exists>out n' rng'. react_loop S (signer c i) rng acc xs =
      (Ok (acc @ out :: ('i, 'pkp, 'p1, 'cm, 'rz, 'sh) tx list), n', rng') \<and>
    good_reaction F S ids g n0 reqs c i n' out"
  using assms
proof (induction xs arbitrary: c rng acc)
  case Nil
  then show ?case using good_idle by fastforce
next
  case (Cons x xs)
  obtain rid e where x: "x = (rid, e)" by (cases x)
  with Cons.prems(4) have "bt_get (requests s) rid = Some e" by simp
  from reacts_to_request [OF Cons.prems(1-3) this, of rng] obtain t n1 rng1 where
    one: "react_request S (signer c i) rng rid e = (Ok (t :: ('i, 'pkp, 'p1, 'cm, 'rz, 'sh) tx option), n1, rng1)"
    and good: "good_reaction F S ids g n0 reqs c i n1 (case t of None \<Rightarrow> [] | Some t \<Rightarrow> [t])" by blast
  let ?o = "case t of None \<Rightarrow> [] | Some t \<Rightarrow> [t]"
  have "net_inv F S ids g n0 reqs (with_reaction c i n1 ?o)" using good by (simp add: good_reaction_def)
  from Cons.IH [OF this Cons.prems(2), of rng1 "acc @ ?o"] Cons.prems(3,4)
  obtain out n' rng' where rest: "react_loop S n1 rng1 (acc @ ?o) xs = (Ok ((acc @ ?o) @ out), n', rng')"
    "good_reaction F S ids g n0 reqs (with_reaction c i n1 ?o) i n' out" by auto
  have "react_loop S (signer c i) rng acc (x # xs) = (Ok (acc @ (?o @ out)), n', rng')"
    using one rest(1) by (simp add: x)
  with good_trans [OF good rest(2)] show ?case by blast
qed

lemma reacts_well:
  fixes c :: "('i::linorder, 'kp, 'nc, 'pkp, 'p1, 'cm, 'rz, 'sp, 'sh, 'sg) network"
  assumes inv: "net_inv F S ids g n0 reqs c" and i: "i \<in> ids" and s: "s \<in> views c"
  shows "\<exists>out n' rng'. react S (signer c i) s rng = (Ok (out :: ('i, 'pkp, 'p1, 'cm, 'rz, 'sh) tx list), n', rng') \<and>
    good_reaction F S ids g n0 reqs c i n' out"
proof -
  note D = net_invD [OF inv]
  have "group s = Some g" "bt_contains_key (g_validators g) (node_identifier (signer c i))"
    using D(4) [OF s] D(5) [OF i] D(1) i by (auto simp: net_setup_def memory_ok_def)
  then have "react S (signer c i) s rng =
      (react_loop S (signer c i) rng [] (bt_iter (requests s)) ::
        (('i, 'pkp, 'p1, 'cm, 'rz, 'sh) tx list, error) result \<times> _)"
    by (simp add: react_def)
  moreover have "\<forall>(rid, e) \<in> set (bt_iter (requests s)). bt_get (requests s) rid = Some e"
    by (auto simp: in_set_bt_iter)
  ultimately show ?thesis using reacts_to_requests [OF inv i s, of "bt_iter (requests s)" rng "[]"] by simp
qed

section \<open>A transaction is applied\<close>

text \<open>Dropping a transaction that the chain rejects.\<close>

lemma in_remove1_other: "x \<noteq> t \<Longrightarrow> x \<in> set (remove1 t xs) \<longleftrightarrow> x \<in> set xs"
  by simp

text \<open>A message less in flight: what has to hold of it for the requests.\<close>

definition without where
  "without t c = c\<lparr>flight := remove1 t (flight c)\<rparr>"

definition with_chain where
  "with_chain t s c = c\<lparr>chain := s, past := chain c # past c, flight := remove1 t (flight c)\<rparr>"

lemma without_simps [simp]:
  "signer (without t c) = signer c" "chain (without t c) = chain c" "views (without t c) = views c"
  "flight (without t c) = remove1 t (flight c)"
  "signer (with_chain t s c) = signer c" "chain (with_chain t s c) = s" "views (with_chain t s c) = insert s (views c)"
  "flight (with_chain t s c) = remove1 t (flight c)"
  by (simp_all add: without_def with_chain_def views_def)

definition droppable where
  "droppable t rid st \<longleftrightarrow>
     (case st of
        AwaitingCommitments cms \<Rightarrow> \<forall>i cm. t = SubmitCommitment rid i cm \<longrightarrow> bt_get cms i \<noteq> None
      | Signing sp P shs \<Rightarrow> \<forall>i sh. t = SubmitShare rid i sh \<longrightarrow> i \<in> dom (bt_get P) \<longrightarrow> bt_get shs i \<noteq> None
      | _ \<Rightarrow> True)"

lemma request_ok_drop:
  assumes ok: "request_ok F S ids g n0 c rid e" and d: "droppable t rid (status e)"
    and c': "signer c' = signer c" "flight c' = remove1 t (flight c)"
  shows "request_ok F S ids g n0 c' rid e"
proof (cases "status e")
  case (AwaitingCommitments cms)
  then have a: "awaiting_ok S ids g n0 c rid (message e) cms" using ok by (simp add: request_ok_def)
  have keep: "SubmitCommitment rid i cm \<in> set (remove1 t (flight c))"
    if "SubmitCommitment rid i cm \<in> set (flight c)" "bt_get cms i = None" for i cm
  proof -
    have "SubmitCommitment rid i cm \<noteq> t" using d that(2) AwaitingCommitments by (auto simp: droppable_def)
    with that(1) show ?thesis by (simp add: in_remove1_other)
  qed
  have "bt_get cms i \<noteq> None \<or> (\<exists>cm. SubmitCommitment rid i cm \<in> set (remove1 t (flight c)))"
    if "i \<in> ids" "rid \<in> committed_requests (signer c i)" for i
    using a that keep [of i] unfolding awaiting_ok_def by blast
  then show ?thesis
    using a AwaitingCommitments c' notin_set_remove1 [of _ "flight c" t] by (auto simp: request_ok_def awaiting_ok_def)
next
  case (Signing sp P shs)
  obtain cms where w: "selected ids g n0 (message e) cms P" "sp = signing_package_new F cms (message e)"
    "dom (bt_get shs) \<subset> dom (bt_get P)"
    "\<And>j cm. bt_get cms j = Some cm \<Longrightarrow> share_ok F S n0 c rid cms (message e) (randomizer e) shs j cm"
    using signingE [OF ok Signing] by metis
  have "share_ok F S n0 c' rid cms (message e) (randomizer e) shs i cm" if "bt_get cms i = Some cm" for i cm
  proof -
    have "i \<in> dom (bt_get P)" using w(1) that by (auto simp: selected_def)
    then have other: "SubmitShare rid i sh \<noteq> t" if "bt_get shs i = None" for sh
      using d Signing that by (auto simp: droppable_def)
    have "SubmitShare rid i sh \<in> set (remove1 t (flight c))"
      if "SubmitShare rid i sh \<in> set (flight c)" "bt_get shs i = None" for sh
      using in_remove1_other [OF other [OF that(2)]] that(1) by simp
    moreover have "SubmitShare rid i sh \<in> set (flight c)" if "SubmitShare rid i sh \<in> set (remove1 t (flight c))" for sh
      using that by (rule set_remove1_subset [THEN subsetD])
    ultimately show ?thesis
      using w(4) [OF that] unfolding share_ok_def c' by blast
  qed
  then show ?thesis using w(1-3) by (auto simp: request_ok_def Signing signing_ok_def)
qed (use ok in \<open>simp_all add: request_ok_def\<close>)

lemma seen_ok_chain:
  assumes "\<And>rid e. bt_get (requests (chain c)) rid = Some e \<Longrightarrow> request_ok F S ids g n0 c rid e"
  shows "seen_ok ids c (chain c)"
  unfolding seen_ok_def
proof (intro conjI allI impI)
  fix rid e cms i
  assume e: "bt_get (requests (chain c)) rid = Some e" "status e = AwaitingCommitments cms" and i: "i \<in> ids \<inter> dom (bt_get cms)"
  show "rid \<in> committed_requests (signer c i)"
    using assms [OF e(1)] e(2) i by (auto simp: request_ok_def awaiting_ok_def)
next
  fix rid e sp P shs i
  assume e: "bt_get (requests (chain c)) rid = Some e" "status e = Signing sp P shs" and i: "i \<in> ids \<inter> dom (bt_get P)"
    and "i \<in> dom (bt_get shs) \<or> (\<exists>e'. bt_get (requests (chain c)) rid = Some e' \<and> terminal (status e'))"
  then have "i \<in> dom (bt_get shs)" by (auto simp: terminal_def)
  obtain cms where "selected ids g n0 (message e) cms P"
    "\<And>j cm. bt_get cms j = Some cm \<Longrightarrow> share_ok F S n0 c rid cms (message e) (randomizer e) shs j cm"
    using signingE [OF assms [OF e(1)] e(2)] by metis
  then obtain cm where "share_ok F S n0 c rid cms (message e) (randomizer e) shs i cm"
    using i selected_member by blast
  with \<open>i \<in> dom (bt_get shs)\<close> show "rid \<in> shared_requests (signer c i)" by (auto simp: share_ok_def)
qed

text \<open>A transaction that is accepted replaces the entry of one request.\<close>

lemma seen_ok_later:
  assumes old: "seen_ok ids c s" and le: "chain_le s (chain c)"
    and e: "bt_get (requests (chain c)) rid = Some e \<or> bt_get (requests (chain c)) rid = None \<and> \<not> terminal (status e')"
    and over: "\<And>sp P shs i. terminal (status e') \<Longrightarrow> status e = Signing sp P shs \<Longrightarrow> i \<in> ids \<inter> dom (bt_get P) \<Longrightarrow>
      rid \<in> shared_requests (signer c i)"
    and step: "terminal (status e') \<Longrightarrow> terminal (status e) \<or> (\<exists>sp P shs. status e = Signing sp P shs)"
  shows "seen_ok ids (with_chain t (with_entry (chain c) rid e') c) s"
proof -
  have "rid' \<in> shared_requests (signer c i)"
    if "bt_get (requests s) rid' = Some f" "status f = Signing sp P shs" "i \<in> ids \<inter> dom (bt_get P)"
      "bt_get (requests (with_entry (chain c) rid e')) rid' = Some f'" "terminal (status f')" for rid' f sp P shs i f'
  proof -
   note h = that
   show ?thesis
   proof (cases "rid' = rid \<and> \<not> terminal (status e)")
    case True
    then have "f' = e'" using h(4) by simp
    then obtain sp' P' shs' where st: "status e = Signing sp' P' shs'" using step h(5) True by auto
    have "bt_get (requests (chain c)) rid = Some e" using e h(5) \<open>f' = e'\<close> by auto
    with le h(1,2) True have "status_le (Signing sp P shs) (status e)"
      unfolding chain_le_def entry_le_def by (metis option.inject)
    then have "P' = P" using st by simp
    then show ?thesis using over [OF _ st] h(3,5) True \<open>f' = e'\<close> by simp
  next
    case False
    then have "\<exists>g. bt_get (requests (chain c)) rid' = Some g \<and> terminal (status g)"
      using h(4,5) e by (auto split: if_splits)
    with old h(1-3) show ?thesis unfolding seen_ok_def by blast
   qed
  qed
  note new = this
  show ?thesis
    unfolding seen_ok_def without_simps
  proof (intro conjI allI impI)
    fix rid' f sp P shs i
    assume f: "bt_get (requests s) rid' = Some f" "status f = Signing sp P shs" "i \<in> ids \<inter> dom (bt_get P)"
      and "i \<in> dom (bt_get shs) \<or> (\<exists>f'. bt_get (requests (with_entry (chain c) rid e')) rid' = Some f' \<and> terminal (status f'))"
    then show "rid' \<in> shared_requests (signer c i)"
    proof (elim disjE exE conjE)
      assume "i \<in> dom (bt_get shs)"
      with old f show ?thesis unfolding seen_ok_def by blast
    qed (rule new [OF f])
  qed (use old in \<open>unfold seen_ok_def, blast\<close>)
qed

text \<open>The messages about other requests stay as they are; those about this one see its new status.\<close>

lemma flying_ok_later:
  assumes old: "flying_ok S ids n0 reqs c t'"
    and e: "bt_get (requests (chain c)) rid = Some e \<and> message e' = message e \<and>
        ((\<exists>cms. status e' = AwaitingCommitments cms) \<longrightarrow> (\<exists>cms. status e = AwaitingCommitments cms)) \<or>
      bt_get (requests (chain c)) rid = None"
  shows "flying_ok S ids n0 reqs (with_chain t (with_entry (chain c) rid e') c) t'"
  using assms by (cases t') (auto simp: flying_ok_def)

lemma applied_requests:
  assumes inv: "net_inv F S ids g n0 reqs c"
    and kind: "\<And>rid' i cm. t = SubmitCommitment rid' i cm \<Longrightarrow> rid' = rid" "\<And>rid' i sh. t = SubmitShare rid' i sh \<Longrightarrow> rid' = rid"
    and req: "request_ok F S ids g n0 (with_chain t (with_entry (chain c) rid e') c) rid e'"
    and f: "bt_get (requests (with_entry (chain c) rid e')) rid' = Some f"
  shows "request_ok F S ids g n0 (with_chain t (with_entry (chain c) rid e') c) rid' f"
proof (cases "rid' = rid")
  case True
  then show ?thesis using req f by simp
next
  case False
  then have "t \<noteq> SubmitCommitment rid' i cm" "t \<noteq> SubmitShare rid' i sh" for i cm sh using kind by blast+
  then have "droppable t rid' (status f)" by (simp add: droppable_def split: request_status.splits)
  with request_ok_drop [of F S ids g n0 c rid' f t "with_chain t (with_entry (chain c) rid e') c"]
    net_invD(8) [OF inv, of rid' f] False f
  show ?thesis by simp
qed

lemma applied_inv:
  assumes inv: "net_inv F S ids g n0 reqs c" and t: "t \<in> set (flight c)"
    and ok: "apply_tx F (chain c) t = Ok (with_entry (chain c) rid e')"
    and prov: "(rid, message e', randomizer e') \<in> set reqs"
    and kind: "\<And>rid' m z. t = SubmitRequest rid' m z \<Longrightarrow> rid' = rid"
      "\<And>rid' i cm. t = SubmitCommitment rid' i cm \<Longrightarrow> rid' = rid" "\<And>rid' i sh. t = SubmitShare rid' i sh \<Longrightarrow> rid' = rid"
    and req: "request_ok F S ids g n0 (with_chain t (with_entry (chain c) rid e') c) rid e'"
    and e: "bt_get (requests (chain c)) rid = Some e \<or> bt_get (requests (chain c)) rid = None \<and> \<not> terminal (status e')"
    and over: "\<And>sp P shs i. terminal (status e') \<Longrightarrow> status e = Signing sp P shs \<Longrightarrow> i \<in> ids \<inter> dom (bt_get P) \<Longrightarrow>
      rid \<in> shared_requests (signer c i)"
    and step: "terminal (status e') \<Longrightarrow> terminal (status e) \<or> (\<exists>sp P shs. status e = Signing sp P shs)"
  shows "net_inv F S ids g n0 reqs (with_chain t (with_entry (chain c) rid e') c)"
proof -
  note D = net_invD [OF inv]
  let ?s = "with_entry (chain c) rid e'"
  let ?c = "with_chain t ?s c"
  have le: "chain_le (chain c) ?s" and ci: "chain_inv F ?s"
    using apply_tx_le [OF D(2) ok] chain.inv_step [OF D(2) ok] by simp_all
  have grow: "bt_get (requests (chain c)) rid = Some e \<Longrightarrow> message e' = message e \<and> status_le (status e) (status e')"
    using le unfolding chain_le_def entry_le_def by (metis fun_upd_same option.inject with_entry_simps(3))
  have reqs: "request_ok F S ids g n0 ?c rid' f" if f: "bt_get (requests ?s) rid' = Some f" for rid' f
    by (rule applied_requests [OF inv kind(2,3) req f])
  have views: "chain_le s ?s \<and> group s = Some g \<and> seen_ok ids ?c s" if "s \<in> views ?c" for s
  proof (cases "s = ?s")
    case True
    have "seen_ok ids ?c (chain ?c)" by (rule seen_ok_chain) (use reqs in simp)
    then show ?thesis using True D(3) by (simp add: chain_le_refl)
  next
    case False
    then have s: "s \<in> views c" using that by simp
    note old = D(4) [OF s]
    have "seen_ok ids ?c s" by (rule seen_ok_later [OF _ _ e over step]) (use old in blast)+
    then show ?thesis using old chain_le_trans [OF _ le] by blast
  qed
  have mem: "memory_ok n0 ?c i" if "i \<in> ids" for i
    using D(5) [OF that] by (auto simp: memory_ok_def)
  have fl: "flying_ok S ids n0 reqs ?c t'" if "t' \<in> set (flight ?c)" for t'
  proof (rule flying_ok_later [where e = e])
    have "t' \<in> set (flight c)" using that set_remove1_subset [of t "flight c"] by auto
    then show "flying_ok S ids n0 reqs c t'" by (rule D(6))
    show "bt_get (requests (chain c)) rid = Some e \<and> message e' = message e \<and>
        ((\<exists>cms. status e' = AwaitingCommitments cms) \<longrightarrow> (\<exists>cms. status e = AwaitingCommitments cms)) \<or>
      bt_get (requests (chain c)) rid = None"
      using e grow by (cases "status e") auto
  qed
  have all: "bt_get (requests ?s) rid' \<noteq> None \<or> SubmitRequest rid' m z \<in> set (remove1 t (flight c))"
    if "(rid', m, z) \<in> set reqs" for rid' m z
    using D(9) [OF that] kind(1) in_remove1_other [of "SubmitRequest rid' m z" t "flight c"] by fastforce
  have from_clients: "(rid', message f, randomizer f) \<in> set reqs" if "bt_get (requests ?s) rid' = Some f" for rid' f
    using that prov D(7) [of rid' f] by (cases "rid' = rid") simp_all
  show ?thesis
  proof (rule net_invI)
    show "chain_le s (chain ?c) \<and> group s = Some g \<and> seen_ok ids ?c s" if "s \<in> views ?c" for s
      using views [OF that] by simp
    show "flying_ok S ids n0 reqs ?c t'" if "t' \<in> set (flight ?c)" for t' by (rule fl [OF that])
    show "(rid', message f, randomizer f) \<in> set reqs \<and> request_ok F S ids g n0 ?c rid' f"
      if "bt_get (requests (chain ?c)) rid' = Some f" for rid' f
      using from_clients [of rid' f] reqs [of rid' f] that by simp
    show "bt_get (requests (chain ?c)) rid' \<noteq> None \<or> SubmitRequest rid' m z \<in> set (flight ?c)"
      if "(rid', m, z) \<in> set reqs" for rid' m z using all [OF that] by simp
  qed (simp_all add: D(1) ci mem)
qed

lemma rejected_inv:
  assumes inv: "net_inv F S ids g n0 reqs c" and t: "t \<in> set (flight c)"
    and err: "apply_tx F (chain c) t = Err err"
  shows "net_inv F S ids g n0 reqs (without t c)"
proof -
  note D = net_invD [OF inv]
  have drop: "droppable t rid (status e)" if e: "bt_get (requests (chain c)) rid = Some e" for rid e
  proof -
    have ids: "ids \<subseteq> dom (bt_get (g_validators g))" using D(1) by (simp add: net_setup_def)
    have "bt_get cms i \<noteq> None" if "t = SubmitCommitment rid i cm" "status e = AwaitingCommitments cms" for i cm cms
    proof
      assume "bt_get cms i = None"
      moreover have "i \<in> ids" using D(6) [OF t] that(1) by (auto simp: flying_ok_def approvers_def)
      ultimately have "\<exists>s'. apply_submit_commitment F (chain c) rid i cm = Ok s'"
        unfolding submit_commitment_Ok using D(3) e that(2) ids by blast
      then show False using err that(1) by auto
    qed
    moreover have "bt_get shs i \<noteq> None"
      if "t = SubmitShare rid i sh" "status e = Signing sp P shs" "i \<in> dom (bt_get P)" for i sh sp P shs
    proof
      assume "bt_get shs i = None"
      moreover have "i \<in> ids"
        by (rule signingE [OF D(8) [OF e] that(2)]) (use selected_member that(3) in blast)
      ultimately have "\<exists>s'. apply_submit_share F (chain c) rid i sh = Ok s'"
        unfolding submit_share_Ok using D(3) e that(2,3) ids by blast
      then show False using err that(1) by auto
    qed
    ultimately show ?thesis by (auto simp: droppable_def split: request_status.splits)
  qed
  have "bt_get (requests (chain c)) rid \<noteq> None" if "t = SubmitRequest rid m z" for rid m z
    using err that D(3) by (auto simp: apply_submit_request_def require_group_def split: if_splits)
  then have all: "bt_get (requests (chain c)) rid \<noteq> None \<or> SubmitRequest rid m z \<in> set (remove1 t (flight c))"
    if "(rid, m, z) \<in> set reqs" for rid m z
    using D(9) [OF that] in_remove1_other [of "SubmitRequest rid m z" t "flight c"] by blast
  have reqs: "request_ok F S ids g n0 (without t c) rid e" if "bt_get (requests (chain c)) rid = Some e" for rid e
    by (rule request_ok_drop [OF D(8) [OF that] drop [OF that]]) simp_all
  have fl: "flying_ok S ids n0 reqs (without t c) t'" if "t' \<in> set (remove1 t (flight c))" for t'
  proof -
    have "t' \<in> set (flight c)" using that set_remove1_subset [of t "flight c"] by auto
    from D(6) [OF this] show ?thesis unfolding flying_ok_def without_simps .
  qed
  have views: "chain_le s (chain c) \<and> group s = Some g \<and> seen_ok ids (without t c) s" if "s \<in> views c" for s
    using D(4) [OF that] by (simp add: seen_ok_def)
  have mem: "memory_ok n0 (without t c) i" if "i \<in> ids" for i
    using D(5) [OF that] by (simp add: memory_ok_def)
  show ?thesis
  proof (rule net_invI)
    show "flying_ok S ids n0 reqs (without t c) t'" if "t' \<in> set (flight (without t c))" for t'
      using fl that by simp
    show "bt_get (requests (chain (without t c))) rid \<noteq> None \<or> SubmitRequest rid m z \<in> set (flight (without t c))"
      if "(rid, m, z) \<in> set reqs" for rid m z using all [OF that] by simp
  qed (simp_all add: D(1,2,7) views mem reqs)
qed

text \<open>The three kinds of transactions that travel in this network.\<close>

lemma request_applied:
  assumes inv: "net_inv F S ids g n0 reqs c" and t: "t \<in> set (flight c)" "t = SubmitRequest rid msg rz"
    and ok: "apply_tx F (chain c) t = Ok s'"
  shows "net_inv F S ids g n0 reqs (with_chain t s' c)"
proof -
  note D = net_invD [OF inv]
  let ?e = "\<lparr>request_id = rid, message = msg, randomizer = rz, status = AwaitingCommitments bt_new\<rparr>"
  from ok D(3) have new: "bt_get (requests (chain c)) rid = None" and s': "s' = with_entry (chain c) rid ?e"
    unfolding t(2) apply_tx.simps submit_request_Ok by (auto simp: with_entry_def)
  have unknown: "rid \<notin> committed_requests (signer c i)" "rid \<notin> shared_requests (signer c i)" if "i \<in> ids" for i
    using D(5) [OF that] new unfolding memory_ok_def by blast+
  have "SubmitShare rid i sh \<notin> set (flight c)" for i sh
    using D(6) [of "SubmitShare rid i sh"] new by (auto simp: flying_ok_def)
  then have "awaiting_ok S ids g n0 (with_chain t s' c) rid msg bt_new"
    using D(1) unknown unfolding awaiting_ok_def net_setup_def by (auto dest: notin_set_remove1)
  then have "request_ok F S ids g n0 (with_chain t s' c) rid ?e" by (simp add: request_ok_def)
  moreover have "(rid, msg, rz) \<in> set reqs" using D(6) [OF t(1)] by (simp add: t(2) flying_ok_def)
  ultimately show ?thesis
    using applied_inv [OF inv t(1), of rid ?e] ok new unfolding s' t(2) by (simp add: terminal_def)
qed

lemma commitment_applied:
  assumes inv: "net_inv F S ids g n0 reqs c" and t: "t \<in> set (flight c)" "t = SubmitCommitment rid i cm"
    and ok: "apply_tx F (chain c) t = Ok s'"
  shows "net_inv F S ids g n0 reqs (with_chain t s' c)"
proof -
  note D = net_invD [OF inv]
  from ok D(3) obtain e cms where e: "bt_get (requests (chain c)) rid = Some e" "status e = AwaitingCommitments cms"
    "bt_get cms i = None" and
    s': "s' = with_entry (chain c) rid (e\<lparr>status := after_commitment F (g_params g) (message e) (bt_insert i cm cms)\<rparr>)"
    unfolding t(2) apply_tx.simps submit_commitment_Ok by (auto simp: with_entry_def)
  let ?cms = "bt_insert i cm cms" and ?t = "unat (threshold (g_params g))" and ?c = "with_chain t s' c"
  have a: "awaiting_ok S ids g n0 c rid (message e) cms" using D(8) [OF e(1)] e(2) by (simp add: request_ok_def)
  have own: "i \<in> approvers ids n0 (message e)" "rid \<in> committed_requests (signer c i)"
    "\<exists>nc. pending (signer c i) rid = Some nc \<and> drawn S (key_package (n0 i)) nc cm"
    using D(6) [OF t(1)] e by (auto simp: t(2) flying_ok_def)
  have all: "j \<in> approvers ids n0 (message e) \<and> rid \<in> committed_requests (signer c j) \<and>
      (\<exists>nc. pending (signer c j) rid = Some nc \<and> drawn S (key_package (n0 j)) nc cm')"
    if "bt_get ?cms j = Some cm'" for j cm'
    using that a own unfolding awaiting_ok_def by (cases "j = i") auto
  have none: "\<And>j. j \<in> ids \<Longrightarrow> rid \<notin> shared_requests (signer c j)" "\<And>j sh. SubmitShare rid j sh \<notin> set (remove1 t (flight c))"
    using a set_remove1_subset [of t "flight c"] unfolding awaiting_ok_def by blast+
  have le: "bt_len ?cms \<le> ?t" using a e(3) by (simp add: awaiting_ok_def)
  then have cases: "after_commitment F (g_params g) (message e) ?cms =
      (if bt_len ?cms < ?t then AwaitingCommitments ?cms
       else Signing (signing_package_new F ?cms (message e)) (bs_collect (bt_keys ?cms)) bt_new)"
    using D(1) by (subst after_commitment_cases) (auto simp: net_setup_def)
  let ?e = "e\<lparr>status := after_commitment F (g_params g) (message e) ?cms\<rparr>"
  have "request_ok F S ids g n0 ?c rid ?e"
  proof (cases "bt_len ?cms < ?t")
    case True
    have "bt_get ?cms j \<noteq> None \<or> (\<exists>cm. SubmitCommitment rid j cm \<in> set (remove1 t (flight c)))"
      if "j \<in> ids" "rid \<in> committed_requests (signer c j)" for j
      using a that in_remove1_other [of _ t "flight c"] unfolding awaiting_ok_def t(2) by (cases "j = i") fastforce+
    then have "awaiting_ok S ids g n0 ?c rid (message e) ?cms"
      unfolding awaiting_ok_def without_simps using True all none by blast
    then show ?thesis using cases True by (simp add: request_ok_def)
  next
    case False
    have "dom (bt_get ?cms) \<subseteq> approvers ids n0 (message e)" using all by blast
    then have sel: "selected ids g n0 (message e) ?cms (bs_collect (bt_keys ?cms))"
      using le False unfolding selected_def by simp
    have "share_ok F S n0 ?c rid ?cms (message e) (randomizer e) bt_new j cm'" if "bt_get ?cms j = Some cm'" for j cm'
      using all [OF that] none unfolding share_ok_def without_simps by (auto simp: approvers_def)
    then have "signing_ok F S ids g n0 ?c rid (message e) (randomizer e) (signing_package_new F ?cms (message e))
        (bs_collect (bt_keys ?cms)) bt_new"
      unfolding signing_ok_def using sel by (intro exI [of _ ?cms]) auto
    then show ?thesis using cases False by (simp add: request_ok_def)
  qed
  moreover have "\<not> terminal (status ?e)" using cases by (simp add: terminal_def)
  ultimately show ?thesis
    using applied_inv [OF inv t(1), of rid ?e e] ok e(1) D(7) [OF e(1)] unfolding s' t(2) by simp
qed

text \<open>A share that the chain takes: either one is still missing, or all of them are aggregated.\<close>

lemma share_settles:
  assumes w: "selected ids g n0 (message e) cms P" "sp = signing_package_new F cms (message e)"
      "dom (bt_get shs) \<subseteq> dom (bt_get P)"
    and shares: "\<And>j cm. bt_get cms j = Some cm \<Longrightarrow> share_ok F S n0 c rid cms (message e) (randomizer e) shs j cm"
    and st: "status e = after_share F (g_pkp g) (randomizer e) sp P shs"
  shows "request_ok F S ids g n0 c rid e \<and> (terminal (status e) \<longrightarrow> dom (bt_get shs) = dom (bt_get P))"
proof (cases "dom (bt_get shs) = dom (bt_get P)")
  case True
  then have full: "bt_len shs = bt_len P" by (simp add: bt_len_card)
  have "made F S cms (message e) (randomizer e) (key_package (n0 j)) cm sh"
    if "bt_get cms j = Some cm" "bt_get shs j = Some sh" for j cm sh
    using shares [OF that(1)] that(2) unfolding share_ok_def by blast
  then have "over F S ids g n0 (message e) (randomizer e) (status e) cms shs P"
    using w(1,2) True full unfolding over_def
    by (auto simp: st after_share_def outcome_def split: sum.splits)
  moreover have "terminal (status e)" using full by (simp add: st after_share_def terminal_def split: sum.splits)
  ultimately show ?thesis using True by (cases "status e") (auto simp: request_ok_def terminal_def)
next
  case False
  then have "bt_len shs \<noteq> bt_len P" using w(3) unfolding bt_len_card by (metis card_subset_eq finite_dom_bt_get)
  then have st': "status e = Signing sp P shs" by (simp add: st after_share_def)
  have "signing_ok F S ids g n0 c rid (message e) (randomizer e) sp P shs"
    unfolding signing_ok_def using w shares False by blast
  then show ?thesis by (simp add: request_ok_def st' terminal_def)
qed

lemma share_applied:
  assumes inv: "net_inv F S ids g n0 reqs c" and t: "t \<in> set (flight c)" "t = SubmitShare rid i sh"
    and ok: "apply_tx F (chain c) t = Ok s'"
  shows "net_inv F S ids g n0 reqs (with_chain t s' c)"
proof -
  note D = net_invD [OF inv]
  from ok D(3) obtain e sp P shs where e: "bt_get (requests (chain c)) rid = Some e" "status e = Signing sp P shs"
    "i \<in> dom (bt_get P)" "bt_get shs i = None" and
    s': "s' = with_entry (chain c) rid (e\<lparr>status := after_share F (g_pkp g) (randomizer e) sp P (bt_insert i sh shs)\<rparr>)"
    unfolding t(2) apply_tx.simps submit_share_Ok with_entry_def [symmetric] by (metis option.inject)
  let ?shs = "bt_insert i sh shs" and ?c = "with_chain t s' c"
  let ?e = "e\<lparr>status := after_share F (g_pkp g) (randomizer e) sp P ?shs\<rparr>"
  obtain cms where w: "selected ids g n0 (message e) cms P" "sp = signing_package_new F cms (message e)"
    "dom (bt_get shs) \<subset> dom (bt_get P)"
    "\<And>j cm. bt_get cms j = Some cm \<Longrightarrow> share_ok F S n0 c rid cms (message e) (randomizer e) shs j cm"
    using signingE [OF D(8) [OF e(1)] e(2)] by metis
  have sub: "dom (bt_get ?shs) \<subseteq> dom (bt_get P)" using w(3) e(3) by auto
  have new: "share_ok F S n0 ?c rid cms (message e) (randomizer e) ?shs j cm" if "bt_get cms j = Some cm" for j cm
  proof (cases "j = i")
    case True
    with w(4) [OF that] t show ?thesis by (auto simp: share_ok_def dest: notin_set_remove1)
  next
    case False
    then have "SubmitShare rid j sh' \<noteq> t" for sh' using t(2) by simp
    with w(4) [OF that] False in_remove1_other show ?thesis unfolding share_ok_def without_simps by simp
  qed
  have done_by: "rid \<in> shared_requests (signer c j)" if "dom (bt_get ?shs) = dom (bt_get P)" "j \<in> ids \<inter> dom (bt_get P)" for j
  proof -
    note all = that
    obtain cm where "bt_get cms j = Some cm" using selected_member [OF w(1)] all(2) by blast
    from new [OF this] all show ?thesis unfolding share_ok_def without_simps by blast
  qed
  have "request_ok F S ids g n0 ?c rid ?e \<and> (terminal (status ?e) \<longrightarrow> dom (bt_get ?shs) = dom (bt_get P))"
    by (rule share_settles) (use w(1,2) sub new in auto)
  then show ?thesis
    using applied_inv [OF inv t(1), of rid ?e e] ok e(1,2) D(7) [OF e(1)] done_by unfolding s' t(2) by auto
qed

lemma flying_no_panic: "flying_ok S ids n0 reqs c t \<Longrightarrow> apply_tx F s t \<noteq> Panic"
  by (cases t) (auto simp: flying_ok_def apply_submit_request_def apply_submit_commitment_def apply_submit_share_def
      require_group_def Let_def split: request_status.splits)

lemma applied_keeps:
  assumes inv: "net_inv F S ids g n0 reqs c" and t: "t \<in> set (flight c)" and ok: "apply_tx F (chain c) t = Ok s'"
  shows "net_inv F S ids g n0 reqs (with_chain t s' c)"
proof (cases t)
  case (SubmitRequest rid msg rz)
  then show ?thesis by (rule request_applied [OF inv t _ ok])
next
  case (SubmitCommitment rid i cm)
  then show ?thesis by (rule commitment_applied [OF inv t _ ok])
next
  case (SubmitShare rid i sh)
  then show ?thesis by (rule share_applied [OF inv t _ ok])
qed (use net_invD(6) [OF inv t] in \<open>simp_all add: flying_ok_def\<close>)

end
