(* ===== verification/Signing_Schedules.thy ===== *)
theory Signing_Schedules
  imports Signing_Network
begin

text \<open>
  Every schedule of the network of signers ends, within a bound, and where it ends is known: a request
  that a threshold of the signers approve is completed or failed by the aggregation of a threshold of
  their shares, any other request stays open with the commitments of all who approve. The contract
  \<open>draining\<close> is interpreted with the network's invariant.
\<close>

section \<open>Every schedule comes to an end\<close>

definition net_cost where
  "net_cost ids reqs c = length (flight c) + 2 * (\<Sum>i \<in> ids. left_to_do reqs (signer c i))"

lemma cost_of_reaction:
  assumes "finite ids" "i \<in> ids" "good_reaction F S ids g n0 reqs c i n' out" "out \<noteq> []"
  shows "net_cost ids reqs (with_reaction c i n' out) < net_cost ids reqs c"
proof -
  have "(\<Sum>j \<in> ids. left_to_do reqs (((signer c)(i := n')) j)) =
      left_to_do reqs n' + (\<Sum>j \<in> ids - {i}. left_to_do reqs (signer c j))"
    using assms(1,2) by (simp add: sum.remove)
  moreover have "(\<Sum>j \<in> ids. left_to_do reqs (signer c j)) =
      left_to_do reqs (signer c i) + (\<Sum>j \<in> ids - {i}. left_to_do reqs (signer c j))"
    using assms(1,2) by (rule sum.remove)
  moreover have "length out + 2 * left_to_do reqs n' < 2 * left_to_do reqs (signer c i)"
  proof -
    have "left_to_do reqs n' + length out = left_to_do reqs (signer c i)" "0 < length out"
      using assms(3,4) by (simp_all add: good_reaction_def)
    then show ?thesis by linarith
  qed
  ultimately show ?thesis by (simp add: net_cost_def)
qed

lemma cost_of_message: "t \<in> set (flight c) \<Longrightarrow>
    net_cost ids reqs (without t c) < net_cost ids reqs c \<and> net_cost ids reqs (with_chain t s c) < net_cost ids reqs c"
  by (simp add: net_cost_def length_remove1) (metis One_nat_def diff_less length_pos_if_in_set less_numeral_extra(1))

lemma net_step_keeps:
  assumes inv: "net_inv F S ids g n0 reqs c" and step: "net_step F S ids c c'"
  shows "net_inv F S ids g n0 reqs c' \<and> net_cost ids reqs c' < net_cost ids reqs c"
  using step
proof cases
  case (reacts i s rng r n' rng')
  from reacts_well [OF inv reacts(2,3), of rng] reacts(4) obtain out where
    r: "r = Ok out" and good: "good_reaction F S ids g n0 reqs c i n' out" by auto
  have "finite ids" using net_invD(1) [OF inv] finite_subset [OF _ finite_dom_bt_get] by (auto simp: net_setup_def)
  with cost_of_reaction [OF _ reacts(2) good] reacts(5) r good show ?thesis
    by (simp add: reacts(1) with_reaction_def good_reaction_def)
next
  case (applied t s')
  with applied_keeps [OF inv applied(2,3)] cost_of_message [OF applied(2), of ids reqs s'] show ?thesis
    by (simp add: with_chain_def)
next
  case (rejected t err)
  with rejected_inv [OF inv rejected(2,3)] cost_of_message [OF rejected(2), of ids reqs] show ?thesis
    by (simp add: without_def)
qed

interpretation signing_net: draining "net_step F S ids" "net_inv F S ids g n0 reqs" "net_cost ids reqs"
  by unfold_locales (use net_step_keeps in blast)+

section \<open>Where the schedules end\<close>

lemma quiet_loop:
  fixes c :: "('i::linorder, 'kp, 'nc, 'pkp, 'p1, 'cm, 'rz, 'sp, 'sh, 'sg) network"
  assumes "net_inv F S ids g n0 reqs c" "i \<in> ids" "s \<in> views c"
    and "\<forall>(rid, e) \<in> set xs. bt_get (requests s) rid = Some e"
    and "react_loop S (signer c i) rng acc xs = (Ok (acc :: ('i, 'pkp, 'p1, 'cm, 'rz, 'sh) tx list), n', rng')"
    and "(rid, e) \<in> set xs"
  shows "\<exists>rng n' rng'. react_request S (signer c i) rng rid e =
    (Ok (None :: ('i, 'pkp, 'p1, 'cm, 'rz, 'sh) tx option), n', rng')"
  using assms
proof (induction xs arbitrary: rng)
  case (Cons x xs)
  obtain rid1 e1 where x: "x = (rid1, e1)" by (cases x)
  with Cons.prems(4) have e1: "bt_get (requests s) rid1 = Some e1" by simp
  from reacts_to_request [OF Cons.prems(1-3) e1, of rng] obtain t n1 rng1 where
    one: "react_request S (signer c i) rng rid1 e1 = (Ok (t :: ('i, 'pkp, 'p1, 'cm, 'rz, 'sh) tx option), n1, rng1)"
    and good: "good_reaction F S ids g n0 reqs c i n1 (case t of None \<Rightarrow> [] | Some t \<Rightarrow> [t])" by blast
  let ?o = "case t of None \<Rightarrow> [] | Some t \<Rightarrow> [t]"
  have rest: "react_loop S n1 rng1 (acc @ ?o) xs = (Ok acc, n', rng')" using Cons.prems(5) one by (simp add: x)
  have "net_inv F S ids g n0 reqs (with_reaction c i n1 ?o)" using good by (simp add: good_reaction_def)
  from reacts_to_requests [OF this Cons.prems(2), of s xs rng1 "acc @ ?o"] Cons.prems(3,4) rest have "?o = []" by auto
  then have "t = None" "n1 = signer c i" using good by (auto simp: good_reaction_def split: option.splits)
  with one rest Cons.IH [OF Cons.prems(1-3), of rng1] Cons.prems(4,6) show ?case by (auto simp: x)
qed simp

lemma quiet_request:
  fixes c :: "('i::linorder, 'kp, 'nc, 'pkp, 'p1, 'cm, 'rz, 'sp, 'sh, 'sg) network"
  assumes inv: "net_inv F S ids g n0 reqs c" and quiet: "ended (net_step F S ids) c" and i: "i \<in> ids"
    and e: "bt_get (requests (chain c)) rid = Some e"
  shows "\<exists>rng n' rng'. react_request S (signer c i) rng rid e =
    (Ok (None :: ('i, 'pkp, 'p1, 'cm, 'rz, 'sh) tx option), n', rng')"
proof -
  have view: "chain c \<in> views c" by (simp add: views_def)
  from reacts_well [OF inv i view] obtain rng out n' rng' where
    run: "react S (signer c i) (chain c) rng = (Ok (out :: ('i, 'pkp, 'p1, 'cm, 'rz, 'sh) tx list), n', rng')" by blast
  then have "out = []" using quiet reacts [OF i view run] by (auto simp: ended_def)
  moreover have "group (chain c) = Some g" "bt_contains_key (g_validators g) (node_identifier (signer c i))"
    using net_invD(1,3,5) [OF inv] i by (auto simp: net_setup_def memory_ok_def)
  ultimately have "react_loop S (signer c i) rng [] (bt_iter (requests (chain c))) =
      (Ok ([] :: ('i, 'pkp, 'p1, 'cm, 'rz, 'sh) tx list), n', rng')"
    using run by (simp add: react_def)
  note loop = this
  have "\<forall>(rid, e) \<in> set (bt_iter (requests (chain c))). bt_get (requests (chain c)) rid = Some e"
    by (auto simp: in_set_bt_iter)
  from quiet_loop [OF inv i view this loop] e show ?thesis by (auto simp: in_set_bt_iter)
qed

lemma quiet_flight:
  assumes inv: "net_inv F S ids g n0 reqs c" and quiet: "ended (net_step F S ids) c"
  shows "flight c = []"
proof (rule ccontr)
  assume "flight c \<noteq> []"
  then obtain t where t: "t \<in> set (flight c)" by (cases "flight c") auto
  from flying_no_panic [OF net_invD(6) [OF inv t]] obtain s' err where
    "apply_tx F (chain c) t = Ok s' \<or> apply_tx F (chain c) t = Err err" by (metis result.exhaust)
  with t quiet show False unfolding ended_def by (metis applied rejected)
qed

text \<open>An open request has the commitments of all approvers, and they are too few.\<close>

lemma quiet_awaiting:
  assumes inv: "net_inv F S ids g n0 reqs c" and quiet: "ended (net_step F S ids) c"
    and e: "bt_get (requests (chain c)) rid = Some e" "status e = AwaitingCommitments cms"
  shows "dom (bt_get cms) = approvers ids n0 (message e) \<and> bt_len cms < unat (threshold (g_params g))"
proof -
  note D = net_invD [OF inv]
  have a: "awaiting_ok S ids g n0 c rid (message e) cms" using D(8) [OF e(1)] e(2) by (simp add: request_ok_def)
  have "i \<in> dom (bt_get cms)" if i: "i \<in> approvers ids n0 (message e)" for i
  proof (rule ccontr)
    assume none: "i \<notin> dom (bt_get cms)"
    have ids: "i \<in> ids" "policy (n0 i) (message e) = Ok ()" using i by (simp_all add: approvers_def)
    from a ids(1) none quiet_flight [OF inv quiet] have "rid \<notin> committed_requests (signer c i)"
      by (auto simp: awaiting_ok_def)
    moreover have mem: "node_identifier (signer c i) = i" "policy (signer c i) = policy (n0 i)"
      "dom (pending (signer c i)) \<subseteq> committed_requests (signer c i)"
      using D(5) [OF ids(1)] by (simp_all add: memory_ok_def)
    moreover from this calculation have "pending (signer c i) rid = None" by blast
    ultimately show False
      using quiet_request [OF inv quiet ids(1) e(1)] e(2) none ids(2)
      by (auto simp: react_request_def commit_def domIff split: prod.splits)
  qed
  moreover have "dom (bt_get cms) \<subseteq> approvers ids n0 (message e)" using a unfolding awaiting_ok_def by blast
  ultimately show ?thesis using a by (auto simp: awaiting_ok_def)
qed

lemma quiet_signing:
  assumes inv: "net_inv F S ids g n0 reqs c" and quiet: "ended (net_step F S ids) c"
    and e: "bt_get (requests (chain c)) rid = Some e"
  shows "status e \<noteq> Signing sp P shs"
proof
  assume st: "status e = Signing sp P shs"
  note D = net_invD [OF inv]
  obtain cms where w: "selected ids g n0 (message e) cms P" "dom (bt_get shs) \<subset> dom (bt_get P)"
    "\<And>j cm. bt_get cms j = Some cm \<Longrightarrow> share_ok F S n0 c rid cms (message e) (randomizer e) shs j cm"
    using signingE [OF D(8) [OF e] st] by metis
  then obtain i where i: "i \<in> dom (bt_get P)" "i \<notin> dom (bt_get shs)" by blast
  with selected_member [OF w(1)] obtain cm where ids: "i \<in> ids" "bt_get cms i = Some cm" by blast
  then have fresh: "rid \<notin> shared_requests (signer c i)"
    using w(3) [OF ids(2)] i(2) quiet_flight [OF inv quiet] by (auto simp: share_ok_def)
  from can_share [OF D(1) D(8) [OF e] st i(1) fresh] obtain nc sh where
    "pending (signer c i) rid = Some nc" "frost_sign S sp nc (key_package (n0 i)) (randomizer e) = Inr sh" by blast
  then show False
    using quiet_request [OF inv quiet ids(1) e] D(5) [OF ids(1)] st i fresh
    by (auto simp: react_request_def sign_share_rerandomized_def memory_ok_def domIff)
qed

lemma quiet_request_status:
  assumes inv: "net_inv F S ids g n0 reqs c" and quiet: "ended (net_step F S ids) c"
    and e: "bt_get (requests (chain c)) rid = Some e"
  shows "if unat (threshold (g_params g)) \<le> card (approvers ids n0 (message e))
    then \<exists>cms shs P. over F S ids g n0 (message e) (randomizer e) (status e) cms shs P
    else \<exists>cms. status e = AwaitingCommitments cms \<and> dom (bt_get cms) = approvers ids n0 (message e)"
proof -
  note D = net_invD [OF inv]
  have fin: "finite (approvers ids n0 (message e))"
    by (rule finite_subset [OF _ finite_dom_bt_get [of "g_validators g"]])
      (use D(1) in \<open>auto simp: net_setup_def approvers_def\<close>)
  show ?thesis
  proof (cases "terminal (status e)")
    case True
    then obtain cms shs P where ov: "over F S ids g n0 (message e) (randomizer e) (status e) cms shs P"
      using D(8) [OF e] by (auto simp: request_ok_def terminal_def split: request_status.splits)
    then have "unat (threshold (g_params g)) = card (dom (bt_get P))" "dom (bt_get P) \<subseteq> approvers ids n0 (message e)"
      by (auto simp: over_def selected_def bt_len_card)
    with card_mono [OF fin] ov show ?thesis by auto
  next
    case False
    then obtain cms where st: "status e = AwaitingCommitments cms"
      using quiet_signing [OF inv quiet e] by (cases "status e") (auto simp: terminal_def)
    with quiet_awaiting [OF inv quiet e st] show ?thesis by (auto simp: bt_len_card)
  qed
qed

lemma start_cost:
  assumes "net_setup F S ids g n0"
  shows "net_cost ids reqs (net_start n0 s0 reqs) \<le> length reqs * (4 * card ids + 1)"
proof -
  have "card (fst ` set reqs) \<le> length reqs" by (metis card_image_le card_length finite_set le_trans)
  then have "left_to_do reqs (n0 i) \<le> 2 * length reqs" if "i \<in> ids" for i
    using assms that by (simp add: net_setup_def fresh_node_def left_to_do_def)
  then have "(\<Sum>i \<in> ids. left_to_do reqs (n0 i)) \<le> card ids * (2 * length reqs)"
    by (metis (no_types, lifting) of_nat_id sum_bounded_above)
  then show ?thesis by (simp add: net_cost_def net_start_def algebra_simps)
qed

text \<open>
  C3. Signing without synchrony. Let signers that hold good keys of a group react at any time to the
  chain as it is or as it once was, and let everything that is submitted, by them and by clients,
  arrive in any order and after any delay. Then no reaction ever fails, a reaction that submits nothing
  changes nothing, and nothing in flight makes the chain panic; every schedule ends, within a number of
  steps that is linear in the requests and the signers; and where it ends nothing is in flight, every
  identifier that a client used has a request, with the message and the randomizer of one of the
  submissions for it, and the request has the outcome of aggregating honest shares of exactly a threshold
  of approving signers if there is a threshold of them, and otherwise waits with the commitments of all
  that approve.
\<close>

theorem asynchronous_signing:
  assumes members: "net_setup F S ids g n0"
    and s0: "reach (apply_tx F) default_state s0" "group s0 = Some g" "requests s0 = bt_new"
    and run: "(net_step F S ids ^^ n) (net_start n0 s0 reqs) c"
  shows "n \<le> length reqs * (4 * card ids + 1) \<and>
    (\<exists>m d. (net_step F S ids ^^ m) c d \<and> ended (net_step F S ids) d) \<and>
    (\<forall>i \<in> ids. \<forall>s \<in> views c. \<forall>rng. \<exists>out n' rng'. react S (signer c i) s rng = (Ok out, n', rng') \<and>
       (out = [] \<longrightarrow> n' = signer c i)) \<and>
    (\<forall>t \<in> set (flight c). apply_tx F (chain c) t \<noteq> Panic) \<and>
    (ended (net_step F S ids) c \<longrightarrow> flight c = [] \<and>
       dom (bt_get (requests (chain c))) = fst ` set reqs \<and>
       (\<forall>rid e. bt_get (requests (chain c)) rid = Some e \<longrightarrow> (rid, message e, randomizer e) \<in> set reqs \<and>
          (if unat (threshold (g_params g)) \<le> card (approvers ids n0 (message e))
           then \<exists>cms shs P. over F S ids g n0 (message e) (randomizer e) (status e) cms shs P
           else \<exists>cms. status e = AwaitingCommitments cms \<and> dom (bt_get cms) = approvers ids n0 (message e))))"
proof (intro conjI impI ballI allI)
  have start: "net_inv F S ids g n0 reqs (net_start n0 s0 reqs)"
    by (rule net_inv_start [OF members reachable_inv [OF s0(1)] s0(2,3)])
  from signing_net.run_bounded [OF run start] have inv: "net_inv F S ids g n0 reqs c"
    and "n \<le> net_cost ids reqs (net_start n0 s0 reqs)" by auto
  with start_cost [OF members, of reqs s0] show "n \<le> length reqs * (4 * card ids + 1)" by linarith
  note D = net_invD [OF inv]
  show "\<exists>m d. (net_step F S ids ^^ m) c d \<and> ended (net_step F S ids) d"
    by (rule signing_net.run_finishes [OF inv])
  show "\<exists>out n' rng'. react S (signer c i) s rng = (Ok out, n', rng') \<and> (out = [] \<longrightarrow> n' = signer c i)"
    if "i \<in> ids" "s \<in> views c" for i s rng
    using reacts_well [OF inv that, of rng] unfolding good_reaction_def by blast
  show "apply_tx F (chain c) t \<noteq> Panic" if "t \<in> set (flight c)" for t
    by (rule flying_no_panic [OF D(6) [OF that]])
  assume quiet: "ended (net_step F S ids) c"
  show empty: "flight c = []" by (rule quiet_flight [OF inv quiet])
  show "dom (bt_get (requests (chain c))) = fst ` set reqs"
    using D(7,9) empty by (force simp: domIff)
  show "(rid, message e, randomizer e) \<in> set reqs" if "bt_get (requests (chain c)) rid = Some e" for rid e
    by (rule D(7) [OF that])
  show "if unat (threshold (g_params g)) \<le> card (approvers ids n0 (message e))
      then \<exists>cms shs P. over F S ids g n0 (message e) (randomizer e) (status e) cms shs P
      else \<exists>cms. status e = AwaitingCommitments cms \<and> dom (bt_get cms) = approvers ids n0 (message e)"
    if "bt_get (requests (chain c)) rid = Some e" for rid e
    by (rule quiet_request_status [OF inv quiet that])
qed

text \<open>Two of three signers approve everything; one request is on its way.\<close>

definition grouped :: toy_state where
  "grouped = default_state\<lparr>group := Some toy_group\<rparr>"

lemma toy_members: "net_setup toy_frost plain_signer {1, 2, 3} toy_group plain_node"
  by (simp add: net_setup_def plain_node_def node_new_def plain_signer_def toy_signer_def sign_law_def key_package_def
      toy_group_def toy_params_def accept_all_approve_def fresh_node_def)

lemma toy_grouped: "reach (apply_tx toy_frost) default_state grouped" "group grouped = Some toy_group"
  "requests grouped = bt_new"
proof -
  have "apply_tx toy_frost default_state (InitGroup toy_params [1, 2, 3] [1, 2, 3] :: toy_tx) = Ok grouped"
    by (simp add: grouped_def toy_defs default_state_def apply_defs bt_eval insert_commute)
  then show "reach (apply_tx toy_frost) default_state grouped" by (rule reach_step [OF reach_init])
qed (simp_all add: grouped_def default_state_def)

theorem asynchronous_signing_witness:
  "\<exists>m d e cms shs P.
     (net_step toy_frost plain_signer {1, 2, 3} ^^ m) (net_start plain_node grouped [(toy_rid, [104, 105], 7)]) d \<and>
     ended (net_step toy_frost plain_signer {1, 2, 3}) d \<and> flight d = [] \<and>
     bt_get (requests (chain d)) toy_rid = Some e \<and>
     over toy_frost plain_signer {1, 2, 3} toy_group plain_node [104, 105] 7 (status e) cms shs P"
proof -
  let ?step = "net_step toy_frost plain_signer {1, 2, 3}" and ?reqs = "[(toy_rid, [104, 105], 7)]"
  have "(?step ^^ 0) (net_start plain_node grouped ?reqs) (net_start plain_node grouped ?reqs)" by simp
  from asynchronous_signing [OF toy_members toy_grouped this, THEN conjunct2, THEN conjunct1] obtain m d where
    run: "(?step ^^ m) (net_start plain_node grouped ?reqs) d" and quiet: "ended ?step d" by blast
  note all = asynchronous_signing [OF toy_members toy_grouped run, THEN conjunct2, THEN conjunct2, THEN conjunct2,
      THEN conjunct2, THEN mp, OF quiet]
  from all have "dom (bt_get (requests (chain d))) = {toy_rid}" by auto
  then obtain e where e: "bt_get (requests (chain d)) toy_rid = Some e" by blast
  note at = all [THEN conjunct2, THEN conjunct2, rule_format, OF e]
  from at have msg: "message e = [104, 105]" "randomizer e = 7" by simp_all
  have "approvers {1, 2, 3} plain_node [104, 105] = {1, 2, 3}"
    by (auto simp: approvers_def plain_node_def node_new_def accept_all_approve_def)
  then have "unat (threshold (g_params toy_group)) \<le> card (approvers {1, 2, 3} plain_node (message e))"
    by (simp add: msg toy_group_def toy_params_def)
  with at msg obtain cms shs P where
    "over toy_frost plain_signer {1, 2, 3} toy_group plain_node [104, 105] 7 (status e) cms shs P" by auto
  with run quiet e all show ?thesis by blast
qed

end
