(* ===== verification/Net_Tasks.thy ===== *)
theory Net_Tasks
  imports Net_Props Scheduling "HOL-Library.Sublist"
begin

text \<open>
  The two tasks of \<open>drive_connection\<close> (\<open>sapphire-net/src/mesh.rs\<close>) as they run: interleaved, over one
  transport behind a mutex, with the bytes of the peer arriving in pieces. A task is a small state
  machine with one transition between two suspension points; the lock is held for one encryption or
  decryption and never across a suspension point, so that using the transport is one transition. A
  connection is first run against a fixed sequence of bytes, then two connections against each other.
\<close>

section \<open>The tasks as state machines\<close>

text \<open>Where the loop of a task stands: the reader waits for a frame, or for the lock to decrypt one, or
  to hand over a plaintext; the writer waits for a payload, or for the lock to encrypt one, or to
  write a ciphertext.\<close>

datatype reader_phase = Reading | Ciphertext "u8 list" | Plaintext "u8 list" | ReaderDone

datatype writer_phase = Receiving | Outgoing "u8 list" | Encrypted "u8 list" | WriterDone

record 'ts connection =
  transport :: 'ts
  reader :: reader_phase
  arrived :: "u8 list"
  limit_in :: nat
  incoming :: "u8 list list"
  writer :: writer_phase
  outgoing :: "received list"
  limit_out :: nat

text \<open>A transition of the reader, \<open>None\<close> when it has returned or has to wait. A frame that is not
  complete makes it wait, unless the peer has closed its side.\<close>

definition reader_step ::
  "(nat \<Rightarrow> string) \<Rightarrow> 'ts noise_transport \<Rightarrow> bool \<Rightarrow> 'ts connection \<Rightarrow> 'ts connection option" where
  "reader_step too_big N closed c =
     (case reader c of
        Reading \<Rightarrow>
          (case read_frame_bytes too_big (arrived c) of
             Ok (ct, rest) \<Rightarrow> Some (c\<lparr>reader := Ciphertext ct, arrived := rest\<rparr>)
           | Err e \<Rightarrow> if e = UnexpectedEof \<and> \<not> closed then None else Some (c\<lparr>reader := ReaderDone\<rparr>)
           | Panic \<Rightarrow> Some (c\<lparr>reader := ReaderDone\<rparr>))
      | Ciphertext ct \<Rightarrow>
          (case decrypt_frame N (transport c) ct of
             (Ok pt, ts) \<Rightarrow> Some (c\<lparr>reader := Plaintext pt, transport := ts\<rparr>)
           | (Err _, ts) \<Rightarrow> Some (c\<lparr>reader := ReaderDone, transport := ts\<rparr>)
           | (Panic, ts) \<Rightarrow> Some (c\<lparr>reader := ReaderDone, transport := ts\<rparr>))
      | Plaintext pt \<Rightarrow>
          if limit_in c = 0 then Some (c\<lparr>reader := ReaderDone\<rparr>)
          else Some (c\<lparr>reader := Reading, limit_in := limit_in c - 1, incoming := incoming c @ [pt]\<rparr>)
      | ReaderDone \<Rightarrow> None)"

text \<open>A transition of the writer, with the bytes it writes to the socket.\<close>

definition writer_step ::
  "(nat \<Rightarrow> string) \<Rightarrow> 'ts noise_transport \<Rightarrow> 'ts connection \<Rightarrow> ('ts connection \<times> u8 list) option" where
  "writer_step too_big N c =
     (case writer c of
        Receiving \<Rightarrow>
          (case outgoing c of
             [] \<Rightarrow> None
           | Payload p # es \<Rightarrow> Some (c\<lparr>writer := Outgoing p, outgoing := es\<rparr>, [])
           | Lagged n # es \<Rightarrow> Some (c\<lparr>outgoing := es\<rparr>, [])
           | Closed # es \<Rightarrow> Some (c\<lparr>writer := WriterDone, outgoing := es\<rparr>, []))
      | Outgoing p \<Rightarrow>
          (case encrypt_frame too_big N (transport c) p of
             (Ok ct, ts) \<Rightarrow> Some (c\<lparr>writer := Encrypted ct, transport := ts\<rparr>, [])
           | (Err _, ts) \<Rightarrow> Some (c\<lparr>writer := Receiving, transport := ts\<rparr>, [])
           | (Panic, ts) \<Rightarrow> Some (c\<lparr>writer := WriterDone, transport := ts\<rparr>, []))
      | Encrypted ct \<Rightarrow>
          if limit_out c = 0 then Some (c\<lparr>writer := WriterDone\<rparr>, [])
          else Some (c\<lparr>writer := Receiving, limit_out := limit_out c - 1\<rparr>, write_frame_bytes ct)
      | WriterDone \<Rightarrow> None)"

section \<open>One side of a connection\<close>

text \<open>A side is the connection, the bytes on their way to it and the bytes it has written.\<close>

record 'ts side =
  conn :: "'ts connection"
  net :: "u8 list"
  wire :: "u8 list"

inductive side_step ::
  "(nat \<Rightarrow> string) \<Rightarrow> 'ts noise_transport \<Rightarrow> bool \<Rightarrow> 'ts side \<Rightarrow> u8 list \<Rightarrow> 'ts side \<Rightarrow> bool"
  for too_big N closed where
  arrives: "0 < k \<Longrightarrow> k \<le> length (net a) \<Longrightarrow>
    side_step too_big N closed a []
      (a\<lparr>conn := (conn a)\<lparr>arrived := arrived (conn a) @ take k (net a)\<rparr>, net := drop k (net a)\<rparr>)"
| reads: "reader_step too_big N (closed \<and> net a = []) (conn a) = Some c \<Longrightarrow>
    side_step too_big N closed a [] (a\<lparr>conn := c\<rparr>)"
| writes: "writer_step too_big N (conn a) = Some (c, bs) \<Longrightarrow>
    side_step too_big N closed a bs (a\<lparr>conn := c, wire := wire a @ bs\<rparr>)"

definition start_side :: "'ts \<Rightarrow> nat \<Rightarrow> nat \<Rightarrow> u8 list \<Rightarrow> received list \<Rightarrow> 'ts side" where
  "start_side ts lin lout stream es =
     \<lparr>conn = \<lparr>transport = ts, reader = Reading, arrived = [], limit_in = lin, incoming = [],
             writer = Receiving, outgoing = es, limit_out = lout\<rparr>,
      net = stream, wire = []\<rparr>"

text \<open>What the library documents of a transport: the two directions have their own cipher state.\<close>

definition halves :: "'ts noise_transport \<Rightarrow> ('ts \<Rightarrow> 'r) \<Rightarrow> ('ts \<Rightarrow> 'w) \<Rightarrow> bool" where
  "halves N recv send \<longleftrightarrow>
     (\<forall>ts ct n. send (snd (ts_read N ts ct n)) = send ts) \<and>
     (\<forall>ts p n. recv (snd (ts_write N ts p n)) = recv ts) \<and>
     (\<forall>ts ts' ct n. recv ts = recv ts' \<longrightarrow>
        map_prod id recv (ts_read N ts ct n) = map_prod id recv (ts_read N ts' ct n)) \<and>
     (\<forall>ts ts' p n. send ts = send ts' \<longrightarrow>
        map_prod id send (ts_write N ts p n) = map_prod id send (ts_write N ts' p n))"

section \<open>What a task has left to do\<close>

fun to_deliver :: "(nat \<Rightarrow> string) \<Rightarrow> 'ts noise_transport \<Rightarrow> reader_phase \<Rightarrow> 'ts \<Rightarrow> nat \<Rightarrow> u8 list \<Rightarrow> u8 list list" where
  "to_deliver too_big N Reading ts limit s = reader_task too_big N ts limit s"
| "to_deliver too_big N (Ciphertext ct) ts limit s =
     (case decrypt_frame N ts ct of
        (Ok pt, ts') \<Rightarrow> if limit = 0 then [] else pt # reader_task too_big N ts' (limit - 1) s
      | _ \<Rightarrow> [])"
| "to_deliver too_big N (Plaintext pt) ts limit s =
     (if limit = 0 then [] else pt # reader_task too_big N ts (limit - 1) s)"
| "to_deliver too_big N ReaderDone ts limit s = []"

fun to_write :: "(nat \<Rightarrow> string) \<Rightarrow> 'ts noise_transport \<Rightarrow> writer_phase \<Rightarrow> 'ts \<Rightarrow> nat \<Rightarrow> received list \<Rightarrow> u8 list" where
  "to_write too_big N Receiving ts limit es = writer_task too_big N ts limit es"
| "to_write too_big N (Outgoing p) ts limit es = writer_task too_big N ts limit (Payload p # es)"
| "to_write too_big N (Encrypted ct) ts limit es =
     (if limit = 0 then [] else write_frame_bytes ct @ writer_task too_big N ts (limit - 1) es)"
| "to_write too_big N WriterDone ts limit es = []"

text \<open>All that a side delivers, when the peer writes \<open>f\<close> after the bytes on their way, and all it writes.\<close>

definition deliveries :: "(nat \<Rightarrow> string) \<Rightarrow> 'ts noise_transport \<Rightarrow> 'ts side \<Rightarrow> u8 list \<Rightarrow> u8 list list" where
  "deliveries too_big N a f = incoming (conn a) @
     to_deliver too_big N (reader (conn a)) (transport (conn a)) (limit_in (conn a)) (arrived (conn a) @ net a @ f)"

definition unwritten :: "(nat \<Rightarrow> string) \<Rightarrow> 'ts noise_transport \<Rightarrow> 'ts side \<Rightarrow> u8 list" where
  "unwritten too_big N a = to_write too_big N (writer (conn a)) (transport (conn a)) (limit_out (conn a)) (outgoing (conn a))"

text \<open>A bound on the transitions a side has left.\<close>

fun reader_cost :: "reader_phase \<Rightarrow> nat" where
  "reader_cost Reading = 1"
| "reader_cost (Ciphertext ct) = 3"
| "reader_cost (Plaintext pt) = 2"
| "reader_cost ReaderDone = 0"

fun writer_cost :: "writer_phase \<Rightarrow> nat" where
  "writer_cost Receiving = 1"
| "writer_cost (Outgoing p) = 3"
| "writer_cost (Encrypted ct) = 2"
| "writer_cost WriterDone = 0"

definition cost :: "'ts side \<Rightarrow> u8 list \<Rightarrow> nat" where
  "cost a f = 4 * length (arrived (conn a)) + 5 * length (net a) + 5 * length f + reader_cost (reader (conn a)) +
     4 * length (outgoing (conn a)) + writer_cost (writer (conn a))"

section \<open>The halves of the transport do not interfere\<close>

lemma halvesD:
  assumes "halves N recv send"
  shows "send (snd (ts_read N ts ct n)) = send ts" "recv (snd (ts_write N ts p n)) = recv ts"
    "recv ts = recv ts' \<Longrightarrow> map_prod id recv (ts_read N ts ct n) = map_prod id recv (ts_read N ts' ct n)"
    "send ts = send ts' \<Longrightarrow> map_prod id send (ts_write N ts p n) = map_prod id send (ts_write N ts' p n)"
  using assms unfolding halves_def by blast+

lemma decrypt_frame_eq:
  "decrypt_frame N ts ct =
     map_prod (case_sum (\<lambda>e. Err (InvalidData (''noise decrypt: '' @ e))) Ok) id (ts_read N ts ct (length ct))"
  by (simp add: decrypt_frame_def map_prod_def split: prod.splits sum.splits)

lemma encrypt_frame_eq:
  "encrypt_frame too_big N ts p =
     (if length p > MAX_PAYLOAD then (Err (InvalidInput (too_big (length p))), ts)
      else map_prod (case_sum (\<lambda>e. Err (OtherError (''noise encrypt: '' @ e))) Ok) id (ts_write N ts p (length p + 16)))"
  by (simp add: encrypt_frame_def map_prod_def split: prod.splits sum.splits)

lemma map_prod_cong_snd:
  "map_prod id f x = map_prod id f y \<Longrightarrow> map_prod g f x = map_prod g f y"
  by (cases x; cases y) simp

lemma decrypt_halves:
  assumes "halves N recv send"
  shows "send (snd (decrypt_frame N ts ct)) = send ts"
    "recv ts = recv ts' \<Longrightarrow> map_prod id recv (decrypt_frame N ts ct) = map_prod id recv (decrypt_frame N ts' ct)"
  using halvesD(1) [OF assms] map_prod_cong_snd [OF halvesD(3) [OF assms]]
  by (simp_all add: decrypt_frame_eq map_prod.compositionality)

lemma encrypt_halves:
  assumes "halves N recv send"
  shows "recv (snd (encrypt_frame too_big N ts p)) = recv ts"
    "send ts = send ts' \<Longrightarrow>
     map_prod id send (encrypt_frame too_big N ts p) = map_prod id send (encrypt_frame too_big N ts' p)"
proof -
  show "recv (snd (encrypt_frame too_big N ts p)) = recv ts"
    by (simp add: encrypt_frame_eq halvesD(2) [OF assms])
  show "map_prod id send (encrypt_frame too_big N ts p) = map_prod id send (encrypt_frame too_big N ts' p)"
    if "send ts = send ts'"
    using that map_prod_cong_snd [OF halvesD(4) [OF assms that]]
    by (cases "length p > MAX_PAYLOAD") (simp_all add: encrypt_frame_eq map_prod.compositionality)
qed

lemma decrypt_send: "halves N recv send \<Longrightarrow> decrypt_frame N ts ct = (r, ts') \<Longrightarrow> send ts' = send ts"
  using decrypt_halves(1) [of N recv send ts ct] by simp

lemma encrypt_recv: "halves N recv send \<Longrightarrow> encrypt_frame too_big N ts p = (r, ts') \<Longrightarrow> recv ts' = recv ts"
  using encrypt_halves(1) [of N recv send too_big ts p] by simp

lemma map_prod_eqE:
  assumes "map_prod id f x = map_prod id f y"
  obtains r t t' where "x = (r, t)" "y = (r, t')" "f t = f t'"
  using assms by (cases x; cases y) auto

lemma reader_task_recv:
  assumes h: "halves N recv send"
  shows "recv ts = recv ts' \<Longrightarrow> reader_task too_big N ts l s = reader_task too_big N ts' l s"
proof (induction "length s" arbitrary: ts ts' l s rule: less_induct)
  case less
  show ?case
  proof (cases "read_frame_bytes too_big s")
    case (Ok x)
    obtain ct rest where x: "x = (ct, rest)" by (cases x)
    obtain r t t' where d: "decrypt_frame N ts ct = (r, t)" "decrypt_frame N ts' ct = (r, t')" "recv t = recv t'"
      using decrypt_halves(2) [OF h less.prems] by (rule map_prod_eqE)
    have "reader_task too_big N t (l - 1) rest = reader_task too_big N t' (l - 1) rest"
      using Ok x d(3) by (intro less.hyps) (auto dest: read_frame_shrinks)
    then show ?thesis
      using Ok x d(1,2) by (simp add: reader_task.simps [of too_big N _ l s] split: result.split)
  qed (simp_all add: reader_task.simps [of too_big N _ l s])
qed

lemma writer_task_send:
  assumes h: "halves N recv send"
  shows "send ts = send ts' \<Longrightarrow> writer_task too_big N ts l es = writer_task too_big N ts' l es"
proof (induction es arbitrary: ts ts' l)
  case (Cons e es)
  show ?case
  proof (cases e)
    case (Payload p)
    obtain r t t' where d: "encrypt_frame too_big N ts p = (r, t)" "encrypt_frame too_big N ts' p = (r, t')" "send t = send t'"
      using encrypt_halves(2) [OF h Cons.prems] by (rule map_prod_eqE)
    show ?thesis
      using Payload d(1,2) Cons.IH [OF d(3), of l] Cons.IH [OF d(3), of "l - 1"] by (simp split: result.split)
  next
    case (Lagged n)
    then show ?thesis using Cons.IH [OF Cons.prems, of l] by simp
  qed simp
qed simp

lemma to_deliver_recv:
  assumes h: "halves N recv send" and "recv ts = recv ts'"
  shows "to_deliver too_big N ph ts l s = to_deliver too_big N ph ts' l s"
proof (cases ph)
  case (Ciphertext ct)
  obtain r t t' where d: "decrypt_frame N ts ct = (r, t)" "decrypt_frame N ts' ct = (r, t')" "recv t = recv t'"
    using decrypt_halves(2) [OF h assms(2)] by (rule map_prod_eqE)
  show ?thesis
    using Ciphertext d(1,2) reader_task_recv [OF h d(3), of too_big "l - 1" s] by (simp split: result.split)
qed (use reader_task_recv [OF h assms(2), of too_big] in \<open>simp_all split: if_split\<close>)

lemma to_write_send:
  assumes h: "halves N recv send" and "send ts = send ts'"
  shows "to_write too_big N ph ts l es = to_write too_big N ph ts' l es"
  using writer_task_send [OF assms, of too_big] by (cases ph) (simp_all del: writer_task.simps split: if_split)

section \<open>A transition keeps what is delivered and written in all\<close>

lemma read_exact_append:
  "read_exact n s = Ok (x, r) \<Longrightarrow> read_exact n (s @ f) = Ok (x, r @ f)"
  by (auto simp: read_exact_def split: if_splits)

lemma read_frame_append:
  assumes "read_frame_bytes too_big s = r" "r \<noteq> Err UnexpectedEof"
  shows "read_frame_bytes too_big (s @ f) = (case r of Ok (ct, rest) \<Rightarrow> Ok (ct, rest @ f) | Err e \<Rightarrow> Err e | Panic \<Rightarrow> Panic)"
proof -
  have "\<not> length s < 4" using assms by (auto simp: read_frame_bytes_def read_exact_def)
  then show ?thesis
    using assms by (auto simp: read_frame_bytes_def read_exact_def Let_def split: if_splits)
qed

lemma reader_step_deliveries:
  assumes st: "reader_step too_big N (closed \<and> net a = []) (conn a) = Some c" and f: "closed \<longrightarrow> f = []"
  shows "deliveries too_big N (a\<lparr>conn := c\<rparr>) f = deliveries too_big N a f"
proof (cases "reader (conn a)")
  case Reading
  let ?s = "arrived (conn a)" and ?r = "read_frame_bytes too_big (arrived (conn a))"
  have whole: "read_frame_bytes too_big (?s @ net a @ f) =
      (case ?r of Ok (ct, rest) \<Rightarrow> Ok (ct, rest @ net a @ f) | Err e \<Rightarrow> Err e | Panic \<Rightarrow> Panic)"
  proof (cases "?r = Err UnexpectedEof")
    case True
    then have "closed" "net a = []" using st Reading by (auto simp: reader_step_def split: if_splits)
    then show ?thesis using True f by simp
  qed (rule read_frame_append [OF refl])
  show ?thesis
    using st Reading unfolding deliveries_def
    by (auto simp: reader_step_def whole reader_task.simps [of too_big N _ _ "?s @ net a @ f"]
        split: result.splits if_splits prod.splits)
next
  case (Ciphertext ct)
  then show ?thesis
    using st by (auto simp: deliveries_def reader_step_def split: result.splits if_splits prod.splits)
next
  case (Plaintext pt)
  then show ?thesis
    using st by (auto simp: deliveries_def reader_step_def split: if_splits)
qed (use st in \<open>simp add: reader_step_def\<close>)

lemma reader_step_transport:
  assumes "reader_step too_big N closed c = Some c'"
  shows "transport c' = transport c \<or> (\<exists>ct r. decrypt_frame N (transport c) ct = (r, transport c'))"
  using assms by (auto simp: reader_step_def split: reader_phase.splits result.splits if_splits prod.splits)

lemma writer_step_transport:
  assumes "writer_step too_big N c = Some (c', bs)"
  shows "transport c' = transport c \<or> (\<exists>p r. encrypt_frame too_big N (transport c) p = (r, transport c'))"
  using assms
  by (auto simp: writer_step_def split: writer_phase.splits list.splits received.splits result.splits if_splits prod.splits)

lemma reader_step_other:
  assumes h: "halves N recv send" and st: "reader_step too_big N closed c = Some c'"
  shows "to_write too_big' N (writer c') (transport c') (limit_out c') (outgoing c') =
    to_write too_big' N (writer c) (transport c) (limit_out c) (outgoing c)"
proof -
  have t: "send (transport c') = send (transport c)"
    using reader_step_transport [OF st] decrypt_send [OF h] by metis
  have "writer c' = writer c" "limit_out c' = limit_out c" "outgoing c' = outgoing c"
    using st by (auto simp: reader_step_def split: reader_phase.splits result.splits if_splits prod.splits)
  then show ?thesis using to_write_send [OF h t] by simp
qed

lemma writer_step_other:
  assumes h: "halves N recv send" and st: "writer_step too_big N c = Some (c', bs)"
  shows "to_deliver too_big' N (reader c') (transport c') (limit_in c') s =
      to_deliver too_big' N (reader c) (transport c) (limit_in c) s"
    "incoming c' = incoming c" "arrived c' = arrived c" "reader c' = reader c"
proof -
  have t: "recv (transport c') = recv (transport c)"
    using writer_step_transport [OF st] encrypt_recv [OF h] by metis
  show same: "incoming c' = incoming c" "arrived c' = arrived c" "reader c' = reader c"
    using st by (auto simp: writer_step_def split: writer_phase.splits list.splits received.splits result.splits if_splits prod.splits)
  have "limit_in c' = limit_in c"
    using st by (auto simp: writer_step_def split: writer_phase.splits list.splits received.splits result.splits if_splits prod.splits)
  then show "to_deliver too_big' N (reader c') (transport c') (limit_in c') s =
      to_deliver too_big' N (reader c) (transport c) (limit_in c) s"
    using to_deliver_recv [OF h t] same(3) by simp
qed

lemma writer_step_unwritten:
  assumes "writer_step too_big N c = Some (c', bs)"
  shows "to_write too_big N (writer c) (transport c) (limit_out c) (outgoing c) =
    bs @ to_write too_big N (writer c') (transport c') (limit_out c') (outgoing c')"
  using assms
  by (auto simp: writer_step_def split: writer_phase.splits list.splits received.splits result.splits if_splits prod.splits)

lemma reader_step_cost:
  assumes "reader_step too_big N closed c = Some c'"
  shows "4 * length (arrived c') + reader_cost (reader c') < 4 * length (arrived c) + reader_cost (reader c)"
    "outgoing c' = outgoing c" "writer c' = writer c"
  using assms
  by (auto simp: reader_step_def dest: read_frame_shrinks split: reader_phase.splits result.splits if_splits prod.splits)

lemma writer_step_cost:
  assumes "writer_step too_big N c = Some (c', bs)"
  shows "4 * length (outgoing c') + writer_cost (writer c') < 4 * length (outgoing c) + writer_cost (writer c)"
  using assms
  by (auto simp: writer_step_def split: writer_phase.splits list.splits received.splits result.splits if_splits prod.splits)

text \<open>A transition of a side, with the bytes \<open>bs\<close> it writes: what the side delivers in all, and what it
  writes in all, is the same after it, and it costs something.\<close>

lemma side_step_keeps:
  assumes "side_step too_big N closed a bs a'" "halves N recv send" "closed \<longrightarrow> f = []"
  shows "deliveries too_big N a' f = deliveries too_big N a f \<and>
    unwritten too_big N a = bs @ unwritten too_big N a' \<and> wire a' = wire a @ bs \<and> cost a' f < cost a f"
  using assms(1)
proof cases
  case (arrives k)
  have whole: "take k (net a) @ drop k (net a) @ f = net a @ f"
    by (simp add: append_assoc [symmetric] del: append_assoc)
  from arrives show ?thesis by (simp add: deliveries_def unwritten_def cost_def whole)
next
  case (reads c)
  then show ?thesis
    using reader_step_deliveries [OF reads(3) assms(3)] reader_step_other [OF assms(2) reads(3)] reader_step_cost [OF reads(3)]
    by (simp add: unwritten_def cost_def)
next
  case (writes c)
  then show ?thesis
    using writer_step_other [OF assms(2) writes(2)] writer_step_unwritten [OF writes(2)] writer_step_cost [OF writes(2)]
    by (simp add: deliveries_def unwritten_def cost_def)
qed

text \<open>A side that can do nothing has returned from both tasks, or its tasks wait for the peer and for
  the channel.\<close>

lemma side_stuck:
  assumes stuck: "\<And>bs a'. \<not> side_step too_big N closed a bs a'"
  shows "net a = []" and "to_deliver too_big N (reader (conn a)) ts l (arrived (conn a)) = []"
    and "unwritten too_big N a = []"
    and "writer (conn a) = WriterDone \<or> writer (conn a) = Receiving \<and> outgoing (conn a) = []"
    and "reader (conn a) = ReaderDone \<or> reader (conn a) = Reading \<and> \<not> closed"
proof -
  show n: "net a = []" using stuck arrives [of 1 a too_big N closed] by (cases "net a") auto
  have r: "reader_step too_big N closed (conn a) = None"
    using stuck [of "[]"] reads [of too_big N closed a] n by (cases "reader_step too_big N closed (conn a)") auto
  have w: "writer_step too_big N (conn a) = None"
  proof (cases "writer_step too_big N (conn a)")
    case (Some x)
    then show ?thesis using stuck writes [of too_big N a "fst x" "snd x" closed] by (cases x) auto
  qed
  show "to_deliver too_big N (reader (conn a)) ts l (arrived (conn a)) = []"
    "reader (conn a) = ReaderDone \<or> reader (conn a) = Reading \<and> \<not> closed"
    using r by (auto simp: reader_step_def reader_task.simps split: reader_phase.splits result.splits if_splits prod.splits)
  show p: "writer (conn a) = WriterDone \<or> writer (conn a) = Receiving \<and> outgoing (conn a) = []"
    using w by (auto simp: writer_step_def split: writer_phase.splits list.splits received.splits result.splits if_splits prod.splits)
  then show "unwritten too_big N a = []" by (auto simp: unwritten_def)
qed

section \<open>A connection against a fixed stream\<close>

definition connection_step :: "(nat \<Rightarrow> string) \<Rightarrow> 'ts noise_transport \<Rightarrow> 'ts side \<Rightarrow> 'ts side \<Rightarrow> bool" where
  "connection_step too_big N a a' \<longleftrightarrow> (\<exists>bs. side_step too_big N True a bs a')"

interpretation one_side: scheduled
  "\<lambda>a a'. halves N recv send \<and> connection_step too_big N a a'"
  "\<lambda>a. (deliveries too_big N a [], wire a @ unwritten too_big N a)"
  "\<lambda>a. cost a []"
  by unfold_locales (use side_step_keeps [of too_big N True _ _ _ recv send "[]"] in \<open>fastforce simp: connection_step_def\<close>)+

lemma delivered_prefix: "prefix (incoming (conn a)) (deliveries too_big N a f)"
  by (simp add: deliveries_def)

lemma start_side_totals [simp]:
  "deliveries too_big N (start_side ts lin lout stream es) f = reader_task too_big N ts lin (stream @ f)"
  "unwritten too_big N (start_side ts lin lout stream es) = writer_task too_big N ts lout es"
  "wire (start_side ts lin lout stream es) = []"
  "cost (start_side ts lin lout stream es) f = 5 * length stream + 5 * length f + 4 * length es + 2"
  by (simp_all add: deliveries_def unwritten_def start_side_def cost_def)

text \<open>
  C18. The interleaving of a connection's tasks does not matter. When the library's transport keeps one
  cipher state per direction, every schedule of the reader, the writer and the arrival of the bytes
  (in pieces of any size), over the one transport the tasks share, has at most \<open>5 n + 4 m + 2\<close>
  transitions for \<open>n\<close> bytes and \<open>m\<close> events of the channel; what it has delivered and written at any
  moment is an initial part of what the two tasks deliver and write when each runs alone; it can be
  continued until neither task can move, and there the two are equal and the reader has returned.
\<close>

theorem connection_interleavings:
  assumes h: "halves N recv send"
    and run: "(connection_step too_big N ^^ n) (start_side ts lin lout stream es) a"
  shows "n \<le> 5 * length stream + 4 * length es + 2 \<and>
    prefix (incoming (conn a)) (fst (drive_connection too_big N ts lin lout stream es)) \<and>
    prefix (wire a) (snd (drive_connection too_big N ts lin lout stream es)) \<and>
    (\<exists>m b. (connection_step too_big N ^^ m) a b \<and> ended (connection_step too_big N) b) \<and>
    (ended (connection_step too_big N) a \<longrightarrow>
       drive_connection too_big N ts lin lout stream es = (incoming (conn a), wire a) \<and> reader (conn a) = ReaderDone)"
proof -
  have step: "(\<lambda>a a'. halves N recv send \<and> connection_step too_big N a a') = connection_step too_big N"
    using h by simp
  note all = one_side.run_outcome [where N = N and recv = recv and send = send and too_big = too_big and n = n, unfolded step, OF run]
  have D: "drive_connection too_big N ts lin lout stream es = (deliveries too_big N a [], wire a @ unwritten too_big N a)"
    using all by (simp add: drive_connection_def)
  have "n \<le> 5 * length stream + 4 * length es + 2" using all by simp
  moreover have "\<exists>m b. (connection_step too_big N ^^ m) a b \<and> ended (connection_step too_big N) b"
    using one_side.run_ends [where N = N and recv = recv and send = send and too_big = too_big and a = a] unfolding step .
  moreover have "incoming (conn a) = deliveries too_big N a [] \<and> unwritten too_big N a = [] \<and> reader (conn a) = ReaderDone"
    if "ended (connection_step too_big N) a"
  proof -
    from that have stuck: "\<And>bs a'. \<not> side_step too_big N True a bs a'" by (auto simp: ended_def connection_step_def)
    show ?thesis using side_stuck [OF stuck] by (simp add: deliveries_def)
  qed
  ultimately show ?thesis unfolding D by (simp add: delivered_prefix)
qed

text \<open>A transport for the witnesses: each direction counts its messages and puts the count in front.\<close>

definition counting_transport :: "(u8 \<times> u8) noise_transport" where
  "counting_transport = \<lparr>
     ts_read = (\<lambda>(r, s) ct n. case ct of
        [] \<Rightarrow> (Inl ''short'', (r, s))
      | b # p \<Rightarrow> if b = r then (Inr p, (r + 1, s)) else (Inl ''out of step'', (r, s))),
     ts_write = (\<lambda>(r, s) p n. (Inr (s # p), (r, s + 1)))\<rparr>"

lemma counting_halves: "halves counting_transport fst snd"
  by (auto simp: halves_def counting_transport_def split: list.splits)

lemma counting_law: "transport_law counting_transport (\<lambda>w r. snd w = fst r)"
  by (auto simp: transport_law_def counting_transport_def)

theorem connection_interleavings_witness:
  "\<exists>n a. (connection_step (\<lambda>n. ''size'') counting_transport ^^ n)
       (start_side (0, 0) 5 5 (write_frame_bytes [0, 20] @ write_frame_bytes [1, 21]) [Payload [10], Lagged 3, Payload [11]]) a \<and>
     n \<le> 74 \<and> incoming (conn a) = [[20], [21]] \<and> wire a = write_frame_bytes [0, 10] @ write_frame_bytes [1, 11]"
proof -
  let ?t = "\<lambda>n :: nat. ''size''" and ?s = "write_frame_bytes [0, 20] @ write_frame_bytes [1, 21]"
    and ?es = "[Payload [10], Lagged 3, Payload [11]]" and ?step = "connection_step (\<lambda>n. ''size'') counting_transport"
  obtain n a where run: "(?step ^^ n) (start_side (0, 0) 5 5 ?s ?es) a" and "ended ?step a"
    using one_side.run_ends [where N = counting_transport and recv = fst and send = snd and too_big = ?t
        and a = "start_side (0, 0) 5 5 ?s ?es"] counting_halves
    by auto
  then have a: "n \<le> 5 * length ?s + 4 * length ?es + 2" "drive_connection ?t counting_transport (0, 0) 5 5 ?s ?es = (incoming (conn a), wire a)"
    using connection_interleavings [OF counting_halves run] by auto
  have r: "read_frame_bytes ?t (write_frame_bytes ct @ rest) = Ok (ct, rest)" if "length ct \<le> 65535" for ct rest
    using that by (rule read_write_frame)
  have "reader_task ?t counting_transport (0, 0) 5 ?s = [[20], [21]]"
    using r [of "[1, 21]" "[]"]
    by (subst reader_task.simps, subst r, simp, subst reader_task.simps)
      (simp add: decrypt_frame_def counting_transport_def read_empty)
  then have "drive_connection ?t counting_transport (0, 0) 5 5 ?s ?es =
      ([[20], [21]], write_frame_bytes [0, 10] @ write_frame_bytes [1, 11])"
    by (simp add: drive_connection_def encrypt_frame_def counting_transport_def MAX_PAYLOAD_def)
  with a run show ?thesis by (intro exI [of _ n] exI [of _ a]) (simp add: write_frame_bytes_def)
qed

section \<open>Two connections against each other\<close>

text \<open>What one side writes is on its way to the other; when a writer has returned its half of the socket
  is dropped, and the other side's reader sees the end of the stream after the bytes on their way.\<close>

inductive link_step ::
  "(nat \<Rightarrow> string) \<Rightarrow> 'ts noise_transport \<Rightarrow> 'ts side \<times> 'ts side \<Rightarrow> 'ts side \<times> 'ts side \<Rightarrow> bool"
  for too_big N where
  left: "side_step too_big N (writer (conn b) = WriterDone) a bs a' \<Longrightarrow>
    link_step too_big N (a, b) (a', b\<lparr>net := net b @ bs\<rparr>)"
| right: "side_step too_big N (writer (conn a) = WriterDone) b bs b' \<Longrightarrow>
    link_step too_big N (a, b) (a\<lparr>net := net a @ bs\<rparr>, b')"

lemma side_sent:
  "deliveries too_big N (b\<lparr>net := net b @ bs\<rparr>) f = deliveries too_big N b (bs @ f)"
  "unwritten too_big N (b\<lparr>net := net b @ bs\<rparr>) = unwritten too_big N b"
  "cost (b\<lparr>net := net b @ bs\<rparr>) f = cost b (bs @ f)"
  by (simp_all add: deliveries_def unwritten_def cost_def)

lemma done_unwritten: "writer (conn b) = WriterDone \<longrightarrow> unwritten too_big N b = []"
  by (simp add: unwritten_def)

definition link_outcome ::
  "(nat \<Rightarrow> string) \<Rightarrow> 'ts noise_transport \<Rightarrow> 'ts side \<times> 'ts side \<Rightarrow> u8 list list \<times> u8 list list" where
  "link_outcome too_big N l =
     (deliveries too_big N (fst l) (unwritten too_big N (snd l)), deliveries too_big N (snd l) (unwritten too_big N (fst l)))"

definition link_cost :: "(nat \<Rightarrow> string) \<Rightarrow> 'ts noise_transport \<Rightarrow> 'ts side \<times> 'ts side \<Rightarrow> nat" where
  "link_cost too_big N l = cost (fst l) (unwritten too_big N (snd l)) + cost (snd l) (unwritten too_big N (fst l))"

lemma link_step_keeps:
  assumes "link_step too_big N l l'" "halves N recv send"
  shows "link_outcome too_big N l' = link_outcome too_big N l \<and> link_cost too_big N l' < link_cost too_big N l"
  using assms(1)
proof cases
  case (left b a bs a')
  then show ?thesis
    using side_step_keeps [OF left(3) assms(2) done_unwritten]
    by (simp add: link_outcome_def link_cost_def side_sent)
next
  case (right a b bs b')
  then show ?thesis
    using side_step_keeps [OF right(3) assms(2) done_unwritten]
    by (simp add: link_outcome_def link_cost_def side_sent)
qed

interpretation two_sides: scheduled
  "\<lambda>l l'. halves N recv send \<and> link_step too_big N l l'" "link_outcome too_big N" "link_cost too_big N"
  by unfold_locales (use link_step_keeps [of too_big N _ _ recv send] in blast)+

lemma link_stuck:
  assumes "ended (link_step too_big N) (a, b)"
  shows "link_outcome too_big N (a, b) = (incoming (conn a), incoming (conn b))"
proof -
  have a: "\<And>bs a'. \<not> side_step too_big N (writer (conn b) = WriterDone) a bs a'"
    using assms left by (fastforce simp: ended_def)
  have b: "\<And>bs b'. \<not> side_step too_big N (writer (conn a) = WriterDone) b bs b'"
    using assms right by (fastforce simp: ended_def)
  show ?thesis
    using side_stuck(1-3) [OF a] side_stuck(1-3) [OF b] by (simp add: link_outcome_def deliveries_def)
qed

lemma written_bytes_bound:
  assumes law: "transport_law N paired" and "paired w r"
  shows "length (writer_task too_big N w limit es) \<le> 65539 * length es"
  using assms(2)
proof (induction es arbitrary: w r limit)
  case (Cons e es)
  show ?case
  proof (cases e)
    case (Payload p)
    show ?thesis
    proof (cases "length p \<le> MAX_PAYLOAD")
      case True
      with law Cons.prems obtain ct w' r' where ct: "ts_write N w p (length p + 16) = (Inr ct, w')"
        "length ct \<le> length p + 16" "paired w' r'"
        unfolding transport_law_def by blast
      have "length (write_frame_bytes ct) \<le> 65539"
        using ct(2) True by (simp add: write_frame_bytes_def MAX_PAYLOAD_def)
      moreover have "encrypt_frame too_big N w p = (Ok ct, w')" using ct(1) True by (simp add: encrypt_frame_def)
      ultimately show ?thesis using Payload Cons.IH [OF ct(3), of "limit - 1"] by simp
    next
      case False
      then show ?thesis using Payload Cons.IH [OF Cons.prems, of limit] by (simp add: encrypt_frame_def)
    qed
  qed (use Cons.IH [OF Cons.prems, of limit] in auto)
qed simp

lemma link_outcome_run:
  assumes h: "halves N recv send" and law: "transport_law N paired" and pair: "paired ta tb" "paired tb ta"
    and limits: "length es \<le> limit" "length fs \<le> limit"
    and run: "(link_step too_big N ^^ n) (start_side ta limit limit [] es, start_side tb limit limit [] fs) (a, b)"
  shows "n \<le> 327699 * (length es + length fs) + 4 \<and>
    prefix (incoming (conn a)) (carried fs) \<and> prefix (incoming (conn b)) (carried es) \<and>
    (\<exists>m l. (link_step too_big N ^^ m) (a, b) l \<and> ended (link_step too_big N) l) \<and>
    (ended (link_step too_big N) (a, b) \<longrightarrow> incoming (conn a) = carried fs \<and> incoming (conn b) = carried es)"
proof -
  have step: "(\<lambda>l l'. halves N recv send \<and> link_step too_big N l l') = link_step too_big N"
    using h by simp
  note all = two_sides.run_outcome [where N = N and recv = recv and send = send and too_big = too_big and n = n, unfolded step, OF run]
  have out: "link_outcome too_big N (a, b) = (carried fs, carried es)"
    using all connection_delivers [OF law pair(1) limits(1,1)] connection_delivers [OF law pair(2) limits(2,2)]
    by (simp add: link_outcome_def)
  have "n \<le> link_cost too_big N (start_side ta limit limit [] es, start_side tb limit limit [] fs)"
    using all by simp
  also have "\<dots> \<le> 327699 * (length es + length fs) + 4"
    using written_bytes_bound [OF law pair(1), of too_big limit es] written_bytes_bound [OF law pair(2), of too_big limit fs]
    by (simp add: link_cost_def)
  finally show ?thesis
    using out delivered_prefix [of a too_big N "unwritten too_big N b"] delivered_prefix [of b too_big N "unwritten too_big N a"]
      two_sides.run_ends [where N = N and recv = recv and send = send and too_big = too_big and a = "(a, b)"] link_stuck [of too_big N a b] unfolding step
    by (auto simp: link_outcome_def)
qed

text \<open>
  C10. Two connected validators exchange their broadcasts under every schedule. From two transports in
  step, let the four tasks of the two ends of a connection, and the bytes between them, move in any
  order: what an end has delivered to its node is at every moment an initial part of the payloads of
  the other end's channel within the size limit, in order; there are at most 327699 transitions per
  event of the channels, and four more; every run can be continued until no task can move, and then
  all the payloads have arrived.
\<close>

theorem link_runs:
  assumes h: "halves N recv send" and law: "transport_law N paired" and pair: "paired ta tb" "paired tb ta"
    and limits: "length es \<le> limit" "length fs \<le> limit"
    and run: "(link_step too_big N ^^ n) (start_side ta limit limit [] es, start_side tb limit limit [] fs) (a, b)"
  shows "n \<le> 327699 * (length es + length fs) + 4 \<and>
    prefix (incoming (conn a)) (carried fs) \<and> prefix (incoming (conn b)) (carried es) \<and>
    (\<exists>m l. (link_step too_big N ^^ m) (a, b) l \<and> ended (link_step too_big N) l) \<and>
    (ended (link_step too_big N) (a, b) \<longrightarrow> incoming (conn a) = carried fs \<and> incoming (conn b) = carried es)"
  using link_outcome_run [OF assms] .

theorem link_runs_witness:
  "\<exists>n a b. (link_step (\<lambda>n. ''size'') counting_transport ^^ n)
       (start_side (0, 0) 5 5 [] [Payload [10], Lagged 3, Payload [11]], start_side (0, 0) 5 5 [] [Payload [20], Closed]) (a, b) \<and>
     incoming (conn a) = [[20]] \<and> incoming (conn b) = [[10], [11]]"
proof -
  let ?t = "\<lambda>n :: nat. ''size''" and ?es = "[Payload [10], Lagged 3, Payload [11]]" and ?fs = "[Payload [20], Closed]"
    and ?step = "link_step (\<lambda>n. ''size'') counting_transport"
  obtain n l where "(?step ^^ n) (start_side (0, 0) 5 5 [] ?es, start_side (0, 0) 5 5 [] ?fs) l" and "ended ?step l"
    using two_sides.run_ends [where N = counting_transport and recv = fst and send = snd and too_big = ?t
        and a = "(start_side (0, 0) 5 5 [] ?es, start_side (0, 0) 5 5 [] ?fs)"] counting_halves
    by auto
  moreover obtain a b where "l = (a, b)" by (cases l)
  ultimately have run: "(?step ^^ n) (start_side (0, 0) 5 5 [] ?es, start_side (0, 0) 5 5 [] ?fs) (a, b)" "ended ?step (a, b)"
    by simp_all
  have "incoming (conn a) = carried ?fs \<and> incoming (conn b) = carried ?es"
    using link_runs [OF counting_halves counting_law _ _ _ _ run(1)] run(2) by simp
  then show ?thesis using run(1) by (intro exI [of _ n] exI [of _ a] exI [of _ b]) (simp add: MAX_PAYLOAD_def)
qed

end
