(* ===== verification/Replication.thy ===== *)
theory Replication
  imports Net_Tasks Chain_Props
begin

text \<open>
  The chain replicated over the mesh, as \<open>sapphire-tests/tests/mesh_converges.rs\<close> puts the two together:
  a validator applies its transactions to its own state and broadcasts them as JSON frames, another one
  decodes every frame its mesh delivers and applies it. The JSON codec of the transactions is a
  parameter.
\<close>

section \<open>The replica\<close>

text \<open>\<open>from_slice(&frame).unwrap()\<close> and \<open>apply_tx(&state, &tx).unwrap()\<close>: every error panics.\<close>

definition apply_frame ::
  "('i::linorder, 'pkp, 'vk, 'vs, 'cm, 'rz, 'rp, 'sp, 'sh, 'sg) frost \<Rightarrow>
   (u8 list \<Rightarrow> string + ('i, 'pkp, 'p1, 'cm, 'rz, 'sh) tx) \<Rightarrow>
   ('i, 'pkp, 'p1, 'cm, 'rz, 'sp, 'sh, 'sg) state \<Rightarrow> u8 list \<Rightarrow>
   (('i, 'pkp, 'p1, 'cm, 'rz, 'sp, 'sh, 'sg) state, apply_error) result" where
  "apply_frame F from_slice s frame =
     (case from_slice frame of
        Inl e \<Rightarrow> Panic
      | Inr t \<Rightarrow> (case apply_tx F s t of Ok s' \<Rightarrow> Ok s' | Err e \<Rightarrow> Panic | Panic \<Rightarrow> Panic))"

lemma replica_follows:
  assumes "\<forall>t \<in> set ts. from_slice (to_vec t) = Inr t" "run_all (apply_tx F) s ts = Ok s'"
  shows "run_all (apply_frame F from_slice) s (map to_vec ts) = Ok s'"
  using assms
proof (induction ts arbitrary: s)
  case (Cons t ts)
  then obtain s1 where "apply_tx F s t = Ok s1" "run_all (apply_tx F) s1 ts = Ok s'" by auto
  with Cons show ?case by (simp add: apply_frame_def)
qed simp

lemma run_all_prefix:
  assumes "run_all step s (ts @ us) = Ok s'"
  shows "\<exists>s1. run_all step s ts = Ok s1 \<and> run_all step s1 us = Ok s'"
  using assms by (simp add: run_all_append)

lemma carried_payloads:
  "\<forall>t \<in> set ts. length (to_vec t) \<le> MAX_PAYLOAD \<Longrightarrow> carried (map (\<lambda>t. Payload (to_vec t)) ts) = map to_vec ts"
  by (induction ts) simp_all

text \<open>
  Replicas of one sender agree as long as nothing is dropped. A validator applies a list of transactions,
  all accepted, and broadcasts them, each within the size limit. Suppose the subscription of the link to
  another validator yields all of them, that is, the link has subscribed before the first and its writer
  never lags behind the broadcast channel (which holds 1024 payloads and drops the oldest ones of a
  subscriber that lags further). Then the receiver, from the same state, never panics and is at every
  moment in the state the sender had after some initial part of the transactions, and once the link is at
  rest in the sender's final state. When payloads are dropped, this fails: the receiver unwraps an error
  as soon as a transaction depends on a dropped one.
\<close>

lemma replica_agrees:
  assumes h: "halves N recv send" and law: "transport_law N paired" and pair: "paired ta tb" "paired tb ta"
    and json: "\<forall>t \<in> set ts. from_slice (to_vec t) = Inr t" and fits: "\<forall>t \<in> set ts. length (to_vec t) \<le> MAX_PAYLOAD"
    and es: "es = map (\<lambda>t. Payload (to_vec t)) ts" and limits: "length es \<le> limit" "length fs \<le> limit"
    and run: "(link_step too_big N ^^ n) (start_side ta limit limit [] es, start_side tb limit limit [] fs) (a, b)"
    and own: "run_all (apply_tx F) s ts = Ok s'"
  shows "(\<exists>us s1. prefix us ts \<and> run_all (apply_tx F) s us = Ok s1 \<and>
      run_all (apply_frame F from_slice) s (incoming (conn b)) = Ok s1) \<and>
    (ended (link_step too_big N) (a, b) \<longrightarrow> run_all (apply_frame F from_slice) s (incoming (conn b)) = Ok s')"
proof -
  from link_outcome_run [OF h law pair limits run]
  have sent: "prefix (incoming (conn b)) (map to_vec ts)"
    "ended (link_step too_big N) (a, b) \<longrightarrow> incoming (conn b) = map to_vec ts"
    unfolding es carried_payloads [of ts to_vec, OF fits] by simp_all
  then have "incoming (conn b) = map to_vec (take (length (incoming (conn b))) ts)"
    by (metis append_eq_conv_conj prefix_def take_map)
  moreover obtain s1 where "run_all (apply_tx F) s (take (length (incoming (conn b))) ts) = Ok s1"
    using run_all_prefix [of "apply_tx F" s "take (length (incoming (conn b))) ts" "drop (length (incoming (conn b))) ts" s'] own
    by auto
  moreover have "\<forall>t \<in> set (take (length (incoming (conn b))) ts). from_slice (to_vec t) = Inr t"
    using json by (auto dest: in_set_takeD)
  ultimately have "\<exists>us s1. prefix us ts \<and> run_all (apply_tx F) s us = Ok s1 \<and>
      run_all (apply_frame F from_slice) s (incoming (conn b)) = Ok s1"
    using replica_follows take_is_prefix by metis
  then show ?thesis using replica_follows [of ts from_slice to_vec F s s', OF json own] sent(2) by auto
qed

section \<open>One ceremony announced to every node\<close>

text \<open>
  The second half of the test, after the meshes have been started: the sender broadcasts its \<open>DkgBegin\<close>,
  which at least \<open>total - 1\<close> receivers must take, and applies it; every other node applies the first frame
  of its inbox, and all of them must see the ceremony. An inbox that stays empty is the panic of the
  timeout. What \<open>send\<close> of the broadcast channel returns and the inboxes are arguments.
\<close>

definition first_frame ::
  "('i::linorder, 'pkp, 'vk, 'vs, 'cm, 'rz, 'rp, 'sp, 'sh, 'sg) frost \<Rightarrow>
   (u8 list \<Rightarrow> string + ('i, 'pkp, 'p1, 'cm, 'rz, 'sh) tx) \<Rightarrow> u8 list list \<Rightarrow>
   (('i, 'pkp, 'p1, 'cm, 'rz, 'sp, 'sh, 'sg) state, apply_error) result" where
  "first_frame F from_slice inbox = (case inbox of [] \<Rightarrow> Panic | frame # rest \<Rightarrow> apply_frame F from_slice default_state frame)"

definition sees_ceremony :: "nat \<Rightarrow> (('i::linorder, 'pkp, 'p1, 'cm, 'rz, 'sp, 'sh, 'sg) state, apply_error) result \<Rightarrow> bool" where
  "sees_ceremony n r = (case r of Ok s \<Rightarrow> (case ceremony s of Some c \<Rightarrow> bt_len (c_validators c) = n | None \<Rightarrow> False) | _ \<Rightarrow> False)"

definition mesh_converges ::
  "('i::linorder, 'pkp, 'vk, 'vs, 'cm, 'rz, 'rp, 'sp, 'sh, 'sg) frost \<Rightarrow>
   (('i, 'pkp, 'p1, 'cm, 'rz, 'sh) tx \<Rightarrow> string + u8 list) \<Rightarrow> (u8 list \<Rightarrow> string + ('i, 'pkp, 'p1, 'cm, 'rz, 'sh) tx) \<Rightarrow>
   (u8 list \<Rightarrow> unit + nat) \<Rightarrow> mpc_params \<Rightarrow> ('i, enc_public_key) btree_map \<Rightarrow> u8 list list list \<Rightarrow> (unit, unit) result" where
  "mesh_converges F to_vec from_slice send params validators inboxes =
     (let announcement = DkgBegin params validators in
      case to_vec announcement of
        Inl e \<Rightarrow> Panic
      | Inr frame \<Rightarrow>
          result_bind (usize_sub (unat (total params)) 1) (\<lambda>least.
          if broadcast send frame < least then Panic
          else
            let own = apply_tx F (default_state :: ('i, 'pkp, 'p1, 'cm, 'rz, 'sp, 'sh, 'sg) state) announcement;
                states = own # map (first_frame F from_slice) inboxes in
            if (\<forall>r \<in> set states. sees_ceremony (unat (total params)) r) then Ok () else Panic))"

text \<open>It passes when the inboxes start with the encoded announcement, and what is behind it does not matter.\<close>

lemma mesh_converges_passes:
  fixes F :: "('i::linorder, 'pkp, 'vk, 'vs, 'cm, 'rz, 'rp, 'sp, 'sh, 'sg) frost"
    and from_slice :: "u8 list \<Rightarrow> string + ('i, 'pkp, 'p1, 'cm, 'rz, 'sh) tx"
  assumes "bt_len validators = unat (total params)" "0 < total params" "to_vec (DkgBegin params validators) = Inr frame"
    and "from_slice frame = Inr (DkgBegin params validators)"
    and "send frame = Inr receivers" "unat (total params) - 1 \<le> receivers"
    and inboxes: "\<forall>inbox \<in> set inboxes. \<exists>rest. inbox = frame # rest"
  shows "mesh_converges F to_vec from_slice send params validators inboxes = Ok ()"
proof -
  have begun: "apply_tx F (default_state :: ('i, 'pkp, 'p1, 'cm, 'rz, 'sp, 'sh, 'sg) state) (DkgBegin params validators) =
      Ok (default_state\<lparr>ceremony := Some \<lparr>c_params = params, c_validators = validators, round1 = bt_new,
        round2 = bt_new, finalize = bt_new\<rparr>\<rparr>)"
    using assms(1) by (simp add: apply_dkg_begin_def default_state_def)
  have "sees_ceremony (unat (total params)) (first_frame F from_slice inbox)" if i: "inbox \<in> set inboxes" for inbox
  proof -
    from inboxes i obtain rest where "inbox = frame # rest" by blast
    with begun assms(1,4) show ?thesis by (simp add: first_frame_def apply_frame_def sees_ceremony_def)
  qed
  moreover have "usize_sub (unat (total params)) 1 = (Ok (unat (total params) - 1) :: (nat, unit) result)"
    using assms(2) by (simp add: usize_sub_def word_less_nat_alt)
  ultimately show ?thesis using begun assms(1,3,5,6)
    by (auto simp: mesh_converges_def sees_ceremony_def broadcast_def Let_def simp del: apply_tx.simps)
qed

end
