(* ===== verification/Zcash_Props.thy ===== *)
theory Zcash_Props
  imports Zcash_Live
begin

text \<open>
  What the signing driver guarantees whatever the validators do: a signature that it returns is backed
  by a threshold of approving validators, and it always returns.
\<close>

section \<open>Signatures are backed\<close>

lemma backed_signature:
  assumes chain: "chain_inv F (sim_state sim)" "mempool sim = []"
    and drive: "drive_signing_session F S fill_bytes display sim vs sighash alpha rng = (Ok sg, sim', vs', rng')"
  shows "\<exists>rid e g P cms shs. bt_get (requests (sim_state sim')) rid = Some e \<and>
    message e = to_list sighash \<and> randomizer e = alpha \<and> status e = Completed P sg \<and>
    group (sim_state sim') = Some g \<and> card (dom (bt_get P)) = unat (threshold (g_params g)) \<and> threshold (g_params g) \<noteq> 0 \<and>
    dom (bt_get P) \<subseteq> approving (to_list sighash) vs \<and>
    dom (bt_get cms) = dom (bt_get P) \<and> dom (bt_get shs) = dom (bt_get P) \<and>
    aggregate F (signing_package_new F cms (to_list sighash)) shs (g_pkp g)
      (from_randomizer F (verifying_key F (g_pkp g)) alpha) = Inr sg"
proof -
  let ?msg = "to_list sighash"
  obtain rid rng1 where u: "uuid_new fill_bytes rng = (rid, rng1)" by fastforce
  from drive u obtain sim2 results where cb: "commit_block F (submit sim (SubmitRequest rid ?msg alpha)) = Ok (sim2, results)"
    and fr: "first_rejection results = None" and loop: "session_loop F S rid 8 sim2 vs rng1 = (Ok sg, sim', vs', rng')"
    by (auto simp: drive_signing_session_def Let_def split: result.splits option.splits)
  note sub = request_submitted [OF cb fr chain(2) chain(1), of "approving ?msg vs"]
  from session_backed [OF loop] sub obtain e P where
    fin: "chain_inv F (sim_state sim')" "backed (approving ?msg vs) rid ?msg alpha (sim_state sim')"
      "bt_get (requests (sim_state sim')) rid = Some e" "status e = Completed P sg" by blast
  then have e: "message e = ?msg" "randomizer e = alpha" "dom (bt_get P) \<subseteq> approving ?msg vs"
    by (auto simp: backed_def)
  from fin(1,3) obtain g where g: "group (sim_state sim') = Some g" "request_inv F g rid e" unfolding chain_inv_def by blast
  then have t: "card (dom (bt_get P)) = unat (threshold (g_params g))" "threshold (g_params g) \<noteq> 0"
    and "aggregated F (g_pkp g) alpha ?msg (dom (bt_get P)) (Inr sg)"
    using fin(4) e by (auto simp: request_inv_def status_inv_def Let_def bt_len_card)
  then obtain cms shs where agg: "dom (bt_get cms) = dom (bt_get P)" "dom (bt_get shs) = dom (bt_get P)"
    "aggregate F (signing_package_new F cms ?msg) shs (g_pkp g) (from_randomizer F (verifying_key F (g_pkp g)) alpha) = Inr sg"
    unfolding aggregated_def by blast
  show ?thesis by (intro exI conjI) (fact fin e g t agg)+
qed

text \<open>
  C2. A returned signature is backed by a threshold of approving validators. When the driver, started
  on a reachable chain with an empty mempool, returns a signature, the chain holds a completed
  request with exactly the given sighash and randomizer; its participants are as many as the
  threshold, which is not zero; each of them is the identifier of a driven validator whose policy
  approved the sighash; and the signature is the aggregate of shares of exactly these participants
  over a signing package for the sighash, under the randomized key of the group.
\<close>

theorem session_signature_backed:
  assumes chain: "reach (apply_tx F) default_state (sim_state sim)" "mempool sim = []"
    and drive: "drive_signing_session F S fill_bytes display sim vs sighash alpha rng = (Ok sg, sim', vs', rng')"
  shows "\<exists>rid e g P cms shs. bt_get (requests (sim_state sim')) rid = Some e \<and>
    message e = to_list sighash \<and> randomizer e = alpha \<and> status e = Completed P sg \<and>
    group (sim_state sim') = Some g \<and> card (dom (bt_get P)) = unat (threshold (g_params g)) \<and> threshold (g_params g) \<noteq> 0 \<and>
    dom (bt_get P) \<subseteq> node_identifier ` {v \<in> set vs. policy v (to_list sighash) = Ok ()} \<and>
    dom (bt_get cms) = dom (bt_get P) \<and> dom (bt_get shs) = dom (bt_get P) \<and>
    aggregate F (signing_package_new F cms (to_list sighash)) shs (g_pkp g)
      (from_randomizer F (verifying_key F (g_pkp g)) alpha) = Inr sg"
  using backed_signature [OF reachable_inv [OF chain(1)] chain(2) drive] unfolding approving_def .

text \<open>The small session of the honest run, on a chain whose only transaction sets the group.\<close>

lemma group_sim_reach: "reach (apply_tx toy_frost) default_state (sim_state group_sim)"
proof -
  have "run_all (apply_tx toy_frost) default_state [InitGroup toy_params [1, 2, 3] [1, 2, 3]] = Ok (sim_state group_sim)"
    by (simp add: toy_defs default_state_def apply_defs bt_eval insert_commute group_sim_def sim_new_def sim_default_def)
  then show ?thesis by (rule run_all_reach)
qed

lemma plain_session:
  "\<exists>sg sim' vs' rng'. drive_signing_session toy_frost plain_signer (\<lambda>r. (bytes_fill 4, Suc r)) (\<lambda>e. ''rejected'') group_sim
      (map plain_node [2, 1, 3]) (bytes_fill 9) 7 0 = (Ok sg, sim', vs', rng')"
proof -
  have ok: "\<forall>v \<in> set (map plain_node [2, 1, 3]). policy v (to_list (bytes_fill 9 :: 32 bytes)) = Ok ()"
    by (simp add: plain_node_def node_new_def accept_all_approve_def)
  have u: "uuid_new (\<lambda>r. (bytes_fill 4, Suc r)) 0 = (Uuid (bytes_fill 4), 1)" by (simp add: uuid_new_def)
  have new: "bt_get (requests (sim_state group_sim)) (Uuid (bytes_fill 4)) = None" "unat (block_height group_sim) + 3 < 2 ^ 64"
    by (simp_all add: group_sim_def sim_new_def sim_default_def default_state_def)
  from session_of_family [OF plain_ready ok u new, of "\<lambda>e. ''rejected''" 7] obtain cms shs sim' vs' rng' where
    d: "drive_signing_session toy_frost plain_signer (\<lambda>r. (bytes_fill 4, Suc r)) (\<lambda>e. ''rejected'') group_sim
      (map plain_node [2, 1, 3]) (bytes_fill 9) 7 0 =
      (case outcome toy_frost (g_pkp toy_group) cms shs (to_list (bytes_fill 9 :: 32 bytes)) 7 of
         Inr sg \<Rightarrow> Ok sg | Inl reason \<Rightarrow> Err (SessionAggregationFailed reason), sim', vs', rng')"
    and dom: "dom (bt_get shs) = dom (bt_get cms)" by (elim exE conjE)
  have "bt_keys shs = bt_keys cms" using dom by (simp add: bt_keys_def keys_bt_iter)
  then have "\<exists>sg. outcome toy_frost (g_pkp toy_group) cms shs (to_list (bytes_fill 9 :: 32 bytes)) 7 = Inr sg"
    by (simp add: outcome_def toy_frost_def)
  with d show ?thesis by auto
qed

theorem session_signature_backed_witness:
  "\<exists>sg sim' vs' rng' rid e P. drive_signing_session toy_frost plain_signer (\<lambda>r. (bytes_fill 4, Suc r)) (\<lambda>e. ''rejected'')
      group_sim (map plain_node [2, 1, 3]) (bytes_fill 9) 7 0 = (Ok sg, sim', vs', rng') \<and>
    bt_get (requests (sim_state sim')) rid = Some e \<and> status e = Completed P sg"
proof -
  have mp: "mempool group_sim = []" by (simp add: group_sim_def sim_new_def sim_default_def)
  from plain_session obtain sg sim' vs' rng' where d: "drive_signing_session toy_frost plain_signer
      (\<lambda>r. (bytes_fill 4, Suc r)) (\<lambda>e. ''rejected'') group_sim (map plain_node [2, 1, 3]) (bytes_fill 9) 7 0 = (Ok sg, sim', vs', rng')"
    by blast
  from session_signature_backed [OF group_sim_reach mp d] d show ?thesis by blast
qed

section \<open>The driver always returns\<close>

text \<open>
  C16. The driver always returns. On a reachable chain with an empty mempool and room for nine more
  blocks below the 64-bit limit, and with policies that do not panic, the driver returns a signature
  or an error after at least one and at most nine blocks, whether the chain has a group, an open
  ceremony or neither; it never panics, and never reports a missing request or the status that its
  source calls unreachable. (A pending \<open>DkgFinalize\<close> of an empty ceremony would make the first block
  panic, hence the empty mempool.)
\<close>

theorem session_returns:
  assumes chain: "reach (apply_tx F) default_state (sim_state sim)" "mempool sim = []"
    and height: "unat (block_height sim) + 9 < 2 ^ 64" and total: "\<And>v m. v \<in> set vs \<Longrightarrow> policy v m \<noteq> Panic"
  shows "\<exists>r sim' vs' rng'. drive_signing_session F S fill_bytes display sim vs sighash alpha rng = (r, sim', vs', rng') \<and>
    r \<noteq> Panic \<and> r \<noteq> Err RequestMissing \<and> r \<noteq> Err (StuckBeforeCompletion ''unreachable'') \<and>
    unat (block_height sim) < unat (block_height sim') \<and> unat (block_height sim') \<le> unat (block_height sim) + 9"
proof -
  let ?msg = "to_list sighash"
  obtain rid rng1 where u: "uuid_new fill_bytes rng = (rid, rng1)" by fastforce
  let ?sim = "submit sim (SubmitRequest rid ?msg alpha)"
  have inv: "chain_inv F (sim_state sim)" by (rule reachable_inv [OF chain(1)])
  have same: "sim_state ?sim = sim_state sim" "block_height ?sim = block_height sim"
    "mempool ?sim = [SubmitRequest rid ?msg alpha]" by (simp_all add: submit_def chain(2))
  have "block_height sim \<noteq> - 1" using height by (auto simp: unsigned_minus_1_eq_mask mask_eq_exp_minus_1)
  then obtain sim2 results where cb: "commit_block F ?sim = Ok (sim2, results)"
    by (cases "apply_submit_request (sim_state sim) rid ?msg alpha")
      (auto simp: commit_block_def same u64_inc_def apply_submit_request_def require_group_def split: if_splits)
  then have h: "unat (block_height sim2) = Suc (unat (block_height sim))" using commit_block_Ok [OF cb] same by simp
  show ?thesis
  proof (cases "first_rejection results")
    case None
    note sub = request_submitted [OF cb None chain(2) inv, of UNIV]
    have pol: "\<forall>p \<in> set (map policy vs). \<forall>m. p m \<noteq> Panic" using total by auto
    have "unat (block_height sim2) + 8 < 2 ^ 64" using h height by simp
    from session_returns_aux [OF _ _ _ this pol, of F rid ?msg alpha S rng1] sub show ?thesis
      using u cb None h by (auto simp: drive_signing_session_def Let_def)
  next
    case (Some err)
    with u cb h show ?thesis by (auto simp: drive_signing_session_def Let_def)
  qed
qed

theorem session_returns_witness:
  "\<exists>r sim' vs' rng'. drive_signing_session toy_frost toy_signer (\<lambda>r. (bytes_fill 4, Suc r)) (\<lambda>e. ''rejected'')
      group_sim [toy_node (\<lambda>m. Err ''never'')] (bytes_fill 9) 7 0 = (r, sim', vs', rng') \<and> r \<noteq> Panic \<and>
    unat (block_height sim') \<le> 9"
proof -
  have s: "mempool group_sim = []" "unat (block_height group_sim) + 9 < 2 ^ 64"
    "unat (block_height group_sim) = 0"
    by (simp_all add: group_sim_def sim_new_def sim_default_def)
  have "policy v m \<noteq> Panic" if "v \<in> set [toy_node (\<lambda>m. Err ''never'')]" for v m
    using that by (simp add: toy_node_def with_policy_def)
  then have total: "\<And>v m. v \<in> set [toy_node (\<lambda>m. Err ''never'')] \<Longrightarrow> policy v m \<noteq> Panic" .
  have "\<exists>r sim' vs' rng'. drive_signing_session toy_frost toy_signer (\<lambda>r. (bytes_fill 4, Suc r)) (\<lambda>e. ''rejected'')
      group_sim [toy_node (\<lambda>m. Err ''never'')] (bytes_fill 9) 7 0 = (r, sim', vs', rng') \<and>
    r \<noteq> Panic \<and> r \<noteq> Err RequestMissing \<and> r \<noteq> Err (StuckBeforeCompletion ''unreachable'') \<and>
    unat (block_height group_sim) < unat (block_height sim') \<and> unat (block_height sim') \<le> unat (block_height group_sim) + 9"
    by (rule session_returns [OF group_sim_reach s(1,2)]) (rule total)
  then show ?thesis unfolding s(3) by auto
qed

end
