(* ===== verification/Zcash_Pczt.thy ===== *)
theory Zcash_Pczt
  imports Zcash_Props
begin

text \<open>
  The Orchard signer of \<open>sapphire-zcash/src/pczt.rs\<close>: one signing session per action of a
  partially constructed transaction. The \<open>orchard\<close> and \<open>ff\<close> functions, and the byte codecs of
  FROST's randomizers and signatures, are the fields of the parameter record \<open>orchard_crate\<close>;
  of a bundle the signer only uses the list of its actions.
\<close>

section \<open>The signer\<close>

record ('act, 'sc, 'rz, 'sg, 'osig) orchard_crate =
  spend_alpha :: "'act \<Rightarrow> 'sc option"
  to_repr :: "'sc \<Rightarrow> u8 list"
  randomizer_deserialize :: "u8 list \<Rightarrow> string + 'rz"
  signature_serialize :: "'sg \<Rightarrow> string + u8 list"
  orchard_signature :: "64 bytes \<Rightarrow> 'osig"
  apply_signature :: "'act \<Rightarrow> 32 bytes \<Rightarrow> 'osig \<Rightarrow> (string + unit) \<times> 'act"

datatype pczt_sign_error =
    ActionMissingAlpha nat
  | PcztSign nat sign_error
  | Conversion nat
  | ApplyRejected nat string

text \<open>The conversion of a FROST signature into Orchard's.\<close>

definition to_orchard ::
  "('act, 'sc, 'rz, 'sg, 'osig) orchard_crate \<Rightarrow> nat \<Rightarrow> 'sg \<Rightarrow> ('osig, pczt_sign_error) result" where
  "to_orchard oc idx signature =
     result_bind (map_err (\<lambda>_. Conversion idx) (of_sum (signature_serialize oc signature))) (\<lambda>sig_bytes.
     result_bind (ok_or (Conversion idx) (try_into_bytes sig_bytes)) (\<lambda>sig_arr.
       Ok (orchard_signature oc sig_arr)))"

text \<open>The body of the loop.\<close>

definition sign_action ::
  "('i::linorder, 'pkp, 'vk, 'vs, 'cm, 'rz, 'rp, 'sp, 'sh, 'sg) frost \<Rightarrow>
   ('i, 'kp, 'ss, 'nc, 'cm, 'sp, 'rz, 'sh, 'g) frost_signer \<Rightarrow> ('g \<Rightarrow> 16 bytes \<times> 'g) \<Rightarrow>
   (apply_error \<Rightarrow> string) \<Rightarrow> ('act, 'sc, 'rz, 'sg, 'osig) orchard_crate \<Rightarrow> 32 bytes \<Rightarrow> nat \<Rightarrow> 'act \<Rightarrow>
   ('i, 'pkp, 'p1, 'cm, 'rz, 'sp, 'sh, 'sg) chain_sim \<Rightarrow> ('i, 'kp, 'pkp, 'nc) node list \<Rightarrow> 'g \<Rightarrow>
   (unit, pczt_sign_error) result \<times> 'act \<times> ('i, 'pkp, 'p1, 'cm, 'rz, 'sp, 'sh, 'sg) chain_sim \<times>
   ('i, 'kp, 'pkp, 'nc) node list \<times> 'g" where
  "sign_action F S fill_bytes display oc sighash idx act sim vs rng =
     (case spend_alpha oc act of
        None \<Rightarrow> (Err (ActionMissingAlpha idx), act, sim, vs, rng)
      | Some alpha_scalar \<Rightarrow>
          (case randomizer_deserialize oc (to_repr oc alpha_scalar) of
             Inl _ \<Rightarrow> (Err (Conversion idx), act, sim, vs, rng)
           | Inr alpha_randomizer \<Rightarrow>
               (case drive_signing_session F S fill_bytes display sim vs sighash alpha_randomizer rng of
                  (Ok signature, sim', vs', rng') \<Rightarrow>
                    (case to_orchard oc idx signature of
                       Ok orchard_sig \<Rightarrow>
                         (case apply_signature oc act sighash orchard_sig of
                            (Inl e, act') \<Rightarrow> (Err (ApplyRejected idx e), act', sim', vs', rng')
                          | (Inr _, act') \<Rightarrow> (Ok (), act', sim', vs', rng'))
                     | Err e \<Rightarrow> (Err e, act, sim', vs', rng')
                     | Panic \<Rightarrow> (Panic, act, sim', vs', rng'))
                | (Err e, sim', vs', rng') \<Rightarrow> (Err (PcztSign idx e), act, sim', vs', rng')
                | (Panic, sim', vs', rng') \<Rightarrow> (Panic, act, sim', vs', rng'))))"

fun sign_actions ::
  "('i::linorder, 'pkp, 'vk, 'vs, 'cm, 'rz, 'rp, 'sp, 'sh, 'sg) frost \<Rightarrow>
   ('i, 'kp, 'ss, 'nc, 'cm, 'sp, 'rz, 'sh, 'g) frost_signer \<Rightarrow> ('g \<Rightarrow> 16 bytes \<times> 'g) \<Rightarrow>
   (apply_error \<Rightarrow> string) \<Rightarrow> ('act, 'sc, 'rz, 'sg, 'osig) orchard_crate \<Rightarrow> 32 bytes \<Rightarrow> nat \<Rightarrow> 'act list \<Rightarrow>
   ('i, 'pkp, 'p1, 'cm, 'rz, 'sp, 'sh, 'sg) chain_sim \<Rightarrow> ('i, 'kp, 'pkp, 'nc) node list \<Rightarrow> 'g \<Rightarrow>
   (unit, pczt_sign_error) result \<times> 'act list \<times> ('i, 'pkp, 'p1, 'cm, 'rz, 'sp, 'sh, 'sg) chain_sim \<times>
   ('i, 'kp, 'pkp, 'nc) node list \<times> 'g" where
  "sign_actions F S fill_bytes display oc sighash idx [] sim vs rng = (Ok (), [], sim, vs, rng)"
| "sign_actions F S fill_bytes display oc sighash idx (act # acts) sim vs rng =
     (case sign_action F S fill_bytes display oc sighash idx act sim vs rng of
        (Ok _, act', sim', vs', rng') \<Rightarrow>
          (case sign_actions F S fill_bytes display oc sighash (Suc idx) acts sim' vs' rng' of
             (r, acts', rest) \<Rightarrow> (r, act' # acts', rest))
      | (Err e, act', rest) \<Rightarrow> (Err e, act' # acts, rest)
      | (Panic, act', rest) \<Rightarrow> (Panic, act' # acts, rest))"

definition sign_pczt_orchard_bundle ::
  "('i::linorder, 'pkp, 'vk, 'vs, 'cm, 'rz, 'rp, 'sp, 'sh, 'sg) frost \<Rightarrow>
   ('i, 'kp, 'ss, 'nc, 'cm, 'sp, 'rz, 'sh, 'g) frost_signer \<Rightarrow> ('g \<Rightarrow> 16 bytes \<times> 'g) \<Rightarrow>
   (apply_error \<Rightarrow> string) \<Rightarrow> ('act, 'sc, 'rz, 'sg, 'osig) orchard_crate \<Rightarrow> 'act list \<Rightarrow> 32 bytes \<Rightarrow>
   ('i, 'pkp, 'p1, 'cm, 'rz, 'sp, 'sh, 'sg) chain_sim \<Rightarrow> ('i, 'kp, 'pkp, 'nc) node list \<Rightarrow> 'g \<Rightarrow>
   (unit, pczt_sign_error) result \<times> 'act list \<times> ('i, 'pkp, 'p1, 'cm, 'rz, 'sp, 'sh, 'sg) chain_sim \<times>
   ('i, 'kp, 'pkp, 'nc) node list \<times> 'g" where
  "sign_pczt_orchard_bundle F S fill_bytes display oc acts sighash sim vs rng =
     sign_actions F S fill_bytes display oc sighash 0 acts sim vs rng"

fun error_index :: "pczt_sign_error \<Rightarrow> nat" where
  "error_index (ActionMissingAlpha i) = i"
| "error_index (PcztSign i _) = i"
| "error_index (Conversion i) = i"
| "error_index (ApplyRejected i _) = i"

section \<open>The chain only grows\<close>

lemma validators_react_fixed:
  assumes "validators_react S sim rng b vs = (r, sim', vs', rng')"
  shows "sim_state sim' = sim_state sim \<and> map node_identifier vs' = map node_identifier vs \<and> map policy vs' = map policy vs"
  using assms
proof (induction S sim rng b vs arbitrary: r sim' vs' rng' rule: validators_react.induct)
  case (2 S sim rng b v vs)
  obtain r1 v1 rng1 where one: "react S v (sim_state sim) rng = (r1, v1, rng1)" by (metis prod_cases3)
  note fixed = react_fixed [OF one]
  show ?case
  proof (cases r1)
    case (Ok out)
    obtain vs1 where rest: "validators_react S (submit_all sim out) rng1 (b \<or> out \<noteq> []) vs = (r, sim', vs1, rng')"
      and vs': "vs' = v1 # vs1"
      using 2(2) one Ok by (auto split: prod.splits)
    from 2(1) [OF one [symmetric] Ok refl rest] fixed show ?thesis by (simp add: vs')
  qed (use 2(2) one fixed in auto)
qed simp

lemma commit_block_grows:
  assumes "commit_block F sim = Ok (sim', results)" "chain_inv F (sim_state sim)"
  shows "chain_inv F (sim_state sim') \<and> chain_le (sim_state sim) (sim_state sim')"
proof -
  have run: "run_all (apply_tx F) (sim_state sim) (last_block sim') = Ok (sim_state sim')" using commit_block_Ok [OF assms(1)] by blast
  show ?thesis using chain.run_all_inv [OF assms(2) run] chain_mono.run_all_rel [OF assms(2) run] by blast
qed

lemma session_grows:
  assumes "session_loop F S rid n sim vs rng = (r, sim', vs', rng')" "chain_inv F (sim_state sim)"
  shows "chain_inv F (sim_state sim') \<and> chain_le (sim_state sim) (sim_state sim') \<and> (is_ok r \<longrightarrow> mempool sim' = []) \<and>
    map node_identifier vs' = map node_identifier vs \<and> map policy vs' = map policy vs"
  using assms
proof (induction n arbitrary: sim vs rng)
  case 0
  then show ?case by (auto simp: chain_le_refl)
next
  case (Suc n)
  obtain r1 sim1 vs1 rng1 where vr: "validators_react S sim rng False vs = (r1, sim1, vs1, rng1)" by (metis prod_cases4)
  note v = validators_react_fixed [OF vr]
  show ?case
  proof (cases "\<exists>em sim2 res. r1 = Ok em \<and> commit_block F sim1 = Ok (sim2, res)")
    case True
    then obtain em sim2 res where r1: "r1 = Ok em" and cb: "commit_block F sim1 = Ok (sim2, res)" by blast
    have grow: "chain_inv F (sim_state sim2)" "chain_le (sim_state sim) (sim_state sim2)" "mempool sim2 = []"
      using commit_block_grows [OF cb] commit_block_Ok [OF cb] v Suc.prems(2) by auto
    have "session_loop F S rid n sim2 vs1 rng1 = (r, sim', vs', rng') \<or> (sim' = sim2 \<and> vs' = vs1)"
      using Suc.prems(1) vr r1 cb by (auto split: option.splits request_status.splits if_splits)
    then show ?thesis using Suc.IH [of sim2 vs1 rng1] grow v chain_le_trans by auto
  next
    case False
    then have "sim' = sim1 \<and> vs' = vs1 \<and> \<not> is_ok r"
      using Suc.prems(1) vr by (auto split: result.splits)
    then show ?thesis using v Suc.prems(2) by (auto simp: chain_le_refl)
  qed
qed

lemma drive_grows:
  assumes "drive_signing_session F S fill_bytes display sim vs sighash alpha rng = (r, sim', vs', rng')"
    and "chain_inv F (sim_state sim)"
  shows "chain_inv F (sim_state sim') \<and> chain_le (sim_state sim) (sim_state sim') \<and> (is_ok r \<longrightarrow> mempool sim' = []) \<and>
    map node_identifier vs' = map node_identifier vs \<and> map policy vs' = map policy vs"
proof -
  obtain rid rng1 where u: "uuid_new fill_bytes rng = (rid, rng1)" by fastforce
  let ?sim = "submit sim (SubmitRequest rid (to_list sighash) alpha)"
  have same: "sim_state ?sim = sim_state sim" by (simp add: submit_def)
  show ?thesis
  proof (cases "\<exists>sim2 res. commit_block F ?sim = Ok (sim2, res)")
    case True
    then obtain sim2 res where cb: "commit_block F ?sim = Ok (sim2, res)" by blast
    note grow = commit_block_grows [OF cb, unfolded same, OF assms(2)]
    have "session_loop F S rid 8 sim2 vs rng1 = (r, sim', vs', rng') \<or> (sim' = sim2 \<and> vs' = vs \<and> \<not> is_ok r)"
      using assms(1) u cb by (auto simp: drive_signing_session_def Let_def split: option.splits)
    then show ?thesis using session_grows [of F S rid 8 sim2 vs rng1] grow chain_le_trans by auto
  next
    case False
    then have "sim' = ?sim \<and> vs' = vs \<and> \<not> is_ok r"
      using assms(1) u by (auto simp: drive_signing_session_def Let_def split: result.splits)
    then show ?thesis using assms(2) same by (auto simp: chain_le_refl)
  qed
qed

section \<open>What a signed bundle rests on\<close>

text \<open>The chain holds a completed request for this message and randomizer with this signature, whose
  participants are a threshold of the given approving validators.\<close>

definition authorized ::
  "'i set \<Rightarrow> u8 list \<Rightarrow> 'rz \<Rightarrow> 'sg \<Rightarrow> ('i, 'pkp, 'p1, 'cm, 'rz, 'sp, 'sh, 'sg) state \<Rightarrow> bool" where
  "authorized A msg rz sg s \<longleftrightarrow>
     (\<exists>rid e g P. bt_get (requests s) rid = Some e \<and> message e = msg \<and> randomizer e = rz \<and> status e = Completed P sg \<and>
        group s = Some g \<and> card (dom (bt_get P)) = unat (threshold (g_params g)) \<and> threshold (g_params g) \<noteq> 0 \<and>
        dom (bt_get P) \<subseteq> A)"

lemma authorized_stays: "authorized A msg rz sg s \<Longrightarrow> chain_le s s' \<Longrightarrow> authorized A msg rz sg s'"
proof -
  assume "authorized A msg rz sg s" and le: "chain_le s s'"
  then obtain rid e g P where e: "bt_get (requests s) rid = Some e" "message e = msg" "randomizer e = rz" "status e = Completed P sg"
    and g: "group s = Some g" and P: "card (dom (bt_get P)) = unat (threshold (g_params g))" "threshold (g_params g) \<noteq> 0" "dom (bt_get P) \<subseteq> A"
    unfolding authorized_def by blast
  from le e(1) g obtain e' where e': "bt_get (requests s') rid = Some e'" "entry_le e e'" "group s' = Some g"
    unfolding chain_le_def by blast
  then have "message e' = msg" "randomizer e' = rz" "status e' = Completed P sg" using e by (simp_all add: entry_le_def)
  with e' P show ?thesis unfolding authorized_def by (intro exI conjI)
qed

lemma drive_authorized:
  assumes "drive_signing_session F S fill_bytes display sim vs sighash alpha rng = (Ok sg, sim', vs', rng')"
    and "chain_inv F (sim_state sim)" "mempool sim = []"
  shows "authorized (approving (to_list sighash) vs) (to_list sighash) alpha sg (sim_state sim')"
proof -
  from backed_signature [OF assms(2,3,1)] show ?thesis
    unfolding authorized_def by (elim exE conjE) (intro exI conjI)
qed

definition action_signed ::
  "('act, 'sc, 'rz, 'sg, 'osig) orchard_crate \<Rightarrow> 32 bytes \<Rightarrow> 'i set \<Rightarrow>
   ('i, 'pkp, 'p1, 'cm, 'rz, 'sp, 'sh, 'sg) state \<Rightarrow> 'act \<Rightarrow> 'act \<Rightarrow> bool" where
  "action_signed oc sighash A s act act' \<longleftrightarrow>
     (\<exists>a rz sg arr. spend_alpha oc act = Some a \<and> randomizer_deserialize oc (to_repr oc a) = Inr rz \<and>
        signature_serialize oc sg = Inr (to_list arr) \<and>
        apply_signature oc act sighash (orchard_signature oc arr) = (Inr (), act') \<and>
        authorized A (to_list sighash) rz sg s)"

lemma to_orchard_Err: "to_orchard oc idx sg = Err e \<Longrightarrow> e = Conversion idx"
  by (auto simp: to_orchard_def map_err_def of_sum_def ok_or_def split: sum.splits option.splits)

lemma sign_action_cases:
  assumes "sign_action F S fill_bytes display oc sighash idx act sim vs rng = (r, act', sim', vs', rng')"
    and "chain_inv F (sim_state sim)" "mempool sim = []"
  shows "chain_inv F (sim_state sim') \<and> chain_le (sim_state sim) (sim_state sim') \<and>
    (r = Ok () \<longrightarrow> mempool sim' = [] \<and> approving (to_list sighash) vs' = approving (to_list sighash) vs \<and>
       action_signed oc sighash (approving (to_list sighash) vs) (sim_state sim') act act') \<and>
    (\<forall>e. r = Err e \<longrightarrow> error_index e = idx)"
proof (cases "\<exists>a rz. spend_alpha oc act = Some a \<and> randomizer_deserialize oc (to_repr oc a) = Inr rz")
  case True
  then obtain a rz where a: "spend_alpha oc act = Some a" "randomizer_deserialize oc (to_repr oc a) = Inr rz" by blast
  obtain r1 sim1 vs1 rng1 where d: "drive_signing_session F S fill_bytes display sim vs sighash rz rng = (r1, sim1, vs1, rng1)"
    by (metis prod_cases4)
  note grow = drive_grows [OF d assms(2)]
  have sim1: "sim' = sim1" "vs' = vs1"
    using assms(1) a d by (auto simp: sign_action_def split: result.splits sum.splits prod.splits)
  show ?thesis
  proof (cases "r = Ok ()")
    case True
    with assms(1) a d obtain sg where r1: "r1 = Ok sg" by (cases r1) (auto simp: sign_action_def)
    with assms(1) a d True obtain arr where "signature_serialize oc sg = Inr (to_list arr)"
      "apply_signature oc act sighash (orchard_signature oc arr) = (Inr (), act')"
      by (auto simp: sign_action_def to_orchard_def try_into_Some split: result.splits sum.splits prod.splits)
    with a drive_authorized [OF d [unfolded r1] assms(2,3)]
    have "action_signed oc sighash (approving (to_list sighash) vs) (sim_state sim1) act act'"
      unfolding action_signed_def by blast
    moreover have "approving (to_list sighash) vs1 = approving (to_list sighash) vs" using grow by (intro approving_cong) auto
    ultimately show ?thesis using grow True r1 sim1 by simp
  next
    case False
    have "error_index e = idx" if "r = Err e" for e
      using assms(1) a d that by (auto simp: sign_action_def dest: to_orchard_Err split: result.splits sum.splits prod.splits)
    with False grow sim1 show ?thesis by blast
  qed
next
  case False
  then show ?thesis using assms by (auto simp: sign_action_def chain_le_refl split: option.splits sum.splits)
qed

lemma action_signed_stays:
  "action_signed oc sighash A s act act' \<Longrightarrow> chain_le s s' \<Longrightarrow> action_signed oc sighash A s' act act'"
  unfolding action_signed_def by (elim exE conjE) (intro exI conjI, assumption+, erule (1) authorized_stays)

lemma sign_actions_cases:
  assumes "sign_actions F S fill_bytes display oc sighash idx acts sim vs rng = (r, acts', sim', vs', rng')"
    and "chain_inv F (sim_state sim)" "mempool sim = []" "A = approving (to_list sighash) vs"
  shows "length acts' = length acts \<and> chain_le (sim_state sim) (sim_state sim') \<and>
    (r = Ok () \<longrightarrow> (\<forall>k < length acts. action_signed oc sighash A (sim_state sim') (acts ! k) (acts' ! k))) \<and>
    (\<forall>e. r = Err e \<longrightarrow> idx \<le> error_index e \<and> error_index e < idx + length acts \<and>
       (\<forall>k < error_index e - idx. action_signed oc sighash A (sim_state sim') (acts ! k) (acts' ! k)) \<and>
       (\<forall>k < length acts. error_index e - idx < k \<longrightarrow> acts' ! k = acts ! k))"
  using assms
proof (induction acts arbitrary: idx sim vs rng acts')
  case Nil
  then show ?case by (auto simp: chain_le_refl)
next
  case (Cons act acts)
  obtain r1 act1 sim1 vs1 rng1 where one: "sign_action F S fill_bytes display oc sighash idx act sim vs rng = (r1, act1, sim1, vs1, rng1)"
    by (metis prod_cases5)
  note step = sign_action_cases [OF one Cons.prems(2,3)]
  show ?case
  proof (cases r1)
    case (Ok u)
    obtain acts1 where rest: "sign_actions F S fill_bytes display oc sighash (Suc idx) acts sim1 vs1 rng1 = (r, acts1, sim', vs', rng')"
      and acts': "acts' = act1 # acts1"
      using Cons.prems(1) one Ok by (auto split: prod.splits)
    have "mempool sim1 = []" "A = approving (to_list sighash) vs1" "chain_inv F (sim_state sim1)"
      and le1: "chain_le (sim_state sim) (sim_state sim1)"
      and signed: "action_signed oc sighash A (sim_state sim1) act act1"
      using step Ok Cons.prems(4) by auto
    note IH = Cons.IH [OF rest this(3,1,2)]
    have first: "action_signed oc sighash A (sim_state sim') act act1" using action_signed_stays [OF signed] IH by blast
    have nth: "action_signed oc sighash A (sim_state sim') ((act # acts) ! k) (acts' ! k)"
      if "\<And>j. k = Suc j \<Longrightarrow> action_signed oc sighash A (sim_state sim') (acts ! j) (acts1 ! j)" for k
      using first that by (cases k) (auto simp: acts')
    have "chain_le (sim_state sim) (sim_state sim')" using chain_le_trans [OF le1] IH by blast
    moreover have "acts' ! k = (act # acts) ! k" if "r = Err e" "k < length (act # acts)" "error_index e - idx < k" for e k
      using IH that by (cases k) (auto simp: acts')
    ultimately show ?thesis using IH nth first by (auto simp: acts' less_Suc_eq_0_disj)
  next
    case (Err e)
    with Cons.prems(1) one step show ?thesis by (auto simp: nth_Cons')
  next
    case Panic
    with Cons.prems(1) one step show ?thesis by auto
  qed
qed

text \<open>
  C11. A bundle is signed action by action, each signature backed. On a reachable chain with an empty
  mempool, the signer keeps the number of actions. When it succeeds, every action carries a signature
  that Orchard accepted for the sighash, and the chain holds a completed request for the sighash and
  exactly that action's randomizer with this signature, whose participants are a threshold of
  validators that approve the sighash. When it fails, the error names the first action it could not
  sign: all actions before it are signed in this sense, and all actions after it are untouched.
\<close>

theorem bundle_signed:
  assumes chain: "reach (apply_tx F) default_state (sim_state sim)" "mempool sim = []"
    and run: "sign_pczt_orchard_bundle F S fill_bytes display oc acts sighash sim vs rng = (r, acts', sim', vs', rng')"
    and A: "A = node_identifier ` {v \<in> set vs. policy v (to_list sighash) = Ok ()}"
  shows "length acts' = length acts \<and>
    (r = Ok () \<longrightarrow> (\<forall>k < length acts. action_signed oc sighash A (sim_state sim') (acts ! k) (acts' ! k))) \<and>
    (\<forall>e. r = Err e \<longrightarrow> error_index e < length acts \<and>
       (\<forall>k < error_index e. action_signed oc sighash A (sim_state sim') (acts ! k) (acts' ! k)) \<and>
       (\<forall>k < length acts. error_index e < k \<longrightarrow> acts' ! k = acts ! k))"
  using sign_actions_cases [OF run [unfolded sign_pczt_orchard_bundle_def] reachable_inv [OF chain(1)] chain(2), of A] A
  by (simp add: approving_def)

text \<open>Two actions for the witness, numbered by their randomizers; the second has none.\<close>

definition toy_orchard :: "(nat option \<times> nat option, nat, nat, nat, 64 bytes) orchard_crate" where
  "toy_orchard = \<lparr>spend_alpha = fst, to_repr = (\<lambda>a. replicate a 0), randomizer_deserialize = (\<lambda>bs. Inr (length bs)),
     signature_serialize = (\<lambda>sg. Inr (replicate 64 (of_nat sg))), orchard_signature = id,
     apply_signature = (\<lambda>act h osig. (Inr (), (fst act, Some 1)))\<rparr>"

theorem bundle_signed_witness:
  "\<exists>e acts' sim' vs' rng'.
     sign_pczt_orchard_bundle toy_frost plain_signer (\<lambda>r. (bytes_fill 4, Suc r)) (\<lambda>e. ''rejected'') toy_orchard
       [(Some 7, None), (None, None)] (bytes_fill 9) group_sim (map plain_node [2, 1, 3]) 0 = (Err e, acts', sim', vs', rng') \<and>
     error_index e = 1 \<and>
     action_signed toy_orchard (bytes_fill 9) {1, 2, 3} (sim_state sim') (Some 7, None) (acts' ! 0)"
proof -
  let ?acts = "[(Some 7, None), (None, None)] :: (nat option \<times> nat option) list"
  let ?run = "sign_pczt_orchard_bundle toy_frost plain_signer (\<lambda>r. (bytes_fill 4, Suc r)) (\<lambda>e. ''rejected'') toy_orchard
       ?acts (bytes_fill 9) group_sim (map plain_node [2, 1, 3]) 0"
  from plain_session obtain sg sim' vs' rng' where d: "drive_signing_session toy_frost plain_signer
      (\<lambda>r. (bytes_fill 4, Suc r)) (\<lambda>e. ''rejected'') group_sim (map plain_node [2, 1, 3]) (bytes_fill 9) 7 0 = (Ok sg, sim', vs', rng')"
    by blast
  then have run: "?run = (Err (ActionMissingAlpha 1), [(Some 7, Some 1), (None, None)], sim', vs', rng')"
    by (simp add: sign_pczt_orchard_bundle_def sign_action_def toy_orchard_def to_orchard_def try_into_bytes_def)
  have mp: "mempool group_sim = []" by (simp add: group_sim_def sim_new_def sim_default_def)
  have "node_identifier (plain_node k) = k \<and> policy (plain_node k) m = Ok ()" for k m
    by (simp add: plain_node_def node_new_def accept_all_approve_def plain_signer_def toy_signer_def)
  then have "{1, 2, 3} = approving (to_list (bytes_fill 9 :: 32 bytes)) (map plain_node [2, 1, 3])" by auto
  then have "{1, 2, 3} = node_identifier ` {v \<in> set (map plain_node [2, 1, 3]). policy v (to_list (bytes_fill 9 :: 32 bytes)) = Ok ()}"
    unfolding approving_def .
  from bundle_signed [OF group_sim_reach mp run this] run show ?thesis by auto
qed

end
