(* ===== verification/Cli_Io.thy ===== *)
theory Cli_Io
  imports Escrow "HOL-Library.Sublist"
begin

text \<open>
  The terminal input and output of \<open>sapphire-cli/src/main.rs\<close>: \<open>prompt\<close> and \<open>prompt_u64\<close>,
  with what they use of the standard library (\<open>read_line\<close>, \<open>str::trim\<close>, \<open>u64::from_str\<close>).
  A Rust string is the list of the bytes of its UTF-8 encoding, each a \<open>char\<close>. The console is
  what \<open>read_line\<close> will return, call by call (a line or an I/O error; the empty string at the end of
  the input), and the text printed so far. A command is a function of the console; writing to the
  standard output does not fail.
\<close>

section \<open>Commands over the console\<close>

record console =
  stdin :: "(string + string) list"
  stdout :: string

datatype int_error_kind = Empty | InvalidDigit | PosOverflow

datatype cli_error =
    Io string
  | NotANumber string int_error_kind
  | Json string
  | UnknownAction string
  | Exit int

type_synonym 'a cli = "console \<Rightarrow> ('a, cli_error) result \<times> console"

definition cli_return :: "('a, cli_error) result \<Rightarrow> 'a cli" where
  "cli_return r = (\<lambda>c. (r, c))"

definition cli_bind :: "'a cli \<Rightarrow> ('a \<Rightarrow> 'b cli) \<Rightarrow> 'b cli" where
  "cli_bind m f = (\<lambda>c. case m c of (Ok x, c') \<Rightarrow> f x c' | (Err e, c') \<Rightarrow> (Err e, c') | (Panic, c') \<Rightarrow> (Panic, c'))"

definition cli_print :: "string \<Rightarrow> unit cli" where
  "cli_print s = (\<lambda>c. (Ok (), c\<lparr>stdout := stdout c @ s\<rparr>))"

abbreviation cli_println :: "string \<Rightarrow> unit cli" where
  "cli_println s \<equiv> cli_print (s @ [CHR 0x0A])"

lemma cli_bind_simps [simp]:
  "m c = (Ok x, c') \<Longrightarrow> cli_bind m f c = f x c'"
  "m c = (Err e, c') \<Longrightarrow> cli_bind m f c = (Err e, c')"
  "m c = (Panic, c') \<Longrightarrow> cli_bind m f c = (Panic, c')"
  by (simp_all add: cli_bind_def)

lemma cli_return_simp [simp]: "cli_return r c = (r, c)"
  by (simp add: cli_return_def)

lemma cli_print_simp [simp]: "cli_print s c = (Ok (), c\<lparr>stdout := stdout c @ s\<rparr>)"
  by (simp add: cli_print_def)

section \<open>The standard library\<close>

definition read_line :: "string cli" where
  "read_line = (\<lambda>c. case stdin c of
     [] \<Rightarrow> (Ok '''', c)
   | Inr line # rest \<Rightarrow> (Ok line, c\<lparr>stdin := rest\<rparr>)
   | Inl e # rest \<Rightarrow> (Err (Io e), c\<lparr>stdin := rest\<rparr>))"

text \<open>The UTF-8 encodings of the characters with the Unicode property \<open>White_Space\<close>.\<close>

definition white_space :: "string list" where
  "white_space =
     map (\<lambda>c. [c]) [CHR 0x09, CHR 0x0A, CHR 0x0B, CHR 0x0C, CHR 0x0D, CHR 0x20] @
     [[CHR 0xC2, CHR 0x85], [CHR 0xC2, CHR 0xA0], [CHR 0xE1, CHR 0x9A, CHR 0x80]] @
     map (\<lambda>c. [CHR 0xE2, CHR 0x80, c])
       [CHR 0x80, CHR 0x81, CHR 0x82, CHR 0x83, CHR 0x84, CHR 0x85, CHR 0x86, CHR 0x87, CHR 0x88, CHR 0x89,
        CHR 0x8A, CHR 0xA8, CHR 0xA9, CHR 0xAF] @
     [[CHR 0xE2, CHR 0x81, CHR 0x9F], [CHR 0xE3, CHR 0x80, CHR 0x80]]"

text \<open>Remove words of a list from the front as long as one is a prefix.\<close>

function strip_front :: "string list \<Rightarrow> string \<Rightarrow> string" where
  "strip_front ws s =
     (case find (\<lambda>w. w \<noteq> [] \<and> prefix w s) ws of None \<Rightarrow> s | Some w \<Rightarrow> strip_front ws (drop (length w) s))"
  by pat_completeness auto

termination
  by (relation "measure (\<lambda>(ws, s). length s)") (auto simp: find_Some_iff prefix_def)

declare strip_front.simps [simp del]

definition trim :: "string \<Rightarrow> string" where
  "trim s = rev (strip_front (map rev white_space) (rev (strip_front white_space s)))"

text \<open>\<open>u64::from_str\<close>: an optional plus sign and decimal digits, with every overflow detected.\<close>

definition to_digit :: "char \<Rightarrow> nat option" where
  "to_digit c = (let n = of_char c :: nat in if 48 \<le> n \<and> n < 58 then Some (n - 48) else None)"

fun digits_u64 :: "nat \<Rightarrow> string \<Rightarrow> (nat, int_error_kind) result" where
  "digits_u64 acc [] = Ok acc"
| "digits_u64 acc (c # cs) =
     (case to_digit c of
        None \<Rightarrow> Err InvalidDigit
      | Some d \<Rightarrow> if acc * 10 + d < 2 ^ 64 then digits_u64 (acc * 10 + d) cs else Err PosOverflow)"

definition parse_u64 :: "string \<Rightarrow> (u64, int_error_kind) result" where
  "parse_u64 s =
     (if s = [] then Err Empty
      else if s = ''+'' \<or> s = ''-'' then Err InvalidDigit
      else result_bind (digits_u64 0 (if hd s = CHR ''+'' then tl s else s)) (\<lambda>n. Ok (of_nat n)))"

section \<open>The prompts\<close>

definition prompt :: "string \<Rightarrow> string \<Rightarrow> string cli" where
  "prompt label dflt =
     cli_bind (cli_print (if dflt = [] then ''  '' @ label @ '': '' else ''  '' @ label @ '' ['' @ dflt @ '']: '')) (\<lambda>_.
     cli_bind read_line (\<lambda>line.
       let s = trim line in cli_return (Ok (if s = [] then dflt else s))))"

definition prompt_u64 :: "string \<Rightarrow> u64 \<Rightarrow> u64 cli" where
  "prompt_u64 label dflt =
     cli_bind (prompt label (show_nat (unat dflt))) (\<lambda>s.
       cli_return (map_err (NotANumber s) (parse_u64 s)))"

section \<open>Numbers are read as they are printed\<close>

lemma to_digit_char [simp]: "d < 10 \<Longrightarrow> to_digit (char_of (48 + d)) = Some d"
  by (simp add: to_digit_def)

lemma digits_append:
  "digits_u64 acc (xs @ ys) = result_bind (digits_u64 acc xs) (\<lambda>n. digits_u64 n ys)"
  by (induction xs arbitrary: acc) (auto split: option.splits)

lemma digits_show: "n < 2 ^ 64 \<Longrightarrow> digits_u64 0 (show_nat n) = Ok n"
proof (induction n rule: show_nat.induct)
  case (1 n)
  show ?case
  proof (cases "n < 10")
    case False
    with 1 have "digits_u64 0 (show_nat (n div 10)) = Ok (n div 10)" by simp
    with False "1.prems" show ?thesis
      by (simp add: show_nat.simps [of n] digits_append)
  qed (simp add: show_nat.simps [of n])
qed

lemma show_nat_head: "\<exists>(d :: nat) cs. d < 10 \<and> show_nat n = char_of (48 + d) # cs"
proof (induction n rule: show_nat.induct)
  case (1 n)
  show ?case
  proof (cases "n < 10")
    case False
    with 1 obtain d :: nat and cs where "d < 10" "show_nat (n div 10) = char_of (48 + d) # cs" by blast
    with False show ?thesis by (auto simp: show_nat.simps [of n])
  qed (auto simp: show_nat.simps [of n])
qed

lemma parse_show: "parse_u64 (show_nat (unat n)) = Ok n"
proof -
  from show_nat_head obtain d :: nat and cs where s: "d < 10" "show_nat (unat n) = char_of (48 + d) # cs" by blast
  have ne: "char_of (48 + d) \<noteq> x" if "to_digit x = None" for x
    using to_digit_char [OF s(1)] that by (metis option.distinct(1))
  have "char_of (48 + d) \<noteq> CHR ''+''" "char_of (48 + d) \<noteq> CHR ''-''"
    by (rule ne, simp add: to_digit_def)+
  moreover have "digits_u64 0 (show_nat (unat n)) = Ok (unat n)"
    using unsigned_less [of n] by (intro digits_show) simp
  ultimately show ?thesis using s by (simp add: parse_u64_def)
qed

end
