(* ===== verification/Cli_Oracle.thy ===== *)
theory Cli_Oracle
  imports Cli_Io Policy
begin

text \<open>
  The command \<open>oracle\<close> of \<open>sapphire-cli/src/main.rs\<close>: it asks for the terms of an escrow and for
  a release or a refund, runs the predicate of the escrow crate on the proposal, prints the verdict
  and exits with status 1 when the proposal is rejected. The JSON printers are the parameter
  record \<open>cli_json\<close>; SHA-256 and the hex encoder are those of the escrow theories.
\<close>

section \<open>The command\<close>

record 'j cli_json =
  pretty_terms :: "escrow_terms \<Rightarrow> string + string"
  pretty_leg :: "payment_leg \<Rightarrow> string + string"
  leg_value :: "payment_leg \<Rightarrow> string + 'j"
  intent_value :: "'j \<Rightarrow> string \<Rightarrow> 'j"
  pretty_value :: "'j \<Rightarrow> string + string"

definition arrow :: string where "arrow = [CHR 0xE2, CHR 0x86, CHR 0x92]"
definition em_dash :: string where "em_dash = [CHR 0xE2, CHR 0x80, CHR 0x94]"
definition heavy_check :: string where "heavy_check = [CHR 0xE2, CHR 0x9C, CHR 0x94]"
definition heavy_cross :: string where "heavy_cross = [CHR 0xE2, CHR 0x9C, CHR 0x98]"

abbreviation newline :: string where "newline \<equiv> [CHR 0x0A]"

text \<open>The question mark on a JSON result.\<close>

definition cli_json_try :: "string + 'a \<Rightarrow> 'a cli" where
  "cli_json_try x = cli_return (map_err Json (of_sum x))"

text \<open>\<open>String::as_bytes\<close> and \<open>String::into_bytes\<close>.\<close>

definition as_bytes :: "string \<Rightarrow> u8 list" where
  "as_bytes s = map of_char s"

definition print_verdict ::
  "'j cli_json \<Rightarrow> escrow_terms \<Rightarrow> string \<Rightarrow> (unit, escrow_error) result \<Rightarrow> unit cli" where
  "print_verdict js terms kind r =
     cli_bind (cli_println (newline @ ''-- escrow terms --'')) (\<lambda>_.
     cli_bind (cli_json_try (pretty_terms js terms)) (\<lambda>t.
     cli_bind (cli_println t) (\<lambda>_.
       case r of
         Ok _ \<Rightarrow> cli_println (newline @ ''  VERDICT: '' @ heavy_check @ '' ACCEPT '' @ em_dash @
           '' a validator would sign this '' @ kind @ ''.'')
       | Err e \<Rightarrow> cli_println (newline @ ''  VERDICT: '' @ heavy_cross @ '' REJECT '' @ em_dash @
           '' no signature. reason: '' @ escrow_error_display e)
       | Panic \<Rightarrow> cli_return Panic)))"

definition exit_if_rejected :: "(unit, escrow_error) result \<Rightarrow> unit cli" where
  "exit_if_rejected r = cli_return (case r of Err _ \<Rightarrow> Err (Exit 1) | _ \<Rightarrow> Ok ())"

definition oracle_release ::
  "(u8 list \<Rightarrow> 32 bytes) \<Rightarrow> hex_crate \<Rightarrow> 'j cli_json \<Rightarrow> escrow_terms \<Rightarrow> string \<Rightarrow> u64 \<Rightarrow> string \<Rightarrow> unit cli" where
  "oracle_release sha256 hx js terms payee_name amt secret =
     cli_bind (cli_println (newline @ ''-- assemble release --'')) (\<lambda>_.
     cli_bind (prompt ''pay to'' payee_name) (\<lambda>pay_to.
     cli_bind (prompt_u64 ''pay amount (zatoshis)'' amt) (\<lambda>pay_amount.
     cli_bind (prompt ''revealed preimage (witness)'' secret) (\<lambda>revealed.
     let si = \<lparr>si_payment = \<lparr>leg_amount = Zatoshis pay_amount, leg_to = Address pay_to\<rparr>,
               si_witness = as_bytes revealed\<rparr>;
         r = validate_settlement terms si (hash_preimage_verify sha256)
     in cli_bind (print_verdict js terms ''release'' r) (\<lambda>_.
        cli_bind (cli_json_try (leg_value js (si_payment si))) (\<lambda>payment_json.
        cli_bind (cli_println (newline @ ''  settlement intent ('' @ arrow @ '' leg A of the PCZT):'')) (\<lambda>_.
        cli_bind (cli_json_try (pretty_value js (intent_value js payment_json (hex_encode hx (si_witness si))))) (\<lambda>t.
        cli_bind (cli_println t) (\<lambda>_. exit_if_rejected r)))))))))"

definition oracle_refund ::
  "'j cli_json \<Rightarrow> escrow_terms \<Rightarrow> string \<Rightarrow> u64 \<Rightarrow> u64 \<Rightarrow> unit cli" where
  "oracle_refund js terms refund_name amt timeout =
     cli_bind (cli_println (newline @ ''-- assemble refund --'')) (\<lambda>_.
     cli_bind (prompt ''refund to'' refund_name) (\<lambda>pay_to.
     cli_bind (prompt_u64 ''refund amount (zatoshis)'' amt) (\<lambda>pay_amount.
     cli_bind (prompt_u64 ''current block height'' timeout) (\<lambda>current_height.
     let ri = \<lparr>ri_payment = \<lparr>leg_amount = Zatoshis pay_amount, leg_to = Address pay_to\<rparr>\<rparr>;
         r = validate_refund terms ri current_height
     in cli_bind (print_verdict js terms ''refund'' r) (\<lambda>_.
        cli_bind (cli_println (newline @ ''  refund intent:'')) (\<lambda>_.
        cli_bind (cli_json_try (pretty_leg js (ri_payment ri))) (\<lambda>t.
        cli_bind (cli_println t) (\<lambda>_. exit_if_rejected r))))))))"

definition cmd_oracle :: "(u8 list \<Rightarrow> 32 bytes) \<Rightarrow> hex_crate \<Rightarrow> 'j cli_json \<Rightarrow> unit cli" where
  "cmd_oracle sha256 hx js =
     cli_bind (cli_println ''== Sapphire oracle: escrow settlement builder =='') (\<lambda>_.
     cli_bind (cli_println (''   Proposes a release/refund; Sapphire validators re-check it before signing.'' @ newline)) (\<lambda>_.
     cli_bind (cli_println ''-- escrow terms (the binding reference funds were locked under) --'') (\<lambda>_.
     cli_bind (prompt_u64 ''escrowed amount (zatoshis)'' 800000000) (\<lambda>amt.
     cli_bind (prompt ''payee (release recipient)'' ''u_alice'') (\<lambda>payee_name.
     cli_bind (prompt ''refund recipient'' ''u_bob'') (\<lambda>refund_name.
     cli_bind (prompt_u64 ''timeout height'' 1000) (\<lambda>timeout.
     cli_bind (cli_println (newline @ ''-- release condition: hash-preimage (HTLC) --'')) (\<lambda>_.
     cli_bind (prompt ''lock secret (preimage the escrow commits to)'' ''open sesame'') (\<lambda>secret.
     let dg = digest sha256 (as_bytes secret);
         terms = \<lparr>escrow_id = bytes_fill 7, amount = Zatoshis amt, payee = Address payee_name,
           refund_to = Address refund_name, timeout_height = timeout, condition = to_list dg\<rparr>
     in cli_bind (cli_println (''  '' @ arrow @ '' condition (sha256 digest): '' @ hex_encode hx (to_list dg))) (\<lambda>_.
        cli_bind (cli_println (newline @ ''-- which settlement is the oracle proposing? --'')) (\<lambda>_.
        cli_bind (prompt ''action (release / refund)'' ''release'') (\<lambda>act.
          if act = ''release'' then oracle_release sha256 hx js terms payee_name amt secret
          else if act = ''refund'' then oracle_refund js terms refund_name amt timeout
          else cli_return (Err (UnknownAction act))))))))))))))"

section \<open>What the answers propose\<close>

text \<open>The \<open>k\<close>-th answer, or the default when it is blank or the input has ended.\<close>

definition reply :: "string list \<Rightarrow> nat \<Rightarrow> string \<Rightarrow> string" where
  "reply ls k dflt = (let s = trim (if k < length ls then ls ! k else '''') in if s = [] then dflt else s)"

definition reply_u64 :: "string list \<Rightarrow> nat \<Rightarrow> u64 \<Rightarrow> (u64, cli_error) result" where
  "reply_u64 ls k dflt =
     (let s = reply ls k (show_nat (unat dflt)) in map_err (NotANumber s) (parse_u64 s))"

datatype proposal = Release "u8 list settlement_intent" | Refund refund_intent u64

definition proposed ::
  "(u8 list \<Rightarrow> 32 bytes) \<Rightarrow> string list \<Rightarrow> (escrow_terms \<times> proposal, cli_error) result" where
  "proposed sha256 ls =
     result_bind (reply_u64 ls 0 800000000) (\<lambda>amt.
     result_bind (reply_u64 ls 3 1000) (\<lambda>timeout.
       let payee_name = reply ls 1 ''u_alice''; refund_name = reply ls 2 ''u_bob'';
           secret = reply ls 4 ''open sesame''; act = reply ls 5 ''release'';
           terms = \<lparr>escrow_id = bytes_fill 7, amount = Zatoshis amt, payee = Address payee_name,
             refund_to = Address refund_name, timeout_height = timeout,
             condition = to_list (digest sha256 (as_bytes secret))\<rparr>
       in if act = ''release'' then
            result_bind (reply_u64 ls 7 amt) (\<lambda>pay.
              Ok (terms, Release \<lparr>si_payment = \<lparr>leg_amount = Zatoshis pay, leg_to = Address (reply ls 6 payee_name)\<rparr>,
                si_witness = as_bytes (reply ls 8 secret)\<rparr>))
          else if act = ''refund'' then
            result_bind (reply_u64 ls 7 amt) (\<lambda>pay.
            result_bind (reply_u64 ls 8 timeout) (\<lambda>height.
              Ok (terms, Refund \<lparr>ri_payment = \<lparr>leg_amount = Zatoshis pay, leg_to = Address (reply ls 6 refund_name)\<rparr>\<rparr> height)))
          else Err (UnknownAction act)))"

section \<open>What a command computes from the answers\<close>

text \<open>The command returns \<open>r\<close> when the answers from the \<open>k\<close>-th on are still to be read.\<close>

definition yields :: "string list \<Rightarrow> nat \<Rightarrow> 'a cli \<Rightarrow> ('a, cli_error) result \<Rightarrow> bool" where
  "yields ls k m r \<longleftrightarrow> (\<forall>c. stdin c = map Inr (drop k ls) \<longrightarrow> fst (m c) = r)"

named_theorems yields_rules \<open>how the results of commands compose\<close>

lemma yields_return [yields_rules]: "yields ls k (cli_return r) r"
  by (simp add: yields_def)

lemma yields_if:
  "yields ls k m r \<Longrightarrow> yields ls k m' r' \<Longrightarrow> yields ls k (if b then m else m') (if b then r else r')"
  by simp

lemma yields_print [yields_rules]: "yields ls k (f ()) r \<Longrightarrow> yields ls k (cli_bind (cli_print s) f) r"
  by (simp add: yields_def)

lemma yields_json [yields_rules]:
  "yields ls k (f x) r \<Longrightarrow> yields ls k (cli_bind (cli_json_try (Inr x)) f) r"
  by (simp add: yields_def cli_json_try_def)

lemma prompt_reply:
  assumes "stdin c = map Inr (drop k ls)"
  shows "\<exists>c'. prompt label dflt c = (Ok (reply ls k dflt), c') \<and> stdin c' = map Inr (drop (Suc k) ls)"
proof (cases "k < length ls")
  case True
  then have "drop k ls = ls ! k # drop (Suc k) ls" by (simp add: Cons_nth_drop_Suc)
  with assms True show ?thesis
    by (simp add: prompt_def cli_bind_def read_line_def reply_def Let_def)
next
  case False
  with assms show ?thesis by (simp add: prompt_def cli_bind_def read_line_def reply_def Let_def)
qed

lemma yields_prompt [yields_rules]:
  "yields ls (Suc k) (f (reply ls k dflt)) r \<Longrightarrow> yields ls k (cli_bind (prompt label dflt) f) r"
  unfolding yields_def by (metis cli_bind_simps(1) prompt_reply)

lemma yields_prompt_u64 [yields_rules]:
  assumes "\<And>v. yields ls (Suc k) (f v) (g v)"
  shows "yields ls k (cli_bind (prompt_u64 label dflt) f) (result_bind (reply_u64 ls k dflt) g)"
  unfolding yields_def
proof (intro allI impI)
  fix c :: console assume "stdin c = map Inr (drop k ls)"
  then obtain c' where c: "prompt label (show_nat (unat dflt)) c = (Ok (reply ls k (show_nat (unat dflt))), c')"
    "stdin c' = map Inr (drop (Suc k) ls)" using prompt_reply by blast
  then have "prompt_u64 label dflt c = (reply_u64 ls k dflt, c')"
    by (simp add: prompt_u64_def reply_u64_def Let_def)
  with c(2) assms show "fst (cli_bind (prompt_u64 label dflt) f c) = result_bind (reply_u64 ls k dflt) g"
    unfolding yields_def by (cases "reply_u64 ls k dflt") auto
qed

text \<open>The JSON printers do not fail on the values of the command.\<close>

definition json_prints :: "'j cli_json \<Rightarrow> bool" where
  "json_prints js \<longleftrightarrow> (\<forall>t. \<exists>s. pretty_terms js t = Inr s) \<and> (\<forall>l. \<exists>s. pretty_leg js l = Inr s) \<and>
     (\<forall>l. \<exists>v. leg_value js l = Inr v) \<and> (\<forall>v. \<exists>s. pretty_value js v = Inr s)"

lemma yields_verdict [yields_rules]:
  assumes "json_prints js" "v \<noteq> Panic" "yields ls k (f ()) r"
  shows "yields ls k (cli_bind (print_verdict js terms kind v) f) r"
proof -
  from assms(1) obtain s where "pretty_terms js terms = Inr s" unfolding json_prints_def by blast
  with assms(2,3) show ?thesis
    by (cases v) (auto simp: yields_def print_verdict_def cli_json_try_def cli_bind_def)
qed

lemma exit_yields: "yields ls k (exit_if_rejected v) (if is_ok v then Ok () else Err (Exit 1))" if "v \<noteq> Panic"
  using that by (cases v) (simp_all add: exit_if_rejected_def yields_def)

lemma release_yields:
  assumes "json_prints js"
  shows "yields ls k (oracle_release sha256 hx js terms payee_name amt secret)
    (result_bind (reply_u64 ls (Suc k) amt) (\<lambda>pay.
      if is_ok (validate_settlement terms
          \<lparr>si_payment = \<lparr>leg_amount = Zatoshis pay, leg_to = Address (reply ls k payee_name)\<rparr>,
           si_witness = as_bytes (reply ls (Suc (Suc k)) secret)\<rparr> (hash_preimage_verify sha256))
      then Ok () else Err (Exit 1)))"
proof -
  from assms obtain lv pv where j: "\<And>l. leg_value js l = Inr (lv l)" "\<And>v. pretty_value js v = Inr (pv v)"
    unfolding json_prints_def by metis
  show ?thesis unfolding oracle_release_def Let_def j
    by (intro yields_rules assms exit_yields no_panic)
qed

lemma refund_yields:
  assumes "json_prints js"
  shows "yields ls k (oracle_refund js terms refund_name amt timeout)
    (result_bind (reply_u64 ls (Suc k) amt) (\<lambda>pay.
     result_bind (reply_u64 ls (Suc (Suc k)) timeout) (\<lambda>height.
      if is_ok (validate_refund terms
          \<lparr>ri_payment = \<lparr>leg_amount = Zatoshis pay, leg_to = Address (reply ls k refund_name)\<rparr>\<rparr> height)
      then Ok () else Err (Exit 1))))"
proof -
  from assms obtain pl where j: "\<And>l. pretty_leg js l = Inr (pl l)" unfolding json_prints_def by metis
  show ?thesis unfolding oracle_refund_def Let_def j
    by (intro yields_rules assms exit_yields no_panic)
qed

text \<open>What the verdict stands for: for a release, that a validator whose policy holds the terms approves the
  encoded proposal; for a refund, no validator's policy, only that the height has reached the timeout and
  the payment is the escrowed amount to the refund address.\<close>

fun verdict_accepts ::
  "(u8 list \<Rightarrow> string + u8 list release_proposal) \<Rightarrow> (u8 list release_proposal \<Rightarrow> u8 list) \<Rightarrow> hex_crate \<Rightarrow>
   (u8 list \<Rightarrow> 32 bytes) \<Rightarrow> escrow_terms \<times> proposal \<Rightarrow> bool" where
  "verdict_accepts from_slice to_vec hx sha256 (terms, Release si) \<longleftrightarrow>
     escrow_approve from_slice hx (with_escrow (escrow_policy_new (hash_preimage_verify sha256)) terms)
       (to_vec \<lparr>proposal_escrow_id = escrow_id terms, intent = si\<rparr>) = Ok ()"
| "verdict_accepts from_slice to_vec hx sha256 (terms, Refund ri height) \<longleftrightarrow>
     timeout_height terms \<le> height \<and> ri_payment ri = \<lparr>leg_amount = amount terms, leg_to = refund_to terms\<rparr>"

lemma accept_release:
  assumes "\<forall>p. from_slice (to_vec p) = Inr p"
  shows "verdict_accepts from_slice to_vec hx sha256 (terms, Release si) \<longleftrightarrow>
    is_ok (validate_settlement terms si (hash_preimage_verify sha256))"
  using assms by (simp add: escrow_approve_def with_escrow_def escrow_policy_new_def is_ok_iff)

lemma accept_refund:
  "verdict_accepts from_slice to_vec hx sha256 (terms, Refund ri height) \<longleftrightarrow> is_ok (validate_refund terms ri height)"
  by (simp add: is_ok_iff refund_Ok)

text \<open>The policy approves no payment to anyone but the payee.\<close>

lemma policy_pays_payee:
  "escrow_approve from_slice hx (with_escrow (escrow_policy_new verify) terms) msg = Ok () \<Longrightarrow> from_slice msg = Inr p \<Longrightarrow>
   leg_to (si_payment (intent p)) = payee terms"
  by (auto simp: escrow_approve_Ok with_escrow_def escrow_policy_new_def split: if_splits)

lemma oracle_yields:
  assumes "\<forall>p. from_slice (to_vec p) = Inr p" "json_prints js"
  shows "yields ls 0 (cmd_oracle sha256 hx js) (result_bind (proposed sha256 ls) (\<lambda>p.
    if verdict_accepts from_slice to_vec hx sha256 p then Ok () else Err (Exit 1)))"
  unfolding proposed_def result_bind_assoc result_bind_if cmd_oracle_def Let_def eval_nat_numeral One_nat_def
    BitM.simps result_bind_simps accept_release [OF assms(1)] accept_refund
  by (intro yields_rules yields_if release_yields refund_yields assms)

lemma default_reply:
  assumes "\<forall>k < length ls. trim (ls ! k) = []"
  shows "reply ls k dflt = dflt" "reply_u64 ls k n = Ok n"
proof -
  have "trim [] = []" by (simp add: trim_def strip_front.simps white_space_def)
  with assms show r: "reply ls k dflt = dflt" for dflt by (simp add: reply_def)
  show "reply_u64 ls k n = Ok n" by (simp add: reply_u64_def r parse_show)
qed

text \<open>
  C22. The verdict of the oracle. Whatever is typed, the command ends without a panic, with an error
  for the first number that does not parse or for an unknown action, and otherwise with success or, for
  a rejected proposal, exit status 1. A release succeeds exactly when a validator that holds the entered
  terms would approve the encoded proposal. A refund succeeds exactly when the entered height has
  reached the timeout and it pays the escrowed amount to the refund address; no validator stands behind
  that verdict: if the refund address is not the payee, the policy of a validator with these terms
  approves no message whatsoever that makes the payment of an accepted refund. Answering every question
  with its default proposes a release that is accepted.
\<close>

theorem oracle_verdict:
  assumes "\<forall>p. from_slice (to_vec p) = Inr p" "json_prints js" "stdin c = map Inr ls"
  shows "fst (cmd_oracle sha256 hx js c) =
      result_bind (proposed sha256 ls) (\<lambda>p.
        if verdict_accepts from_slice to_vec hx sha256 p then Ok () else Err (Exit 1)) \<and>
    (\<forall>terms ri height msg p. proposed sha256 ls = Ok (terms, Refund ri height) \<and>
       fst (cmd_oracle sha256 hx js c) = Ok () \<and> payee terms \<noteq> refund_to terms \<and>
       from_slice msg = Inr p \<and> si_payment (intent p) = ri_payment ri \<longrightarrow>
       escrow_approve from_slice hx (with_escrow (escrow_policy_new (hash_preimage_verify sha256)) terms) msg \<noteq> Ok ()) \<and>
    ((\<forall>k < length ls. trim (ls ! k) = []) \<longrightarrow> fst (cmd_oracle sha256 hx js c) = Ok ())"
proof -
  have c: "stdin c = map Inr (drop 0 ls)" using assms(3) by simp
  have eq: "fst (cmd_oracle sha256 hx js c) = result_bind (proposed sha256 ls) (\<lambda>p.
      if verdict_accepts from_slice to_vec hx sha256 p then Ok () else Err (Exit 1))"
    using oracle_yields [OF assms(1,2), unfolded yields_def, rule_format, OF c] .
  moreover have "fst (cmd_oracle sha256 hx js c) = Ok ()" if "\<forall>k < length ls. trim (ls ! k) = []"
    unfolding eq by (simp add: proposed_def Let_def default_reply [OF that] accept_release [OF assms(1)] is_ok_iff settlement_Ok
        hash_preimage_verify_def del: verdict_accepts.simps)
  moreover have "escrow_approve from_slice hx (with_escrow (escrow_policy_new (hash_preimage_verify sha256)) terms) msg \<noteq> Ok ()"
    if "proposed sha256 ls = Ok (terms, Refund ri height)" "fst (cmd_oracle sha256 hx js c) = Ok ()"
      "payee terms \<noteq> refund_to terms" "from_slice msg = Inr p" "si_payment (intent p) = ri_payment ri" for terms ri height msg p
  proof
    assume "escrow_approve from_slice hx (with_escrow (escrow_policy_new (hash_preimage_verify sha256)) terms) msg = Ok ()"
    then have "leg_to (si_payment (intent p)) = payee terms" using that(4) by (rule policy_pays_payee)
    moreover have "ri_payment ri = \<lparr>leg_amount = amount terms, leg_to = refund_to terms\<rparr>"
      using that(1,2) by (simp add: eq split: if_splits)
    ultimately show False using that(3,5) by simp
  qed
  ultimately show ?thesis by blast
qed

section \<open>A run of the oracle\<close>

definition plain_json :: "string cli_json" where
  "plain_json = \<lparr>pretty_terms = (\<lambda>t. Inr ''terms''), pretty_leg = (\<lambda>l. Inr ''leg''), leg_value = (\<lambda>l. Inr ''leg''),
     intent_value = (\<lambda>v w. v @ w), pretty_value = Inr\<rparr>"

lemma plain_json_prints: "json_prints plain_json"
  by (simp add: json_prints_def plain_json_def)

text \<open>A codec of release proposals: the identifier, the amount and the length of the payee's address in
  unary, the address and the witness.\<close>

definition plain_encode :: "u8 list release_proposal \<Rightarrow> u8 list" where
  "plain_encode p = (case (leg_amount (si_payment (intent p)), leg_to (si_payment (intent p))) of
     (Zatoshis z, Address a) \<Rightarrow>
       to_list (proposal_escrow_id p) @ replicate (unat z) 0 @ 1 # replicate (length a) 0 @ 1 #
       map of_char a @ si_witness (intent p))"

definition plain_decode :: "u8 list \<Rightarrow> string + u8 list release_proposal" where
  "plain_decode bs = (let r = drop 32 bs; n = length (takeWhile (\<lambda>b. b = 0) r); r1 = drop (Suc n) r;
      k = length (takeWhile (\<lambda>b. b = 0) r1); r2 = drop (Suc k) r1
    in Inr \<lparr>proposal_escrow_id = Bytes (take 32 bs), intent = \<lparr>si_payment =
      \<lparr>leg_amount = Zatoshis (of_nat n), leg_to = Address (map (\<lambda>b. char_of (unat b)) (take k r2))\<rparr>, si_witness = drop k r2\<rparr>\<rparr>)"

lemma plain_codec: "plain_decode (plain_encode p) = Inr p"
proof -
  obtain z a where p: "leg_amount (si_payment (intent p)) = Zatoshis z" "leg_to (si_payment (intent p)) = Address a"
    by (metis address.exhaust zatoshis.exhaust)
  have tw: "takeWhile (\<lambda>b. b = 0) (replicate n (0 :: u8) @ 1 # ys) = replicate n 0" for n ys
    by (simp add: takeWhile_append)
  have "unat (of_char c :: u8) = of_char c" for c
  proof -
    have "(of_char c :: nat) < 256" by simp
    moreover have "(of_char c :: u8) = of_nat (of_char c)" by (simp only: of_nat_of_char)
    ultimately show ?thesis by (simp only: unat_of_nat) simp
  qed
  then have ch: "map ((\<lambda>b. char_of (unat b)) \<circ> (of_char :: char \<Rightarrow> u8)) a = a" by (intro map_idI) simp
  have leg: "si_payment (intent p) = \<lparr>leg_amount = Zatoshis z, leg_to = Address a\<rparr>" using p by simp
  have "p = \<lparr>proposal_escrow_id = proposal_escrow_id p, intent =
      \<lparr>si_payment = \<lparr>leg_amount = Zatoshis z, leg_to = Address a\<rparr>, si_witness = si_witness (intent p)\<rparr>\<rparr>"
    by (simp flip: leg)
  then show ?thesis
    by (simp add: plain_decode_def plain_encode_def p Let_def tw ch to_list_inverse)
qed

theorem oracle_verdict_witness:
  "fst (cmd_oracle sample_sha plain_hex plain_json \<lparr>stdin = [Inr [], Inr '' ''], stdout = []\<rparr>) = Ok () \<and>
   fst (cmd_oracle sample_sha plain_hex plain_json
     \<lparr>stdin = map Inr ([[], [], [], [], [], [], ''u_bob'']), stdout = []\<rparr>) = Err (Exit 1)"
proof -
  let ?ls = "[[], [], [], [], [], [], ''u_bob'']"
  have blank: "trim [] = []" "trim '' '' = []" and name: "trim ''u_bob'' = ''u_bob''"
    by (simp_all add: trim_def strip_front.simps white_space_def)
  have codec: "\<forall>p. plain_decode (plain_encode p) = Inr p" by (simp add: plain_codec)
  have "fst (cmd_oracle sample_sha plain_hex plain_json \<lparr>stdin = map Inr [[], '' ''], stdout = []\<rparr>) = Ok ()"
    using oracle_verdict [OF codec plain_json_prints, of _ "[[], '' '']" sample_sha plain_hex, THEN conjunct2,
        THEN conjunct2] blank
    by (simp add: less_Suc_eq)
  moreover have "reply_u64 ?ls k n = Ok n" if "k = 0 \<or> k = 3 \<or> k = 7" for k n
    using that blank by (auto simp: reply_u64_def reply_def parse_show)
  then obtain t si where p: "proposed sample_sha ?ls = Ok (t, Release si)" "payee t = Address ''u_alice''"
      "leg_to (si_payment si) = Address ''u_bob''"
    using blank name by (simp add: proposed_def reply_def Let_def)
  then have "\<not> verdict_accepts plain_decode plain_encode plain_hex sample_sha (t, Release si)"
    by (auto simp: accept_release [OF codec] is_ok_iff settlement_Ok simp del: verdict_accepts.simps)
  then have "fst (cmd_oracle sample_sha plain_hex plain_json \<lparr>stdin = map Inr ?ls, stdout = []\<rparr>) = Err (Exit 1)"
    using oracle_verdict [OF codec plain_json_prints, of "\<lparr>stdin = map Inr ?ls, stdout = []\<rparr>" ?ls sample_sha plain_hex,
        THEN conjunct1] p(1)
    by (simp del: verdict_accepts.simps)
  ultimately show ?thesis by simp
qed

end
