(* ===== verification/Cli_Demo.thy ===== *)
theory Cli_Demo
  imports Zcash_Live Cli_Oracle
begin

text \<open>
  The command \<open>escrow-demo\<close> of \<open>sapphire-cli/src/main.rs\<close>: key generation over the chain, then
  the generated validators, each with an escrow policy of its own, sign a release that matches the
  terms and refuse one that was tampered with. Printing is left out. The random scalar, the JSON
  codec of the proposals and the signature functions are the fields of the parameter record
  \<open>demo_crate\<close>. An error ends the command, so the state is returned with a success only.
\<close>

section \<open>The command\<close>

record ('rz, 'rp, 'sg, 'g) demo_crate =
  random_randomizer :: "'g \<Rightarrow> 'rz \<times> 'g"
  proposal_to_vec :: "u8 list release_proposal \<Rightarrow> string + u8 list"
  proposal_from_slice :: "u8 list \<Rightarrow> string + u8 list release_proposal"
  verify_randomized :: "'rp \<Rightarrow> u8 list \<Rightarrow> 'sg \<Rightarrow> string + unit"
  signature_bytes :: "'sg \<Rightarrow> string + u8 list"

datatype ('i, 'cm, 'sp, 'sh, 'sg) demo_error =
    DemoParams error
  | DemoDkg drive_error
  | DemoReact error
  | DemoJson string
  | VerificationFailed string
  | Serializing string
  | ExpectedCompleted "('i, 'cm, 'sp, 'sh, 'sg) request_status"
  | TamperedProgressed "('i, 'cm, 'sp, 'sh, 'sg) request_status"

definition demo_secret :: "u8 list" where
  "demo_secret = as_bytes ''parcel #4417 delivered''"

definition demo_terms :: "(u8 list \<Rightarrow> 32 bytes) \<Rightarrow> escrow_terms" where
  "demo_terms sha256 = \<lparr>escrow_id = bytes_fill 0x5a, amount = Zatoshis 800000000, payee = Address ''u_alice'',
     refund_to = Address ''u_bob'', timeout_height = 1000, condition = to_list (digest sha256 demo_secret)\<rparr>"

definition demo_proposal :: "(u8 list \<Rightarrow> 32 bytes) \<Rightarrow> string \<Rightarrow> u8 list release_proposal" where
  "demo_proposal sha256 pay_to = \<lparr>proposal_escrow_id = escrow_id (demo_terms sha256),
     intent = \<lparr>si_payment = \<lparr>leg_amount = Zatoshis 800000000, leg_to = Address pay_to\<rparr>, si_witness = demo_secret\<rparr>\<rparr>"

text \<open>The policy of every validator.\<close>

definition demo_approve :: "(u8 list \<Rightarrow> string + u8 list release_proposal) \<Rightarrow> hex_crate \<Rightarrow> (u8 list \<Rightarrow> 32 bytes) \<Rightarrow> approve_fn" where
  "demo_approve from_slice hx sha256 =
     escrow_approve from_slice hx (with_escrow (escrow_policy_new (hash_preimage_verify sha256)) (demo_terms sha256))"

fun demo_nodes ::
  "('i, 'kp, 'ss, 'nc, 'cm, 'sp, 'rz, 'sh, 'g) frost_signer \<Rightarrow> approve_fn \<Rightarrow>
   ('i, 'sk, 's1, 's2, 'kp, 'pkp) dkg_participant list \<Rightarrow> (('i, 'kp, 'pkp, 'nc) node list, 'e) result" where
  "demo_nodes S approve [] = Ok []"
| "demo_nodes S approve (p # ps) =
     (case into_node S p of
        Ok n \<Rightarrow> result_bind (demo_nodes S approve ps) (\<lambda>ns. Ok (with_policy n approve # ns))
      | _ \<Rightarrow> Panic)"

text \<open>A request and its block.\<close>

definition demo_request ::
  "('i::linorder, 'pkp, 'vk, 'vs, 'cm, 'rz, 'rp, 'sp, 'sh, 'sg) frost \<Rightarrow> ('g \<Rightarrow> 16 bytes \<times> 'g) \<Rightarrow>
   ('i, 'pkp, 'p1, 'cm, 'rz, 'sp, 'sh, 'sg) chain_sim \<Rightarrow> u8 list \<Rightarrow> 'rz \<Rightarrow> 'g \<Rightarrow>
   (uuid \<times> ('i, 'pkp, 'p1, 'cm, 'rz, 'sp, 'sh, 'sg) chain_sim \<times> 'g, 'e) result" where
  "demo_request F fill_bytes sim msg rz rng =
     (let (rid, rng') = uuid_new fill_bytes rng in
      case commit_block F (submit sim (SubmitRequest rid msg rz)) of
        Ok (sim', results) \<Rightarrow> Ok (rid, sim', rng')
      | _ \<Rightarrow> Panic)"

text \<open>Every validator reacts to the chain, and the block of what they submit.\<close>

definition demo_round ::
  "('i::linorder, 'pkp, 'vk, 'vs, 'cm, 'rz, 'rp, 'sp, 'sh, 'sg) frost \<Rightarrow>
   ('i, 'kp, 'ss, 'nc, 'cm, 'sp, 'rz, 'sh, 'g) frost_signer \<Rightarrow>
   ('i, 'pkp, 'p1, 'cm, 'rz, 'sp, 'sh, 'sg) chain_sim \<Rightarrow> ('i, 'kp, 'pkp, 'nc) node list \<Rightarrow> 'g \<Rightarrow>
   (('i, 'pkp, 'p1, 'cm, 'rz, 'sp, 'sh, 'sg) chain_sim \<times> ('i, 'kp, 'pkp, 'nc) node list \<times> 'g,
    ('i, 'cm, 'sp, 'sh, 'sg) demo_error) result" where
  "demo_round F S sim nodes rng =
     (case validators_react S sim rng False nodes of
        (Ok _, sim', nodes', rng') \<Rightarrow>
          (case commit_block F sim' of Ok (sim'', results) \<Rightarrow> Ok (sim'', nodes', rng') | _ \<Rightarrow> Panic)
      | (Err e, _) \<Rightarrow> Err (DemoReact e)
      | (Panic, _) \<Rightarrow> Panic)"

definition demo_setup ::
  "(u16 \<Rightarrow> 'i option) \<Rightarrow> ('sk, 'pk, 'box, 'g, 'o) cbox_crate \<Rightarrow>
   ('i::linorder, 's1, 'p1, 's2, 'p2, 'kp, 'pkp, 'g) frost_dkg \<Rightarrow>
   ('i, 'pkp, 'vk, 'vs, 'cm, 'rz, 'rp, 'sp, 'sh, 'sg) frost \<Rightarrow>
   ('i, 'kp, 'ss, 'nc, 'cm, 'sp, 'rz, 'sh, 'g) frost_signer \<Rightarrow> approve_fn \<Rightarrow> u16 \<Rightarrow> u16 \<Rightarrow> 'g \<Rightarrow> 'o \<Rightarrow>
   ('pkp \<times> ('i, 'pkp, 'p1, 'cm, 'rz, 'sp, 'sh, 'sg) chain_sim \<times> ('i, 'kp, 'pkp, 'nc) node list \<times> 'g,
    ('i, 'cm, 'sp, 'sh, 'sg) demo_error) result" where
  "demo_setup id_of cb D F S approve t n rng os =
     result_bind (map_err DemoParams (mpc_params_new t n)) (\<lambda>params.
     result_bind (make_participants id_of cb rng (one_to n)) (\<lambda>(ps, rng1).
     result_bind (map_err DemoDkg (run_dkg F D cb params rng1 os ps)) (\<lambda>(sim, ps', rng2, _).
     result_bind (expect (group (sim_state sim))) (\<lambda>g.
     result_bind (demo_nodes S approve ps') (\<lambda>nodes. Ok (g_pkp g, sim, nodes, rng2))))))"

definition demo_release ::
  "('i::linorder, 'pkp, 'vk, 'vs, 'cm, 'rz, 'rp, 'sp, 'sh, 'sg) frost \<Rightarrow>
   ('i, 'kp, 'ss, 'nc, 'cm, 'sp, 'rz, 'sh, 'g) frost_signer \<Rightarrow> ('rz, 'rp, 'sg, 'g) demo_crate \<Rightarrow>
   ('g \<Rightarrow> 16 bytes \<times> 'g) \<Rightarrow> (u8 list \<Rightarrow> 32 bytes) \<Rightarrow> 'pkp \<Rightarrow> 'rz \<Rightarrow>
   ('i, 'pkp, 'p1, 'cm, 'rz, 'sp, 'sh, 'sg) chain_sim \<Rightarrow> ('i, 'kp, 'pkp, 'nc) node list \<Rightarrow> 'g \<Rightarrow>
   (uuid \<times> ('i, 'pkp, 'p1, 'cm, 'rz, 'sp, 'sh, 'sg) chain_sim \<times> ('i, 'kp, 'pkp, 'nc) node list \<times> 'g,
    ('i, 'cm, 'sp, 'sh, 'sg) demo_error) result" where
  "demo_release F S Z fill_bytes sha256 pkp rz sim nodes rng =
     result_bind (map_err DemoJson (of_sum (proposal_to_vec Z (demo_proposal sha256 ''u_alice'')))) (\<lambda>good_msg.
     result_bind (demo_request F fill_bytes sim good_msg rz rng) (\<lambda>(good_id, sim1, rng1).
     result_bind (demo_round F S sim1 nodes rng1) (\<lambda>(sim2, nodes2, rng2).
     result_bind (demo_round F S sim2 nodes2 rng2) (\<lambda>(sim3, nodes3, rng3).
     result_bind (expect (bt_get (requests (sim_state sim3)) good_id)) (\<lambda>entry.
       case status entry of
         Completed participants signature \<Rightarrow>
           result_bind (map_err VerificationFailed (of_sum (verify_randomized Z
               (from_randomizer F (verifying_key F pkp) rz) good_msg signature))) (\<lambda>_.
           result_bind (map_err Serializing (of_sum (signature_bytes Z signature))) (\<lambda>_.
             Ok (good_id, sim3, nodes3, rng3)))
       | other \<Rightarrow> Err (ExpectedCompleted other))))))"

definition demo_reject ::
  "('i::linorder, 'pkp, 'vk, 'vs, 'cm, 'rz, 'rp, 'sp, 'sh, 'sg) frost \<Rightarrow>
   ('i, 'kp, 'ss, 'nc, 'cm, 'sp, 'rz, 'sh, 'g) frost_signer \<Rightarrow> ('rz, 'rp, 'sg, 'g) demo_crate \<Rightarrow>
   ('g \<Rightarrow> 16 bytes \<times> 'g) \<Rightarrow> (u8 list \<Rightarrow> 32 bytes) \<Rightarrow> 'rz \<Rightarrow>
   ('i, 'pkp, 'p1, 'cm, 'rz, 'sp, 'sh, 'sg) chain_sim \<Rightarrow> ('i, 'kp, 'pkp, 'nc) node list \<Rightarrow> 'g \<Rightarrow>
   (unit, ('i, 'cm, 'sp, 'sh, 'sg) demo_error) result" where
  "demo_reject F S Z fill_bytes sha256 rz sim nodes rng =
     result_bind (map_err DemoJson (of_sum (proposal_to_vec Z (demo_proposal sha256 ''u_attacker'')))) (\<lambda>bad_msg.
     result_bind (demo_request F fill_bytes sim bad_msg rz rng) (\<lambda>(bad_id, sim1, rng1).
     result_bind (demo_round F S sim1 nodes rng1) (\<lambda>(sim2, nodes2, rng2).
     result_bind (expect (bt_get (requests (sim_state sim2)) bad_id)) (\<lambda>entry.
       case status entry of
         AwaitingCommitments commitments \<Rightarrow>
           if bt_len commitments = 0 then Ok () else Err (TamperedProgressed (status entry))
       | other \<Rightarrow> Err (TamperedProgressed other)))))"

definition demo_until_release ::
  "(u16 \<Rightarrow> 'i option) \<Rightarrow> ('sk, 'pk, 'box, 'g, 'o) cbox_crate \<Rightarrow>
   ('i::linorder, 's1, 'p1, 's2, 'p2, 'kp, 'pkp, 'g) frost_dkg \<Rightarrow>
   ('i, 'pkp, 'vk, 'vs, 'cm, 'rz, 'rp, 'sp, 'sh, 'sg) frost \<Rightarrow>
   ('i, 'kp, 'ss, 'nc, 'cm, 'sp, 'rz, 'sh, 'g) frost_signer \<Rightarrow> ('rz, 'rp, 'sg, 'g) demo_crate \<Rightarrow>
   ('g \<Rightarrow> 16 bytes \<times> 'g) \<Rightarrow> hex_crate \<Rightarrow> (u8 list \<Rightarrow> 32 bytes) \<Rightarrow> u16 \<Rightarrow> u16 \<Rightarrow> 'g \<Rightarrow> 'o \<Rightarrow>
   ('rz \<times> uuid \<times> ('i, 'pkp, 'p1, 'cm, 'rz, 'sp, 'sh, 'sg) chain_sim \<times> ('i, 'kp, 'pkp, 'nc) node list \<times> 'g,
    ('i, 'cm, 'sp, 'sh, 'sg) demo_error) result" where
  "demo_until_release id_of cb D F S Z fill_bytes hx sha256 t n rng os =
     result_bind (demo_setup id_of cb D F S (demo_approve (proposal_from_slice Z) hx sha256) t n rng os)
       (\<lambda>(pkp, sim, nodes, rng1).
       let (rz, rng2) = random_randomizer Z rng1 in
       result_bind (demo_release F S Z fill_bytes sha256 pkp rz sim nodes rng2) (\<lambda>r. Ok (rz, r)))"

definition cmd_escrow_demo ::
  "(u16 \<Rightarrow> 'i option) \<Rightarrow> ('sk, 'pk, 'box, 'g, 'o) cbox_crate \<Rightarrow>
   ('i::linorder, 's1, 'p1, 's2, 'p2, 'kp, 'pkp, 'g) frost_dkg \<Rightarrow>
   ('i, 'pkp, 'vk, 'vs, 'cm, 'rz, 'rp, 'sp, 'sh, 'sg) frost \<Rightarrow>
   ('i, 'kp, 'ss, 'nc, 'cm, 'sp, 'rz, 'sh, 'g) frost_signer \<Rightarrow> ('rz, 'rp, 'sg, 'g) demo_crate \<Rightarrow>
   ('g \<Rightarrow> 16 bytes \<times> 'g) \<Rightarrow> hex_crate \<Rightarrow> (u8 list \<Rightarrow> 32 bytes) \<Rightarrow> u16 \<Rightarrow> u16 \<Rightarrow> 'g \<Rightarrow> 'o \<Rightarrow>
   (unit, ('i, 'cm, 'sp, 'sh, 'sg) demo_error) result" where
  "cmd_escrow_demo id_of cb D F S Z fill_bytes hx sha256 t n rng os =
     result_bind (demo_until_release id_of cb D F S Z fill_bytes hx sha256 t n rng os)
       (\<lambda>(rz, good_id, sim, nodes, rng'). demo_reject F S Z fill_bytes sha256 rz sim nodes rng')"

end
