(* ===== verification/Keygen.thy ===== *)
theory Keygen
  imports Dkg_Honest
begin

text \<open>
  The in-process key generation of \<open>sapphire-keygen/src/dkg.rs\<close>: the three rounds for all
  participants with maps in place of the network. The conversion of a number into an identifier and
  the FROST functions are parameters. The generator state is returned with the keys.
\<close>

section \<open>The rounds\<close>

type_synonym ('i, 'kp, 'pkp) group_keys = "('i, 'kp) btree_map \<times> 'pkp"

fun keygen_round1 ::
  "(u16 \<Rightarrow> string + 'i) \<Rightarrow> ('i::linorder, 's1, 'p1, 's2, 'p2, 'kp, 'pkp, 'g) frost_dkg \<Rightarrow> mpc_params \<Rightarrow> 'g \<Rightarrow>
   ('i, 's1) btree_map \<Rightarrow> ('i, 'p1) btree_map \<Rightarrow> u16 list \<Rightarrow>
   (('i, 's1) btree_map \<times> ('i, 'p1) btree_map \<times> 'g, error) result" where
  "keygen_round1 id_of D params rng secrets publics [] = Ok (secrets, publics, rng)"
| "keygen_round1 id_of D params rng secrets publics (k # ks) =
     result_bind (map_err Frost (of_sum (id_of k))) (\<lambda>ident.
       case part1 D ident (total params) (threshold params) rng of
         (Inl e, rng') \<Rightarrow> Err (Frost e)
       | (Inr (secret, public), rng') \<Rightarrow>
           keygen_round1 id_of D params rng' (bt_insert ident secret secrets) (bt_insert ident public publics) ks)"

text \<open>Public packages from everyone except one participant.\<close>

definition others_of :: "('i::linorder, 'p1) btree_map \<Rightarrow> 'i \<Rightarrow> ('i, 'p1) btree_map" where
  "others_of publics ident = bt_collect (filter (\<lambda>(other, _). other \<noteq> ident) (bt_iter publics))"

fun distribute ::
  "'i::linorder \<Rightarrow> ('i, ('i, 'p2) btree_map) btree_map \<Rightarrow> ('i \<times> 'p2) list \<Rightarrow>
   (('i, ('i, 'p2) btree_map) btree_map, error) result" where
  "distribute ident inbox [] = Ok inbox"
| "distribute ident inbox ((recipient, pkg) # xs) =
     result_bind (expect (bt_get inbox recipient)) (\<lambda>box.
       distribute ident (bt_insert recipient (bt_insert ident pkg box) inbox) xs)"

fun keygen_round2 ::
  "('i::linorder, 's1, 'p1, 's2, 'p2, 'kp, 'pkp, 'g) frost_dkg \<Rightarrow> ('i, 'p1) btree_map \<Rightarrow>
   ('i, 's2) btree_map \<Rightarrow> ('i, ('i, 'p2) btree_map) btree_map \<Rightarrow> ('i \<times> 's1) list \<Rightarrow>
   (('i, 's2) btree_map \<times> ('i, ('i, 'p2) btree_map) btree_map, error) result" where
  "keygen_round2 D publics secrets inbox [] = Ok (secrets, inbox)"
| "keygen_round2 D publics secrets inbox ((ident, secret) # xs) =
     result_bind (map_err Frost (of_sum (part2 D secret (others_of publics ident)))) (\<lambda>(secret2, sent).
     result_bind (distribute ident inbox (bt_iter sent)) (\<lambda>inbox'.
       keygen_round2 D publics (bt_insert ident secret2 secrets) inbox' xs))"

fun keygen_round3 ::
  "('i::linorder, 'pkp, 'vk, 'vs, 'cm, 'rz, 'rp, 'sp, 'sh, 'sg) frost \<Rightarrow>
   ('i, 's1, 'p1, 's2, 'p2, 'kp, 'pkp, 'g) frost_dkg \<Rightarrow> ('i, 'p1) btree_map \<Rightarrow>
   ('i, ('i, 'p2) btree_map) btree_map \<Rightarrow> ('i, 'kp) btree_map \<Rightarrow> 'pkp option \<Rightarrow> ('i \<times> 's2) list \<Rightarrow>
   (('i, 'kp) btree_map \<times> 'pkp option, error) result" where
  "keygen_round3 F D publics inbox keys group_pkp [] = Ok (keys, group_pkp)"
| "keygen_round3 F D publics inbox keys group_pkp ((ident, secret) # xs) =
     result_bind (expect (bt_get inbox ident)) (\<lambda>received.
     result_bind (map_err Frost (of_sum (part3 D secret (others_of publics ident) received))) (\<lambda>(key_pkg, pkp).
       let keys' = bt_insert ident key_pkg keys; inbox' = bt_remove ident inbox in
       case group_pkp of
         None \<Rightarrow> keygen_round3 F D publics inbox' keys' (Some pkp) xs
       | Some existing \<Rightarrow>
           if verifying_key F existing \<noteq> verifying_key F pkp then
             Err (Frost ''DKG inconsistency: participants disagree on group verifying key'')
           else keygen_round3 F D publics inbox' keys' (Some existing) xs))"

definition generate_with_dkg ::
  "(u16 \<Rightarrow> string + 'i) \<Rightarrow> ('i::linorder, 'pkp, 'vk, 'vs, 'cm, 'rz, 'rp, 'sp, 'sh, 'sg) frost \<Rightarrow>
   ('i, 's1, 'p1, 's2, 'p2, 'kp, 'pkp, 'g) frost_dkg \<Rightarrow> mpc_params \<Rightarrow> 'g \<Rightarrow>
   (('i, 'kp, 'pkp) group_keys \<times> 'g, error) result" where
  "generate_with_dkg id_of F D params rng =
     result_bind (keygen_round1 id_of D params rng bt_new bt_new (one_to (total params))) (\<lambda>(secrets1, publics, rng').
       let inbox = fold (\<lambda>ident m. bt_insert ident bt_new m) (bt_keys publics) bt_new in
     result_bind (keygen_round2 D publics bt_new inbox (bt_iter secrets1)) (\<lambda>(secrets2, inbox').
     result_bind (keygen_round3 F D publics inbox' bt_new None (bt_iter secrets2)) (\<lambda>(keys, group_pkp).
     result_bind (expect group_pkp) (\<lambda>pkp. Ok ((keys, pkp), rng')))))"

section \<open>An honest run\<close>

lemma others_of_tabulate: "finite I \<Longrightarrow> others_of (tabulate p1 I) i = tabulate p1 (I - {i})"
proof -
  assume fin: "finite I"
  have d: "distinct (map fst (filter (\<lambda>(k, _). k \<noteq> i) (bt_iter (tabulate p1 I))))"
    by (rule distinct_map_filter) simp
  show ?thesis
    using fin unfolding others_of_def
    by (intro tabulate_eqI) (auto simp: bt_get_collect_distinct [OF d] map_of_filter_neq)
qed

lemma map_of_graph: "map_of (map (\<lambda>i. (i, f i)) xs) = (\<lambda>k. if k \<in> set xs then Some (f k) else None)"
  by (induction xs) (auto simp: fun_eq_iff)

lemma iter_tabulate: "finite I \<Longrightarrow> bt_iter (tabulate f I) = map (\<lambda>i. (i, f i)) (sorted_list_of_set I)"
  by (rule bt_iter_eqI) (auto simp: comp_def map_of_graph)

lemma tabulate_insert: "finite I \<Longrightarrow> bt_insert k v (tabulate f I) = tabulate (f(k := v)) (insert k I)"
  by (rule tabulate_eqI) auto

lemma insert_all_upd: "k \<notin> set ks \<Longrightarrow> insert_all (f(k := x)) ks m = insert_all f ks m"
  by (rule bt_map_eqI) (auto simp: bt_get_insert_all)

lemma keygen_round1_honest:
  assumes "\<And>i rng. i \<in> ident ` set ks \<Longrightarrow> \<exists>s1 p1 rng'. part1 D i (total params) (threshold params) rng = (Inr (s1, p1), rng')"
    and "\<And>k. k \<in> set ks \<Longrightarrow> id_of k = Inr (ident k)" "distinct (map ident ks)"
  shows "\<exists>s1 p1 rng'. keygen_round1 id_of D params rng secrets publics ks =
      Ok (insert_all s1 (map ident ks) secrets, insert_all p1 (map ident ks) publics, rng') \<and>
    (\<forall>i \<in> ident ` set ks. honest_part1 D params i (s1 i) (p1 i))"
  using assms
proof (induction ks arbitrary: rng secrets publics)
  case (Cons k ks)
  let ?i = "ident k"
  from Cons.prems(1) [of ?i rng] obtain s p rng1 where
    one: "part1 D ?i (total params) (threshold params) rng = (Inr (s, p), rng1)" by auto
  have "\<exists>s1 p1 rng'. keygen_round1 id_of D params rng1 (bt_insert ?i s secrets) (bt_insert ?i p publics) ks =
      Ok (insert_all s1 (map ident ks) (bt_insert ?i s secrets), insert_all p1 (map ident ks) (bt_insert ?i p publics), rng') \<and>
    (\<forall>i \<in> ident ` set ks. honest_part1 D params i (s1 i) (p1 i))"
    by (rule Cons.IH) (use Cons.prems in auto)
  then obtain s1 p1 rng' where
    rest: "keygen_round1 id_of D params rng1 (bt_insert ?i s secrets) (bt_insert ?i p publics) ks =
      Ok (insert_all s1 (map ident ks) (bt_insert ?i s secrets), insert_all p1 (map ident ks) (bt_insert ?i p publics), rng')"
    and h: "\<forall>i \<in> ident ` set ks. honest_part1 D params i (s1 i) (p1 i)" by blast
  have new: "?i \<notin> ident ` set ks" using Cons.prems(3) by auto
  show ?case
  proof (intro exI [of _ "s1(?i := s)"] exI [of _ "p1(?i := p)"] exI [of _ rng'] conjI ballI)
    show "keygen_round1 id_of D params rng secrets publics (k # ks) =
      Ok (insert_all (s1(?i := s)) (map ident (k # ks)) secrets, insert_all (p1(?i := p)) (map ident (k # ks)) publics, rng')"
      using one rest Cons.prems(2) new by (simp add: insert_all_upd)
    show "honest_part1 D params i ((s1(?i := s)) i) ((p1(?i := p)) i)" if "i \<in> ident ` set (k # ks)" for i
      using that h new one by (cases "i = ?i") (auto simp: honest_part1_def)
  qed
qed auto

lemma distribute_honest:
  assumes "distinct js" "set js \<subseteq> I" "finite I"
  shows "distribute i (tabulate B I) (map (\<lambda>j. (j, f j)) js) =
    Ok (tabulate (\<lambda>j. if j \<in> set js then bt_insert i (f j) (B j) else B j) I)"
  using assms
proof (induction js arbitrary: B)
  case (Cons j js)
  have "bt_insert j (bt_insert i (f j) (B j)) (tabulate B I) = tabulate (B(j := bt_insert i (f j) (B j))) I"
    using Cons.prems by (simp add: tabulate_insert insert_absorb)
  with Cons show ?case by (auto intro!: tabulate_cong)
qed simp

lemma keygen_round2_honest:
  assumes "\<And>i. i \<in> set is \<Longrightarrow> part2 D (s1 i) (tabulate p1 (I - {i})) = Inr (s2 i, tabulate (sent i) (I - {i}))"
    and "finite I" "distinct is" "set is \<subseteq> I"
  shows "keygen_round2 D (tabulate p1 I) secrets (tabulate B I) (map (\<lambda>i. (i, s1 i)) is) =
    Ok (insert_all s2 is secrets, tabulate (\<lambda>j. insert_all (\<lambda>i. sent i j) (filter (\<lambda>i. i \<noteq> j) is) (B j)) I)"
  using assms
proof (induction "is" arbitrary: secrets B)
  case (Cons i "is")
  let ?B = "\<lambda>j. insert_all (\<lambda>i. sent i j) (filter (\<lambda>i. i \<noteq> j) [i]) (B j)"
  have "distribute i (tabulate B I) (bt_iter (tabulate (sent i) (I - {i}))) =
      Ok (tabulate (\<lambda>j. if j \<in> I - {i} then bt_insert i (sent i j) (B j) else B j) I)"
    using distribute_honest [of "sorted_list_of_set (I - {i})" I i B "sent i"] Cons.prems by (simp add: iter_tabulate)
  also have "tabulate (\<lambda>j. if j \<in> I - {i} then bt_insert i (sent i j) (B j) else B j) I = tabulate ?B I"
    using Cons.prems by (intro tabulate_cong) auto
  finally have step: "distribute i (tabulate B I) (bt_iter (tabulate (sent i) (I - {i}))) = Ok (tabulate ?B I)" .
  have "keygen_round2 D (tabulate p1 I) secrets (tabulate B I) (map (\<lambda>i. (i, s1 i)) (i # is)) =
      keygen_round2 D (tabulate p1 I) (bt_insert i (s2 i) secrets)
        (tabulate ?B I) (map (\<lambda>i. (i, s1 i)) is)"
    using Cons.prems step by (simp add: others_of_tabulate)
  also have "\<dots> = Ok (insert_all s2 is (bt_insert i (s2 i) secrets), tabulate (\<lambda>j. insert_all (\<lambda>i. sent i j)
      (filter (\<lambda>i. i \<noteq> j) is) (insert_all (\<lambda>i. sent i j) (filter (\<lambda>i. i \<noteq> j) [i]) (B j))) I)"
    using Cons.prems by (intro Cons.IH) auto
  finally show ?case using Cons.prems(2) by (auto intro!: tabulate_cong)
qed simp

lemma keygen_round3_honest:
  assumes "\<And>i. i \<in> set is \<Longrightarrow> bt_get inbox i = Some (recv i)"
    and "\<And>i. i \<in> set is \<Longrightarrow> part3 D (s2 i) (others_of publics i) (recv i) = Inr (kp i, pkp i)"
    and "\<And>i. i \<in> set is \<Longrightarrow> verifying_key F (pkp i) = vk" "\<And>q. gp = Some q \<Longrightarrow> verifying_key F q = vk" "distinct is"
  shows "keygen_round3 F D publics inbox keys gp (map (\<lambda>i. (i, s2 i)) is) =
    Ok (insert_all kp is keys, case gp of Some q \<Rightarrow> Some q | None \<Rightarrow> (case is of [] \<Rightarrow> None | i # _ \<Rightarrow> Some (pkp i)))"
  using assms
proof (induction "is" arbitrary: inbox keys gp)
  case Nil
  then show ?case by (simp split: option.splits)
next
  case (Cons i "is")
  let ?gp = "case gp of Some q \<Rightarrow> Some q | None \<Rightarrow> Some (pkp i)"
  have "keygen_round3 F D publics inbox keys gp (map (\<lambda>i. (i, s2 i)) (i # is)) =
      keygen_round3 F D publics (bt_remove i inbox) (bt_insert i (kp i) keys) ?gp (map (\<lambda>i. (i, s2 i)) is)"
    using Cons.prems by (simp split: option.splits)
  also have "\<dots> = Ok (insert_all kp is (bt_insert i (kp i) keys),
      case ?gp of Some q \<Rightarrow> Some q | None \<Rightarrow> (case is of [] \<Rightarrow> None | i # _ \<Rightarrow> Some (pkp i)))"
    using Cons.prems by (intro Cons.IH) (auto split: option.splits)
  finally show ?case by (cases gp) (simp_all del: keygen_round3.simps)
qed

lemma inbox_new: "finite I \<Longrightarrow> fold (\<lambda>i m. bt_insert i bt_new m) (sorted_list_of_set I) bt_new = tabulate (\<lambda>_. bt_new) I"
  by (simp add: tabulate_def insert_all_def)

lemma sent_as_family:
  assumes "\<And>i. i \<in> I \<Longrightarrow> \<exists>s2 sent. part2 D (s1 i) (tabulate p1 (I - {i})) = Inr (s2, sent) \<and> dom (bt_get sent) = I - {i}"
  shows "\<exists>s2 sent. \<forall>i \<in> I. part2 D (s1 i) (tabulate p1 (I - {i})) = Inr (s2 i, tabulate (sent i) (I - {i}))"
proof -
  have "\<exists>s2 sent. part2 D (s1 i) (tabulate p1 (I - {i})) = Inr (s2, tabulate sent (I - {i}))" if "i \<in> I" for i
    using assms [OF that] map_tabulate_dom(1) by metis
  then show ?thesis by metis
qed

text \<open>The three rounds on tables.\<close>

lemma round1_tables:
  assumes laws: "dkg_laws F D params (set ids)" and ids: "ids = map ident ks" "distinct ids"
    and id_of: "\<And>k. k \<in> set ks \<Longrightarrow> id_of k = Inr (ident k)"
  shows "\<exists>s1 p1 rng'. keygen_round1 id_of D params rng bt_new bt_new ks = Ok (tabulate s1 (set ids), tabulate p1 (set ids), rng') \<and>
    (\<forall>i \<in> set ids. honest_part1 D params i (s1 i) (p1 i))"
proof -
  have "\<exists>s1 p1 rng'. keygen_round1 id_of D params rng bt_new bt_new ks =
      Ok (insert_all s1 (map ident ks) bt_new, insert_all p1 (map ident ks) bt_new, rng') \<and>
    (\<forall>i \<in> ident ` set ks. honest_part1 D params i (s1 i) (p1 i))"
    by (rule keygen_round1_honest) (use dkg_laws_part1 [OF laws] id_of ids in auto)
  then show ?thesis using ids(1) by (simp add: insert_all_tabulate)
qed

lemma round2_tables:
  assumes "finite I" "\<forall>i \<in> I. part2 D (s1 i) (tabulate p1 (I - {i})) = Inr (s2 i, tabulate (sent i) (I - {i}))"
  shows "keygen_round2 D (tabulate p1 I) bt_new (tabulate (\<lambda>_. bt_new) I) (bt_iter (tabulate s1 I)) =
    Ok (tabulate s2 I, tabulate (\<lambda>j. tabulate (\<lambda>i. sent i j) (I - {j})) I)"
proof -
  let ?is = "sorted_list_of_set I"
  have "keygen_round2 D (tabulate p1 I) bt_new (tabulate (\<lambda>_. bt_new) I) (map (\<lambda>i. (i, s1 i)) ?is) =
      Ok (insert_all s2 ?is bt_new, tabulate (\<lambda>j. insert_all (\<lambda>i. sent i j) (filter (\<lambda>i. i \<noteq> j) ?is) bt_new) I)"
    by (rule keygen_round2_honest) (use assms in auto)
  moreover have "tabulate (\<lambda>j. insert_all (\<lambda>i. sent i j) (filter (\<lambda>i. i \<noteq> j) ?is) bt_new) I =
      tabulate (\<lambda>j. tabulate (\<lambda>i. sent i j) (I - {j})) I"
    using assms(1) by (intro tabulate_cong) (auto simp: insert_all_tabulate set_diff_eq)
  ultimately show ?thesis using assms(1) by (simp add: iter_tabulate insert_all_tabulate)
qed

lemma round3_tables:
  assumes "finite I" "I \<noteq> {}"
    and part3: "\<forall>i \<in> I. part3 D (s2 i) (tabulate p1 (I - {i})) (tabulate (\<lambda>j. sent j i) (I - {i})) = Inr (kp i, pkp i)"
    and agree: "\<forall>i \<in> I. \<forall>j \<in> I. pkp_agree F (pkp i) (pkp j)"
  shows "keygen_round3 F D (tabulate p1 I) (tabulate (\<lambda>j. tabulate (\<lambda>i. sent i j) (I - {j})) I) bt_new None
      (bt_iter (tabulate s2 I)) = Ok (tabulate kp I, Some (pkp (Min I)))"
proof -
  let ?is = "sorted_list_of_set I"
  have m: "?is = Min I # sorted_list_of_set (I - {Min I})" using assms(1,2) by (rule sorted_list_of_set_nonempty)
  then have hd: "(case ?is of [] \<Rightarrow> None | i # _ \<Rightarrow> Some (pkp i)) = Some (pkp (Min I))" by (metis list.simps(5))
  have vk: "verifying_key F (pkp i) = verifying_key F (pkp (Min I))" if "i \<in> I" for i
    using agree that Min_in [OF assms(1,2)] unfolding pkp_agree_def by blast
  have "keygen_round3 F D (tabulate p1 I) (tabulate (\<lambda>j. tabulate (\<lambda>i. sent i j) (I - {j})) I) bt_new None (map (\<lambda>i. (i, s2 i)) ?is) =
      Ok (insert_all kp ?is bt_new, case None of Some q \<Rightarrow> Some q | None \<Rightarrow> (case ?is of [] \<Rightarrow> None | i # _ \<Rightarrow> Some (pkp i)))"
    by (rule keygen_round3_honest [where recv = "\<lambda>j. tabulate (\<lambda>i. sent i j) (I - {j})"])
      (use assms(1) part3 vk in \<open>auto simp: others_of_tabulate\<close>)
  with assms(1) hd show ?thesis by (simp add: iter_tabulate insert_all_tabulate)
qed

lemma keygen_run:
  assumes laws: "dkg_laws F D params (set ids)" and total: "0 < unat (total params)"
    and ids: "ids = map ident (one_to (total params))" "distinct ids"
    and id_of: "\<And>k. k \<in> set (one_to (total params)) \<Longrightarrow> id_of k = Inr (ident k)"
  shows "\<exists>kp pkp rng'. generate_with_dkg id_of F D params rng = Ok ((tabulate kp (set ids), pkp (Min (set ids))), rng') \<and>
    honest_keys D params (set ids) kp pkp \<and> (\<forall>i \<in> set ids. \<forall>j \<in> set ids. pkp_agree F (pkp i) (pkp j)) \<and> Min (set ids) \<in> set ids"
proof -
  let ?I = "set ids"
  from round1_tables [OF laws ids id_of, of rng] obtain s1 p1 rng' where
    one: "keygen_round1 id_of D params rng bt_new bt_new (one_to (total params)) = Ok (tabulate s1 ?I, tabulate p1 ?I, rng')"
    and part1: "\<And>i. i \<in> ?I \<Longrightarrow> honest_part1 D params i (s1 i) (p1 i)" by blast
  obtain s2 sent where
    part2: "\<forall>i \<in> ?I. part2 D (s1 i) (tabulate p1 (?I - {i})) = Inr (s2 i, tabulate (sent i) (?I - {i}))"
    using sent_as_family [OF dkg_laws_part2 [OF laws part1]] by blast
  from dkg_laws_part3 [of F D params ?I s1 p1 s2 sent, OF laws part1 part2 [rule_format]] obtain kp pkp where
    part3: "\<forall>i \<in> ?I. part3 D (s2 i) (tabulate p1 (?I - {i})) (tabulate (\<lambda>j. sent j i) (?I - {i})) = Inr (kp i, pkp i)"
    and agree: "\<forall>i \<in> ?I. \<forall>j \<in> ?I. pkp_agree F (pkp i) (pkp j)" by blast
  have "length ids = unat (total params)" using ids(1) by (simp add: one_to_def)
  with total have I: "?I \<noteq> {}" by auto
  have m_in: "Min ?I \<in> ?I" using I by (intro Min_in) simp_all
  have gen: "generate_with_dkg id_of F D params rng = Ok ((tabulate kp ?I, pkp (Min ?I)), rng')"
    using one round2_tables [OF finite_set part2] round3_tables [OF finite_set I part3 agree] by (simp add: generate_with_dkg_def Let_def inbox_new)
  have "honest_keys D params ?I kp pkp"
    unfolding honest_keys_def using part1 part2 part3
    by (intro exI [of _ s1] exI [of _ p1] exI [of _ s2] exI [of _ sent]) blast
  with gen agree m_in show ?thesis by blast
qed

text \<open>
  Key generation in one process succeeds. If the numbers from 1 to the (non-zero) total convert
  to distinct identifiers and FROST's key-generation functions behave as documented for honest
  inputs, the function returns one key package per identifier and a public key package; each key
  package is what that participant's part three computes from the packages of all others, and every
  participant's own public key package agrees with the returned one in the verifying key and all
  verifying shares. With a total of zero it panics.
\<close>

lemma keygen_succeeds:
  assumes laws: "dkg_laws F D params (set ids)" and total: "0 < unat (total params)"
    and ids: "ids = map ident (one_to (total params))" "distinct ids"
    and id_of: "\<And>k. k \<in> set (one_to (total params)) \<Longrightarrow> id_of k = Inr (ident k)"
  shows "(\<exists>keys pkp rng'. generate_with_dkg id_of F D params rng = Ok ((keys, pkp), rng') \<and>
      dom (bt_get keys) = set ids \<and>
      (\<exists>s1 p1 s2 sent pk. \<forall>i \<in> set ids. honest_part1 D params i (s1 i) (p1 i) \<and>
         part2 D (s1 i) (tabulate p1 (set ids - {i})) = Inr (s2 i, tabulate (sent i) (set ids - {i})) \<and>
         part3 D (s2 i) (tabulate p1 (set ids - {i})) (tabulate (\<lambda>j. sent j i) (set ids - {i})) =
           Inr (the (bt_get keys i), pk i) \<and> pkp_agree F (pk i) pkp)) \<and>
    generate_with_dkg id_of F D (params\<lparr>total := 0\<rparr>) rng = Panic"
proof (rule conjI)
  let ?I = "set ids"
  from keygen_run [OF assms, of rng] obtain kp pkp rng' where
    gen: "generate_with_dkg id_of F D params rng = Ok ((tabulate kp ?I, pkp (Min ?I)), rng')"
    and keys: "honest_keys D params ?I kp pkp" and agree: "\<forall>i \<in> ?I. \<forall>j \<in> ?I. pkp_agree F (pkp i) (pkp j)" and m_in: "Min ?I \<in> ?I"
    by blast
  from keys obtain s1 p1 s2 sent where h: "\<forall>i \<in> ?I. honest_part1 D params i (s1 i) (p1 i) \<and>
      part2 D (s1 i) (tabulate p1 (?I - {i})) = Inr (s2 i, tabulate (sent i) (?I - {i})) \<and>
      part3 D (s2 i) (tabulate p1 (?I - {i})) (tabulate (\<lambda>j. sent j i) (?I - {i})) = Inr (kp i, pkp i)"
    unfolding honest_keys_def by blast
  show "\<exists>keys pkp rng'. generate_with_dkg id_of F D params rng = Ok ((keys, pkp), rng') \<and>
      dom (bt_get keys) = set ids \<and>
      (\<exists>s1 p1 s2 sent pk. \<forall>i \<in> set ids. honest_part1 D params i (s1 i) (p1 i) \<and>
         part2 D (s1 i) (tabulate p1 (set ids - {i})) = Inr (s2 i, tabulate (sent i) (set ids - {i})) \<and>
         part3 D (s2 i) (tabulate p1 (set ids - {i})) (tabulate (\<lambda>j. sent j i) (set ids - {i})) =
           Inr (the (bt_get keys i), pk i) \<and> pkp_agree F (pk i) pkp)"
    using gen h agree m_in
    by (intro exI [of _ "tabulate kp ?I"] exI [of _ "pkp (Min ?I)"] exI [of _ rng'] conjI exI [of _ s1] exI [of _ p1]
        exI [of _ s2] exI [of _ sent] exI [of _ pkp]) (auto split: if_splits)
next
  show "generate_with_dkg id_of F D (params\<lparr>total := 0\<rparr>) rng = Panic"
    by (simp add: generate_with_dkg_def one_to_def bt_keys_def)
qed

end
