(* ===== verification/Cli_Keygen.thy ===== *)
theory Cli_Keygen
  imports Keygen Cli_Io
begin

text \<open>
  The command \<open>keygen\<close> of \<open>sapphire-cli/src/main.rs\<close>: the in-process key generation, then one
  file per key share and one for the public key package. The file system and the JSON writer are the
  fields of the parameter record \<open>file_crate\<close>; \<open>'fs\<close> is the type of its states. The messages
  the command prints are left out.
\<close>

section \<open>The command\<close>

record ('fs, 'kp, 'pkp) file_crate =
  create_dir_all :: "string \<Rightarrow> 'fs \<Rightarrow> (string + unit) \<times> 'fs"
  create_file :: "string \<Rightarrow> 'fs \<Rightarrow> (string + unit) \<times> 'fs"
  write_bundle :: "string \<Rightarrow> ('kp, 'pkp) key_share_bundle \<Rightarrow> 'fs \<Rightarrow> (string + unit) \<times> 'fs"
  write_pkp :: "string \<Rightarrow> 'pkp \<Rightarrow> 'fs \<Rightarrow> (string + unit) \<times> 'fs"

datatype keygen_error =
    KeygenFailed error
  | Creating string string
  | CreateFailed string
  | WriteFailed string

text \<open>\<open>Path::join\<close> with a relative file name.\<close>

definition path_join :: "string \<Rightarrow> string \<Rightarrow> string" where
  "path_join dir name = (if dir = [] \<or> last dir = CHR ''/'' then dir @ name else dir @ ''/'' @ name)"

definition share_path :: "string \<Rightarrow> nat \<Rightarrow> string" where
  "share_path out k = path_join out (''share-'' @ show_nat k @ ''.json'')"

definition pubkey_path :: "string \<Rightarrow> string" where
  "pubkey_path out = path_join out ''group-pubkey.json''"

text \<open>The loop over the key packages; \<open>k\<close> counts them from zero.\<close>

fun write_shares ::
  "('fs, 'kp, 'pkp) file_crate \<Rightarrow> string \<Rightarrow> 'pkp \<Rightarrow> nat \<Rightarrow> ('i \<times> 'kp) list \<Rightarrow> 'fs \<Rightarrow>
   (unit, keygen_error) result \<times> 'fs" where
  "write_shares W out pkp k [] fs = (Ok (), fs)"
| "write_shares W out pkp k ((ident, kp) # kps) fs =
     (let path = share_path out (k + 1) in
      case create_file W path fs of
        (Inl e, fs1) \<Rightarrow> (Err (Creating path e), fs1)
      | (Inr _, fs1) \<Rightarrow>
          (case write_bundle W path \<lparr>bundle_key_package = kp, bundle_public_key_package = pkp\<rparr> fs1 of
             (Inl e, fs2) \<Rightarrow> (Err (WriteFailed e), fs2)
           | (Inr _, fs2) \<Rightarrow> write_shares W out pkp (k + 1) kps fs2))"

definition write_pubkey ::
  "('fs, 'kp, 'pkp) file_crate \<Rightarrow> string \<Rightarrow> 'pkp \<Rightarrow> 'fs \<Rightarrow> (unit, keygen_error) result \<times> 'fs" where
  "write_pubkey W out pkp fs =
     (case create_file W (pubkey_path out) fs of
        (Inl e, fs1) \<Rightarrow> (Err (CreateFailed e), fs1)
      | (Inr _, fs1) \<Rightarrow>
          (case write_pkp W (pubkey_path out) pkp fs1 of
             (Inl e, fs2) \<Rightarrow> (Err (WriteFailed e), fs2)
           | (Inr _, fs2) \<Rightarrow> (Ok (), fs2)))"

definition cmd_keygen ::
  "(u16 \<Rightarrow> string + 'i) \<Rightarrow> ('i::linorder, 'pkp, 'vk, 'vs, 'cm, 'rz, 'rp, 'sp, 'sh, 'sg) frost \<Rightarrow>
   ('i, 's1, 'p1, 's2, 'p2, 'kp, 'pkp, 'g) frost_dkg \<Rightarrow> ('fs, 'kp, 'pkp) file_crate \<Rightarrow>
   u16 \<Rightarrow> u16 \<Rightarrow> string \<Rightarrow> 'g \<Rightarrow> 'fs \<Rightarrow> (unit, keygen_error) result \<times> 'fs" where
  "cmd_keygen id_of F D W t n out rng fs =
     (case map_err KeygenFailed (result_bind (mpc_params_new t n) (\<lambda>params. generate_with_dkg id_of F D params rng)) of
        Err e \<Rightarrow> (Err e, fs)
      | Panic \<Rightarrow> (Panic, fs)
      | Ok ((key_packages, pkp), rng') \<Rightarrow>
          (case create_dir_all W out fs of
             (Inl e, fs1) \<Rightarrow> (Err (Creating out e), fs1)
           | (Inr _, fs1) \<Rightarrow>
               (case write_shares W out pkp 0 (bt_iter key_packages) fs1 of
                  (Ok _, fs2) \<Rightarrow> write_pubkey W out pkp fs2
                | (Err e, fs2) \<Rightarrow> (Err e, fs2)
                | (Panic, fs2) \<Rightarrow> (Panic, fs2))))"

section \<open>The paths are distinct\<close>

lemma show_nat_inject:
  assumes "show_nat m = show_nat n" "m < 2 ^ 64" "n < 2 ^ 64"
  shows "m = n"
  using digits_show [OF assms(2)] digits_show [OF assms(3)] unfolding assms(1) by (metis result.inject(1))

lemma path_join_inject [simp]: "path_join dir a = path_join dir b \<longleftrightarrow> a = b"
  by (simp add: path_join_def)

lemma share_path_inject:
  assumes "share_path out m = share_path out n" "m < 2 ^ 64" "n < 2 ^ 64"
  shows "m = n"
proof -
  have "show_nat m = show_nat n" using assms(1) by (simp add: share_path_def)
  from this assms(2,3) show ?thesis by (rule show_nat_inject)
qed

lemma share_path_neq [simp]: "share_path out n \<noteq> pubkey_path out" "pubkey_path out \<noteq> share_path out n"
  by (auto simp: share_path_def pubkey_path_def)

section \<open>What the files hold\<close>

text \<open>
  A file system that works: creating and writing succeed, a written file holds what was written, and
  other files are untouched; \<open>bundle_at\<close> and \<open>pkp_at\<close> read a file back.
\<close>

definition fs_laws ::
  "('fs, 'kp, 'pkp) file_crate \<Rightarrow> ('fs \<Rightarrow> string \<Rightarrow> ('kp, 'pkp) key_share_bundle option) \<Rightarrow>
   ('fs \<Rightarrow> string \<Rightarrow> 'pkp option) \<Rightarrow> bool" where
  "fs_laws W bundle_at pkp_at \<longleftrightarrow>
     (\<forall>dir fs. \<exists>fs'. create_dir_all W dir fs = (Inr (), fs') \<and> bundle_at fs' = bundle_at fs \<and> pkp_at fs' = pkp_at fs) \<and>
     (\<forall>path fs. \<exists>fs'. create_file W path fs = (Inr (), fs') \<and>
        (\<forall>p. p \<noteq> path \<longrightarrow> bundle_at fs' p = bundle_at fs p \<and> pkp_at fs' p = pkp_at fs p)) \<and>
     (\<forall>path b fs. \<exists>fs'. write_bundle W path b fs = (Inr (), fs') \<and> bundle_at fs' path = Some b \<and>
        (\<forall>p. p \<noteq> path \<longrightarrow> bundle_at fs' p = bundle_at fs p \<and> pkp_at fs' p = pkp_at fs p)) \<and>
     (\<forall>path k fs. \<exists>fs'. write_pkp W path k fs = (Inr (), fs') \<and> pkp_at fs' path = Some k \<and>
        (\<forall>p. p \<noteq> path \<longrightarrow> bundle_at fs' p = bundle_at fs p \<and> pkp_at fs' p = pkp_at fs p))"

lemma fs_write_bundle:
  assumes "fs_laws W bundle_at pkp_at"
  shows "\<exists>fs1 fs2. create_file W path fs = (Inr (), fs1) \<and> write_bundle W path b fs1 = (Inr (), fs2) \<and>
    bundle_at fs2 path = Some b \<and> (\<forall>p. p \<noteq> path \<longrightarrow> bundle_at fs2 p = bundle_at fs p \<and> pkp_at fs2 p = pkp_at fs p)"
proof -
  from assms have "\<exists>fs1. create_file W path fs = (Inr (), fs1) \<and>
      (\<forall>p. p \<noteq> path \<longrightarrow> bundle_at fs1 p = bundle_at fs p \<and> pkp_at fs1 p = pkp_at fs p)"
    unfolding fs_laws_def by (elim conjE) blast
  then obtain fs1 where 1: "create_file W path fs = (Inr (), fs1)"
    "\<forall>p. p \<noteq> path \<longrightarrow> bundle_at fs1 p = bundle_at fs p \<and> pkp_at fs1 p = pkp_at fs p" by blast
  from assms have "\<exists>fs2. write_bundle W path b fs1 = (Inr (), fs2) \<and> bundle_at fs2 path = Some b \<and>
      (\<forall>p. p \<noteq> path \<longrightarrow> bundle_at fs2 p = bundle_at fs1 p \<and> pkp_at fs2 p = pkp_at fs1 p)"
    unfolding fs_laws_def by (elim conjE) blast
  with 1 show ?thesis by auto
qed

lemma fs_write_pkp:
  assumes "fs_laws W bundle_at pkp_at"
  shows "\<exists>fs1 fs2. create_file W path fs = (Inr (), fs1) \<and> write_pkp W path k fs1 = (Inr (), fs2) \<and>
    pkp_at fs2 path = Some k \<and> (\<forall>p. p \<noteq> path \<longrightarrow> bundle_at fs2 p = bundle_at fs p \<and> pkp_at fs2 p = pkp_at fs p)"
proof -
  from assms have "\<exists>fs1. create_file W path fs = (Inr (), fs1) \<and>
      (\<forall>p. p \<noteq> path \<longrightarrow> bundle_at fs1 p = bundle_at fs p \<and> pkp_at fs1 p = pkp_at fs p)"
    unfolding fs_laws_def by (elim conjE) blast
  then obtain fs1 where 1: "create_file W path fs = (Inr (), fs1)"
    "\<forall>p. p \<noteq> path \<longrightarrow> bundle_at fs1 p = bundle_at fs p \<and> pkp_at fs1 p = pkp_at fs p" by blast
  from assms have "\<exists>fs2. write_pkp W path k fs1 = (Inr (), fs2) \<and> pkp_at fs2 path = Some k \<and>
      (\<forall>p. p \<noteq> path \<longrightarrow> bundle_at fs2 p = bundle_at fs1 p \<and> pkp_at fs2 p = pkp_at fs1 p)"
    unfolding fs_laws_def by (elim conjE) blast
  with 1 show ?thesis by auto
qed

lemma write_shares_files:
  assumes "fs_laws W bundle_at pkp_at" "k + length kps < 2 ^ 64"
  shows "\<exists>fs'. write_shares W out pkp k kps fs = (Ok (), fs') \<and>
    (\<forall>j < length kps. bundle_at fs' (share_path out (k + j + 1)) =
       Some \<lparr>bundle_key_package = snd (kps ! j), bundle_public_key_package = pkp\<rparr>) \<and>
    (\<forall>p. (\<forall>j < length kps. p \<noteq> share_path out (k + j + 1)) \<longrightarrow> bundle_at fs' p = bundle_at fs p \<and> pkp_at fs' p = pkp_at fs p)"
  using assms(2)
proof (induction kps arbitrary: k fs)
  case (Cons x kps)
  obtain ident kp where x: "x = (ident, kp)" by (cases x)
  let ?path = "share_path out (k + 1)" and ?b = "\<lparr>bundle_key_package = kp, bundle_public_key_package = pkp\<rparr>"
  from fs_write_bundle [OF assms(1), of ?path fs ?b] obtain fs1 fs2 where
    w: "create_file W ?path fs = (Inr (), fs1)" "write_bundle W ?path ?b fs1 = (Inr (), fs2)" "bundle_at fs2 ?path = Some ?b"
    and same: "\<forall>p. p \<noteq> ?path \<longrightarrow> bundle_at fs2 p = bundle_at fs p \<and> pkp_at fs2 p = pkp_at fs p" by blast
  from Cons.prems have "(k + 1) + length kps < 2 ^ 64" by simp
  from Cons.IH [OF this, of fs2] obtain fs' where
    rest: "write_shares W out pkp (k + 1) kps fs2 = (Ok (), fs')"
    and b: "\<forall>j < length kps. bundle_at fs' (share_path out (k + 1 + j + 1)) =
      Some \<lparr>bundle_key_package = snd (kps ! j), bundle_public_key_package = pkp\<rparr>"
    and u: "\<forall>p. (\<forall>j < length kps. p \<noteq> share_path out (k + 1 + j + 1)) \<longrightarrow> bundle_at fs' p = bundle_at fs2 p \<and> pkp_at fs' p = pkp_at fs2 p"
    by blast
  have new: "?path \<noteq> share_path out (k + 1 + j + 1)" if "j < length kps" for j
  proof
    assume "?path = share_path out (k + 1 + j + 1)"
    then have "k + 1 = k + 1 + j + 1" by (rule share_path_inject) (use Cons.prems that in simp_all)
    then show False by simp
  qed
  have "bundle_at fs' (share_path out (k + j + 1)) = Some \<lparr>bundle_key_package = snd ((x # kps) ! j), bundle_public_key_package = pkp\<rparr>"
    if "j < length (x # kps)" for j
    using that b u new w(3) by (cases j) (simp_all add: x)
  moreover have "bundle_at fs' p = bundle_at fs p \<and> pkp_at fs' p = pkp_at fs p"
    if "\<forall>j < length (x # kps). p \<noteq> share_path out (k + j + 1)" for p
  proof -
    have "p \<noteq> ?path" using that by auto
    moreover have "\<forall>j < length kps. p \<noteq> share_path out (k + 1 + j + 1)"
      using that by (metis Suc_mono add.assoc add.commute length_Cons plus_1_eq_Suc)
    ultimately show ?thesis using u same by metis
  qed
  ultimately show ?case using w rest by (simp add: x)
qed simp

lemma keygen_writes:
  assumes params: "params = \<lparr>threshold = t, total = n\<rparr>" "params_ok params"
    and laws: "dkg_laws F D params (set ids)" "fs_laws W bundle_at pkp_at"
    and ids: "ids = map ident (one_to n)" "distinct ids" and id_of: "\<forall>k \<in> set (one_to n). id_of k = Inr (ident k)"
  shows "\<exists>fs' kp pkp. cmd_keygen id_of F D W t n out rng fs = (Ok (), fs') \<and> honest_keys D params (set ids) kp pkp \<and>
        (\<forall>j < unat n. bundle_at fs' (share_path out (j + 1)) =
           Some \<lparr>bundle_key_package = kp (sorted_list_of_set (set ids) ! j), bundle_public_key_package = pkp (Min (set ids))\<rparr>) \<and>
        pkp_at fs' (pubkey_path out) = Some (pkp (Min (set ids))) \<and>
        (\<forall>p. p \<noteq> pubkey_path out \<and> (\<forall>j < unat n. p \<noteq> share_path out (j + 1)) \<longrightarrow>
           bundle_at fs' p = bundle_at fs p \<and> pkp_at fs' p = pkp_at fs p)"
proof -
  have new: "mpc_params_new t n = Ok params" and pos: "0 < unat (total params)"
    using params(2) mpc_params_new_spec [of t n] by (auto simp: params(1) params_ok_def word_le_nat_alt word_less_nat_alt)
  have total: "total params = n" by (simp add: params(1))
  from keygen_run [OF laws(1) pos, unfolded total, OF ids, of id_of rng] id_of obtain kp pkp rng' where
    gen: "generate_with_dkg id_of F D params rng = Ok ((tabulate kp (set ids), pkp (Min (set ids))), rng')"
    and keys: "honest_keys D params (set ids) kp pkp" by blast
  let ?kps = "map (\<lambda>i. (i, kp i)) (sorted_list_of_set (set ids))" and ?pkp = "pkp (Min (set ids))"
  have "length ids = unat n" using ids(1) by (simp add: one_to_def)
  then have len: "length ?kps = unat n" using distinct_card [OF ids(2)] by simp
  from laws(2) obtain fs1 where dir: "create_dir_all W out fs = (Inr (), fs1)" "bundle_at fs1 = bundle_at fs" "pkp_at fs1 = pkp_at fs"
    unfolding fs_laws_def by blast
  have "unat n < 2 ^ 16" using unsigned_less [of n, where 'a = nat] by simp
  then have "0 + length ?kps < 2 ^ 64" unfolding len by simp
  from write_shares_files [OF laws(2) this, of out ?pkp fs1] obtain fs2 where
    sh: "write_shares W out ?pkp 0 ?kps fs1 = (Ok (), fs2)"
      "\<forall>j < unat n. bundle_at fs2 (share_path out (j + 1)) = Some \<lparr>bundle_key_package = snd (?kps ! j), bundle_public_key_package = ?pkp\<rparr>"
      "\<forall>p. (\<forall>j < unat n. p \<noteq> share_path out (j + 1)) \<longrightarrow> bundle_at fs2 p = bundle_at fs1 p \<and> pkp_at fs2 p = pkp_at fs1 p"
    unfolding len add_0 by blast
  from fs_write_pkp [OF laws(2), of "pubkey_path out" fs2 ?pkp] obtain fs3 fs4 where
    pk: "create_file W (pubkey_path out) fs2 = (Inr (), fs3)" "write_pkp W (pubkey_path out) ?pkp fs3 = (Inr (), fs4)"
      "pkp_at fs4 (pubkey_path out) = Some ?pkp"
      "\<forall>p. p \<noteq> pubkey_path out \<longrightarrow> bundle_at fs4 p = bundle_at fs2 p \<and> pkp_at fs4 p = pkp_at fs2 p" by blast
  have run: "cmd_keygen id_of F D W t n out rng fs = (Ok (), fs4)"
    using new gen dir(1) sh(1) pk(1,2) by (simp add: cmd_keygen_def write_pubkey_def iter_tabulate)
  have shares: "\<forall>j < unat n. bundle_at fs4 (share_path out (j + 1)) =
      Some \<lparr>bundle_key_package = kp (sorted_list_of_set (set ids) ! j), bundle_public_key_package = ?pkp\<rparr>"
    using sh(2) pk(4) len by simp
  have others: "\<forall>p. p \<noteq> pubkey_path out \<and> (\<forall>j < unat n. p \<noteq> share_path out (j + 1)) \<longrightarrow>
      bundle_at fs4 p = bundle_at fs p \<and> pkp_at fs4 p = pkp_at fs p"
    using sh(3) pk(4) dir(2,3) by metis
  show ?thesis by (intro exI conjI) (fact run keys shares pk(3) others)+
qed

text \<open>
  C40. The files of the keygen command. With valid parameters, libraries that behave as documented for
  honest participants and a file system that works, the command succeeds and leaves one file per
  participant: the file numbered from one holds the key package of the participants in the order of
  their identifiers, each with the public key package of the group, which is also the content of the
  public file; no other file changes. With invalid parameters it reports them and touches nothing.
\<close>

theorem keygen_files:
  assumes params: "params = \<lparr>threshold = t, total = n\<rparr>" and laws: "dkg_laws F D params (set ids)" "fs_laws W bundle_at pkp_at"
    and ids: "ids = map ident (one_to n)" "distinct ids" and id_of: "\<forall>k \<in> set (one_to n). id_of k = Inr (ident k)"
  shows "(params_ok params \<longrightarrow>
      (\<exists>fs' kp pkp. cmd_keygen id_of F D W t n out rng fs = (Ok (), fs') \<and> honest_keys D params (set ids) kp pkp \<and>
        (\<forall>j < unat n. bundle_at fs' (share_path out (j + 1)) =
           Some \<lparr>bundle_key_package = kp (sorted_list_of_set (set ids) ! j), bundle_public_key_package = pkp (Min (set ids))\<rparr>) \<and>
        pkp_at fs' (pubkey_path out) = Some (pkp (Min (set ids))) \<and>
        (\<forall>p. p \<noteq> pubkey_path out \<and> (\<forall>j < unat n. p \<noteq> share_path out (j + 1)) \<longrightarrow>
           bundle_at fs' p = bundle_at fs p \<and> pkp_at fs' p = pkp_at fs p))) \<and>
    (\<not> params_ok params \<longrightarrow> cmd_keygen id_of F D W t n out rng fs = (Err (KeygenFailed (InvalidParams t n)), fs))"
proof (intro conjI impI)
  assume bad: "\<not> params_ok params"
  then have "mpc_params_new t n = Err (InvalidParams t n)"
    using mpc_params_new_spec [of t n] by (auto simp: params params_ok_def word_le_nat_alt word_less_nat_alt)
  then show "cmd_keygen id_of F D W t n out rng fs = (Err (KeygenFailed (InvalidParams t n)), fs)"
    by (simp add: cmd_keygen_def)
next
  assume "params_ok params"
  then show "\<exists>fs' kp pkp. cmd_keygen id_of F D W t n out rng fs = (Ok (), fs') \<and> honest_keys D params (set ids) kp pkp \<and>
        (\<forall>j < unat n. bundle_at fs' (share_path out (j + 1)) =
           Some \<lparr>bundle_key_package = kp (sorted_list_of_set (set ids) ! j), bundle_public_key_package = pkp (Min (set ids))\<rparr>) \<and>
        pkp_at fs' (pubkey_path out) = Some (pkp (Min (set ids))) \<and>
        (\<forall>p. p \<noteq> pubkey_path out \<and> (\<forall>j < unat n. p \<noteq> share_path out (j + 1)) \<longrightarrow>
           bundle_at fs' p = bundle_at fs p \<and> pkp_at fs' p = pkp_at fs p)"
    by (rule keygen_writes [OF params _ laws ids id_of])
qed

section \<open>A small file system\<close>

text \<open>Two maps from paths: the key shares and the public key packages.\<close>

type_synonym toy_fs = "(string \<Rightarrow> (nat, nat list) key_share_bundle option) \<times> (string \<Rightarrow> nat list option)"

definition toy_files :: "(toy_fs, nat, nat list) file_crate" where
  "toy_files = \<lparr>create_dir_all = (\<lambda>dir fs. (Inr (), fs)),
     create_file = (\<lambda>path (b, k). (Inr (), (b(path := None), k(path := None)))),
     write_bundle = (\<lambda>path x (b, k). (Inr (), (b(path \<mapsto> x), k))),
     write_pkp = (\<lambda>path x (b, k). (Inr (), (b, k(path \<mapsto> x))))\<rparr>"

lemma toy_fs_laws: "fs_laws toy_files fst snd"
  by (simp add: fs_laws_def toy_files_def)

theorem keygen_files_witness:
  "(\<exists>fs' b. cmd_keygen (\<lambda>k. Inr (unat k)) toy_frost toy_dkg toy_files 2 3 ''keys'' 5 (Map.empty, Map.empty) = (Ok (), fs') \<and>
     fst fs' (share_path ''keys'' 1) = Some b \<and> snd fs' (pubkey_path ''keys'') = Some (bundle_public_key_package b)) \<and>
   cmd_keygen (\<lambda>k. Inr (unat k)) toy_frost toy_dkg toy_files 4 3 ''keys'' 5 (Map.empty, Map.empty) =
     (Err (KeygenFailed (InvalidParams 4 3)), (Map.empty, Map.empty))"
proof -
  have ks: "one_to 3 = [1, 2, 3]" using toy_numbers by (simp add: toy_params_def)
  have ids: "[1, 2, 3 :: nat] = map unat (one_to 3)" "distinct [1, 2, 3 :: nat]" "\<forall>k \<in> set (one_to 3). Inr (unat k) = Inr (unat k)"
    unfolding ks by simp_all
  have ok: "params_ok \<lparr>threshold = 2, total = 3\<rparr>" "\<not> params_ok \<lparr>threshold = 4, total = 3\<rparr>"
    by (simp_all add: params_ok_def)
  note files = keygen_files [OF refl toy_dkg_laws [OF finite_set] toy_fs_laws ids, where out = "''keys''" and rng = 5 and fs = "(Map.empty, Map.empty)"]
  have "\<exists>fs' b. cmd_keygen (\<lambda>k. Inr (unat k)) toy_frost toy_dkg toy_files 2 3 ''keys'' 5 (Map.empty, Map.empty) = (Ok (), fs') \<and>
      fst fs' (share_path ''keys'' (0 + 1)) = Some b \<and> snd fs' (pubkey_path ''keys'') = Some (bundle_public_key_package b)"
  proof -
    have "0 < unat (3 :: u16)" by simp
    with files [THEN conjunct1, rule_format, OF ok(1)] show ?thesis by fastforce
  qed
  moreover have "cmd_keygen (\<lambda>k. Inr (unat k)) toy_frost toy_dkg toy_files 4 3 ''keys'' 5 (Map.empty, Map.empty) =
     (Err (KeygenFailed (InvalidParams 4 3)), (Map.empty, Map.empty))"
    using files [THEN conjunct2, rule_format, OF ok(2)] by simp
  ultimately show ?thesis by simp
qed

end
