(* ===== verification/Cli_Main.thy ===== *)
theory Cli_Main
  imports Cli_Demo Cli_Keygen
begin

text \<open>
  The program \<open>sapphire\<close> of \<open>sapphire-cli/src/main.rs\<close>: its subcommands, the dispatch with the exit
  status of the process, and the report on a block with the messages of the chain's errors. The parser
  of the command line and the log are not modelled. How the standard library quotes a string
  (\<open>{:?}\<close>) is a parameter.
\<close>

section \<open>The commands\<close>

datatype cmd =
    CmdKeygen u16 u16 string
  | CmdEscrowDemo u16 u16
  | CmdOracle

text \<open>The defaults of \<open>escrow-demo\<close>, for the options that are not given.\<close>

definition escrow_demo_cmd :: "u16 option \<Rightarrow> u16 option \<Rightarrow> cmd" where
  "escrow_demo_cmd t n =
     CmdEscrowDemo (case t of None \<Rightarrow> 2 | Some t \<Rightarrow> t) (case n of None \<Rightarrow> 3 | Some n \<Rightarrow> n)"

text \<open>The exit status of a \<open>main\<close> that returns a \<open>Result\<close>: zero, one for an error, 101 for a panic;
  \<open>std::process::exit\<close> sets its own.\<close>

definition exit_status :: "('a, 'e) result \<Rightarrow> int" where
  "exit_status r = (case r of Ok _ \<Rightarrow> 0 | Err _ \<Rightarrow> 1 | Panic \<Rightarrow> 101)"

definition cli_status :: "('a, cli_error) result \<Rightarrow> int" where
  "cli_status r = (case r of Err (Exit n) \<Rightarrow> n | _ \<Rightarrow> exit_status r)"

definition sapphire_main ::
  "(u16 \<Rightarrow> string + 'i1) \<Rightarrow> ('i1::linorder, 'pkp1, 'vk1, 'vs1, 'cm1, 'rz1, 'rp1, 'sp1, 'sh1, 'sg1) frost \<Rightarrow>
   ('i1, 's11, 'p11, 's21, 'p21, 'kp1, 'pkp1, 'g1) frost_dkg \<Rightarrow> ('fs, 'kp1, 'pkp1) file_crate \<Rightarrow>
   (u16 \<Rightarrow> 'i option) \<Rightarrow> ('sk, 'pk, 'box, 'g, 'o) cbox_crate \<Rightarrow>
   ('i::linorder, 's1, 'p1, 's2, 'p2, 'kp, 'pkp, 'g) frost_dkg \<Rightarrow>
   ('i, 'pkp, 'vk, 'vs, 'cm, 'rz, 'rp, 'sp, 'sh, 'sg) frost \<Rightarrow>
   ('i, 'kp, 'ss, 'nc, 'cm, 'sp, 'rz, 'sh, 'g) frost_signer \<Rightarrow> ('rz, 'rp, 'sg, 'g) demo_crate \<Rightarrow>
   ('g \<Rightarrow> 16 bytes \<times> 'g) \<Rightarrow> hex_crate \<Rightarrow> (u8 list \<Rightarrow> 32 bytes) \<Rightarrow> 'j cli_json \<Rightarrow>
   cmd \<Rightarrow> 'g1 \<Rightarrow> 'g \<Rightarrow> 'o \<Rightarrow> 'fs \<Rightarrow> console \<Rightarrow> int \<times> 'fs \<times> console" where
  "sapphire_main id1 F1 D1 W id_of cb D F S Z fill_bytes hx sha256 js command rng1 rng os fs c =
     (case command of
        CmdKeygen t n out \<Rightarrow> (case cmd_keygen id1 F1 D1 W t n out rng1 fs of (r, fs') \<Rightarrow> (exit_status r, fs', c))
      | CmdEscrowDemo t n \<Rightarrow> (exit_status (cmd_escrow_demo id_of cb D F S Z fill_bytes hx sha256 t n rng os), fs, c)
      | CmdOracle \<Rightarrow> (case cmd_oracle sha256 hx js c of (r, c') \<Rightarrow> (cli_status r, fs, c')))"

section \<open>The report on a block\<close>

text \<open>The messages of \<open>ApplyError\<close>, from the attributes in \<open>sapphire-chain/src/state.rs\<close>.\<close>

fun apply_error_display :: "(string \<Rightarrow> string) \<Rightarrow> hex_crate \<Rightarrow> apply_error \<Rightarrow> string" where
  "apply_error_display dbg hx AlreadyInitialized = ''group already initialized''"
| "apply_error_display dbg hx NotInitialized = ''group not initialized; submit InitGroup first''"
| "apply_error_display dbg hx ValidatorSetMismatch =
     ''validator set in InitGroup does not match the public key package''"
| "apply_error_display dbg hx CeremonyAlreadyInProgress = ''DKG ceremony already in progress''"
| "apply_error_display dbg hx NoCeremony = ''DKG ceremony not in progress''"
| "apply_error_display dbg hx BadDkgValidatorCount =
     ''DKG validator set must have exactly `total` participants''"
| "apply_error_display dbg hx Round1NotComplete = ''DKG: round 1 not complete yet''"
| "apply_error_display dbg hx Round2NotComplete = ''DKG: round 2 not complete yet''"
| "apply_error_display dbg hx (DuplicateRound1 i) =
     ''DKG: participant '' @ dbg i @ '' already submitted round-1 package''"
| "apply_error_display dbg hx (DuplicateRound2 i j) =
     ''DKG: participant '' @ dbg i @ '' already submitted round-2 envelope to '' @ dbg j"
| "apply_error_display dbg hx (DuplicateFinalize i) =
     ''DKG: participant '' @ dbg i @ '' already submitted finalize''"
| "apply_error_display dbg hx (SelfAddressedRound2 i) =
     ''DKG: participant '' @ dbg i @ '' cannot self-address a round-2 envelope''"
| "apply_error_display dbg hx (UnknownDkgValidator i) =
     ''DKG: validator '' @ dbg i @ '' not in the ceremony validator set''"
| "apply_error_display dbg hx (PkpMismatch i) =
     ''DKG: participant '' @ dbg i @ '' submitted a PKP that disagrees with the rest''"
| "apply_error_display dbg hx (DuplicateRequest u) = ''request '' @ uuid_display hx u @ '' already exists''"
| "apply_error_display dbg hx (UnknownRequest u) = ''request '' @ uuid_display hx u @ '' not found''"
| "apply_error_display dbg hx (UnknownValidator i) = ''validator '' @ dbg i @ '' not in the validator set''"
| "apply_error_display dbg hx DuplicateCommitment =
     ''validator already submitted commitment for this request''"
| "apply_error_display dbg hx DuplicateShare = ''validator already submitted share for this request''"
| "apply_error_display dbg hx NotAwaitingCommitments = ''request is not awaiting commitments''"
| "apply_error_display dbg hx NotSigning = ''request is not in signing phase''"
| "apply_error_display dbg hx NotSelectedParticipant = ''validator was not selected for this signing session''"
| "apply_error_display dbg hx (AggregationFailed r) = ''signature aggregation failed: '' @ r"

definition block_status :: "(string \<Rightarrow> string) \<Rightarrow> hex_crate \<Rightarrow> (unit, apply_error) result \<Rightarrow> string" where
  "block_status dbg hx r =
     (case r of Err e \<Rightarrow> ''REJECTED: '' @ apply_error_display dbg hx e | _ \<Rightarrow> ''ok'')"

fun block_lines ::
  "(string \<Rightarrow> string) \<Rightarrow> hex_crate \<Rightarrow> nat \<Rightarrow> ('t \<times> (unit, apply_error) result) list \<Rightarrow> unit cli" where
  "block_lines dbg hx k [] = cli_return (Ok ())"
| "block_lines dbg hx k ((t, r) # rs) =
     cli_bind (cli_println (''  tx#'' @ show_nat k @ '': '' @ block_status dbg hx r)) (\<lambda>_. block_lines dbg hx (k + 1) rs)"

definition print_block ::
  "(string \<Rightarrow> string) \<Rightarrow> hex_crate \<Rightarrow> ('i, 'pkp, 'p1, 'cm, 'rz, 'sp, 'sh, 'sg) chain_sim \<Rightarrow>
   (('i, 'pkp, 'p1, 'cm, 'rz, 'sh) tx \<times> (unit, apply_error) result) list \<Rightarrow> string \<Rightarrow> unit cli" where
  "print_block dbg hx chain results label =
     cli_bind (cli_println (newline @ ''[block '' @ show_nat (unat (block_height chain)) @ ''] '' @ label)) (\<lambda>_.
       block_lines dbg hx 0 results)"

section \<open>What the reports say\<close>

lemma block_status_ok: "r \<noteq> Panic \<Longrightarrow> block_status dbg hx r = ''ok'' \<longleftrightarrow> is_ok r"
  by (cases r) (simp_all add: block_status_def)

lemma block_lines_output:
  "block_lines dbg hx k rs c = (Ok (), c\<lparr>stdout := stdout c @
     concat (map (\<lambda>(j, t, r). ''  tx#'' @ show_nat (k + j) @ '': '' @ block_status dbg hx r @ newline)
       (enumerate 0 rs))\<rparr>)"
proof (induction rs arbitrary: k c)
  case (Cons x rs)
  have "enumerate 0 (x # rs) = (0, x) # map (\<lambda>(j, y). (Suc j, y)) (enumerate 0 rs)"
    by (auto simp: enumerate_Suc_eq)
  with Cons show ?case by (cases x) (simp add: split_def comp_def)
qed (simp add: cli_return_def)

text \<open>A report never fails and changes nothing but the output.\<close>

lemma print_block_output:
  "print_block dbg hx chain results label c = (Ok (), c\<lparr>stdout := stdout c @
     newline @ ''[block '' @ show_nat (unat (block_height chain)) @ ''] '' @ label @ newline @
     concat (map (\<lambda>(j, t, r). ''  tx#'' @ show_nat j @ '': '' @ block_status dbg hx r @ newline) (enumerate 0 results))\<rparr>)"
  by (simp add: print_block_def block_lines_output)

end
