(* ===== verification/Cli_Demo_Props.thy ===== *)
theory Cli_Demo_Props
  imports Cli_Demo
begin

text \<open>
  The demonstration succeeds: with libraries that behave as documented and honest participants, the
  release is signed and verified and the tampered release gets no commitment. The laws of the
  signature scheme are stated for the keys of an honest key generation.
\<close>

section \<open>What the libraries document\<close>

definition proposal_law :: "('rz, 'rp, 'sg, 'g) demo_crate \<Rightarrow> bool" where
  "proposal_law Z \<longleftrightarrow> (\<forall>p. \<exists>bs. proposal_to_vec Z p = Inr bs \<and> proposal_from_slice Z bs = Inr p)"

text \<open>
  With the keys of an honest key generation among \<open>I\<close>, a key package names its holder and signs,
  and honest shares of a threshold of members aggregate, under the public key package of any of them,
  to a signature that verifies under the randomized key and can be serialized.
\<close>

definition signing_laws ::
  "('i::linorder, 'pkp, 'vk, 'vs, 'cm, 'rz, 'rp, 'sp, 'sh, 'sg) frost \<Rightarrow>
   ('i, 's1, 'p1, 's2, 'p2, 'kp, 'pkp, 'g) frost_dkg \<Rightarrow>
   ('i, 'kp, 'ss, 'nc, 'cm, 'sp, 'rz, 'sh, 'g) frost_signer \<Rightarrow> ('rz, 'rp, 'sg, 'g) demo_crate \<Rightarrow>
   mpc_params \<Rightarrow> 'i set \<Rightarrow> bool" where
  "signing_laws F D S Z params I \<longleftrightarrow>
     (\<forall>kp pkp. honest_keys D params I kp pkp \<longrightarrow>
        (\<forall>i \<in> I. kp_identifier S (kp i) = i \<and> sign_law F S (unat (threshold params)) (kp i)) \<and>
        (\<forall>j \<in> I. \<forall>cms shs msg rz. dom (bt_get cms) \<subseteq> I \<and> bt_len cms = unat (threshold params) \<and>
             dom (bt_get shs) = dom (bt_get cms) \<and>
             (\<forall>i \<in> dom (bt_get cms). \<exists>sh. bt_get shs i = Some sh \<and> honest_share F S cms msg rz (kp i) sh) \<longrightarrow>
           (\<exists>sg bs. outcome F (pkp j) cms shs msg rz = Inr sg \<and>
              verify_randomized Z (from_randomizer F (verifying_key F (pkp j)) rz) msg sg = Inr () \<and>
              signature_bytes Z sg = Inr bs)))"

section \<open>The policy of the validators\<close>

lemma demo_approves:
  assumes "proposal_from_slice Z bs = Inr (demo_proposal sha256 pay_to)"
  shows "demo_approve (proposal_from_slice Z) hx sha256 bs =
    (if pay_to = ''u_alice'' then Ok () else Err (escrow_error_display PayeeMismatch))"
  using assms
  by (simp add: demo_approve_def escrow_approve_def with_escrow_def escrow_policy_new_def demo_proposal_def
      demo_terms_def validate_settlement_def hash_preimage_verify_def)

section \<open>Key generation\<close>

definition demo_node ::
  "('i, 'kp, 'ss, 'nc, 'cm, 'sp, 'rz, 'sh, 'g) frost_signer \<Rightarrow> approve_fn \<Rightarrow> 'kp \<Rightarrow> 'pkp \<Rightarrow> ('i, 'kp, 'pkp, 'nc) node" where
  "demo_node S approve kp pkp = with_policy (node_new S \<lparr>bundle_key_package = kp, bundle_public_key_package = pkp\<rparr>) approve"

lemma demo_node_simps [simp]:
  "node_identifier (demo_node S approve kp pkp) = kp_identifier S kp" "key_package (demo_node S approve kp pkp) = kp"
  "policy (demo_node S approve kp pkp) = approve" "remembers s (demo_node S approve kp pkp)"
  by (simp_all add: demo_node_def with_policy_def node_new_def key_package_def remembers_def)

lemma demo_nodes_complete:
  "demo_nodes S approve (map (\<lambda>i. after_r3 (P i) (kp i) (pkp i)) ids) = Ok (map (\<lambda>i. demo_node S approve (kp i) (pkp i)) ids)"
  by (induction ids) (simp_all add: into_node_def after_r3_def demo_node_def)

lemma participants_exist:
  assumes "\<And>k. k \<in> set ks \<Longrightarrow> id_of k \<noteq> None"
  shows "\<exists>ps rng'. make_participants id_of cb rng ks = Ok (ps, rng')"
  using assms
proof (induction ks arbitrary: rng)
  case (Cons k ks)
  note IH = Cons.IH [OF Cons.prems [OF list.set_intros(2)]]
  obtain i where "id_of k = Some i" using Cons.prems [of k] by auto
  then show ?case
    using IH [of "snd (sk_generate cb rng)"] by (auto simp: participant_new_def split: prod.splits)
qed simp

lemma min_in:
  "ids = map f (one_to n) \<Longrightarrow> 0 < unat n \<Longrightarrow> Min (set ids) \<in> set ids"
  by (intro Min_in) (auto simp: one_to_def)

lemma demo_setup_ready:
  fixes F :: "('i::linorder, 'pkp, 'vk, 'vs, 'cm, 'rz, 'rp, 'sp, 'sh, 'sg) frost"
    and D :: "('i, 's1, 'p1, 's2, 'p2, 'kp, 'pkp, 'g) frost_dkg" and cb :: "('sk, 'pk, 'box, 'g, 'o) cbox_crate"
  assumes params: "params = \<lparr>threshold = t, total = n\<rparr>" "params_ok params"
    and laws: "dkg_laws F D params (set ids)" "cbox_laws cb" "json_laws D" "signing_laws F D S Z params (set ids)"
    and ids: "ids = map (\<lambda>k. the (id_of k)) (one_to n)" "distinct ids" "\<And>k. k \<in> set (one_to n) \<Longrightarrow> id_of k \<noteq> None"
  shows "\<exists>sim kp pkp rng' g nodes. demo_setup id_of cb D F S approve t n rng os = Ok (pkp (Min (set ids)), sim, nodes, rng') \<and>
    nodes = map (\<lambda>i. demo_node S approve (kp i) (pkp i)) ids \<and>
    honest_keys D params (set ids) kp pkp \<and> session_ready F S g sim nodes \<and> block_height sim = 4 \<and>
    requests (sim_state sim) = bt_new \<and> g_params g = params \<and> g_pkp g = pkp (Min (set ids))"
proof -
  have total: "total params = n" "threshold params = t" by (simp_all add: params(1))
  have pos: "0 < unat (threshold params)" "unat (threshold params) \<le> unat n" "0 < unat (total params)"
    using params by (auto simp: params_ok_def word_less_nat_alt word_le_nat_alt)
  have new: "mpc_params_new t n = Ok params" using mpc_params_new_spec [of t n] pos(1,2) params(1) by simp
  from participants_exist [of "one_to n" id_of cb rng, OF ids(3)] obtain ps rng1 where
    made: "make_participants id_of cb rng (one_to n) = 
      (Ok (ps, rng1) :: (('i, 'sk, 's1, 's2, 'kp, 'pkp) dkg_participant list \<times> 'g, ('i, 'cm, 'sp, 'sh, 'sg) demo_error) result)" by blast
  from honest_dkg_run [OF laws(1-3) pos(3), unfolded total, OF ids(1,2) made, of os]
  obtain sim P kp pkp rng' os' where
    run: "run_dkg F D cb params rng1 os ps = Ok (sim, map (\<lambda>i. after_r3 (P i) (kp i) (pkp i)) ids, rng', os')"
    and keys: "honest_keys D params (set ids) kp pkp" and sim: "block_height sim = 4" "mempool sim = []"
      "sim_state sim = default_state\<lparr>ceremony := None,
      group := Some \<lparr>g_params = params, g_pkp = pkp (Min (set ids)), g_validators = bs_collect ids\<rparr>\<rparr>"
    by (elim exE conjE)
  let ?g = "\<lparr>g_params = params, g_pkp = pkp (Min (set ids)), g_validators = bs_collect ids\<rparr>"
    and ?nodes = "map (\<lambda>i. demo_node S approve (kp i) (pkp i)) ids"
  from laws(4) keys have kp: "\<forall>i \<in> set ids. kp_identifier S (kp i) = i \<and> sign_law F S (unat (threshold params)) (kp i)"
    unfolding signing_laws_def by blast
  have done1: "demo_setup id_of cb D F S approve t n rng os = Ok (pkp (Min (set ids)), sim, ?nodes, rng')"
    using new made run by (simp add: demo_setup_def demo_nodes_complete sim(3))
  have len: "length ids = unat n" using ids(1) by (simp add: one_to_def)
  have "map node_identifier ?nodes = ids" using kp by (simp add: map_idI)
  then have ready: "session_ready F S ?g sim ?nodes"
    unfolding session_ready_def using kp ids(2) len pos(1,2) by (auto simp: sim default_state_def)
  have fin: "requests (sim_state sim) = bt_new" "g_params ?g = params" "g_pkp ?g = pkp (Min (set ids))"
    by (simp_all add: sim(3) default_state_def)
  show ?thesis by (intro exI conjI) (fact done1 refl keys ready sim(1) fin)+
qed

section \<open>The release\<close>

lemma demo_release_signs:
  fixes sim :: "('i::linorder, 'pkp, 'p1, 'cm, 'rz, 'sp, 'sh, 'sg) chain_sim"
  assumes ready: "session_ready F S g sim vs" and msg: "proposal_to_vec Z (demo_proposal sha256 ''u_alice'') = Inr msg"
    and approve: "\<forall>v \<in> set vs. policy v msg = Ok ()"
    and u: "uuid_new fill_bytes rng = (rid, rng0)" "bt_get (requests (sim_state sim)) rid = None"
    and height: "unat (block_height sim) + 3 < 2 ^ 64"
    and agg: "\<And>cms shs. dom (bt_get cms) = node_identifier ` set (take (unat (threshold (g_params g))) vs) \<Longrightarrow>
      dom (bt_get shs) = dom (bt_get cms) \<Longrightarrow>
      \<forall>v \<in> set (take (unat (threshold (g_params g))) vs). \<exists>sh. bt_get shs (node_identifier v) = Some sh \<and>
        honest_share F S cms msg rz (key_package v) sh \<Longrightarrow>
      \<exists>sg bs. outcome F (g_pkp g) cms shs msg rz = Inr sg \<and>
        verify_randomized Z (from_randomizer F (verifying_key F (g_pkp g)) rz) msg sg = Inr () \<and> signature_bytes Z sg = Inr bs"
  shows "\<exists>sim' vs' rng' e P sg. demo_release F S Z fill_bytes sha256 (g_pkp g) rz sim vs rng = Ok (rid, sim', vs', rng') \<and>
    session_ready F S g sim' vs' \<and> map policy vs' = map policy vs \<and>
    unat (block_height sim') = unat (block_height sim) + 3 \<and>
    sim_state sim' = with_entry (sim_state sim) rid e \<and> message e = msg \<and> status e = Completed P sg \<and>
    verify_randomized Z (from_randomizer F (verifying_key F (g_pkp g)) rz) msg sg = Inr ()"
proof -
  from session_rounds [OF ready approve u(2) height, of rz rng0]
  obtain cms shs sim1 res1 sim1a vs1 rng1 sim2 res2 e2 sp P sim2a vs' rng' sim' res' e' where
    cb1: "commit_block F (submit sim (SubmitRequest rid msg rz)) = Ok (sim1, res1)" "first_rejection res1 = None"
    and one: "validators_react S sim1 rng0 False vs = (Ok True, sim1a, vs1, rng1)" "commit_block F sim1a = Ok (sim2, res2)"
      "bt_get (requests (sim_state sim2)) rid = Some e2" "status e2 = Signing sp P bt_new"
    and two: "validators_react S sim2 rng1 False vs1 = (Ok True, sim2a, vs', rng')" "commit_block F sim2a = Ok (sim', res')"
    and e': "sim_state sim' = with_entry (sim_state sim) rid e'" "message e' = msg"
      "status e' = (case outcome F (g_pkp g) cms shs msg rz of Inr sg \<Rightarrow> Completed P sg | Inl reason \<Rightarrow> Failed reason)"
    and rest: "session_ready F S g sim' vs'" "map policy vs' = map policy vs" "map key_package vs' = map key_package vs"
      "unat (block_height sim') = unat (block_height sim) + 3"
    and d: "dom (bt_get cms) = node_identifier ` set (take (unat (threshold (g_params g))) vs)" "dom (bt_get shs) = dom (bt_get cms)"
      "\<forall>v \<in> set (take (unat (threshold (g_params g))) vs). \<exists>sh. bt_get shs (node_identifier v) = Some sh \<and>
          honest_share F S cms msg rz (key_package v) sh"
    by (elim exE conjE)
  from agg [OF d] obtain sg bs where sg: "outcome F (g_pkp g) cms shs msg rz = Inr sg"
    "verify_randomized Z (from_randomizer F (verifying_key F (g_pkp g)) rz) msg sg = Inr ()" "signature_bytes Z sg = Inr bs"
    by blast
  have st: "status e' = Completed P sg" using e'(3) sg(1) by simp
  have "demo_release F S Z fill_bytes sha256 (g_pkp g) rz sim vs rng = Ok (rid, sim', vs', rng')"
    using msg u(1) cb1 one two e'(1) st sg
    by (simp add: demo_release_def demo_request_def demo_round_def)
  with rest(1,2,4) e'(1,2) st sg(2) show ?thesis by blast
qed

section \<open>The tampered release\<close>

lemma nobody_reacts:
  assumes "\<forall>v \<in> set vs. react S v (sim_state sim) rng = (Ok [], v, rng)"
  shows "validators_react S sim rng b vs = (Ok b, sim, vs, rng)"
  using assms by (induction vs) simp_all

lemma quiet_round:
  fixes sim :: "('i::linorder, 'pkp, 'p1, 'cm, 'rz, 'sp, 'sh, 'sg) chain_sim"
  assumes "\<forall>v \<in> set vs. react S v (sim_state sim) rng = (Ok [], v, rng)" "mempool sim = []"
    and "unat (block_height sim) + 1 < 2 ^ 64"
  shows "\<exists>sim'. demo_round F S sim vs rng = Ok (sim', vs, rng) \<and> sim_state sim' = sim_state sim"
proof -
  from commit_block_skip [of F sim "sim_state sim"] assms(2,3) obtain sim' results where
    "commit_block F sim = Ok (sim', results)" "sim_state sim' = sim_state sim" by auto
  with nobody_reacts [OF assms(1), of False] show ?thesis by (simp add: demo_round_def)
qed

lemma refusing_react:
  assumes g: "group s = Some g" "node_identifier v \<in> dom (bt_get (g_validators g))"
    and e: "bt_get (requests s) rid = Some e" "status e = AwaitingCommitments bt_new" "others_terminal rid s"
    and refuse: "policy v (message e) = Err reason"
  shows "react S v s rng = (Ok [], v, rng)"
  using react_single [OF g e(1,3), of S rng] e(2) refuse by (simp add: react_request_def bt_contains_key_def)

lemma ended_react:
  assumes "group s = Some g" "\<And>r e. bt_get (requests s) r = Some e \<Longrightarrow> terminal (status e)"
  shows "react S v s rng = (Ok [], v, rng)"
proof -
  have "\<forall>(r, e) \<in> set (bt_iter (requests s)). terminal (status e)"
    using assms(2) by (auto simp: in_set_bt_iter)
  with assms(1) show ?thesis by (simp add: react_def react_loop_terminal)
qed

lemma demo_reject_refused:
  fixes sim :: "('i::linorder, 'pkp, 'p1, 'cm, 'rz, 'sp, 'sh, 'sg) chain_sim"
  assumes ready: "session_ready F S g sim vs" and msg: "proposal_to_vec Z (demo_proposal sha256 ''u_attacker'') = Inr msg"
    and refuse: "\<forall>v \<in> set vs. \<exists>reason. policy v msg = Err reason"
    and u: "uuid_new fill_bytes rng = (rid, rng0)" "bt_get (requests (sim_state sim)) rid = None"
    and height: "unat (block_height sim) + 2 < 2 ^ 64"
  shows "demo_reject F S Z fill_bytes sha256 rz sim vs rng = Ok ()"
proof -
  have r: "group (sim_state sim) = Some g" "mempool sim = []" "\<And>r e. bt_get (requests (sim_state sim)) r = Some e \<Longrightarrow> terminal (status e)"
    "node_identifier ` set vs \<subseteq> dom (bt_get (g_validators g))"
    using ready by (auto simp: session_ready_def)
  let ?e = "\<lparr>request_id = rid, message = msg, randomizer = rz, status = AwaitingCommitments bt_new\<rparr>"
  from first_block [OF r(1,2) u(2), of F msg rz] height obtain sim1 res1 where
    cb: "commit_block F (submit sim (SubmitRequest rid msg rz)) = Ok (sim1, res1)"
    and s1: "mempool sim1 = []" "unat (block_height sim1) = Suc (unat (block_height sim))" "sim_state sim1 = with_entry (sim_state sim) rid ?e"
    by auto
  have oth: "others_terminal rid (sim_state sim1)" using r(3) by (auto simp: s1(3) others_terminal_def)
  have get: "bt_get (requests (sim_state sim1)) rid = Some ?e" by (simp add: s1(3))
  have "\<forall>v \<in> set vs. react S v (sim_state sim1) rng0 = (Ok [], v, rng0)"
  proof
    fix v
    assume v: "v \<in> set vs"
    from refuse v obtain reason where "policy v (message ?e) = Err reason" by auto
    then show "react S v (sim_state sim1) rng0 = (Ok [], v, rng0)"
      using v r(1,4) by (intro refusing_react [where g = g, OF _ _ get _ oth]) (auto simp: s1(3))
  qed
  from quiet_round [OF this s1(1), of F] height s1(2) obtain sim2 where
    "demo_round F S sim1 vs rng0 = Ok (sim2, vs, rng0)" "sim_state sim2 = sim_state sim1" by auto
  with cb u(1) msg get show ?thesis by (simp add: demo_reject_def demo_request_def bt_len_card)
qed

text \<open>A second identifier that repeats the first one makes the command fail, although nothing was signed.\<close>

lemma demo_reject_repeated:
  fixes sim :: "('i::linorder, 'pkp, 'p1, 'cm, 'rz, 'sp, 'sh, 'sg) chain_sim"
  assumes ready: "session_ready F S g sim vs" and msg: "proposal_to_vec Z (demo_proposal sha256 ''u_attacker'') = Inr msg"
    and u: "uuid_new fill_bytes rng = (rid, rng0)" "bt_get (requests (sim_state sim)) rid = Some e" "status e = Completed P sg"
    and height: "unat (block_height sim) + 2 < 2 ^ 64"
  shows "demo_reject F S Z fill_bytes sha256 rz sim vs rng = Err (TamperedProgressed (Completed P sg))"
proof -
  have r: "group (sim_state sim) = Some g" "mempool sim = []" "\<And>r e. bt_get (requests (sim_state sim)) r = Some e \<Longrightarrow> terminal (status e)"
    using ready by (auto simp: session_ready_def)
  let ?sim = "submit sim (SubmitRequest rid msg rz)"
  have "run_skip (apply_tx F) (sim_state ?sim) (mempool ?sim) = Ok (sim_state sim)"
    using r(1,2) u(2) by (simp add: submit_def apply_submit_request_def require_group_def bt_contains_key_def)
  from commit_block_skip [OF this] height obtain sim1 res1 where
    cb: "commit_block F ?sim = Ok (sim1, res1)" and s1: "sim_state sim1 = sim_state sim" "mempool sim1 = []"
      "unat (block_height sim1) = Suc (unat (block_height sim))" by (auto simp: submit_def)
  have "\<forall>v \<in> set vs. react S v (sim_state sim1) rng0 = (Ok [], v, rng0)"
    using r(1,3) s1(1) by (simp add: ended_react)
  from quiet_round [OF this s1(2), of F] height s1(3) obtain sim2 where
    "demo_round F S sim1 vs rng0 = Ok (sim2, vs, rng0)" "sim_state sim2 = sim_state sim1" by auto
  with cb u msg s1(1) show ?thesis by (simp add: demo_reject_def demo_request_def)
qed

section \<open>The whole demonstration\<close>

lemma demo_aggregates:
  assumes laws: "signing_laws F D S Z params (set ids)" and keys: "honest_keys D params (set ids) kp pkp"
    and ids: "distinct ids" "unat (threshold params) \<le> length ids" "j \<in> set ids"
    and vs: "vs = map (\<lambda>i. demo_node S approve (kp i) (q i)) ids" "P = take (unat (threshold params)) vs"
    and d: "dom (bt_get cms) = node_identifier ` set P" "dom (bt_get shs) = dom (bt_get cms)"
    and hs: "\<forall>v \<in> set P. \<exists>sh. bt_get shs (node_identifier v) = Some sh \<and> honest_share F S cms msg rz (key_package v) sh"
  shows "\<exists>sg bs. outcome F (pkp j) cms shs msg rz = Inr sg \<and>
    verify_randomized Z (from_randomizer F (verifying_key F (pkp j)) rz) msg sg = Inr () \<and> signature_bytes Z sg = Inr bs"
proof -
  let ?t = "unat (threshold params)"
  note L = laws [unfolded signing_laws_def, rule_format, OF keys]
  have id: "kp_identifier S (kp i) = i" if "i \<in> set ids" for i using L that by blast
  have P: "P = map (\<lambda>i. demo_node S approve (kp i) (q i)) (take ?t ids)" by (simp add: vs take_map)
  have sub: "set (take ?t ids) \<subseteq> set ids" by (rule set_take_subset)
  have dom: "dom (bt_get cms) = set (take ?t ids)"
  proof -
    have "dom (bt_get cms) = (\<lambda>i. kp_identifier S (kp i)) ` set (take ?t ids)" by (simp add: d(1) P image_image)
    also have "\<dots> = (\<lambda>i. i) ` set (take ?t ids)" using id sub by (intro image_cong) auto
    finally show ?thesis by simp
  qed
  have "bt_len cms = ?t" using ids(1,2) by (simp add: bt_len_card dom distinct_card)
  moreover have "\<forall>i \<in> dom (bt_get cms). \<exists>sh. bt_get shs i = Some sh \<and> honest_share F S cms msg rz (kp i) sh"
    using hs id sub unfolding dom P by fastforce
  ultimately show ?thesis using L [THEN conjunct2, rule_format, OF ids(3), of cms shs msg rz] d(2) sub dom by simp
qed

lemma demo_released:
  fixes F :: "('i::linorder, 'pkp, 'vk, 'vs, 'cm, 'rz, 'rp, 'sp, 'sh, 'sg) frost"
    and D :: "('i, 's1, 'p1, 's2, 'p2, 'kp, 'pkp, 'g) frost_dkg"
  assumes params: "params = \<lparr>threshold = t, total = n\<rparr>" "params_ok params"
    and laws: "dkg_laws F D params (set ids)" "cbox_laws cb" "json_laws D" "signing_laws F D S Z params (set ids)"
    and ids: "ids = map (\<lambda>k. the (id_of k)) (one_to n)" "distinct ids" "\<forall>k \<in> set (one_to n). id_of k \<noteq> None"
    and good: "proposal_to_vec Z (demo_proposal sha256 ''u_alice'') = Inr good" "proposal_from_slice Z good = Inr (demo_proposal sha256 ''u_alice'')"
  shows "\<exists>rz rid sim vs rng' g e P sg.
    demo_until_release id_of cb D F S Z fill_bytes hx sha256 t n rng os = Ok (rz, rid, sim, vs, rng') \<and>
    session_ready F S g sim vs \<and> (\<forall>v \<in> set vs. policy v = demo_approve (proposal_from_slice Z) hx sha256) \<and>
    unat (block_height sim) = 7 \<and> requests (sim_state sim) = bt_insert rid e bt_new \<and> message e = good \<and> status e = Completed P sg \<and>
    verify_randomized Z (from_randomizer F (verifying_key F (g_pkp g)) rz) good sg = Inr ()"
proof -
  let ?approve = "demo_approve (proposal_from_slice Z) hx sha256"
  from demo_setup_ready [OF params laws(1-4) ids(1,2), of ?approve rng os] ids(3)
  obtain sim0 kp pkp rng0 g vs where
    done1: "demo_setup id_of cb D F S ?approve t n rng os = Ok (pkp (Min (set ids)), sim0, vs, rng0)"
    and vs: "vs = map (\<lambda>i. demo_node S ?approve (kp i) (pkp i)) ids" and keys: "honest_keys D params (set ids) kp pkp"
    and ready: "session_ready F S g sim0 vs" and s0: "block_height sim0 = 4" "requests (sim_state sim0) = bt_new"
    and g: "g_params g = params" "g_pkp g = pkp (Min (set ids))" by blast
  obtain rz rng1 where rz: "random_randomizer Z rng0 = (rz, rng1)" by (metis prod.collapse)
  obtain rid rng2 where u: "uuid_new fill_bytes rng1 = (rid, rng2)" by (metis prod.collapse)
  have n: "unat t \<le> length ids" "0 < unat n"
    using params ids(1) by (auto simp: params_ok_def one_to_def word_le_nat_alt word_less_nat_alt)
  have pol: "\<forall>v \<in> set vs. policy v good = Ok ()" by (auto simp: vs demo_approves [OF good(2)])
  have t: "unat (threshold params) \<le> length ids" using n(1) by (simp add: params(1))
  have new: "bt_get (requests (sim_state sim0)) rid = None" "unat (block_height sim0) + 3 < 2 ^ 64" by (simp_all add: s0)
  have "\<exists>sim' vs' rng' e P sg. demo_release F S Z fill_bytes sha256 (g_pkp g) rz sim0 vs rng1 = Ok (rid, sim', vs', rng') \<and>
    session_ready F S g sim' vs' \<and> map policy vs' = map policy vs \<and>
    unat (block_height sim') = unat (block_height sim0) + 3 \<and>
    sim_state sim' = with_entry (sim_state sim0) rid e \<and> message e = good \<and> status e = Completed P sg \<and>
    verify_randomized Z (from_randomizer F (verifying_key F (g_pkp g)) rz) good sg = Inr ()"
    by (rule demo_release_signs [OF ready good(1) pol u new])
      (unfold g, rule demo_aggregates [OF laws(4) keys ids(2) t min_in [OF ids(1) n(2)] vs refl], assumption+)
  then obtain sim vs' rng' e P sg where
    rel: "demo_release F S Z fill_bytes sha256 (g_pkp g) rz sim0 vs rng1 = Ok (rid, sim, vs', rng')"
    and ready': "session_ready F S g sim vs'" and same: "map policy vs' = map policy vs"
    and h: "unat (block_height sim) = unat (block_height sim0) + 3"
    and e: "sim_state sim = with_entry (sim_state sim0) rid e" "message e = good" "status e = Completed P sg"
    and ver: "verify_randomized Z (from_randomizer F (verifying_key F (g_pkp g)) rz) good sg = Inr ()"
    by (elim exE conjE)
  have until: "demo_until_release id_of cb D F S Z fill_bytes hx sha256 t n rng os = Ok (rz, rid, sim, vs', rng')"
    using done1 rz rel by (simp add: demo_until_release_def g(2))
  have same': "\<forall>v \<in> set vs'. policy v = ?approve"
  proof
    fix v
    assume "v \<in> set vs'"
    then have "policy v \<in> policy ` set vs" using same by (metis image_eqI set_map)
    then show "policy v = ?approve" by (auto simp: vs)
  qed
  have h': "unat (block_height sim) = 7" using h s0(1) by simp
  have req: "requests (sim_state sim) = bt_insert rid e bt_new" using e(1) s0(2) by (simp add: with_entry_def)
  show ?thesis by (intro exI conjI) (fact until ready' same' h' req e(2,3) ver)+
qed

text \<open>
  C7. The demonstration holds what it announces. If the libraries behave as documented for honest
  participants, the numbers from one to the total give distinct identifiers and the parameters are
  valid, then the command gets through key generation and the release: the chain holds a completed
  request for exactly the encoded release to the payee, and its signature verifies under the
  randomized key of the group. The command then succeeds, with no commitment at all for the tampered
  release, exactly when the second request identifier it draws differs from the first.
\<close>

theorem escrow_demo_holds:
  fixes F :: "('i::linorder, 'pkp, 'vk, 'vs, 'cm, 'rz, 'rp, 'sp, 'sh, 'sg) frost"
    and D :: "('i, 's1, 'p1, 's2, 'p2, 'kp, 'pkp, 'g) frost_dkg"
  assumes params: "params = \<lparr>threshold = t, total = n\<rparr>" "params_ok params"
    and laws: "dkg_laws F D params (set ids)" "cbox_laws cb" "json_laws D" "signing_laws F D S Z params (set ids)" "proposal_law Z"
    and ids: "ids = map (\<lambda>k. the (id_of k)) (one_to n)" "distinct ids" "\<forall>k \<in> set (one_to n). id_of k \<noteq> None"
  shows "\<exists>rz good_id sim nodes rng' g e P sg.
    demo_until_release id_of cb D F S Z fill_bytes hx sha256 t n rng os = Ok (rz, good_id, sim, nodes, rng') \<and>
    group (sim_state sim) = Some g \<and> bt_get (requests (sim_state sim)) good_id = Some e \<and>
    proposal_to_vec Z (demo_proposal sha256 ''u_alice'') = Inr (message e) \<and> status e = Completed P sg \<and>
    verify_randomized Z (from_randomizer F (verifying_key F (g_pkp g)) rz) (message e) sg = Inr () \<and>
    (cmd_escrow_demo id_of cb D F S Z fill_bytes hx sha256 t n rng os = Ok () \<longleftrightarrow> fst (uuid_new fill_bytes rng') \<noteq> good_id)"
proof -
  from laws(5) obtain good bad where
    good: "proposal_to_vec Z (demo_proposal sha256 ''u_alice'') = Inr good" "proposal_from_slice Z good = Inr (demo_proposal sha256 ''u_alice'')"
    and bad: "proposal_to_vec Z (demo_proposal sha256 ''u_attacker'') = Inr bad"
      "proposal_from_slice Z bad = Inr (demo_proposal sha256 ''u_attacker'')"
    unfolding proposal_law_def by metis
  from demo_released [OF params laws(1-4) ids good, of fill_bytes hx rng os] obtain rz rid sim vs rng' g e P sg where
    until: "demo_until_release id_of cb D F S Z fill_bytes hx sha256 t n rng os = Ok (rz, rid, sim, vs, rng')"
    and ready: "session_ready F S g sim vs" and pol: "\<forall>v \<in> set vs. policy v = demo_approve (proposal_from_slice Z) hx sha256"
    and h: "unat (block_height sim) = 7" and req: "requests (sim_state sim) = bt_insert rid e bt_new"
    and e: "message e = good" "status e = Completed P sg"
    and ver: "verify_randomized Z (from_randomizer F (verifying_key F (g_pkp g)) rz) good sg = Inr ()"
    by (elim exE conjE)
  have refused: "\<forall>v \<in> set vs. \<exists>reason. policy v bad = Err reason" using pol by (simp add: demo_approves [OF bad(2)])
  have h2: "unat (block_height sim) + 2 < 2 ^ 64" by (simp add: h)
  obtain rid' rng3 where u: "uuid_new fill_bytes rng' = (rid', rng3)" by (metis prod.collapse)
  have "demo_reject F S Z fill_bytes sha256 rz sim vs rng' = Ok () \<longleftrightarrow> rid' \<noteq> rid"
    using demo_reject_repeated [OF ready bad(1) u _ e(2) h2] demo_reject_refused [OF ready bad(1) refused u _ h2] req
    by (cases "rid' = rid") simp_all
  then have cmd: "cmd_escrow_demo id_of cb D F S Z fill_bytes hx sha256 t n rng os = Ok () \<longleftrightarrow> fst (uuid_new fill_bytes rng') \<noteq> rid"
    using until u by (simp add: cmd_escrow_demo_def)
  have grp: "group (sim_state sim) = Some g" using ready by (simp add: session_ready_def)
  have get: "bt_get (requests (sim_state sim)) rid = Some e" by (simp add: req)
  have msg: "proposal_to_vec Z (demo_proposal sha256 ''u_alice'') = Inr (message e)"
    "verify_randomized Z (from_randomizer F (verifying_key F (g_pkp g)) rz) (message e) sg = Inr ()"
    using good(1) ver by (simp_all add: e(1))
  show ?thesis by (intro exI conjI) (fact until grp get msg e(2) cmd)+
qed

section \<open>A small demonstration\<close>

text \<open>A signature verifies when it differs from the randomized key by a multiple of hundred, as sums of
  the shares of \<open>plain_signer\<close> do.\<close>

definition toy_demo :: "(nat, nat, nat, nat) demo_crate" where
  "toy_demo = \<lparr>random_randomizer = (\<lambda>g. (7, Suc g)), proposal_to_vec = (\<lambda>p. Inr (plain_encode p)),
     proposal_from_slice = plain_decode,
     verify_randomized = (\<lambda>rp msg sg. if sg mod 100 = rp mod 100 then Inr () else Inl ''invalid signature''),
     signature_bytes = (\<lambda>sg. Inr (replicate 64 (of_nat sg)))\<rparr>"

lemma toy_proposal_law: "proposal_law toy_demo"
  by (simp add: proposal_law_def toy_demo_def plain_codec)

lemma toy_honest_keys:
  assumes "honest_keys toy_dkg params I kp pkp" "i \<in> I"
  shows "kp i = i"
proof -
  from assms obtain s1 p1 s2 sent where h: "honest_part1 toy_dkg params i (s1 i) (p1 i)"
    "part2 toy_dkg (s1 i) (tabulate p1 (I - {i})) = Inr (s2 i, tabulate (sent i) (I - {i}))"
    "part3 toy_dkg (s2 i) (tabulate p1 (I - {i})) (tabulate (\<lambda>j. sent j i) (I - {i})) = Inr (kp i, pkp i)"
    unfolding honest_keys_def by blast
  from h(1) have "s1 i = i" by (simp add: toy_part1)
  with h(2) have "s2 i = i" by (simp add: toy_dkg_def)
  with h(3) show ?thesis by (simp add: toy_dkg_def split: if_splits)
qed

lemma dvd_sum_list: "(\<And>x. x \<in> set xs \<Longrightarrow> (d :: nat) dvd x) \<Longrightarrow> d dvd sum_list xs"
  by (induction xs) simp_all

lemma toy_signing_laws: "signing_laws toy_frost toy_dkg plain_signer toy_demo params I"
  unfolding signing_laws_def
proof (intro allI impI conjI ballI)
  fix kp pkp i
  assume "honest_keys toy_dkg params I kp pkp" "i \<in> I"
  then show "kp_identifier plain_signer (kp i) = i"
    by (simp add: toy_honest_keys plain_signer_def toy_signer_def)
next
  fix kp pkp i
  show "sign_law toy_frost plain_signer (unat (threshold params)) (kp i)"
    by (simp add: sign_law_def plain_signer_def)
next
  fix kp pkp j and cms :: "(nat, nat) btree_map" and shs :: "(nat, nat) btree_map" and msg rz
  assume h: "dom (bt_get cms) \<subseteq> I \<and> bt_len cms = unat (threshold params) \<and> dom (bt_get shs) = dom (bt_get cms) \<and>
    (\<forall>i \<in> dom (bt_get cms). \<exists>sh. bt_get shs i = Some sh \<and> honest_share toy_frost plain_signer cms msg rz (kp i) sh)"
  have "100 dvd x" if "x \<in> set (map snd (bt_iter shs))" for x
  proof -
    from that obtain i where i: "bt_get shs i = Some x" by (auto simp: in_set_bt_iter)
    then have "i \<in> dom (bt_get cms)" using h by auto
    then obtain sh where "bt_get shs i = Some sh" "honest_share toy_frost plain_signer cms msg rz (kp i) sh"
      using h by blast
    with i have "honest_share toy_frost plain_signer cms msg rz (kp i) x" by simp
    then show ?thesis by (auto simp: honest_share_def plain_signer_def)
  qed
  then have "100 dvd sum_list (map snd (bt_iter shs))" by (rule dvd_sum_list)
  then have "(sum_list (map snd (bt_iter shs)) + rp) mod 100 = rp mod 100" for rp
    by (metis add.commute dvd_eq_mod_eq_0 mod_add_right_eq add_0_right)
  moreover have "bt_keys shs = bt_keys cms" using h by (simp add: bt_keys_def keys_bt_iter)
  ultimately show "\<exists>sg bs. outcome toy_frost (pkp j) cms shs msg rz = Inr sg \<and>
      verify_randomized toy_demo (from_randomizer toy_frost (verifying_key toy_frost (pkp j)) rz) msg sg = Inr () \<and>
      signature_bytes toy_demo sg = Inr bs"
    by (simp add: outcome_def toy_frost_def toy_demo_def)
qed

theorem escrow_demo_holds_witness:
  "\<exists>rz good_id (sim :: (nat, nat list, nat, nat, nat, (nat, nat) btree_map \<times> u8 list, nat, nat) chain_sim) nodes rng' e P sg.
    demo_until_release (\<lambda>k. Some (unat k)) toy_cbox toy_dkg toy_frost plain_signer toy_demo
      (\<lambda>r. (bytes_fill (of_nat r), Suc r)) plain_hex sample_sha 2 3 5 (7 :: nat) = Ok (rz, good_id, sim, nodes, rng') \<and>
    bt_get (requests (sim_state sim)) good_id = Some e \<and> status e = Completed P sg \<and>
    (cmd_escrow_demo (\<lambda>k. Some (unat k)) toy_cbox toy_dkg toy_frost plain_signer toy_demo
      (\<lambda>r. (bytes_fill (of_nat r), Suc r)) plain_hex sample_sha 2 3 5 (7 :: nat) = Ok () \<longleftrightarrow>
     Uuid (bytes_fill (of_nat rng')) \<noteq> good_id)"
proof -
  let ?ids = "[1, 2, 3 :: nat]"
  have p: "toy_params = \<lparr>threshold = 2, total = 3\<rparr>" "params_ok toy_params"
    by (simp_all add: toy_params_def params_ok_def word_le_nat_alt word_less_nat_alt)
  have ks: "one_to 3 = [1, 2, 3]" using toy_numbers by (simp add: toy_params_def)
  have ids: "?ids = map (\<lambda>k. the (Some (unat k))) (one_to 3)" "distinct ?ids" "\<forall>k \<in> set (one_to 3). Some (unat k) \<noteq> None"
    unfolding ks by simp_all
  from escrow_demo_holds [OF p toy_dkg_laws [OF finite_set] toy_cbox_laws toy_json toy_signing_laws toy_proposal_law ids,
      where fill_bytes = "\<lambda>r. (bytes_fill (of_nat r), Suc r)" and hx = plain_hex and ?sha256.0 = sample_sha and rng = 5 and os = 7]
  show ?thesis by (simp add: uuid_new_def) blast
qed

end
