(* ===== verification/V1_Tests.thy ===== *)
theory V1_Tests
  imports Cli_Demo_Props Keygen
begin

text \<open>
  The end-to-end scenario of the integration tests \<open>sapphire-tests/tests/v1_chain.rs\<close> and
  \<open>escrow_gate.rs\<close>: keys from one process, \<open>InitGroup\<close>, a request, and the reactions of the nodes until
  the signature. The scenario is stated for any parameters, message and policy; an assertion that
  fails, an \<open>unwrap\<close> or an \<open>expect\<close> panics. The theorem is that the scenario passes.
\<close>

section \<open>The scenario\<close>

text \<open>One node per key package, with the public key package of the group.\<close>

definition v1_nodes ::
  "('i::linorder, 'kp, 'ss, 'nc, 'cm, 'sp, 'rz, 'sh, 'g) frost_signer \<Rightarrow> approve_fn \<Rightarrow> ('i, 'kp) btree_map \<Rightarrow> 'pkp \<Rightarrow>
   ('i, 'kp, 'pkp, 'nc) node list" where
  "v1_nodes S approve key_packages pkp =
     map (\<lambda>(i, kp). with_policy (node_new S \<lparr>bundle_key_package = kp, bundle_public_key_package = pkp\<rparr>) approve)
       (bt_iter key_packages)"

definition v1_group ::
  "(u16 \<Rightarrow> string + 'i) \<Rightarrow> ('i::linorder, 'pkp, 'vk, 'vs, 'cm, 'rz, 'rp, 'sp, 'sh, 'sg) frost \<Rightarrow>
   ('i, 's1, 'p1, 's2, 'p2, 'kp, 'pkp, 'g) frost_dkg \<Rightarrow> ('i, 'kp, 'ss, 'nc, 'cm, 'sp, 'rz, 'sh, 'g) frost_signer \<Rightarrow>
   approve_fn \<Rightarrow> mpc_params \<Rightarrow> 'g \<Rightarrow>
   (('i, 'pkp, 'p1, 'cm, 'rz, 'sp, 'sh, 'sg) chain_sim \<times> ('i, 'kp, 'pkp, 'nc) node list \<times> 'pkp \<times> 'g, unit) result" where
  "v1_group id_of F D S approve params rng =
     (case generate_with_dkg id_of F D params rng of
        Ok ((key_packages, pkp), rng') \<Rightarrow>
          (let validators = v1_nodes S approve key_packages pkp in
           case commit_block F (submit sim_new (InitGroup params pkp (map node_identifier validators))) of
             Ok (sim, results) \<Rightarrow>
               if (\<forall>r \<in> set results. is_ok (snd r)) \<and> group (sim_state sim) \<noteq> None then Ok (sim, validators, pkp, rng')
               else Panic
           | _ \<Rightarrow> Panic)
      | _ \<Rightarrow> Panic)"

text \<open>Every node reacts, then the block.\<close>

definition v1_round ::
  "('i::linorder, 'pkp, 'vk, 'vs, 'cm, 'rz, 'rp, 'sp, 'sh, 'sg) frost \<Rightarrow>
   ('i, 'kp, 'ss, 'nc, 'cm, 'sp, 'rz, 'sh, 'g) frost_signer \<Rightarrow>
   ('i, 'pkp, 'p1, 'cm, 'rz, 'sp, 'sh, 'sg) chain_sim \<Rightarrow> ('i, 'kp, 'pkp, 'nc) node list \<Rightarrow> 'g \<Rightarrow>
   (('i, 'pkp, 'p1, 'cm, 'rz, 'sp, 'sh, 'sg) chain_sim \<times> ('i, 'kp, 'pkp, 'nc) node list \<times> 'g, unit) result" where
  "v1_round F S sim nodes rng =
     (case validators_react S sim rng False nodes of
        (Ok _, sim', nodes', rng') \<Rightarrow>
          (case commit_block F sim' of Ok (sim'', results) \<Rightarrow> Ok (sim'', nodes', rng') | _ \<Rightarrow> Panic)
      | _ \<Rightarrow> Panic)"

definition v1_status ::
  "('i::linorder, 'pkp, 'p1, 'cm, 'rz, 'sp, 'sh, 'sg) chain_sim \<Rightarrow> uuid \<Rightarrow>
   (('i, 'cm, 'sp, 'sh, 'sg) request_status, unit) result" where
  "v1_status sim rid = result_bind (expect (bt_get (requests (sim_state sim)) rid)) (\<lambda>e. Ok (status e))"

definition v1_request ::
  "('i::linorder, 'pkp, 'vk, 'vs, 'cm, 'rz, 'rp, 'sp, 'sh, 'sg) frost \<Rightarrow>
   ('i, 'pkp, 'p1, 'cm, 'rz, 'sp, 'sh, 'sg) chain_sim \<Rightarrow> uuid \<Rightarrow> u8 list \<Rightarrow> 'rz \<Rightarrow>
   (('i, 'pkp, 'p1, 'cm, 'rz, 'sp, 'sh, 'sg) chain_sim, unit) result" where
  "v1_request F sim rid msg rz =
     (case commit_block F (submit sim (SubmitRequest rid msg rz)) of
        Ok (sim', results) \<Rightarrow>
          result_bind (v1_status sim' rid) (\<lambda>st. case st of AwaitingCommitments _ \<Rightarrow> Ok sim' | _ \<Rightarrow> Panic)
      | _ \<Rightarrow> Panic)"

text \<open>The commitments, the shares and the check of the signature.\<close>

definition v1_sign ::
  "('i::linorder, 'pkp, 'vk, 'vs, 'cm, 'rz, 'rp, 'sp, 'sh, 'sg) frost \<Rightarrow>
   ('i, 'kp, 'ss, 'nc, 'cm, 'sp, 'rz, 'sh, 'g) frost_signer \<Rightarrow> ('rz, 'rp, 'sg, 'g) demo_crate \<Rightarrow>
   ('i, 'pkp, 'p1, 'cm, 'rz, 'sp, 'sh, 'sg) chain_sim \<Rightarrow> ('i, 'kp, 'pkp, 'nc) node list \<Rightarrow> 'pkp \<Rightarrow> nat \<Rightarrow>
   uuid \<Rightarrow> u8 list \<Rightarrow> 'rz \<Rightarrow> 'g \<Rightarrow> ('sg, unit) result" where
  "v1_sign F S Z sim nodes pkp participants rid msg rz rng =
     result_bind (v1_round F S sim nodes rng) (\<lambda>(sim2, nodes2, rng2).
     result_bind (v1_status sim2 rid) (\<lambda>st2.
       case st2 of
         Signing sp P shs \<Rightarrow>
           if bt_len P \<noteq> participants then Panic
           else
             result_bind (v1_round F S sim2 nodes2 rng2) (\<lambda>(sim3, nodes3, rng3).
             result_bind (v1_status sim3 rid) (\<lambda>st3.
               case st3 of
                 Completed P' signature \<Rightarrow>
                   (case verify_randomized Z (from_randomizer F (verifying_key F pkp) rz) msg signature of
                      Inr _ \<Rightarrow> Ok signature
                    | Inl _ \<Rightarrow> Panic)
               | _ \<Rightarrow> Panic))
       | _ \<Rightarrow> Panic))"

definition v1_round_trip ::
  "(u16 \<Rightarrow> string + 'i) \<Rightarrow> ('i::linorder, 'pkp, 'vk, 'vs, 'cm, 'rz, 'rp, 'sp, 'sh, 'sg) frost \<Rightarrow>
   ('i, 's1, 'p1, 's2, 'p2, 'kp, 'pkp, 'g) frost_dkg \<Rightarrow> ('i, 'kp, 'ss, 'nc, 'cm, 'sp, 'rz, 'sh, 'g) frost_signer \<Rightarrow>
   ('rz, 'rp, 'sg, 'g) demo_crate \<Rightarrow> ('g \<Rightarrow> 16 bytes \<times> 'g) \<Rightarrow> approve_fn \<Rightarrow> mpc_params \<Rightarrow> u8 list \<Rightarrow> 'g \<Rightarrow>
   ('sg, unit) result" where
  "v1_round_trip id_of F D S Z fill_bytes approve params msg rng =
     result_bind (v1_group id_of F D S approve params rng
        :: (('i, 'pkp, 'p1, 'cm, 'rz, 'sp, 'sh, 'sg) chain_sim \<times> ('i, 'kp, 'pkp, 'nc) node list \<times> 'pkp \<times> 'g, unit) result)
       (\<lambda>(sim, nodes, pkp, rng1).
       let (rid, rng2) = uuid_new fill_bytes rng1; (rz, rng3) = random_randomizer Z rng2 in
       result_bind (v1_request F sim rid msg rz) (\<lambda>sim1.
         v1_sign F S Z sim1 nodes pkp (unat (threshold params)) rid msg rz rng3))"

section \<open>The group is set up\<close>

text \<open>What FROST documents of a public key package: one verifying share per member.\<close>

definition shares_law ::
  "('i::linorder, 'pkp, 'vk, 'vs, 'cm, 'rz, 'rp, 'sp, 'sh, 'sg) frost \<Rightarrow>
   ('i, 's1, 'p1, 's2, 'p2, 'kp, 'pkp, 'g) frost_dkg \<Rightarrow> mpc_params \<Rightarrow> 'i set \<Rightarrow> bool" where
  "shares_law F D params I \<longleftrightarrow>
     (\<forall>kp pkp. honest_keys D params I kp pkp \<longrightarrow> (\<forall>i \<in> I. dom (bt_get (verifying_shares F (pkp i))) = I))"

lemma init_block:
  assumes "dom (bt_get (verifying_shares F pkp)) = set vs"
  shows "\<exists>sim. commit_block F (submit sim_new (InitGroup params pkp vs)) = Ok (sim, [(InitGroup params pkp vs, Ok ())]) \<and>
    sim_state sim = default_state\<lparr>group := Some \<lparr>g_params = params, g_pkp = pkp, g_validators = bs_collect vs\<rparr>\<rparr> \<and>
    mempool sim = [] \<and> unat (block_height sim) = 1"
proof -
  let ?s = "default_state\<lparr>group := Some \<lparr>g_params = params, g_pkp = pkp, g_validators = bs_collect vs\<rparr>\<rparr>"
  have "apply_init_group F default_state params pkp vs = Ok ?s"
    using assms by (simp only: init_group_Ok) (simp add: default_state_def)
  then have "run_all (apply_tx F) (sim_state (submit sim_new (InitGroup params pkp vs)))
      (mempool (submit sim_new (InitGroup params pkp vs))) = Ok ?s"
    by (simp add: submit_def sim_new_def sim_default_def)
  moreover have "block_height (submit sim_new (InitGroup params pkp vs)) \<noteq> - 1"
    by (simp add: submit_def sim_new_def sim_default_def)
  ultimately show ?thesis
    by (subst commit_block_all) (simp_all add: submit_def sim_new_def sim_default_def)
qed

lemma v1_group_ready:
  fixes F :: "('i::linorder, 'pkp, 'vk, 'vs, 'cm, 'rz, 'rp, 'sp, 'sh, 'sg) frost"
    and D :: "('i, 's1, 'p1, 's2, 'p2, 'kp, 'pkp, 'g) frost_dkg"
  assumes ok: "params_ok params"
    and laws: "dkg_laws F D params (set ids)" "signing_laws F D S Z params (set ids)" "shares_law F D params (set ids)"
    and ids: "ids = map ident (one_to (total params))" "distinct ids"
    and id_of: "\<forall>k \<in> set (one_to (total params)). id_of k = Inr (ident k)"
  shows "\<exists>sim kp pkp rng' g. v1_group id_of F D S approve params rng =
      Ok (sim, map (\<lambda>i. demo_node S approve (kp i) (pkp (Min (set ids)))) (sorted_list_of_set (set ids)), pkp (Min (set ids)), rng') \<and>
    honest_keys D params (set ids) kp pkp \<and>
    session_ready F S g sim (map (\<lambda>i. demo_node S approve (kp i) (pkp (Min (set ids)))) (sorted_list_of_set (set ids))) \<and>
    g_params g = params \<and> g_pkp g = pkp (Min (set ids)) \<and> Min (set ids) \<in> set ids \<and>
    unat (block_height sim) = 1 \<and> requests (sim_state sim) = bt_new \<and> chain_inv F (sim_state sim)"
proof -
  let ?I = "set ids" and ?ids = "sorted_list_of_set (set ids)"
  have pos: "0 < unat (threshold params)" "unat (threshold params) \<le> unat (total params)" "0 < unat (total params)"
    using ok by (auto simp: params_ok_def word_less_nat_alt word_le_nat_alt)
  from keygen_run [OF laws(1) pos(3) ids, of id_of rng] id_of obtain kp pkp rng' where
    gen: "generate_with_dkg id_of F D params rng = Ok ((tabulate kp ?I, pkp (Min ?I)), rng')"
    and keys: "honest_keys D params ?I kp pkp" and m: "Min ?I \<in> ?I" by auto
  let ?nodes = "map (\<lambda>i. demo_node S approve (kp i) (pkp (Min ?I))) ?ids"
  have nodes: "v1_nodes S approve (tabulate kp ?I) (pkp (Min ?I)) = ?nodes"
    by (simp add: v1_nodes_def iter_tabulate demo_node_def)
  from laws(2) keys have kp: "\<forall>i \<in> ?I. kp_identifier S (kp i) = i \<and> sign_law F S (unat (threshold params)) (kp i)"
    unfolding signing_laws_def by blast
  then have names: "map node_identifier ?nodes = ?ids" by (auto intro!: map_idI)
  have dom: "dom (bt_get (verifying_shares F (pkp (Min ?I)))) = set (map node_identifier ?nodes)"
    unfolding names using laws(3) keys m by (simp add: shares_law_def)
  from init_block [OF dom, of params] obtain sim :: "('i, 'pkp, 'p1, 'cm, 'rz, 'sp, 'sh, 'sg) chain_sim" where
    block: "commit_block F (submit sim_new (InitGroup params (pkp (Min ?I)) (map node_identifier ?nodes))) =
      Ok (sim, [(InitGroup params (pkp (Min ?I)) (map node_identifier ?nodes), Ok ())])"
    and sim: "sim_state sim = default_state\<lparr>group := Some \<lparr>g_params = params, g_pkp = pkp (Min ?I), g_validators = bs_collect ?ids\<rparr>\<rparr>"
      "mempool sim = []" "unat (block_height sim) = 1"
    unfolding names by blast
  let ?g = "\<lparr>g_params = params, g_pkp = pkp (Min ?I), g_validators = bs_collect ?ids\<rparr>"
  have grp: "v1_group id_of F D S approve params rng = Ok (sim, ?nodes, pkp (Min ?I), rng')"
    using gen block by (simp add: v1_group_def nodes sim(1) is_ok_def)
  have "length ids = unat (total params)" by (simp add: ids(1) one_to_def)
  then have len: "length ?ids = unat (total params)" using distinct_card [OF ids(2)] by simp
  have ready: "session_ready F S ?g sim ?nodes"
    unfolding session_ready_def using kp names len pos(1,2) by (auto simp: sim default_state_def)
  have rest: "g_params ?g = params" "g_pkp ?g = pkp (Min ?I)" "requests (sim_state sim) = bt_new" "chain_inv F (sim_state sim)"
    by (simp_all add: sim(1) default_state_def chain_inv_def)
  show ?thesis by (intro exI conjI) (fact grp keys ready rest sim(3) m)+
qed

lemma v1_group_keys:
  assumes "v1_group id_of F D S approve params rng = Ok (sim, nodes, pkp, rng')"
  shows "\<exists>keys. generate_with_dkg id_of F D params rng = Ok ((keys, pkp), rng')"
  using assms by (auto simp: v1_group_def Let_def split: result.splits prod.splits if_splits)

section \<open>The scenario passes\<close>

lemma react_pass_chain:
  "validators_react S sim rng b vs = (r, sim', vs', rng') \<Longrightarrow>
   sim_state sim' = sim_state sim \<and> block_height sim' = block_height sim"
proof (induction S sim rng b vs arbitrary: r sim' vs' rng' rule: validators_react.induct)
  case (2 S sim rng b v vs)
  then show ?case by (fastforce split: prod.splits result.splits)
qed simp

lemmas react_pass_state = react_pass_chain [THEN conjunct1] and react_pass_height = react_pass_chain [THEN conjunct2]

lemma block_inv:
  assumes "commit_block F sim = Ok (sim', res)" "chain_inv F (sim_state sim)"
  shows "chain_inv F (sim_state sim')"
  using commit_block_Ok [OF assms(1)] assms(2) chain.run_skip_inv by blast

text \<open>The number of participants of a request that is being signed.\<close>

lemma signing_size:
  assumes "chain_inv F s" "group s = Some g" "bt_get (requests s) rid = Some e" "status e = Signing sp P shs"
  shows "bt_len P = unat (threshold (g_params g))"
  using request_invD [OF assms(1-3)] assms(4) by (simp add: request_inv_def status_inv_def Let_def)

lemma v1_signs:
  fixes sim :: "('i::linorder, 'pkp, 'p1, 'cm, 'rz, 'sp, 'sh, 'sg) chain_sim"
  assumes ready: "session_ready F S g sim vs" and inv: "chain_inv F (sim_state sim)"
    and approve: "\<forall>v \<in> set vs. policy v msg = Ok ()" and new: "bt_get (requests (sim_state sim)) rid = None"
    and height: "unat (block_height sim) + 3 < 2 ^ 64"
    and agg: "\<And>cms shs. dom (bt_get cms) = node_identifier ` set (take (unat (threshold (g_params g))) vs) \<Longrightarrow>
      dom (bt_get shs) = dom (bt_get cms) \<Longrightarrow>
      \<forall>v \<in> set (take (unat (threshold (g_params g))) vs). \<exists>sh. bt_get shs (node_identifier v) = Some sh \<and>
        honest_share F S cms msg rz (key_package v) sh \<Longrightarrow>
      \<exists>sg bs. outcome F (g_pkp g) cms shs msg rz = Inr sg \<and>
        verify_randomized Z (from_randomizer F (verifying_key F (g_pkp g)) rz) msg sg = Inr () \<and> signature_bytes Z sg = Inr bs"
  shows "\<exists>sim1 sg. v1_request F sim rid msg rz = Ok sim1 \<and>
    v1_sign F S Z sim1 vs (g_pkp g) (unat (threshold (g_params g))) rid msg rz rng = Ok sg \<and>
    verify_randomized Z (from_randomizer F (verifying_key F (g_pkp g)) rz) msg sg = Inr ()"
proof -
  have grp: "group (sim_state sim) = Some g" and mp: "mempool sim = []" using ready by (auto simp: session_ready_def)
  from session_rounds [OF ready approve new height, of rz rng]
  obtain cms shs sim1 res1 sim1a vs1 rng1 sim2 res2 e2 sp P sim2a vs' rng' sim' res' e' where
    cb1: "commit_block F (submit sim (SubmitRequest rid msg rz)) = Ok (sim1, res1)"
    and one: "validators_react S sim1 rng False vs = (Ok True, sim1a, vs1, rng1)" "commit_block F sim1a = Ok (sim2, res2)"
      "bt_get (requests (sim_state sim2)) rid = Some e2" "status e2 = Signing sp P bt_new"
    and two: "validators_react S sim2 rng1 False vs1 = (Ok True, sim2a, vs', rng')" "commit_block F sim2a = Ok (sim', res')"
    and e': "sim_state sim' = with_entry (sim_state sim) rid e'"
      "status e' = (case outcome F (g_pkp g) cms shs msg rz of Inr sg \<Rightarrow> Completed P sg | Inl reason \<Rightarrow> Failed reason)"
    and d: "dom (bt_get cms) = node_identifier ` set (take (unat (threshold (g_params g))) vs)" "dom (bt_get shs) = dom (bt_get cms)"
      "\<forall>v \<in> set (take (unat (threshold (g_params g))) vs). \<exists>sh. bt_get shs (node_identifier v) = Some sh \<and>
          honest_share F S cms msg rz (key_package v) sh"
    by (elim exE conjE)
  from first_block [OF grp mp new, of F msg rz] height cb1 have s1: "sim_state sim1 = with_entry (sim_state sim) rid
      \<lparr>request_id = rid, message = msg, randomizer = rz, status = AwaitingCommitments bt_new\<rparr>" by auto
  have req: "v1_request F sim rid msg rz = Ok sim1" using cb1 by (simp add: v1_request_def v1_status_def s1)
  have inv1: "chain_inv F (sim_state sim1)" by (rule block_inv [OF cb1]) (simp add: submit_def inv)
  then have inv2: "chain_inv F (sim_state sim2)" using block_inv [OF one(2)] react_pass_state [OF one(1)] by simp
  have "group (sim_state sim2) = Some g"
  proof -
    have "unat (block_height sim1a) = unat (block_height sim1)" using react_pass_height [OF one(1)] by simp
    then have "unat (block_height sim1a) + 1 < 2 ^ 64" using commit_block_Ok [OF cb1] height by (simp add: submit_def)
    moreover have "group (sim_state sim1a) = Some g" "chain_inv F (sim_state sim1a)"
      using react_pass_state [OF one(1)] s1 grp inv1 by simp_all
    ultimately show ?thesis using commit_block_returns [of F sim1a g] one(2) by auto
  qed
  then have P: "bt_len P = unat (threshold (g_params g))" by (rule signing_size [OF inv2 _ one(3,4)])
  from agg [OF d] obtain sg bs where sg: "outcome F (g_pkp g) cms shs msg rz = Inr sg"
    "verify_randomized Z (from_randomizer F (verifying_key F (g_pkp g)) rz) msg sg = Inr ()" by blast
  have "v1_sign F S Z sim1 vs (g_pkp g) (unat (threshold (g_params g))) rid msg rz rng = Ok sg"
    using one two e' sg P by (simp add: v1_sign_def v1_round_def v1_status_def)
  with req sg(2) show ?thesis by blast
qed

text \<open>
  Keys from one process sign over the chain. With valid parameters, libraries that behave as
  documented for honest participants, and distinct identifiers for the numbers from one to the total,
  the scenario of the integration tests passes for every message that the policy of the nodes approves:
  \<open>InitGroup\<close> is accepted, the request opens, all nodes commit and exactly a threshold is selected,
  their shares complete the request, and the signature returned verifies under the key randomized by
  the request's randomizer. No assertion of the scenario fails.
\<close>

lemma v1_round_trip_passes:
  fixes F :: "('i::linorder, 'pkp, 'vk, 'vs, 'cm, 'rz, 'rp, 'sp, 'sh, 'sg) frost"
    and D :: "('i, 's1, 'p1, 's2, 'p2, 'kp, 'pkp, 'g) frost_dkg"
  assumes ok: "params_ok params" and approve: "approve msg = Ok ()"
    and laws: "dkg_laws F D params (set ids)" "signing_laws F D S Z params (set ids)" "shares_law F D params (set ids)"
    and ids: "ids = map ident (one_to (total params))" "distinct ids"
    and id_of: "\<forall>k \<in> set (one_to (total params)). id_of k = Inr (ident k)"
  shows "\<exists>keys pkp rng1 rz sg. generate_with_dkg id_of F D params rng = Ok ((keys, pkp), rng1) \<and>
    rz = fst (random_randomizer Z (snd (uuid_new fill_bytes rng1))) \<and>
    v1_round_trip id_of F D S Z fill_bytes approve params msg rng = Ok sg \<and>
    verify_randomized Z (from_randomizer F (verifying_key F pkp) rz) msg sg = Inr ()"
proof -
  let ?I = "set ids" and ?ids = "sorted_list_of_set (set ids)"
  from v1_group_ready [OF ok laws ids id_of, of approve rng]
  obtain sim :: "('i, 'pkp, 'p1, 'cm, 'rz, 'sp, 'sh, 'sg) chain_sim" and kp pkp rng1 g where
    grp: "v1_group id_of F D S approve params rng =
      Ok (sim, map (\<lambda>i. demo_node S approve (kp i) (pkp (Min ?I))) ?ids, pkp (Min ?I), rng1)"
    and keys: "honest_keys D params ?I kp pkp"
    and ready: "session_ready F S g sim (map (\<lambda>i. demo_node S approve (kp i) (pkp (Min ?I))) ?ids)"
    and g: "g_params g = params" "g_pkp g = pkp (Min ?I)" and m: "Min ?I \<in> ?I"
    and sim: "unat (block_height sim) = 1" "requests (sim_state sim) = bt_new" "chain_inv F (sim_state sim)"
    by (elim exE conjE)
  let ?nodes = "map (\<lambda>i. demo_node S approve (kp i) (pkp (Min ?I))) ?ids"
  obtain rid rng2 where u: "uuid_new fill_bytes rng1 = (rid, rng2)" by (metis prod.collapse)
  obtain rz rng3 where z: "random_randomizer Z rng2 = (rz, rng3)" by (metis prod.collapse)
  have "length ids = unat (total params)" by (simp add: ids(1) one_to_def)
  then have t: "unat (threshold params) \<le> length ?ids"
    using distinct_card [OF ids(2)] ok by (simp add: params_ok_def word_le_nat_alt)
  have laws': "signing_laws F D S Z params (set ?ids)" "honest_keys D params (set ?ids) kp pkp" "Min ?I \<in> set ?ids"
    using laws(2) keys m by simp_all
  have "\<exists>sim1 sg. v1_request F sim rid msg rz = Ok sim1 \<and>
    v1_sign F S Z sim1 ?nodes (g_pkp g) (unat (threshold (g_params g))) rid msg rz rng3 = Ok sg \<and>
    verify_randomized Z (from_randomizer F (verifying_key F (g_pkp g)) rz) msg sg = Inr ()"
  proof (rule v1_signs [OF ready sim(3)])
    show "\<forall>v \<in> set ?nodes. policy v msg = Ok ()" using approve by auto
    show "bt_get (requests (sim_state sim)) rid = None" "unat (block_height sim) + 3 < 2 ^ 64" by (simp_all add: sim)
  qed (unfold g, rule demo_aggregates [OF laws'(1,2) distinct_sorted_list_of_set t laws'(3) refl refl], assumption+)
  then obtain sim1 sg where "v1_request F sim rid msg rz = Ok sim1"
    "v1_sign F S Z sim1 ?nodes (pkp (Min ?I)) (unat (threshold params)) rid msg rz rng3 = Ok sg"
    and ver: "verify_randomized Z (from_randomizer F (verifying_key F (pkp (Min ?I))) rz) msg sg = Inr ()"
    unfolding g by blast
  then have run: "v1_round_trip id_of F D S Z fill_bytes approve params msg rng = Ok sg"
    using u z by (simp add: v1_round_trip_def grp)
  obtain keys where gen: "generate_with_dkg id_of F D params rng = Ok ((keys, pkp (Min ?I)), rng1)"
    using v1_group_keys [OF grp] by blast
  have "rz = fst (random_randomizer Z (snd (uuid_new fill_bytes rng1)))" using u z by simp
  then show ?thesis using gen run ver by blast
qed

lemma toy_collect_dom: "dom (bt_get (bt_collect (map (\<lambda>i. (i, i)) xs))) = set xs"
  by (simp add: bt_get_collect dom_map_of_conv_image_fst image_image flip: rev_map)

lemma toy_shares_law:
  assumes "finite I"
  shows "shares_law toy_frost toy_dkg params I"
  unfolding shares_law_def
proof (intro allI impI ballI)
  fix kp pkp i
  assume keys: "honest_keys toy_dkg params I kp pkp" and i: "i \<in> I"
  then obtain s1 p1 s2 sent where h: "honest_part1 toy_dkg params i (s1 i) (p1 i)"
    "part2 toy_dkg (s1 i) (tabulate p1 (I - {i})) = Inr (s2 i, tabulate (sent i) (I - {i}))"
    "part3 toy_dkg (s2 i) (tabulate p1 (I - {i})) (tabulate (\<lambda>j. sent j i) (I - {i})) = Inr (kp i, pkp i)"
    unfolding honest_keys_def by blast
  from h(1) have "s1 i = i" by (simp add: toy_part1)
  with h(2) have "s2 i = i" by (simp add: toy_dkg_def)
  with h(3) assms have "pkp i = insort i (sorted_list_of_set (I - {i}))" by (simp add: toy_dkg_def split: if_splits)
  then have "set (pkp i) = I" using i assms by (auto simp: set_insort_key)
  moreover have "dom (bt_get (bt_collect (map (\<lambda>i. (i, i)) xs))) = set xs" for xs :: "nat list"
    by (simp add: toy_collect_dom)
  ultimately show "dom (bt_get (verifying_shares toy_frost (pkp i))) = I" by (simp add: toy_frost_def)
qed

end
