(* ===== verification/Escrow_Gate.thy ===== *)
theory Escrow_Gate
  imports V1_Tests
begin

text \<open>
  The validating signer of \<open>sapphire-tests/tests/escrow_gate.rs\<close>: nodes that hold the terms of an escrow
  and enforce them inside \<open>react\<close> sign the release that matches the terms, give no commitment to one
  that was redirected or names an unknown escrow, and nodes without a policy sign anything. The bodies
  of the tests are \<open>gate_signed\<close>, \<open>gate_refused\<close> and \<open>gate_any\<close>, for any terms and any encoded
  proposal; the four tests are their instances, with the terms, the secret and the proposals of the
  demonstration command. The group is set up as in \<open>V1_Tests\<close>, whose assertions include those made
  here. A failed assertion panics.
\<close>

section \<open>The scenario\<close>

text \<open>React and commit until nothing is emitted, for at most so many blocks.\<close>

fun gate_drive ::
  "('i::linorder, 'pkp, 'vk, 'vs, 'cm, 'rz, 'rp, 'sp, 'sh, 'sg) frost \<Rightarrow>
   ('i, 'kp, 'ss, 'nc, 'cm, 'sp, 'rz, 'sh, 'g) frost_signer \<Rightarrow> nat \<Rightarrow>
   ('i, 'pkp, 'p1, 'cm, 'rz, 'sp, 'sh, 'sg) chain_sim \<Rightarrow> ('i, 'kp, 'pkp, 'nc) node list \<Rightarrow> 'g \<Rightarrow>
   (('i, 'pkp, 'p1, 'cm, 'rz, 'sp, 'sh, 'sg) chain_sim, unit) result" where
  "gate_drive F S 0 sim vs rng = Ok sim"
| "gate_drive F S (Suc n) sim vs rng =
     (case validators_react S sim rng False vs of
        (Ok any, sim', vs', rng') \<Rightarrow>
          (case commit_block F sim' of
             Ok (sim'', results) \<Rightarrow> if \<not> any then Ok sim'' else gate_drive F S n sim'' vs' rng'
           | _ \<Rightarrow> Panic)
      | _ \<Rightarrow> Panic)"

definition gate_request ::
  "('i::linorder, 'pkp, 'vk, 'vs, 'cm, 'rz, 'rp, 'sp, 'sh, 'sg) frost \<Rightarrow>
   ('i, 'kp, 'ss, 'nc, 'cm, 'sp, 'rz, 'sh, 'g) frost_signer \<Rightarrow>
   ('i, 'pkp, 'p1, 'cm, 'rz, 'sp, 'sh, 'sg) chain_sim \<Rightarrow> ('i, 'kp, 'pkp, 'nc) node list \<Rightarrow>
   uuid \<Rightarrow> u8 list \<Rightarrow> 'rz \<Rightarrow> 'g \<Rightarrow> (('i, 'cm, 'sp, 'sh, 'sg) request_status, unit) result" where
  "gate_request F S sim vs rid msg rz rng =
     (case commit_block F (submit sim (SubmitRequest rid msg rz)) of
        Ok (sim1, results) \<Rightarrow> result_bind (gate_drive F S 8 sim1 vs rng) (\<lambda>sim2. v1_status sim2 rid)
      | _ \<Rightarrow> Panic)"

definition gate_approve ::
  "(u8 list \<Rightarrow> string + u8 list release_proposal) \<Rightarrow> hex_crate \<Rightarrow> (u8 list \<Rightarrow> 32 bytes) \<Rightarrow> escrow_terms \<Rightarrow> approve_fn" where
  "gate_approve from_slice hx sha256 terms =
     escrow_approve from_slice hx (with_escrow (escrow_policy_new (hash_preimage_verify sha256)) terms)"

text \<open>\<open>valid_release_is_signed\<close> draws the randomizer first, the other tests the identifier.\<close>

definition gate_signed where
  "gate_signed terms encoded id_of F D S Z fill_bytes hx sha256 params rng =
     result_bind (v1_group id_of F D S (gate_approve (proposal_from_slice Z) hx sha256 terms) params rng)
       (\<lambda>(sim, vs, pkp, rng1).
     case encoded of
       Inl _ \<Rightarrow> Panic
     | Inr msg \<Rightarrow>
         let (rz, rng2) = random_randomizer Z rng1; (rid, rng3) = uuid_new fill_bytes rng2 in
         result_bind (gate_request F S sim vs rid msg rz rng3) (\<lambda>st.
           case st of
             Completed P sg \<Rightarrow>
               (case verify_randomized Z (from_randomizer F (verifying_key F pkp) rz) msg sg of Inr _ \<Rightarrow> Ok () | Inl _ \<Rightarrow> Panic)
           | _ \<Rightarrow> Panic))"

definition gate_refused where
  "gate_refused terms encoded id_of F D S Z fill_bytes hx sha256 params rng =
     result_bind (v1_group id_of F D S (gate_approve (proposal_from_slice Z) hx sha256 terms) params rng)
       (\<lambda>(sim, vs, pkp, rng1).
     case encoded of
       Inl _ \<Rightarrow> Panic
     | Inr msg \<Rightarrow>
         let (rid, rng2) = uuid_new fill_bytes rng1; (rz, rng3) = random_randomizer Z rng2 in
         result_bind (gate_request F S sim vs rid msg rz rng3) (\<lambda>st.
           case st of AwaitingCommitments cms \<Rightarrow> if bt_len cms = 0 then Ok () else Panic | _ \<Rightarrow> Panic))"

definition gate_any where
  "gate_any msg id_of F D S Z fill_bytes params rng =
     result_bind (v1_group id_of F D S accept_all_approve params rng) (\<lambda>(sim, vs, pkp, rng1).
     let (rid, rng2) = uuid_new fill_bytes rng1; (rz, rng3) = random_randomizer Z rng2 in
     result_bind (gate_request F S sim vs rid msg rz rng3) (\<lambda>st.
       case st of Completed P sg \<Rightarrow> Ok () | _ \<Rightarrow> Panic))"

definition gate_valid where
  "gate_valid id_of F D S Z fill_bytes hx sha256 params rng =
     gate_signed (demo_terms sha256) (proposal_to_vec Z (demo_proposal sha256 ''u_alice''))
       id_of F D S Z fill_bytes hx sha256 params rng"

definition gate_tampered where
  "gate_tampered id_of F D S Z fill_bytes hx sha256 params rng =
     gate_refused (demo_terms sha256) (proposal_to_vec Z (demo_proposal sha256 ''u_attacker''))
       id_of F D S Z fill_bytes hx sha256 params rng"

definition gate_unknown where
  "gate_unknown id_of F D S Z fill_bytes hx sha256 params rng =
     gate_refused (demo_terms sha256)
       (proposal_to_vec Z ((demo_proposal sha256 ''u_alice'')\<lparr>proposal_escrow_id := bytes_fill 0xee\<rparr>))
       id_of F D S Z fill_bytes hx sha256 params rng"

definition gate_default where
  "gate_default id_of F D S Z fill_bytes params rng =
     gate_any (as_bytes ''arbitrary bytes, no escrow'') id_of F D S Z fill_bytes params rng"

section \<open>A request that is signed\<close>

lemma gate_signs:
  fixes sim :: "('i::linorder, 'pkp, 'p1, 'cm, 'rz, 'sp, 'sh, 'sg) chain_sim"
  assumes ready: "session_ready F S g sim vs"
    and approve: "\<forall>v \<in> set vs. policy v msg = Ok ()" and new: "bt_get (requests (sim_state sim)) rid = None"
    and height: "unat (block_height sim) + 4 < 2 ^ 64"
    and agg: "\<And>cms shs. dom (bt_get cms) = node_identifier ` set (take (unat (threshold (g_params g))) vs) \<Longrightarrow>
        dom (bt_get shs) = dom (bt_get cms) \<Longrightarrow>
        \<forall>v \<in> set (take (unat (threshold (g_params g))) vs). \<exists>sh. bt_get shs (node_identifier v) = Some sh \<and>
        honest_share F S cms msg rz (key_package v) sh \<Longrightarrow>
      \<exists>sg bs. outcome F (g_pkp g) cms shs msg rz = Inr sg \<and>
        verify_randomized Z (from_randomizer F (verifying_key F (g_pkp g)) rz) msg sg = Inr () \<and> signature_bytes Z sg = Inr bs"
  shows "\<exists>P sg. gate_request F S sim vs rid msg rz rng = Ok (Completed P sg) \<and>
    verify_randomized Z (from_randomizer F (verifying_key F (g_pkp g)) rz) msg sg = Inr ()"
proof -
  have h3: "unat (block_height sim) + 3 < 2 ^ 64" using height by simp
  from session_rounds [OF ready approve new h3, of rz rng]
  obtain cms shs sim1 res1 sim1a vs1 rng1 sim2 res2 e2 sp P sim2a vs' rng' sim' res' e' where
    cb1: "commit_block F (submit sim (SubmitRequest rid msg rz)) = Ok (sim1, res1)"
    and one: "validators_react S sim1 rng False vs = (Ok True, sim1a, vs1, rng1)" "commit_block F sim1a = Ok (sim2, res2)"
    and two: "validators_react S sim2 rng1 False vs1 = (Ok True, sim2a, vs', rng')" "commit_block F sim2a = Ok (sim', res')"
    and e': "sim_state sim' = with_entry (sim_state sim) rid e'"
      "status e' = (case outcome F (g_pkp g) cms shs msg rz of Inr sg \<Rightarrow> Completed P sg | Inl reason \<Rightarrow> Failed reason)"
    and after: "session_ready F S g sim' vs'" "unat (block_height sim') = unat (block_height sim) + 3"
    and d: "dom (bt_get cms) = node_identifier ` set (take (unat (threshold (g_params g))) vs)" "dom (bt_get shs) = dom (bt_get cms)"
      "\<forall>v \<in> set (take (unat (threshold (g_params g))) vs). \<exists>sh. bt_get shs (node_identifier v) = Some sh \<and>
          honest_share F S cms msg rz (key_package v) sh"
    by (elim exE conjE)
  have "\<forall>v \<in> set vs'. react S v (sim_state sim') rng' = (Ok [], v, rng')"
    using after(1) by (auto simp: session_ready_def intro!: ended_react)
  then have quiet: "validators_react S sim' rng' False vs' = (Ok False, sim', vs', rng')" by (rule nobody_reacts)
  have "run_skip (apply_tx F) (sim_state sim') (mempool sim') = Ok (sim_state sim')"
    using after(1) by (simp add: session_ready_def)
  from commit_block_skip [OF this] height after(2) obtain sim3 res3 where
    three: "commit_block F sim' = Ok (sim3, res3)" "sim_state sim3 = sim_state sim'" by auto
  have "gate_drive F S 8 sim1 vs rng = Ok sim3"
    using one two quiet three(1) by (simp add: numeral_eq_Suc)
  then have "gate_request F S sim vs rid msg rz rng = Ok (status e')"
    using cb1 e'(1) three(2) by (simp add: gate_request_def v1_status_def)
  moreover from agg [OF d] obtain sg where "outcome F (g_pkp g) cms shs msg rz = Inr sg"
    "verify_randomized Z (from_randomizer F (verifying_key F (g_pkp g)) rz) msg sg = Inr ()" by blast
  ultimately show ?thesis using e'(2) by auto
qed

section \<open>A request that is refused\<close>

lemma gate_refuses:
  fixes sim :: "('i::linorder, 'pkp, 'p1, 'cm, 'rz, 'sp, 'sh, 'sg) chain_sim"
  assumes ready: "session_ready F S g sim vs" and refuse: "\<forall>v \<in> set vs. \<exists>reason. policy v msg = Err reason"
    and new: "bt_get (requests (sim_state sim)) rid = None" and height: "unat (block_height sim) + 4 < 2 ^ 64"
  shows "gate_request F S sim vs rid msg rz rng = Ok (AwaitingCommitments bt_new)"
proof -
  have r: "group (sim_state sim) = Some g" "mempool sim = []" "\<And>r e. bt_get (requests (sim_state sim)) r = Some e \<Longrightarrow> terminal (status e)"
    "node_identifier ` set vs \<subseteq> dom (bt_get (g_validators g))"
    using ready by (auto simp: session_ready_def)
  let ?e = "\<lparr>request_id = rid, message = msg, randomizer = rz, status = AwaitingCommitments bt_new\<rparr>"
  from first_block [OF r(1,2) new, of F msg rz] height obtain sim1 res1 where
    cb: "commit_block F (submit sim (SubmitRequest rid msg rz)) = Ok (sim1, res1)"
    and s1: "mempool sim1 = []" "unat (block_height sim1) = Suc (unat (block_height sim))" "sim_state sim1 = with_entry (sim_state sim) rid ?e"
    by auto
  have oth: "others_terminal rid (sim_state sim1)" using r(3) by (auto simp: s1(3) others_terminal_def)
  have get: "bt_get (requests (sim_state sim1)) rid = Some ?e" by (simp add: s1(3))
  have "\<forall>v \<in> set vs. react S v (sim_state sim1) rng = (Ok [], v, rng)"
  proof
    fix v
    assume v: "v \<in> set vs"
    from refuse v obtain reason where "policy v (message ?e) = Err reason" by auto
    then show "react S v (sim_state sim1) rng = (Ok [], v, rng)"
      using v r(1,4) by (intro refusing_react [where g = g, OF _ _ get _ oth]) (auto simp: s1(3))
  qed
  then have quiet: "validators_react S sim1 rng False vs = (Ok False, sim1, vs, rng)" by (rule nobody_reacts)
  have "run_skip (apply_tx F) (sim_state sim1) (mempool sim1) = Ok (sim_state sim1)" by (simp add: s1(1))
  from commit_block_skip [OF this] height s1(2) obtain sim2 res2 where
    "commit_block F sim1 = Ok (sim2, res2)" "sim_state sim2 = sim_state sim1" by auto
  then show ?thesis
    using cb quiet get by (simp add: gate_request_def v1_status_def numeral_eq_Suc)
qed


section \<open>The scenarios pass\<close>

text \<open>What a node with the terms of one escrow approves: proposals for that escrow which pay its amount to
  its payee and reveal a preimage of its condition.\<close>

definition honours :: "(u8 list \<Rightarrow> 32 bytes) \<Rightarrow> escrow_terms \<Rightarrow> u8 list release_proposal \<Rightarrow> bool" where
  "honours sha256 terms p \<longleftrightarrow>
     proposal_escrow_id p = escrow_id terms \<and>
     leg_amount (si_payment (intent p)) = amount terms \<and> leg_to (si_payment (intent p)) = payee terms \<and>
     condition terms = to_list (sha256 (si_witness (intent p)))"

lemma gate_approves:
  "gate_approve from_slice hx sha256 terms msg = Ok () \<longleftrightarrow> (\<exists>p. from_slice msg = Inr p \<and> honours sha256 terms p)"
  by (auto simp: gate_approve_def escrow_approve_Ok with_escrow_def escrow_policy_new_def honours_def
      hash_preimage_verify_def digest_def split: if_splits)

lemma gate_refuses_iff:
  "(\<exists>reason. gate_approve from_slice hx sha256 terms msg = Err reason) \<longleftrightarrow>
   \<not> (\<exists>p. from_slice msg = Inr p \<and> honours sha256 terms p)"
  unfolding gate_approves [of _ hx, symmetric] unfolding gate_approve_def
  by (rule escrow.approve_cases [of from_slice hx]) auto

lemma demo_honours:
  "honours sha256 (demo_terms sha256) (demo_proposal sha256 pay_to) \<longleftrightarrow> pay_to = ''u_alice''"
  "\<not> honours sha256 (demo_terms sha256) ((demo_proposal sha256 pay_to)\<lparr>proposal_escrow_id := bytes_fill 0xee\<rparr>)"
  by (auto simp: honours_def demo_terms_def demo_proposal_def digest_def)

text \<open>A fresh group signs what its policy approves and refuses the rest.\<close>

lemma group_gate:
  fixes F :: "('i::linorder, 'pkp, 'vk, 'vs, 'cm, 'rz, 'rp, 'sp, 'sh, 'sg) frost"
    and D :: "('i, 's1, 'p1, 's2, 'p2, 'kp, 'pkp, 'g) frost_dkg"
  assumes ok: "params_ok params"
    and laws: "dkg_laws F D params (set ids)" "signing_laws F D S Z params (set ids)" "shares_law F D params (set ids)"
    and ids: "ids = map ident (one_to (total params))" "distinct ids"
    and id_of: "\<forall>k \<in> set (one_to (total params)). id_of k = Inr (ident k)"
  shows "\<exists>(sim :: ('i, 'pkp, 'p1, 'cm, 'rz, 'sp, 'sh, 'sg) chain_sim) vs pkp rng1.
    v1_group id_of F D S approve params rng = Ok (sim, vs, pkp, rng1) \<and>
    (\<forall>rid msg rz rng'. approve msg = Ok () \<longrightarrow> (\<exists>P sg. gate_request F S sim vs rid msg rz rng' = Ok (Completed P sg) \<and>
      verify_randomized Z (from_randomizer F (verifying_key F pkp) rz) msg sg = Inr ())) \<and>
    (\<forall>rid msg rz rng'. (\<exists>reason. approve msg = Err reason) \<longrightarrow>
      gate_request F S sim vs rid msg rz rng' = Ok (AwaitingCommitments bt_new))"
proof -
  let ?I = "set ids" and ?ids = "sorted_list_of_set (set ids)"
  from v1_group_ready [OF ok laws ids id_of, of approve rng]
  obtain sim :: "('i, 'pkp, 'p1, 'cm, 'rz, 'sp, 'sh, 'sg) chain_sim" and kp pkp rng1 g where
    grp: "v1_group id_of F D S approve params rng =
      Ok (sim, map (\<lambda>i. demo_node S approve (kp i) (pkp (Min ?I))) ?ids, pkp (Min ?I), rng1)"
    and keys: "honest_keys D params ?I kp pkp"
    and ready: "session_ready F S g sim (map (\<lambda>i. demo_node S approve (kp i) (pkp (Min ?I))) ?ids)"
    and g: "g_params g = params" "g_pkp g = pkp (Min ?I)" and m: "Min ?I \<in> ?I"
    and sim: "unat (block_height sim) = 1" "requests (sim_state sim) = bt_new"
    by (elim exE conjE)
  let ?nodes = "map (\<lambda>i. demo_node S approve (kp i) (pkp (Min ?I))) ?ids"
  have "length ids = unat (total params)" by (simp add: ids(1) one_to_def)
  then have t: "unat (threshold params) \<le> length ?ids"
    using distinct_card [OF ids(2)] ok by (simp add: params_ok_def word_le_nat_alt)
  have laws': "signing_laws F D S Z params (set ?ids)" "honest_keys D params (set ?ids) kp pkp" "Min ?I \<in> set ?ids"
    using laws(2) keys m by simp_all
  have signs: "\<exists>P sg. gate_request F S sim ?nodes rid msg rz rng' = Ok (Completed P sg) \<and>
      verify_randomized Z (from_randomizer F (verifying_key F (g_pkp g)) rz) msg sg = Inr ()"
    if "approve msg = Ok ()" for rid msg rz rng'
  proof (rule gate_signs [OF ready])
    show "\<forall>v \<in> set ?nodes. policy v msg = Ok ()" using that by auto
    show "bt_get (requests (sim_state sim)) rid = None" "unat (block_height sim) + 4 < 2 ^ 64" by (simp_all add: sim)
  qed (unfold g, rule demo_aggregates [OF laws'(1,2) distinct_sorted_list_of_set t laws'(3) refl refl], assumption+)
  have refuses: "gate_request F S sim ?nodes rid msg rz rng' = Ok (AwaitingCommitments bt_new)"
    if "\<exists>reason. approve msg = Err reason" for rid msg rz rng'
    using that by (intro gate_refuses [OF ready]) (simp_all add: sim)
  show ?thesis using grp signs refuses unfolding g(2) by blast
qed

text \<open>
  C8. The validating signer. With valid parameters, libraries that behave as documented for honest
  participants and distinct identifiers for the numbers from one to the total, let the nodes of a
  group hold the terms of some escrow. A request whose message decodes to a proposal for that escrow,
  with its amount, its payee and a witness whose digest is its condition, is signed, and the signature
  verifies under the randomized key of the group. Any other message, whether it decodes to a proposal
  or not, gets not a single commitment, however often the nodes react. Nodes without a policy sign
  every message. So the four tests of the escrow gate pass.
\<close>

theorem escrow_gate_passes:
  fixes F :: "('i::linorder, 'pkp, 'vk, 'vs, 'cm, 'rz, 'rp, 'sp, 'sh, 'sg) frost"
    and D :: "('i, 's1, 'p1, 's2, 'p2, 'kp, 'pkp, 'g) frost_dkg"
  assumes ok: "params_ok params" and proposals: "proposal_law Z"
    and laws: "dkg_laws F D params (set ids)" "signing_laws F D S Z params (set ids)" "shares_law F D params (set ids)"
    and ids: "ids = map ident (one_to (total params))" "distinct ids"
    and id_of: "\<forall>k \<in> set (one_to (total params)). id_of k = Inr (ident k)"
  shows "(\<forall>terms msg.
      if \<exists>p. proposal_from_slice Z msg = Inr p \<and> proposal_escrow_id p = escrow_id terms \<and>
        leg_amount (si_payment (intent p)) = amount terms \<and> leg_to (si_payment (intent p)) = payee terms \<and>
        condition terms = to_list (sha256 (si_witness (intent p)))
      then gate_signed terms (Inr msg) id_of F D S Z fill_bytes hx sha256 params rng = Ok ()
      else gate_refused terms (Inr msg) id_of F D S Z fill_bytes hx sha256 params rng = Ok ()) \<and>
    (\<forall>msg. gate_any msg id_of F D S Z fill_bytes params rng = Ok ()) \<and>
    gate_valid id_of F D S Z fill_bytes hx sha256 params rng = Ok () \<and>
    gate_tampered id_of F D S Z fill_bytes hx sha256 params rng = Ok () \<and>
    gate_unknown id_of F D S Z fill_bytes hx sha256 params rng = Ok () \<and>
    gate_default id_of F D S Z fill_bytes params rng = Ok ()"
proof -
  note group = group_gate [OF ok laws ids id_of]
  have codec: "\<exists>bs. proposal_to_vec Z p = Inr bs \<and> proposal_from_slice Z bs = Inr p" for p
    using proposals by (simp add: proposal_law_def)
  have signed: "gate_signed terms (Inr msg) id_of F D S Z fill_bytes hx sha256 params rng = Ok ()"
    if "\<exists>p. proposal_from_slice Z msg = Inr p \<and> honours sha256 terms p" for terms msg
    using group [of "gate_approve (proposal_from_slice Z) hx sha256 terms" rng]
      that [folded gate_approves [of _ hx]]
    by (fastforce simp: gate_signed_def Let_def split_beta)
  have refused: "gate_refused terms (Inr msg) id_of F D S Z fill_bytes hx sha256 params rng = Ok ()"
    if "\<not> (\<exists>p. proposal_from_slice Z msg = Inr p \<and> honours sha256 terms p)" for terms msg
    using group [of "gate_approve (proposal_from_slice Z) hx sha256 terms" rng]
      that [folded gate_refuses_iff [of _ hx]]
    by (auto simp: gate_refused_def Let_def split_beta bt_len_card)
  have any: "gate_any msg id_of F D S Z fill_bytes params rng = Ok ()" for msg
    using group [of accept_all_approve rng] by (fastforce simp: gate_any_def Let_def split_beta accept_all_approve_def)
  obtain good where good: "proposal_to_vec Z (demo_proposal sha256 ''u_alice'') = Inr good"
    "proposal_from_slice Z good = Inr (demo_proposal sha256 ''u_alice'')" using codec by blast
  have "gate_valid id_of F D S Z fill_bytes hx sha256 params rng = Ok ()"
    unfolding gate_valid_def good(1) by (rule signed) (simp add: good(2) demo_honours)
  moreover obtain bad where bad: "proposal_to_vec Z (demo_proposal sha256 ''u_attacker'') = Inr bad"
    "proposal_from_slice Z bad = Inr (demo_proposal sha256 ''u_attacker'')" using codec by blast
  have "gate_tampered id_of F D S Z fill_bytes hx sha256 params rng = Ok ()"
    unfolding gate_tampered_def bad(1) by (rule refused) (simp add: bad(2) demo_honours)
  moreover obtain lost where
    lost: "proposal_to_vec Z ((demo_proposal sha256 ''u_alice'')\<lparr>proposal_escrow_id := bytes_fill 0xee\<rparr>) = Inr lost"
    "proposal_from_slice Z lost = Inr ((demo_proposal sha256 ''u_alice'')\<lparr>proposal_escrow_id := bytes_fill 0xee\<rparr>)"
    using codec by blast
  have "gate_unknown id_of F D S Z fill_bytes hx sha256 params rng = Ok ()"
    unfolding gate_unknown_def lost(1) by (rule refused) (simp add: lost(2) demo_honours)
  moreover have "gate_default id_of F D S Z fill_bytes params rng = Ok ()"
    unfolding gate_default_def by (rule any)
  ultimately show ?thesis using signed refused any unfolding honours_def by auto
qed

theorem escrow_gate_passes_witness:
  "gate_tampered (\<lambda>k. Inr (unat k)) toy_frost toy_dkg plain_signer toy_demo (\<lambda>r. (bytes_fill (of_nat r), Suc r))
     plain_hex sample_sha toy_params (5 :: nat) = Ok () \<and>
   gate_valid (\<lambda>k. Inr (unat k)) toy_frost toy_dkg plain_signer toy_demo (\<lambda>r. (bytes_fill (of_nat r), Suc r))
     plain_hex sample_sha toy_params (5 :: nat) = Ok ()"
proof -
  have ks: "one_to (total toy_params) = [1, 2, 3]" by (rule toy_numbers)
  have ids: "[1, 2, 3] = map unat (one_to (total toy_params))" "distinct [1, 2, 3 :: nat]"
    "\<forall>k \<in> set (one_to (total toy_params)). (Inr (unat k) :: string + nat) = Inr (unat k)"
    unfolding ks by simp_all
  have ok: "params_ok toy_params" by (simp add: toy_params_def params_ok_def)
  from escrow_gate_passes [where id_of = "\<lambda>k. Inr (unat k)" and ident = unat and params = toy_params
      and ids = "[1, 2, 3]", OF ok toy_proposal_law toy_dkg_laws [OF finite_set] toy_signing_laws
      toy_shares_law [OF finite_set] ids,
      where fill_bytes = "\<lambda>r. (bytes_fill (of_nat r), Suc r)" and hx = plain_hex and ?sha256.0 = sample_sha and rng = 5]
  show ?thesis by blast
qed

end
