(* ===== verification/Unit_Tests.thy ===== *)
theory Unit_Tests
  imports V1_Tests
begin

text \<open>
  The unit tests that the crates carry in their own files (\<open>sapphire-escrow/src/lib.rs\<close>,
  \<open>sapphire-chain/src/dkg_envelope.rs\<close>, \<open>sapphire-keygen/src/dkg.rs\<close>) and the two rejection tests of
  \<open>sapphire-tests/tests/v1_chain.rs\<close>, one definition each: a failed assertion or \<open>unwrap\<close> panics,
  and the lemmas are that they return. Where a test relies on a library, on the hash of two different
  preimages or on the authenticity of the cipher, the lemma says so in a hypothesis.
\<close>

definition assert_that :: "bool \<Rightarrow> (unit, 'e) result" where
  "assert_that b = (if b then Ok () else Panic)"

lemma assert_that_Ok [simp]: "assert_that b = Ok u \<longleftrightarrow> b"
  by (simp add: assert_that_def)

section \<open>The predicates of the escrow\<close>

definition test_terms :: "u8 list \<Rightarrow> escrow_terms" where
  "test_terms cond = \<lparr>escrow_id = bytes_fill 7, amount = Zatoshis 800000000, payee = Address ''u_alice'',
     refund_to = Address ''u_bob'', timeout_height = 1000, condition = cond\<rparr>"

definition payment_of :: "u64 \<Rightarrow> string \<Rightarrow> payment_leg" where
  "payment_of amt pay_to = \<lparr>leg_amount = Zatoshis amt, leg_to = Address pay_to\<rparr>"

definition valid_release_passes :: "(unit, unit) result" where
  "valid_release_passes =
     (let si = \<lparr>si_payment = payment_of 800000000 ''u_alice'', si_witness = ()\<rparr> in
      assert_that (validate_settlement (test_terms []) si accept_all_verify = Ok ()))"

definition underpayment_is_rejected :: "(unit, unit) result" where
  "underpayment_is_rejected =
     (let si = \<lparr>si_payment = payment_of 1 ''u_alice'', si_witness = ()\<rparr> in
      assert_that (case validate_settlement (test_terms []) si accept_all_verify of
        Err (AmountMismatch _ _) \<Rightarrow> True | _ \<Rightarrow> False))"

definition paying_the_wrong_person_is_rejected :: "(unit, unit) result" where
  "paying_the_wrong_person_is_rejected =
     (let si = \<lparr>si_payment = payment_of 800000000 ''u_attacker'', si_witness = ()\<rparr> in
      assert_that (validate_settlement (test_terms []) si accept_all_verify = Err PayeeMismatch))"

definition htlc_correct_preimage_releases :: "(u8 list \<Rightarrow> 32 bytes) \<Rightarrow> (unit, unit) result" where
  "htlc_correct_preimage_releases sha256 =
     (let preimage = as_bytes ''open sesame''; dig = to_list (digest sha256 preimage);
          si = \<lparr>si_payment = payment_of 800000000 ''u_alice'', si_witness = preimage\<rparr> in
      assert_that (validate_settlement (test_terms dig) si (hash_preimage_verify sha256) = Ok ()))"

definition htlc_wrong_preimage_is_rejected :: "(u8 list \<Rightarrow> 32 bytes) \<Rightarrow> (unit, unit) result" where
  "htlc_wrong_preimage_is_rejected sha256 =
     (let dig = to_list (digest sha256 (as_bytes ''the real secret''));
          si = \<lparr>si_payment = payment_of 800000000 ''u_alice'', si_witness = as_bytes ''a wrong guess''\<rparr> in
      assert_that (validate_settlement (test_terms dig) si (hash_preimage_verify sha256) = Err ConditionNotMet))"

definition refund_before_timeout_is_rejected :: "(unit, unit) result" where
  "refund_before_timeout_is_rejected =
     (let ri = \<lparr>ri_payment = payment_of 800000000 ''u_bob''\<rparr> in
      assert_that (case validate_refund (test_terms []) ri 999 of Err (RefundTooEarly _ _) \<Rightarrow> True | _ \<Rightarrow> False))"

definition refund_after_timeout_to_bob_passes :: "(unit, unit) result" where
  "refund_after_timeout_to_bob_passes =
     (let ri = \<lparr>ri_payment = payment_of 800000000 ''u_bob''\<rparr> in
      assert_that (validate_refund (test_terms []) ri 1000 = Ok ()))"

definition refund_to_the_wrong_person_is_rejected :: "(unit, unit) result" where
  "refund_to_the_wrong_person_is_rejected =
     (let ri = \<lparr>ri_payment = payment_of 800000000 ''u_attacker''\<rparr> in
      assert_that (validate_refund (test_terms []) ri 1000 = Err RefundPayeeMismatch))"

lemma escrow_tests_pass:
  "valid_release_passes = Ok ()" "underpayment_is_rejected = Ok ()" "paying_the_wrong_person_is_rejected = Ok ()"
  "htlc_correct_preimage_releases sha256 = Ok ()" "refund_before_timeout_is_rejected = Ok ()"
  "refund_after_timeout_to_bob_passes = Ok ()" "refund_to_the_wrong_person_is_rejected = Ok ()"
  by (simp_all add: valid_release_passes_def underpayment_is_rejected_def paying_the_wrong_person_is_rejected_def
      htlc_correct_preimage_releases_def refund_before_timeout_is_rejected_def refund_after_timeout_to_bob_passes_def
      refund_to_the_wrong_person_is_rejected_def validate_settlement_def validate_refund_def test_terms_def
      payment_of_def accept_all_verify_def hash_preimage_verify_def)

text \<open>The wrong preimage is rejected exactly when the hash tells the two byte strings apart.\<close>

lemma htlc_wrong_preimage_test:
  "htlc_wrong_preimage_is_rejected sha256 = Ok () \<longleftrightarrow>
     digest sha256 (as_bytes ''a wrong guess'') \<noteq> digest sha256 (as_bytes ''the real secret'')"
  by (auto simp: htlc_wrong_preimage_is_rejected_def validate_settlement_def test_terms_def payment_of_def
      hash_preimage_verify_def intro: bytes_eqI)

section \<open>The envelopes\<close>

definition envelope_round_trip :: "('sk, 'pk, 'box, 'g, 'o) cbox_crate \<Rightarrow> 'g \<Rightarrow> 'o \<Rightarrow> (unit, unit) result" where
  "envelope_round_trip cb rng os =
     (let (recipient_sk, rng1) = sk_generate cb rng;
          recipient_pk = enc_from_public cb (sk_public cb recipient_sk);
          pt = as_bytes ''shamir share contribution from participant 3 to participant 5'' in
      result_bind (seal cb rng1 os recipient_pk pt) (\<lambda>(envelope, rng2, os').
        case open_envelope cb recipient_sk envelope of Ok opened \<Rightarrow> assert_that (opened = pt) | _ \<Rightarrow> Panic))"

definition wrong_recipient_fails :: "('sk, 'pk, 'box, 'g, 'o) cbox_crate \<Rightarrow> 'g \<Rightarrow> 'o \<Rightarrow> (unit, unit) result" where
  "wrong_recipient_fails cb rng os =
     (let (alice_sk, rng1) = sk_generate cb rng; (bob_sk, rng2) = sk_generate cb rng1;
          bob_pk = enc_from_public cb (sk_public cb bob_sk) in
      result_bind (seal cb rng2 os bob_pk (as_bytes ''for bob's eyes only'')) (\<lambda>(envelope, rng3, os').
        case open_envelope cb alice_sk envelope of Panic \<Rightarrow> Panic | r \<Rightarrow> assert_that (\<not> is_ok r)))"

lemma envelope_round_trip_passes:
  assumes "cbox_laws cb"
  shows "envelope_round_trip cb rng os = Ok ()"
proof -
  obtain sk rng1 where g: "sk_generate cb rng = (sk, rng1)" by (metis prod.collapse)
  from seal_opens [OF assms, of rng1 os sk] obtain s rng2 os' where
    "seal cb rng1 os (enc_from_public cb (sk_public cb sk))
       (as_bytes ''shamir share contribution from participant 3 to participant 5'') =
       (Ok (s, rng2, os') :: (sealed \<times> 'd \<times> 'e, unit) result)"
    "open_envelope cb sk s = Ok (as_bytes ''shamir share contribution from participant 3 to participant 5'')"
    by blast
  with g show ?thesis by (simp add: envelope_round_trip_def)
qed

text \<open>
  A ciphertext is authentic when decryption under any other box fails; the sender's ephemeral key then
  must not agree on one box with both of the generated recipients.
\<close>

lemma wrong_recipient_test:
  assumes laws: "cbox_laws cb"
    and authentic: "\<And>b b' n p c. cbox_encrypt cb b n p = Inr c \<Longrightarrow> b' \<noteq> b \<Longrightarrow> cbox_decrypt cb b' n c = Inl ()"
    and keys: "sk_generate cb rng = (alice, rng1)" "sk_generate cb rng1 = (bob, rng2)" "sk_generate cb rng2 = (eph, rng3)"
    and apart: "cbox_new cb (sk_public cb eph) alice \<noteq> cbox_new cb (sk_public cb bob) eph"
  shows "wrong_recipient_fails cb rng os = Ok ()"
proof -
  obtain n os' where n: "generate_nonce cb os = (n, os')" by (metis prod.collapse)
  from laws obtain ct where ct: "cbox_encrypt cb (cbox_new cb (sk_public cb bob) eph) n (as_bytes ''for bob's eyes only'') = Inr ct"
    unfolding cbox_laws_def by blast
  have pk: "pk_from_bytes cb (pk_to_bytes cb pk) = pk" for pk using laws by (simp add: cbox_laws_def)
  show ?thesis
    using keys n ct authentic [OF ct apart]
    by (simp add: wrong_recipient_fails_def seal_def open_layout public_from_enc_def enc_from_public_def pk is_ok_def)
qed

section \<open>The in-process key generation\<close>

text \<open>\<open>verifying_share\<close> of a key package is a parameter, like the other accessors of FROST.\<close>

definition dkg_produces_signable_group ::
  "(u16 \<Rightarrow> string + 'i) \<Rightarrow> ('i::linorder, 'pkp, 'vk, 'vs, 'cm, 'rz, 'rp, 'sp, 'sh, 'sg) frost \<Rightarrow>
   ('i, 's1, 'p1, 's2, 'p2, 'kp, 'pkp, 'g) frost_dkg \<Rightarrow> ('kp \<Rightarrow> 'vs) \<Rightarrow> 'g \<Rightarrow> (unit, unit) result" where
  "dkg_produces_signable_group id_of F D verifying_share rng =
     (case mpc_params_new 2 3 of
        Ok params \<Rightarrow>
          (case generate_with_dkg id_of F D params rng of
             Ok ((key_packages, pkp), rng') \<Rightarrow>
               result_bind (assert_that (bt_len key_packages = 3)) (\<lambda>_.
                 assert_that (\<forall>(i, kp) \<in> set (bt_iter key_packages).
                   bt_get (verifying_shares F pkp) i = Some (verifying_share kp)))
           | _ \<Rightarrow> Panic)
      | _ \<Rightarrow> Panic)"

lemma dkg_produces_signable_group_passes:
  assumes params: "params = \<lparr>threshold = 2, total = 3\<rparr>" and laws: "dkg_laws F D params (set ids)"
    and shares: "\<And>kp pkp i j. honest_keys D params (set ids) kp pkp \<Longrightarrow> i \<in> set ids \<Longrightarrow> j \<in> set ids \<Longrightarrow>
      bt_get (verifying_shares F (pkp j)) i = Some (verifying_share (kp i))"
    and ids: "ids = map ident (one_to (total params))" "distinct ids"
    and id_of: "\<And>k. k \<in> set (one_to (total params)) \<Longrightarrow> id_of k = Inr (ident k)"
  shows "dkg_produces_signable_group id_of F D verifying_share rng = Ok ()"
proof -
  have new: "mpc_params_new 2 3 = Ok params" using mpc_params_new_spec [of 2 3] params by simp
  have "0 < unat (total params)" by (simp add: params)
  from keygen_run [OF laws this ids id_of, of rng] obtain kp pkp rng' where
    gen: "generate_with_dkg id_of F D params rng = Ok ((tabulate kp (set ids), pkp (Min (set ids))), rng')"
    and keys: "honest_keys D params (set ids) kp pkp" and m: "Min (set ids) \<in> set ids" by blast
  have "card (set ids) = 3" using distinct_card [OF ids(2)] by (simp add: ids(1) one_to_def params)
  then have len: "bt_len (tabulate kp (set ids)) = 3" by (simp add: bt_len_card dom_def)
  have "\<forall>(i, k) \<in> set (bt_iter (tabulate kp (set ids))).
      bt_get (verifying_shares F (pkp (Min (set ids)))) i = Some (verifying_share k)"
    using shares [OF keys _ m] by (auto simp: iter_tabulate)
  then show ?thesis using new gen len by (simp add: dkg_produces_signable_group_def)
qed

section \<open>Rejected transactions\<close>

text \<open>\<open>results[0].1.is_err()\<close>, which panics on an empty block\<close>

definition first_is_err :: "('t \<times> (unit, 'e) result) list \<Rightarrow> (unit, unit) result" where
  "first_is_err results = (case results of [] \<Rightarrow> Panic | (t, r) # rest \<Rightarrow> assert_that (\<not> is_ok r))"

definition v1_init_group_rejects_mismatched_validators ::
  "(u16 \<Rightarrow> string + 'i) \<Rightarrow> ('i::linorder, 'pkp, 'vk, 'vs, 'cm, 'rz, 'rp, 'sp, 'sh, 'sg) frost \<Rightarrow>
   ('i, 's1, 'p1, 's2, 'p2, 'kp, 'pkp, 'g) frost_dkg \<Rightarrow> 'g \<Rightarrow> (unit, unit) result" where
  "v1_init_group_rejects_mismatched_validators id_of F D rng =
     (case mpc_params_new 2 3 of
        Ok params \<Rightarrow>
          (case generate_with_dkg id_of F D params rng of
             Ok ((key_packages, pkp), rng') \<Rightarrow>
               (case id_of 99 of
                  Inr bogus \<Rightarrow>
                    (case commit_block F (submit (sim_new :: ('i, 'pkp, 'p1, 'cm, 'rz, 'sp, 'sh, 'sg) chain_sim)
                       (InitGroup params pkp [bogus])) of
                       Ok (sim, results) \<Rightarrow> first_is_err results
                     | _ \<Rightarrow> Panic)
                | Inl _ \<Rightarrow> Panic)
           | _ \<Rightarrow> Panic)
      | _ \<Rightarrow> Panic)"

text \<open>The commitment of a fresh node on an identifier that was never requested.\<close>

definition v1_unknown_request_rejected ::
  "(u16 \<Rightarrow> string + 'i) \<Rightarrow> ('i::linorder, 'pkp, 'vk, 'vs, 'cm, 'rz, 'rp, 'sp, 'sh, 'sg) frost \<Rightarrow>
   ('i, 's1, 'p1, 's2, 'p2, 'kp, 'pkp, 'g) frost_dkg \<Rightarrow> ('i, 'kp, 'ss, 'nc, 'cm, 'sp, 'rz, 'sh, 'g) frost_signer \<Rightarrow>
   ('g \<Rightarrow> 16 bytes \<times> 'g) \<Rightarrow> 'g \<Rightarrow> (unit, unit) result" where
  "v1_unknown_request_rejected id_of F D S fill_bytes rng =
     (case mpc_params_new 2 3 of
        Ok params \<Rightarrow>
          (case generate_with_dkg id_of F D params rng of
             Ok ((key_packages, pkp), rng1) \<Rightarrow>
               (case commit_block F (submit (sim_new :: ('i, 'pkp, 'p1, 'cm, 'rz, 'sp, 'sh, 'sg) chain_sim)
                  (InitGroup params pkp (bt_keys key_packages))) of
                  Ok (sim, results) \<Rightarrow>
                    (case bt_iter key_packages of
                       [] \<Rightarrow> Panic
                     | (some_id, kp) # rest \<Rightarrow>
                         let node = node_new S \<lparr>bundle_key_package = kp, bundle_public_key_package = pkp\<rparr>;
                             (bogus_request_id, rng2) = uuid_new fill_bytes rng1 in
                         (case commit S node bogus_request_id rng2 of
                            (Ok commitments, node', rng3) \<Rightarrow>
                              (case commit_block F (submit sim (SubmitCommitment bogus_request_id some_id commitments)) of
                                 Ok (sim', results') \<Rightarrow> first_is_err results'
                               | _ \<Rightarrow> Panic)
                          | _ \<Rightarrow> Panic))
                | _ \<Rightarrow> Panic)
           | _ \<Rightarrow> Panic)
      | _ \<Rightarrow> Panic)"


text \<open>A block of one transaction that is rejected.\<close>

lemma lone_rejected:
  assumes "apply_tx F (sim_state sim) t = Err e" "mempool sim = []" "unat (block_height sim) + 1 < 2 ^ 64"
  shows "\<exists>sim'. commit_block F (submit sim t) = Ok (sim', [(t, Err e)])"
proof -
  have "block_height sim \<noteq> - 1" using assms(3) by (auto simp: unsigned_minus_1_eq_mask mask_eq_exp_minus_1)
  then show ?thesis using assms(1,2) by (simp add: commit_block_def submit_def u64_inc_def)
qed

lemma fresh_sim [simp]:
  "sim_state sim_new = default_state" "mempool sim_new = []" "block_height sim_new = 0"
  by (simp_all add: sim_new_def sim_default_def)

lemma v1_init_group_rejects:
  fixes F :: "('i::linorder, 'pkp, 'vk, 'vs, 'cm, 'rz, 'rp, 'sp, 'sh, 'sg) frost"
    and D :: "('i, 's1, 'p1, 's2, 'p2, 'kp, 'pkp, 'g) frost_dkg"
  assumes params: "params = \<lparr>threshold = 2, total = 3\<rparr>"
    and laws: "dkg_laws F D params (set ids)" "shares_law F D params (set ids)"
    and ids: "ids = map ident (one_to (total params))" "distinct ids"
    and id_of: "\<And>k. k \<in> set (one_to (total params)) \<Longrightarrow> id_of k = Inr (ident k)" and bogus: "id_of 99 = Inr b"
  shows "v1_init_group_rejects_mismatched_validators id_of F D rng = Ok ()"
proof -
  have new: "mpc_params_new 2 3 = Ok params" using mpc_params_new_spec [of 2 3] params by simp
  have "0 < unat (total params)" by (simp add: params)
  from keygen_run [OF laws(1) this ids id_of, of rng] obtain kp pkp rng' where
    gen: "generate_with_dkg id_of F D params rng = Ok ((tabulate kp (set ids), pkp (Min (set ids))), rng')"
    and keys: "honest_keys D params (set ids) kp pkp" and m: "Min (set ids) \<in> set ids" by blast
  have "card (set ids) = 3" using distinct_card [OF ids(2)] by (simp add: ids(1) one_to_def params)
  moreover have "dom (bt_get (verifying_shares F (pkp (Min (set ids))))) = set ids"
    using laws(2) keys m by (simp add: shares_law_def)
  ultimately have "dom (bt_get (verifying_shares F (pkp (Min (set ids))))) \<noteq> set [b]" by auto
  then have "apply_tx F (sim_state (sim_new :: ('i, 'pkp, 'p1, 'cm, 'rz, 'sp, 'sh, 'sg) chain_sim))
      (InitGroup params (pkp (Min (set ids))) [b]) = Err ValidatorSetMismatch"
    by (simp add: apply_init_group_def default_state_def Let_def bs_eq_iff)
  from lone_rejected [OF this] show ?thesis
    using new gen bogus
    by (auto simp: v1_init_group_rejects_mismatched_validators_def first_is_err_def is_ok_def)
qed

lemma v1_unknown_request_is_rejected:
  fixes F :: "('i::linorder, 'pkp, 'vk, 'vs, 'cm, 'rz, 'rp, 'sp, 'sh, 'sg) frost"
    and D :: "('i, 's1, 'p1, 's2, 'p2, 'kp, 'pkp, 'g) frost_dkg"
  assumes params: "params = \<lparr>threshold = 2, total = 3\<rparr>"
    and laws: "dkg_laws F D params (set ids)" "shares_law F D params (set ids)"
    and ids: "ids = map ident (one_to (total params))" "distinct ids"
    and id_of: "\<And>k. k \<in> set (one_to (total params)) \<Longrightarrow> id_of k = Inr (ident k)"
  shows "v1_unknown_request_rejected id_of F D S fill_bytes rng = Ok ()"
proof -
  have new: "mpc_params_new 2 3 = Ok params" using mpc_params_new_spec [of 2 3] params by simp
  have "0 < unat (total params)" by (simp add: params)
  from keygen_run [OF laws(1) this ids id_of, of rng] obtain kp pkp rng1 where
    gen: "generate_with_dkg id_of F D params rng = Ok ((tabulate kp (set ids), pkp (Min (set ids))), rng1)"
    and keys: "honest_keys D params (set ids) kp pkp" and m: "Min (set ids) \<in> set ids" by blast
  let ?pkp = "pkp (Min (set ids))" and ?vs = "bt_keys (tabulate kp (set ids))"
  have vs: "?vs = sorted_list_of_set (set ids)" by simp
  have "dom (bt_get (verifying_shares F ?pkp)) = set ?vs" using laws(2) keys m by (simp add: shares_law_def)
  from init_block [OF this, of params] obtain sim :: "('i, 'pkp, 'p1, 'cm, 'rz, 'sp, 'sh, 'sg) chain_sim" where
    block: "commit_block F (submit sim_new (InitGroup params ?pkp ?vs)) = Ok (sim, [(InitGroup params ?pkp ?vs, Ok ())])"
    and sim: "sim_state sim = default_state\<lparr>group := Some \<lparr>g_params = params, g_pkp = ?pkp, g_validators = bs_collect ?vs\<rparr>\<rparr>"
      "mempool sim = []" "unat (block_height sim) = 1" by blast
  obtain i rest where sorted: "sorted_list_of_set (set ids) = i # rest"
    using m by (cases "sorted_list_of_set (set ids)") auto
  then have i: "i \<in> set ids" by (metis List.finite_set list.set_intros(1) set_sorted_list_of_set)
  obtain rid rng2 where u: "uuid_new fill_bytes rng1 = (rid, rng2)" by (metis prod.collapse)
  have "apply_tx F (sim_state sim) (SubmitCommitment rid i cm) = Err (UnknownRequest rid)" for cm
    using i by (simp add: sim(1) apply_submit_commitment_def require_group_def default_state_def bt_contains_key_def)
  from lone_rejected [OF this] sim(2,3)
  have rejected: "\<exists>sim'. commit_block F (submit sim (SubmitCommitment rid i cm)) =
      Ok (sim', [(SubmitCommitment rid i cm, Err (UnknownRequest rid))])" for cm by simp
  obtain nc cm rng3 where c: "round1_commit S (signing_share S (kp i)) rng2 = ((nc, cm), rng3)" by (metis prod.collapse)
  from rejected [of cm] obtain sim' where "commit_block F (submit sim (SubmitCommitment rid i cm)) =
      Ok (sim', [(SubmitCommitment rid i cm, Err (UnknownRequest rid))])" by blast
  then show ?thesis
    using new gen block u c sorted vs
    by (simp add: v1_unknown_request_rejected_def iter_tabulate commit_def node_new_def key_package_def first_is_err_def
        is_ok_def)
qed

end
