(* ===== verification/Dkg_Chain_Test.thy ===== *)
theory Dkg_Chain_Test
  imports Unit_Tests
begin

text \<open>
  The scenario of \<open>sapphire-tests/tests/dkg_over_chain.rs\<close>: the participants of a ceremony generate
  their keys over the chain, are promoted to nodes and sign a message. Parameters, message and libraries
  are arbitrary; the loop asserts that it takes fewer than twenty blocks, so it has nineteen.
\<close>

section \<open>The scenario\<close>

fun into_nodes ::
  "('i, 'kp, 'ss, 'nc, 'cm, 'sp, 'rz, 'sh, 'g) frost_signer \<Rightarrow>
   ('i, 'sk, 's1, 's2, 'kp, 'pkp) dkg_participant list \<Rightarrow> (('i, 'kp, 'pkp, 'nc) node list, 'e) result" where
  "into_nodes S [] = Ok []"
| "into_nodes S (p # ps) =
     (case into_node S p of
        Ok n \<Rightarrow> result_bind (into_nodes S ps) (\<lambda>ns. Ok (n # ns))
      | _ \<Rightarrow> Panic)"

text \<open>The announcement and the ceremony, with the assertions about the chain and the participants.\<close>

definition dkg_test_ceremony ::
  "(u16 \<Rightarrow> 'i option) \<Rightarrow> ('sk, 'pk, 'box, 'g, 'o) cbox_crate \<Rightarrow>
   ('i::linorder, 's1, 'p1, 's2, 'p2, 'kp, 'pkp, 'g) frost_dkg \<Rightarrow>
   ('i, 'pkp, 'vk, 'vs, 'cm, 'rz, 'rp, 'sp, 'sh, 'sg) frost \<Rightarrow> mpc_params \<Rightarrow> 'g \<Rightarrow> 'o \<Rightarrow>
   (('i, 'pkp, 'p1, 'cm, 'rz, 'sp, 'sh, 'sg) chain_sim \<times> ('i, 'pkp) group_config \<times>
    ('i, 'sk, 's1, 's2, 'kp, 'pkp) dkg_participant list \<times> 'g, unit) result" where
  "dkg_test_ceremony id_of cb D F params rng os =
     result_bind (make_participants id_of cb rng (one_to (total params))) (\<lambda>(ps, rng1).
     case commit_block F (submit sim_new (announce params ps)) of
       Ok (sim0, results) \<Rightarrow>
         if ceremony (sim_state sim0) = None \<or> group (sim_state sim0) \<noteq> None then Panic
         else
           (case dkg_loop F D cb 19 sim0 rng1 os ps of
              Ok (sim1, ps', rng2, os') \<Rightarrow>
                if ceremony (sim_state sim1) \<noteq> None then Panic
                else
                  result_bind (expect (group (sim_state sim1))) (\<lambda>g.
                    if bt_len (g_validators g) \<noteq> unat (total params) \<or> \<not> (\<forall>p \<in> set ps'. is_complete p) \<or>
                       \<not> (\<forall>p \<in> set ps'. \<exists>q. d_public_key_package p = Some q \<and> verifying_key F q = verifying_key F (g_pkp g))
                    then Panic else Ok (sim1, g, ps', rng2))
            | _ \<Rightarrow> Panic)
     | _ \<Rightarrow> Panic)"

text \<open>The request, the two rounds and the check of the signature.\<close>

definition dkg_test_sign ::
  "('i::linorder, 'pkp, 'vk, 'vs, 'cm, 'rz, 'rp, 'sp, 'sh, 'sg) frost \<Rightarrow>
   ('i, 'kp, 'ss, 'nc, 'cm, 'sp, 'rz, 'sh, 'g) frost_signer \<Rightarrow> ('rz, 'rp, 'sg, 'g) demo_crate \<Rightarrow>
   ('i, 'pkp, 'p1, 'cm, 'rz, 'sp, 'sh, 'sg) chain_sim \<Rightarrow> ('i, 'kp, 'pkp, 'nc) node list \<Rightarrow> 'pkp \<Rightarrow> nat \<Rightarrow>
   uuid \<Rightarrow> u8 list \<Rightarrow> 'rz \<Rightarrow> 'g \<Rightarrow> (unit, unit) result" where
  "dkg_test_sign F S Z sim nodes pkp t rid msg rz rng =
     (case commit_block F (submit sim (SubmitRequest rid msg rz)) of
        Ok (sim1, results) \<Rightarrow>
          result_bind (v1_round F S sim1 nodes rng) (\<lambda>(sim2, nodes2, rng2).
          result_bind (v1_round F S sim2 nodes2 rng2) (\<lambda>(sim3, nodes3, rng3).
          result_bind (v1_status sim3 rid) (\<lambda>st.
            case st of
              Completed P signature \<Rightarrow>
                if bt_len P \<noteq> t then Panic
                else
                  (case verify_randomized Z (from_randomizer F (verifying_key F pkp) rz) msg signature of
                     Inr _ \<Rightarrow> Ok () | Inl _ \<Rightarrow> Panic)
            | _ \<Rightarrow> Panic)))
      | _ \<Rightarrow> Panic)"

definition dkg_over_chain ::
  "(u16 \<Rightarrow> 'i option) \<Rightarrow> ('sk, 'pk, 'box, 'g, 'o) cbox_crate \<Rightarrow>
   ('i::linorder, 's1, 'p1, 's2, 'p2, 'kp, 'pkp, 'g) frost_dkg \<Rightarrow>
   ('i, 'pkp, 'vk, 'vs, 'cm, 'rz, 'rp, 'sp, 'sh, 'sg) frost \<Rightarrow>
   ('i, 'kp, 'ss, 'nc, 'cm, 'sp, 'rz, 'sh, 'g) frost_signer \<Rightarrow> ('rz, 'rp, 'sg, 'g) demo_crate \<Rightarrow>
   ('g \<Rightarrow> 16 bytes \<times> 'g) \<Rightarrow> mpc_params \<Rightarrow> u8 list \<Rightarrow> 'g \<Rightarrow> 'o \<Rightarrow> (unit, unit) result" where
  "dkg_over_chain id_of cb D F S Z fill_bytes params msg rng os =
     result_bind (dkg_test_ceremony id_of cb D F params rng os
        :: (('i, 'pkp, 'p1, 'cm, 'rz, 'sp, 'sh, 'sg) chain_sim \<times> _, unit) result) (\<lambda>(sim, g, ps, rng1).
     result_bind (into_nodes S ps) (\<lambda>nodes.
       let (rid, rng2) = uuid_new fill_bytes rng1; (rz, rng3) = random_randomizer Z rng2 in
       dkg_test_sign F S Z sim nodes (g_pkp g) (unat (threshold params)) rid msg rz rng3))"

section \<open>Fewer blocks are enough\<close>

lemma participants_pass_height:
  "participants_react D cb sim rng os ps = (r, sim', ps', rng', os') \<Longrightarrow> block_height sim' = block_height sim"
proof (induction D cb sim rng os ps arbitrary: r sim' ps' rng' os' rule: participants_react.induct)
  case (2 D cb sim rng os p ps)
  then show ?case by (fastforce split: prod.splits result.splits)
qed simp

lemma dkg_loop_Suc:
  assumes "dkg_loop F D cb (Suc n) sim rng os ps = Ok r" "group (sim_state sim) = None"
  obtains sim1 ps1 rng1 os1 sim2 results where
    "participants_react D cb sim rng os ps = (Ok (), sim1, ps1, rng1, os1)" "commit_block F sim1 = Ok (sim2, results)"
    "unat (block_height sim2) = unat (block_height sim) + 1" "dkg_loop F D cb n sim2 rng1 os1 ps1 = Ok r"
proof -
  obtain o1 sim1 ps1 rng1 os1 where react: "participants_react D cb sim rng os ps = (o1, sim1, ps1, rng1, os1)"
    by (metis prod_cases5)
  from assms(1) have o1: "o1 = Ok ()" by (cases o1) (simp_all add: assms(2) react)
  with assms(1) obtain sim2 results where "commit_block F sim1 = Ok (sim2, results)"
    "dkg_loop F D cb n sim2 rng1 os1 ps1 = Ok r"
    by (cases "commit_block F sim1") (auto simp: assms(2) react split: prod.splits)
  note this o1
  with that [of sim1 ps1 rng1 os1 sim2 results] react commit_block_Ok [of F sim1 sim2 results]
    participants_pass_height [OF react] show thesis by simp
qed

lemma dkg_loop_height:
  "dkg_loop F D cb n sim rng os ps = Ok (sim', r) \<Longrightarrow> unat (block_height sim) \<le> unat (block_height sim')"
proof (induction n arbitrary: sim rng os ps)
  case (Suc n)
  show ?case
  proof (cases "group (sim_state sim) = None")
    case True
    from dkg_loop_Suc [OF Suc.prems True] obtain sim2 rng1 os1 ps1 where
      "unat (block_height sim2) = unat (block_height sim) + 1" "dkg_loop F D cb n sim2 rng1 os1 ps1 = Ok (sim', r)" .
    with Suc.IH [of sim2 rng1 os1 ps1] show ?thesis by simp
  next
    case False
    then show ?thesis using Suc.prems by simp
  qed
qed (simp split: if_splits)

text \<open>A loop that ended does so with any fuel that covers the blocks it took.\<close>

lemma dkg_loop_fuel:
  "dkg_loop F D cb n sim rng os ps = Ok (sim', r) \<Longrightarrow> unat (block_height sim') \<le> unat (block_height sim) + m \<Longrightarrow>
   dkg_loop F D cb m sim rng os ps = Ok (sim', r)"
proof (induction n arbitrary: m sim rng os ps)
  case 0
  then show ?case by (cases m) (simp_all split: if_splits)
next
  case (Suc n)
  show ?case
  proof (cases "group (sim_state sim) = None")
    case True
    from dkg_loop_Suc [OF Suc.prems(1) True] obtain sim1 ps1 rng1 os1 sim2 results where
      step: "participants_react D cb sim rng os ps = (Ok (), sim1, ps1, rng1, os1)" "commit_block F sim1 = Ok (sim2, results)"
      and h: "unat (block_height sim2) = unat (block_height sim) + 1"
      and rest: "dkg_loop F D cb n sim2 rng1 os1 ps1 = Ok (sim', r)" .
    from dkg_loop_height [OF rest] h Suc.prems(2) obtain m' where m: "m = Suc m'" by (cases m) auto
    from Suc.IH [OF rest, of m'] h Suc.prems(2) m have "dkg_loop F D cb m' sim2 rng1 os1 ps1 = Ok (sim', r)" by simp
    with True step m show ?thesis by simp
  next
    case False
    then show ?thesis using Suc.prems(1) by (cases m) simp_all
  qed
qed

section \<open>The scenario passes\<close>

lemma into_nodes_complete:
  "into_nodes S (map (\<lambda>i. after_r3 (P i) (kp i) (pkp i)) ids) =
   Ok (map (\<lambda>i. demo_node S accept_all_approve (kp i) (pkp i)) ids)"
  by (induction ids) (simp_all add: into_node_def after_r3_def demo_node_def with_policy_def node_new_def)

lemma dkg_test_signs:
  fixes sim :: "('i::linorder, 'pkp, 'p1, 'cm, 'rz, 'sp, 'sh, 'sg) chain_sim"
  assumes ready: "session_ready F S g sim vs" and inv: "chain_inv F (sim_state sim)"
    and approve: "\<forall>v \<in> set vs. policy v msg = Ok ()" and new: "bt_get (requests (sim_state sim)) rid = None"
    and height: "unat (block_height sim) + 3 < 2 ^ 64"
    and agg: "\<And>cms shs. dom (bt_get cms) = node_identifier ` set (take (unat (threshold (g_params g))) vs) \<Longrightarrow>
      dom (bt_get shs) = dom (bt_get cms) \<Longrightarrow>
      \<forall>v \<in> set (take (unat (threshold (g_params g))) vs). \<exists>sh. bt_get shs (node_identifier v) = Some sh \<and>
        honest_share F S cms msg rz (key_package v) sh \<Longrightarrow>
      \<exists>sg bs. outcome F (g_pkp g) cms shs msg rz = Inr sg \<and>
        verify_randomized Z (from_randomizer F (verifying_key F (g_pkp g)) rz) msg sg = Inr () \<and> signature_bytes Z sg = Inr bs"
  shows "dkg_test_sign F S Z sim vs (g_pkp g) (unat (threshold (g_params g))) rid msg rz rng = Ok ()"
proof -
  from session_rounds [OF ready approve new height, of rz rng]
  obtain cms shs sim1 res1 sim1a vs1 rng1 sim2 res2 e2 sp P sim2a vs' rng' sim' res' e' where
    cb1: "commit_block F (submit sim (SubmitRequest rid msg rz)) = Ok (sim1, res1)"
    and one: "validators_react S sim1 rng False vs = (Ok True, sim1a, vs1, rng1)" "commit_block F sim1a = Ok (sim2, res2)"
    and two: "validators_react S sim2 rng1 False vs1 = (Ok True, sim2a, vs', rng')" "commit_block F sim2a = Ok (sim', res')"
    and e': "sim_state sim' = with_entry (sim_state sim) rid e'"
      "status e' = (case outcome F (g_pkp g) cms shs msg rz of Inr sg \<Rightarrow> Completed P sg | Inl reason \<Rightarrow> Failed reason)"
    and ready': "session_ready F S g sim' vs'"
    and d: "dom (bt_get cms) = node_identifier ` set (take (unat (threshold (g_params g))) vs)" "dom (bt_get shs) = dom (bt_get cms)"
      "\<forall>v \<in> set (take (unat (threshold (g_params g))) vs). \<exists>sh. bt_get shs (node_identifier v) = Some sh \<and>
          honest_share F S cms msg rz (key_package v) sh"
    by (elim exE conjE)
  from agg [OF d] obtain sg where sg: "outcome F (g_pkp g) cms shs msg rz = Inr sg"
    "verify_randomized Z (from_randomizer F (verifying_key F (g_pkp g)) rz) msg sg = Inr ()" by blast
  have "chain_inv F (sim_state sim1)" by (rule block_inv [OF cb1]) (simp add: submit_def inv)
  then have "chain_inv F (sim_state sim2)" using block_inv [OF one(2)] react_pass_state [OF one(1)] by simp
  then have inv': "chain_inv F (sim_state sim')" using block_inv [OF two(2)] react_pass_state [OF two(1)] by simp
  have "group (sim_state sim') = Some g" using ready' by (simp add: session_ready_def)
  from request_invD [OF inv' this, of rid e'] have "bt_len P = unat (threshold (g_params g))"
    using sg(1) e' by (simp add: request_inv_def status_inv_def Let_def)
  then show ?thesis
    using cb1 one two e' sg by (simp add: dkg_test_sign_def v1_round_def v1_status_def)
qed


lemma dkg_test_ceremony_passes:
  fixes F :: "('i::linorder, 'pkp, 'vk, 'vs, 'cm, 'rz, 'rp, 'sp, 'sh, 'sg) frost"
    and D :: "('i, 's1, 'p1, 's2, 'p2, 'kp, 'pkp, 'g) frost_dkg" and cb :: "('sk, 'pk, 'box, 'g, 'o) cbox_crate"
  assumes laws: "dkg_laws F D params (set ids)" "cbox_laws cb" "json_laws D" and total: "0 < unat (total params)"
    and ids: "ids = map (\<lambda>k. the (id_of k)) (one_to (total params))" "distinct ids" "\<forall>k \<in> set (one_to (total params)). id_of k \<noteq> None"
  shows "\<exists>sim g P kp pkp rng'. dkg_test_ceremony id_of cb D F params rng os =
      Ok (sim, g, map (\<lambda>i. after_r3 (P i) (kp i) (pkp i)) ids, rng') \<and>
    g = \<lparr>g_params = params, g_pkp = pkp (Min (set ids)), g_validators = bs_collect ids\<rparr> \<and>
    honest_keys D params (set ids) kp pkp \<and> block_height sim = 4 \<and> mempool sim = [] \<and>
    sim_state sim = (default_state :: ('i, 'pkp, 'p1, 'cm, 'rz, 'sp, 'sh, 'sg) state)\<lparr>ceremony := None, group := Some g\<rparr>"
proof -
  let ?s0 = "default_state :: ('i, 'pkp, 'p1, 'cm, 'rz, 'sp, 'sh, 'sg) state"
  from participants_exist [of "one_to (total params)" id_of cb rng] ids(3) obtain ps rng1 where
    made: "make_participants id_of cb rng (one_to (total params)) =
      (Ok (ps, rng1) :: (('i, 'sk, 's1, 's2, 'kp, 'pkp) dkg_participant list \<times> 'g, unit) result)" by blast
  define V where "V = bt_collect (map (\<lambda>p. (d_identifier p, enc_public p)) ps)"
  have m: "Min (set ids) \<in> set ids" by (rule min_in [OF ids(1) total])
  have "length ids = unat (total params)" by (simp add: ids(1) one_to_def)
  then have card: "card (set ids) = unat (total params)" using distinct_card [OF ids(2)] by simp
  from honest_made [OF made ids(1,2) V_def] have "dom (bt_get V) = set ids" by blast
  then have "bt_len V = unat (total params)" by (simp add: bt_len_card card)
  from announcement_committed [OF V_def this, of F] obtain sim0 results where
    start: "commit_block F (submit sim_new (announce params ps)) = Ok (sim0, results)"
    and sim0: "sim_state sim0 = with_ceremony ?s0 (ceremony0 params V)" "block_height sim0 = 1" by fastforce
  from honest_dkg_run [OF laws total ids(1,2) made, of os] obtain sim P kp pkp rng' os' where
    run: "run_dkg F D cb params rng1 os ps = Ok (sim, map (\<lambda>i. after_r3 (P i) (kp i) (pkp i)) ids, rng', os')"
    and keys: "honest_keys D params (set ids) kp pkp" and agree: "\<forall>i \<in> set ids. \<forall>j \<in> set ids. pkp_agree F (pkp i) (pkp j)"
    and fin: "block_height sim = 4" "mempool sim = []" "sim_state sim = ?s0\<lparr>ceremony := None,
      group := Some \<lparr>g_params = params, g_pkp = pkp (Min (set ids)), g_validators = bs_collect ids\<rparr>\<rparr>"
    by (elim exE conjE)
  let ?g = "\<lparr>g_params = params, g_pkp = pkp (Min (set ids)), g_validators = bs_collect ids\<rparr>"
    and ?ps = "map (\<lambda>i. after_r3 (P i) (kp i) (pkp i)) ids"
  from run start have "dkg_loop F D cb 20 sim0 rng1 os ps = Ok (sim, ?ps, rng', os')" by (simp add: run_dkg_def)
  then have loop: "dkg_loop F D cb 19 sim0 rng1 os ps = Ok (sim, ?ps, rng', os')"
    by (rule dkg_loop_fuel) (simp add: fin(1) sim0(2))
  have complete: "\<forall>p \<in> set ?ps. is_complete p" by (simp add: is_complete_def after_r3_def)
  have same: "\<forall>p \<in> set ?ps. \<exists>q. d_public_key_package p = Some q \<and> verifying_key F q = verifying_key F (g_pkp ?g)"
  proof
    fix p
    assume "p \<in> set ?ps"
    then obtain i where i: "i \<in> set ids" "p = after_r3 (P i) (kp i) (pkp i)" by auto
    from agree i(1) m have "pkp_agree F (pkp i) (pkp (Min (set ids)))" by blast
    then show "\<exists>q. d_public_key_package p = Some q \<and> verifying_key F q = verifying_key F (g_pkp ?g)"
      by (simp add: i(2) after_r3_def pkp_agree_def)
  qed
  have "bt_len (g_validators ?g) = unat (total params)" by (simp add: bt_len_card card)
  with made start loop complete same have "dkg_test_ceremony id_of cb D F params rng os = Ok (sim, ?g, ?ps, rng')"
    by (simp add: dkg_test_ceremony_def sim0(1) with_ceremony_def default_state_def fin(3))
  then show ?thesis using keys fin by blast
qed

text \<open>Every assertion of the scenario holds, whatever the randomness and the message.\<close>

lemma dkg_over_chain_passes:
  fixes F :: "('i::linorder, 'pkp, 'vk, 'vs, 'cm, 'rz, 'rp, 'sp, 'sh, 'sg) frost"
    and D :: "('i, 's1, 'p1, 's2, 'p2, 'kp, 'pkp, 'g) frost_dkg" and cb :: "('sk, 'pk, 'box, 'g, 'o) cbox_crate"
  assumes ok: "params_ok params"
    and laws: "dkg_laws F D params (set ids)" "cbox_laws cb" "json_laws D" "signing_laws F D S Z params (set ids)"
    and ids: "ids = map (\<lambda>k. the (id_of k)) (one_to (total params))" "distinct ids" "\<forall>k \<in> set (one_to (total params)). id_of k \<noteq> None"
  shows "dkg_over_chain id_of cb D F S Z fill_bytes params msg rng os = Ok ()"
proof -
  have pos: "0 < unat (threshold params)" "unat (threshold params) \<le> unat (total params)" "0 < unat (total params)"
    using ok by (auto simp: params_ok_def word_less_nat_alt word_le_nat_alt)
  from dkg_test_ceremony_passes [OF laws(1-3) pos(3) ids, of rng os]
  obtain sim :: "('i, 'pkp, 'p1, 'cm, 'rz, 'sp, 'sh, 'sg) chain_sim" and g P kp pkp rng1 where
    dkg: "dkg_test_ceremony id_of cb D F params rng os = Ok (sim, g, map (\<lambda>i. after_r3 (P i) (kp i) (pkp i)) ids, rng1)"
    and g: "g = \<lparr>g_params = params, g_pkp = pkp (Min (set ids)), g_validators = bs_collect ids\<rparr>"
    and keys: "honest_keys D params (set ids) kp pkp"
    and sim: "block_height sim = 4" "mempool sim = []" "sim_state sim = default_state\<lparr>ceremony := None, group := Some g\<rparr>"
    by (elim exE conjE)
  let ?nodes = "map (\<lambda>i. demo_node S accept_all_approve (kp i) (pkp i)) ids"
  obtain rid rng2 where u: "uuid_new fill_bytes rng1 = (rid, rng2)" by (metis prod.collapse)
  obtain rz rng3 where z: "random_randomizer Z rng2 = (rz, rng3)" by (metis prod.collapse)
  from laws(4) keys have kp: "\<forall>i \<in> set ids. kp_identifier S (kp i) = i \<and> sign_law F S (unat (threshold params)) (kp i)"
    unfolding signing_laws_def by blast
  have m: "Min (set ids) \<in> set ids" by (rule min_in [OF ids(1) pos(3)])
  have t: "unat (threshold params) \<le> length ids" using pos(2) by (simp add: ids(1) one_to_def)
  have "map node_identifier ?nodes = ids" using kp by (simp add: map_idI)
  then have ready: "session_ready F S g sim ?nodes"
    unfolding session_ready_def using kp ids(2) t pos(1) by (auto simp: sim g default_state_def)
  have inv: "chain_inv F (sim_state sim)" by (simp add: sim(3) default_state_def chain_inv_def)
  have "dkg_test_sign F S Z sim ?nodes (g_pkp g) (unat (threshold (g_params g))) rid msg rz rng3 = Ok ()"
  proof (rule dkg_test_signs [OF ready inv])
    show "bt_get (requests (sim_state sim)) rid = None" "unat (block_height sim) + 3 < 2 ^ 64"
      by (simp_all add: sim default_state_def)
    show "\<forall>v \<in> set ?nodes. policy v msg = Ok ()" by (simp add: accept_all_approve_def)
  qed (unfold g group_config.simps, rule demo_aggregates [OF laws(4) keys ids(2) t m refl refl], assumption+)
  then show ?thesis using dkg u z by (simp add: dkg_over_chain_def into_nodes_complete g)
qed

end
