(* ===== verification/Orchard_Test.thy ===== *)
theory Orchard_Test
  imports V1_Tests
begin

text \<open>
  The scenario of \<open>sapphire-tests/tests/orchard_compat.rs\<close>: a signature driven through the chain by
  \<open>drive_signing_session\<close> is carried over, byte by byte, to the types of \<open>reddsa\<close> and verified as an
  Orchard spend authorization. The byte codecs and the \<open>reddsa\<close> functions are the fields of the
  parameter record \<open>reddsa_crate\<close>; \<open>'ak\<close> is the type of its keys, \<open>'sc\<close> of Pallas scalars. The group is
  set up as in \<open>V1_Tests\<close>, which also asserts that \<open>InitGroup\<close> was accepted; the hash to sign is arbitrary.
\<close>

section \<open>The scenario\<close>

record ('vk, 'rz, 'sg, 'ak, 'sc, 'osig) reddsa_crate =
  vk_serialize :: "'vk \<Rightarrow> string + u8 list"
  vk_try_from :: "32 bytes \<Rightarrow> string + 'ak"
  randomizer_bytes :: "'rz \<Rightarrow> u8 list"
  scalar_from_repr :: "32 bytes \<Rightarrow> 'sc option"
  randomize :: "'ak \<Rightarrow> 'sc \<Rightarrow> 'ak"
  sig_serialize :: "'sg \<Rightarrow> string + u8 list"
  sig_from :: "64 bytes \<Rightarrow> 'osig"
  rk_verify :: "'ak \<Rightarrow> u8 list \<Rightarrow> 'osig \<Rightarrow> string + unit"

definition unwrap_sum :: "string + 'a \<Rightarrow> ('a, unit) result" where
  "unwrap_sum r = (case r of Inl _ \<Rightarrow> Panic | Inr x \<Rightarrow> Ok x)"

definition to_scalar_via_bytes :: "('vk, 'rz, 'sg, 'ak, 'sc, 'osig) reddsa_crate \<Rightarrow> 'rz \<Rightarrow> ('sc, unit) result" where
  "to_scalar_via_bytes R alpha =
     result_bind (expect (try_into_bytes (randomizer_bytes R alpha))) (\<lambda>bs. expect (scalar_from_repr R bs))"

definition orchard_verify ::
  "('vk, 'rz, 'sg, 'ak, 'sc, 'osig) reddsa_crate \<Rightarrow> 'vk \<Rightarrow> 'rz \<Rightarrow> 32 bytes \<Rightarrow> 'sg \<Rightarrow> (unit, unit) result" where
  "orchard_verify R vk alpha sighash signature =
     result_bind (unwrap_sum (vk_serialize R vk)) (\<lambda>vk_vec.
     result_bind (expect (try_into_bytes vk_vec)) (\<lambda>ak_bytes.
     result_bind (unwrap_sum (vk_try_from R ak_bytes)) (\<lambda>ak.
     result_bind (to_scalar_via_bytes R alpha) (\<lambda>scalar.
       let rk = randomize R ak scalar in
     result_bind (unwrap_sum (sig_serialize R signature)) (\<lambda>sig_vec.
     result_bind (expect (try_into_bytes sig_vec)) (\<lambda>sig_bytes.
       unwrap_sum (rk_verify R rk (to_list sighash) (sig_from R sig_bytes))))))))"

definition orchard_compat ::
  "(u16 \<Rightarrow> string + 'i) \<Rightarrow> ('i::linorder, 'pkp, 'vk, 'vs, 'cm, 'rz, 'rp, 'sp, 'sh, 'sg) frost \<Rightarrow>
   ('i, 's1, 'p1, 's2, 'p2, 'kp, 'pkp, 'g) frost_dkg \<Rightarrow> ('i, 'kp, 'ss, 'nc, 'cm, 'sp, 'rz, 'sh, 'g) frost_signer \<Rightarrow>
   ('g \<Rightarrow> 'rz \<times> 'g) \<Rightarrow> ('vk, 'rz, 'sg, 'ak, 'sc, 'osig) reddsa_crate \<Rightarrow> ('g \<Rightarrow> 16 bytes \<times> 'g) \<Rightarrow>
   (apply_error \<Rightarrow> string) \<Rightarrow> mpc_params \<Rightarrow> 32 bytes \<Rightarrow> 'g \<Rightarrow> (unit, unit) result" where
  "orchard_compat id_of F D S random_alpha R fill_bytes display params sighash rng =
     result_bind (v1_group id_of F D S accept_all_approve params rng
        :: (('i, 'pkp, 'p1, 'cm, 'rz, 'sp, 'sh, 'sg) chain_sim \<times> ('i, 'kp, 'pkp, 'nc) node list \<times> 'pkp \<times> 'g, unit) result)
       (\<lambda>(sim, validators, pkp, rng1).
       let (alpha, rng2) = random_alpha rng1 in
       case drive_signing_session F S fill_bytes display sim validators sighash alpha rng2 of
         (Ok signature, _) \<Rightarrow> orchard_verify R (verifying_key F pkp) alpha sighash signature
       | _ \<Rightarrow> Panic)"

section \<open>The scenario passes\<close>

text \<open>
  Byte compatibility: keys take 32 bytes, scalars 32 and signatures 64, each type reads what the other
  one wrote, and what verifies under a randomized FROST key verifies under the Orchard key randomized
  by the same scalar.
\<close>

definition compatible ::
  "('i::linorder, 'pkp, 'vk, 'vs, 'cm, 'rz, 'rp, 'sp, 'sh, 'sg) frost \<Rightarrow> ('rz, 'rp, 'sg, 'g) demo_crate \<Rightarrow>
   ('vk, 'rz, 'sg, 'ak, 'sc, 'osig) reddsa_crate \<Rightarrow> bool" where
  "compatible F Z R \<longleftrightarrow>
     (\<forall>vk. \<exists>bs ak. vk_serialize R vk = Inr (to_list bs) \<and> vk_try_from R bs = Inr ak \<and>
        (\<forall>rz. \<exists>rbs sc. randomizer_bytes R rz = to_list rbs \<and> scalar_from_repr R rbs = Some sc \<and>
           (\<forall>sg. \<exists>sbs. sig_serialize R sg = Inr (to_list sbs) \<and>
              (\<forall>msg. verify_randomized Z (from_randomizer F vk rz) msg sg = Inr () \<longrightarrow>
                 rk_verify R (randomize R ak sc) msg (sig_from R sbs) = Inr ()))))"

lemma compatible_verifies:
  assumes "compatible F Z R" "verify_randomized Z (from_randomizer F vk rz) (to_list sighash) sg = Inr ()"
  shows "orchard_verify R vk rz sighash sg = Ok ()"
proof -
  from assms(1) obtain bs ak where "vk_serialize R vk = Inr (to_list bs)" "vk_try_from R bs = Inr ak"
    and rest: "\<And>rz. \<exists>rbs sc. randomizer_bytes R rz = to_list rbs \<and> scalar_from_repr R rbs = Some sc \<and>
           (\<forall>sg. \<exists>sbs. sig_serialize R sg = Inr (to_list sbs) \<and>
              (\<forall>msg. verify_randomized Z (from_randomizer F vk rz) msg sg = Inr () \<longrightarrow>
                 rk_verify R (randomize R ak sc) msg (sig_from R sbs) = Inr ()))"
    unfolding compatible_def by blast
  moreover from rest [of rz] obtain rbs sc where "randomizer_bytes R rz = to_list rbs" "scalar_from_repr R rbs = Some sc"
    and sigs: "\<And>sg. \<exists>sbs. sig_serialize R sg = Inr (to_list sbs) \<and>
              (\<forall>msg. verify_randomized Z (from_randomizer F vk rz) msg sg = Inr () \<longrightarrow>
                 rk_verify R (randomize R ak sc) msg (sig_from R sbs) = Inr ())" by blast
  moreover from sigs [of sg] assms(2) obtain sbs where "sig_serialize R sg = Inr (to_list sbs)"
    "rk_verify R (randomize R ak sc) (to_list sighash) (sig_from R sbs) = Inr ()" by blast
  ultimately show ?thesis by (simp add: orchard_verify_def to_scalar_via_bytes_def unwrap_sum_def)
qed

lemma orchard_compat_passes:
  fixes F :: "('i::linorder, 'pkp, 'vk, 'vs, 'cm, 'rz, 'rp, 'sp, 'sh, 'sg) frost"
    and D :: "('i, 's1, 'p1, 's2, 'p2, 'kp, 'pkp, 'g) frost_dkg"
  assumes ok: "params_ok params"
    and laws: "dkg_laws F D params (set ids)" "signing_laws F D S Z params (set ids)" "shares_law F D params (set ids)"
    and bytes: "compatible F Z R"
    and ids: "ids = map ident (one_to (total params))" "distinct ids"
    and id_of: "\<forall>k \<in> set (one_to (total params)). id_of k = Inr (ident k)"
  shows "orchard_compat id_of F D S random_alpha R fill_bytes display params sighash rng = Ok ()"
proof -
  let ?I = "set ids" and ?ids = "sorted_list_of_set (set ids)"
  from v1_group_ready [OF ok laws ids id_of, of accept_all_approve rng]
  obtain sim :: "('i, 'pkp, 'p1, 'cm, 'rz, 'sp, 'sh, 'sg) chain_sim" and kp pkp rng1 g where
    grp: "v1_group id_of F D S accept_all_approve params rng =
      Ok (sim, map (\<lambda>i. demo_node S accept_all_approve (kp i) (pkp (Min ?I))) ?ids, pkp (Min ?I), rng1)"
    and keys: "honest_keys D params ?I kp pkp"
    and ready: "session_ready F S g sim (map (\<lambda>i. demo_node S accept_all_approve (kp i) (pkp (Min ?I))) ?ids)"
    and g: "g_params g = params" "g_pkp g = pkp (Min ?I)" and m: "Min ?I \<in> ?I"
    and sim: "unat (block_height sim) = 1" "requests (sim_state sim) = bt_new"
    by (elim exE conjE)
  let ?nodes = "map (\<lambda>i. demo_node S accept_all_approve (kp i) (pkp (Min ?I))) ?ids"
  obtain alpha rng2 where a: "random_alpha rng1 = (alpha, rng2)" by (metis prod.collapse)
  obtain rid rng3 where u: "uuid_new fill_bytes rng2 = (rid, rng3)" by (metis prod.collapse)
  have "length ids = unat (total params)" by (simp add: ids(1) one_to_def)
  then have t: "unat (threshold params) \<le> length ?ids"
    using distinct_card [OF ids(2)] ok by (simp add: params_ok_def word_le_nat_alt)
  have laws': "signing_laws F D S Z params (set ?ids)" "honest_keys D params (set ?ids) kp pkp" "Min ?I \<in> set ?ids"
    using laws(2) keys m by simp_all
  have pre: "\<forall>v \<in> set ?nodes. policy v (to_list sighash) = Ok ()" "bt_get (requests (sim_state sim)) rid = None"
    "unat (block_height sim) + 3 < 2 ^ 64" by (simp_all add: sim accept_all_approve_def)
  from session_of_family [OF ready pre(1) u pre(2,3), of display alpha] obtain cms shs sim' vs' rng' where
    run: "drive_signing_session F S fill_bytes display sim ?nodes sighash alpha rng2 =
      (case outcome F (g_pkp g) cms shs (to_list sighash) alpha of
         Inr sg \<Rightarrow> Ok sg | Inl reason \<Rightarrow> Err (SessionAggregationFailed reason), sim', vs', rng')"
    and d: "dom (bt_get cms) = node_identifier ` set (take (unat (threshold (g_params g))) ?nodes)" "dom (bt_get shs) = dom (bt_get cms)"
      "\<forall>v \<in> set (take (unat (threshold (g_params g))) ?nodes). \<exists>sh. bt_get shs (node_identifier v) = Some sh \<and>
          honest_share F S cms (to_list sighash) alpha (key_package v) sh"
    by (elim exE conjE)
  from demo_aggregates [OF laws'(1,2) distinct_sorted_list_of_set t laws'(3) refl refl d [unfolded g(1)]] obtain sg where
    "outcome F (pkp (Min ?I)) cms shs (to_list sighash) alpha = Inr sg"
    and ver: "verify_randomized Z (from_randomizer F (verifying_key F (pkp (Min ?I))) alpha) (to_list sighash) sg = Inr ()" by blast
  with run have "drive_signing_session F S fill_bytes display sim ?nodes sighash alpha rng2 = (Ok sg, sim', vs', rng')"
    by (simp add: g(2))
  then show ?thesis using grp a compatible_verifies [OF bytes ver] by (simp add: orchard_compat_def)
qed

end
