(* ===== verification/Spec2Isabelle.thy ===== *)
theory Spec2Isabelle
  imports Chain_Service Chain_Sim Node_Types Net_Run Node_Lock Node_Faults Signing_Schedules Replication Zcash_Pczt
    Cli_Main Escrow_Gate Dkg_Chain_Test Orchard_Test
begin

text \<open>
  Sapphire: a threshold-signing network for Zcash escrows.

  \<^bold>\<open>The program.\<close> Validators hold the shares of one FROST signing key. They coordinate through a
  replicated state machine (\<open>sapphire-chain\<close>): its transactions first carry a distributed key
  generation and then, per signing request, the commitments and shares that are aggregated into a
  signature. A validator (\<open>sapphire-node\<close>) is a function of the chain state: it reacts to it with
  transactions, and it asks its own policy before it commits to a message. The escrow policy decodes
  the message to a release proposal and compares it with terms the validator holds itself
  (\<open>sapphire-escrow\<close>). \<open>sapphire-zcash\<close> drives signing sessions and puts the signatures into the
  Orchard actions of a transaction; \<open>sapphire-keygen\<close> runs the key generation inside one process;
  \<open>sapphire-net\<close> connects validators by authenticated, encrypted links; \<open>sapphire-cli\<close> has the
  commands that put the parts together.

  \<^bold>\<open>The theories\<close>, each with the source it models:

  \<^item> \<open>Sapphire_Prelude\<close>, \<open>BTree\<close>, \<open>Transition\<close>, \<open>Reactors\<close>, \<open>Scheduling\<close> hold what the components
    share: machine integers, byte arrays and results with panics; ordered maps as sorted association
    lists, with the map contract \<open>keyed_store\<close>; runs of a step function that may reject a transaction,
    with the contracts \<open>invariant_system\<close>, \<open>monotone_system\<close> and \<open>simulation\<close> (of an abstract
    labelled relation); the contract \<open>reactors\<close> between a driver and the parties it drives,
    interpreted on the key-generation and the signing drivers; the contract \<open>draining\<close> of a step
    relation whose every schedule ends, interpreted on the network of signers, and its extension
    \<open>scheduled\<close>, interleaved tasks whose outcome no schedule changes.
  \<^item> \<open>Core\<close>: \<open>sapphire-core\<close> (\<open>MpcParams\<close>, \<open>Error\<close>, \<open>Uuid\<close>, \<open>KeyShareBundle\<close>).
  \<^item> \<open>Envelope\<close>: \<open>dkg_envelope.rs\<close>, the sealed envelopes of round two. Sealing and opening are
    inverse; opening any byte string is total.
  \<^item> \<open>Chain\<close>: \<open>tx.rs\<close> and \<open>state.rs\<close>, one definition per arm of \<open>apply_tx\<close>. \<open>Chain_Inv\<close> is the
    invariant of reachable states; \<open>Chain_Props\<close> shows that it is kept, that states only move
    forward, and that a completed request comes from a threshold of members; \<open>Chain_Dkg\<close> has
    agreement, completion and the degenerate ceremonies; \<open>Chain_Live\<close> that sessions and ceremonies
    end; \<open>Chain_Order\<close> which transactions commute, and that the commitments of a request do not. \<open>Chain_Service\<close> states what the
    chain promises as an abstract signing service (roster, quorum, one phase per request) and shows
    that the chain simulates it. \<open>Chain_Sim\<close> is \<open>sim.rs\<close> with the refinement of the simulator by its
    log of blocks.
  \<^item> \<open>Escrow\<close>: \<open>sapphire-escrow\<close> (terms, predicates, verifiers). \<open>Policy\<close>: \<open>policy.rs\<close>, with the
    contract \<open>sign_policy\<close> of a policy. \<open>Node\<close>: \<open>sapphire-node/src/lib.rs\<close>; \<open>Node_Trace\<close> records
    the life of a node as a step relation, \<open>Node_Props\<close> has its safety and its error behaviour;
    \<open>Node_Lock\<close> runs concurrent callers of \<open>commit\<close>, which behave as if they came one by one, and
    \<open>Node_Faults\<close> says what becomes of a request when a node has lost its nonces.
  \<^item> \<open>Signing_Network\<close> composes signers and chain without synchrony: signers react at any time to the chain
    as it is or as it was, and transactions arrive in any order. Its invariant says what each message in
    flight and each status owes to the signers, and \<open>Signing_Schedules\<close> that every schedule ends, within a
    bound, with every request settled.
  \<^item> \<open>Dkg_Participant\<close>: \<open>sapphire-node/src/dkg.rs\<close>. \<open>Dkg_Driver\<close>: the key-generation half of
    \<open>cmd_escrow_demo\<close>. \<open>Dkg_Honest\<close> shows that honest participants end with a group, \<open>Dkg_Faults\<close>
    what a foreign package does to a participant and to the ceremony. \<open>Keygen\<close>: \<open>sapphire-keygen/src/dkg.rs\<close>. \<open>Node_Types\<close> types what
    signers and participants put on the chain.
  \<^item> \<open>Net_Codec\<close>, \<open>Net_Handshake\<close>, \<open>Net_Mesh\<close>: \<open>codec.rs\<close>, \<open>handshake.rs\<close>, \<open>mesh.rs\<close>; the
    contract \<open>framing\<close> of a length-prefixed codec is interpreted on both framings. A handshake
    and a connection return, beside their result, the bytes they wrote and the payloads they delivered,
    also when they fail. \<open>Net_Props\<close> has delivery over a link, what is left of a connection whose
    handshake fails or ends with a wrong key, who dials whom and how long a dialer tries. \<open>Net_Tasks\<close> runs
    the two tasks of a connection as state machines over the shared transport, first against a fixed
    stream, then two connections against each other, with bytes that arrive in pieces: every schedule
    ends as \<open>drive_connection\<close> says. \<open>Net_Run\<close> has the listener and the dialers of a running mesh,
    that a full mesh links every pair, and that nothing is exchanged with a stranger. \<open>Replication\<close> puts
    chain and mesh together: a replica that applies what it receives follows the sender as long as the
    broadcast channel drops nothing.
  \<^item> \<open>Zcash_Session\<close>: \<open>sapphire-zcash/src/lib.rs\<close>, the signing driver; \<open>Zcash_Live\<close> shows that
    honest validators sign in three blocks, \<open>Zcash_Props\<close> that every returned signature is backed by
    a threshold of approving validators and that the driver always returns. \<open>Zcash_Pczt\<close>: \<open>pczt.rs\<close>,
    the signer of a bundle.
  \<^item> \<open>Cli_Io\<close>, \<open>Cli_Oracle\<close>, \<open>Cli_Keygen\<close>, \<open>Cli_Demo\<close>: the three commands of \<open>main.rs\<close>. The
    oracle's verdict on a release is that of the validators' policy, its verdict on a refund nobody's; the keygen command writes exactly the share
    files and the public file; \<open>Cli_Demo_Props\<close> composes key generation, policies, signing and chain:
    the demonstration signs the release and refuses the tampered one. \<open>Cli_Main\<close> dispatches the
    commands and prints the report on a block.
  \<^item> The tests of the repository, as scenarios for arbitrary parameters, each with a theorem or
    lemma that it passes: \<open>V1_Tests\<close> (\<open>v1_chain.rs\<close>), \<open>Escrow_Gate\<close> (\<open>escrow_gate.rs\<close>), \<open>Dkg_Chain_Test\<close>
    (\<open>dkg_over_chain.rs\<close>), \<open>Orchard_Test\<close> (\<open>orchard_compat.rs\<close>), the end of \<open>Replication\<close>
    (\<open>mesh_converges.rs\<close>), and \<open>Unit_Tests\<close> for the tests inside the crates and the rejections of
    \<open>v1_chain.rs\<close>.

  \<^bold>\<open>State and errors.\<close> A struct is a record, an enum a datatype with the source's constructors
  (renamed where two enums share a constructor name, as \<open>SessionAggregationFailed\<close> for
  \<open>SignError::AggregationFailed\<close>). An operation on mutable state returns the new state beside its
  result, also with an error where the caller can still see the state. A result is \<open>Ok\<close>, \<open>Err\<close> or
  \<open>Panic\<close>: \<open>unwrap\<close>, \<open>expect\<close>, slice copies and arithmetic overflow (the profile with overflow
  checks) are \<open>Panic\<close>, and the theorems say where that value is excluded. Integers keep their width:
  parameters are 16-bit, amounts, heights and sizes 64-bit words or naturals with the bound written
  out. Rust strings are the bytes of their UTF-8 encoding.

  \<^bold>\<open>Parameters and laws.\<close> Code outside the repository is a parameter: the FROST crates (records
  \<open>frost\<close>, \<open>frost_signer\<close>, \<open>frost_dkg\<close>), \<open>crypto_box\<close>, \<open>snow\<close>, \<open>orchard\<close>, \<open>hex\<close>, JSON, SHA-256,
  the random generators (a state that is passed along) and the file system. Safety theorems hold for
  every value of them. Theorems about success name what they rely on as laws (\<open>dkg_laws\<close>,
  \<open>cbox_laws\<close>, \<open>json_laws\<close>, \<open>proposal_law\<close>, \<open>sign_law\<close>, \<open>signing_laws\<close>, \<open>shares_law\<close>, \<open>xx_law\<close>,
  \<open>transport_law\<close>, \<open>halves\<close>, \<open>fs_laws\<close>), each about
  honest inputs of one library, and each met by the concrete functions of the witnesses.

  \<^bold>\<open>Bounds.\<close> The loops of the source that are bounded keep their bound: twenty blocks of a key
  generation after its announcement (honest participants need three), eight rounds of a signing session (honest validators
  need two), twenty-one attempts of a dialer. All other loops run over finite lists and are
  structural recursions, so every definition is total and executable; no fuel is added to the source's
  own bounds. The network of \<open>n\<close> signers and \<open>r\<close> requests takes at most \<open>r (4 n + 1)\<close> steps. The interleaved tasks are step relations; that every run of them ends is a theorem.

  \<^bold>\<open>Not modelled.\<close> The channels and sockets of \<open>tokio\<close> (what a subscription yields, lags included,
  and how much the other end takes are arguments) and its scheduler beyond the interleaving of the
  tasks of a connection; a poisoned lock (no code panics while it holds one); the
  derived serializers and the renderings that \<open>thiserror\<close> generates, except those of the escrow
  errors, which reach a validator's refusals, and of the chain's errors, which the block report prints;
  the argument parser, the tracing setup and the progress lines of the keygen and demonstration
  commands, which change no state. What is left of the sources besides these is comments, imports,
  attributes and one-line accessors.
\<close>

end
